(* ===== verification/Prelude.thy ===== *)
theory Prelude
  imports Main "HOL-Library.AList" "HOL-Library.Sublist" "HOL-Library.Word"
begin

text \<open>
  Shared vocabulary of the development.

  \<^item> A Go map is an association list with distinct keys (\<^typ>\<open>('k \<times> 'v) list\<close>):
    \<^term>\<open>map_of m k\<close> is the lookup \<^verbatim>\<open>v, ok := m[k]\<close>, \<^const>\<open>AList.update\<close> the store,
    \<^const>\<open>AList.delete\<close> the builtin \<^verbatim>\<open>delete\<close>. A \<^verbatim>\<open>range\<close> loop visits the entries in
    list order, one of the orders Go allows.
  \<^item> A Go string is a byte string, here \<^typ>\<open>string\<close>, whose characters are bytes.
    The functions of Go's packages \<^verbatim>\<open>strings\<close> and \<^verbatim>\<open>path\<close> that the sources call are
    written out below.
  \<^item> A Go error return is \<^const>\<open>Inl\<close>, a success \<^const>\<open>Inr\<close>.
\<close>

type_synonym byte = "8 word"
type_synonym ('k, 'v) gomap = "('k \<times> 'v) list"

named_theorems gostr \<open>rewriting Go's string functions\<close>

section \<open>Maps\<close>

definition wf_map :: "('k, 'v) gomap \<Rightarrow> bool" where
  "wf_map m \<longleftrightarrow> distinct (map fst m)"

definition mem_key :: "('k, 'v) gomap \<Rightarrow> 'k \<Rightarrow> bool" where
  "mem_key m k \<longleftrightarrow> map_of m k \<noteq> None"

lemma wf_map_Nil [simp]: "wf_map []"
  by (simp add: wf_map_def)

lemma wf_map_update [simp]: "wf_map m \<Longrightarrow> wf_map (AList.update k v m)"
  by (simp add: wf_map_def distinct_update)

lemma wf_map_delete [simp]: "wf_map m \<Longrightarrow> wf_map (AList.delete k m)"
  by (simp add: wf_map_def distinct_delete)

lemma wf_map_filter [simp]: "wf_map m \<Longrightarrow> wf_map (filter P m)"
  by (simp add: wf_map_def distinct_map_filter)

lemma map_of_update [simp]: "map_of (AList.update k v m) = (map_of m)(k \<mapsto> v)"
  by (rule update_conv')

lemma map_of_delete [simp]: "map_of (AList.delete k m) = (map_of m)(k := None)"
  by (rule delete_conv')

lemma map_of_filter_key:
  "map_of (filter (\<lambda>(k, v). P k) m) = (\<lambda>k. if P k then map_of m k else None)"
  by (induction m) auto

lemma map_of_filter_wf:
  assumes "wf_map m"
  shows "map_of (filter P m) k =
    (case map_of m k of None \<Rightarrow> None | Some v \<Rightarrow> if P (k, v) then Some v else None)"
  using assms
proof (induction m)
  case Nil
  then show ?case by simp
next
  case (Cons e m)
  obtain k' v' where e: "e = (k', v')" by (cases e)
  from Cons.prems have wf: "wf_map m" and nin: "map_of m k' = None"
    by (auto simp: wf_map_def e map_of_eq_None_iff)
  show ?case
    using Cons.IH [OF wf] nin by (auto simp: e split: option.splits)
qed

lemma map_of_map_val:
  "map_of (map (\<lambda>(k, v). (k, f k v)) m) k = map_option (f k) (map_of m k)"
  by (induction m) auto

lemma wf_map_map_val [simp]: "wf_map (map (\<lambda>(k, v). (k, f k v)) m) = wf_map m"
proof -
  have "map fst (map (\<lambda>(k, v). (k, f k v)) m) = map fst m"
    by (induction m) auto
  then show ?thesis unfolding wf_map_def by (simp only:)
qed

lemma map_of_SomeD_set: "map_of m k = Some v \<Longrightarrow> (k, v) \<in> set m"
  by (rule map_of_SomeD)

lemma map_of_in_set: "wf_map m \<Longrightarrow> (k, v) \<in> set m \<Longrightarrow> map_of m k = Some v"
  by (simp add: wf_map_def)

lemma mem_key_update [simp]: "mem_key (AList.update k v m) k' \<longleftrightarrow> k' = k \<or> mem_key m k'"
  by (auto simp: mem_key_def)

lemma mem_key_delete [simp]: "mem_key (AList.delete k m) k' \<longleftrightarrow> k' \<noteq> k \<and> mem_key m k'"
  by (auto simp: mem_key_def)

lemma mem_key_Nil [simp]: "\<not> mem_key [] k"
  by (simp add: mem_key_def)

lemma mem_key_iff_set: "mem_key m k \<longleftrightarrow> k \<in> fst ` set m"
  by (simp add: mem_key_def map_of_eq_None_iff)

text \<open>Summing a measure over the entries, or over the values, of a map, under the map operations.\<close>

definition sum_kv :: "('k \<Rightarrow> 'v \<Rightarrow> int) \<Rightarrow> ('k, 'v) gomap \<Rightarrow> int" where
  "sum_kv f m = sum_list (map (\<lambda>(k, v). f k v) m)"

lemma sum_kv_Nil [simp]: "sum_kv f [] = 0"
  by (simp add: sum_kv_def)

lemma sum_kv_Cons [simp]: "sum_kv f ((k, v) # m) = f k v + sum_kv f m"
  by (simp add: sum_kv_def)

lemma sum_kv_delete:
  assumes "wf_map m"
  shows "sum_kv f (AList.delete k m) = sum_kv f m - (case map_of m k of None \<Rightarrow> 0 | Some v \<Rightarrow> f k v)"
  using assms
proof (induction m)
  case (Cons e m)
  obtain k' v' where e: "e = (k', v')" by (cases e)
  from Cons.prems have wf: "wf_map m" and nin: "k' \<notin> fst ` set m"
    by (auto simp: wf_map_def e)
  show ?case
  proof (cases "k' = k")
    case True
    with nin show ?thesis by (simp add: e)
  next
    case False
    with Cons.IH [OF wf] show ?thesis by (simp add: e)
  qed
qed simp

lemma sum_kv_update:
  assumes "wf_map m"
  shows "sum_kv f (AList.update k v m) = sum_kv f m - (case map_of m k of None \<Rightarrow> 0 | Some v' \<Rightarrow> f k v') + f k v"
  using assms
proof (induction m)
  case (Cons e m)
  obtain k' v' where e: "e = (k', v')" by (cases e)
  from Cons.prems have wf: "wf_map m"
    by (auto simp: wf_map_def e)
  show ?case
    using Cons.IH [OF wf] by (simp add: e)
qed simp

lemma sum_kv_map_val: "sum_kv f (map (\<lambda>(k, v). (k, g k v)) m) = sum_kv (\<lambda>k v. f k (g k v)) m"
  by (induction m) auto

lemma sum_kv_add: "sum_kv (\<lambda>k v. f k v + g k v) m = sum_kv f m + sum_kv g m"
  by (induction m) auto

lemma sum_kv_cong: "(\<And>k v. (k, v) \<in> set m \<Longrightarrow> f k v = g k v) \<Longrightarrow> sum_kv f m = sum_kv g m"
  by (induction m) auto

definition sum_map :: "('v \<Rightarrow> int) \<Rightarrow> ('k, 'v) gomap \<Rightarrow> int" where
  "sum_map f m = sum_kv (\<lambda>k. f) m"

lemma sum_map_Nil [simp]: "sum_map f [] = 0"
  by (simp add: sum_map_def)

lemma sum_map_Cons [simp]: "sum_map f ((k, v) # m) = f v + sum_map f m"
  by (simp add: sum_map_def)

lemma sum_map_delete:
  "wf_map m \<Longrightarrow> sum_map f (AList.delete k m) = sum_map f m - (case map_of m k of None \<Rightarrow> 0 | Some v \<Rightarrow> f v)"
  by (simp add: sum_map_def sum_kv_delete)

lemma sum_map_update:
  "wf_map m \<Longrightarrow>
    sum_map f (AList.update k v m) = sum_map f m - (case map_of m k of None \<Rightarrow> 0 | Some v' \<Rightarrow> f v') + f v"
  by (simp add: sum_map_def sum_kv_update)

lemma sum_map_filter: "sum_map f (filter P m) = sum_map f m - sum_map f (filter (\<lambda>e. \<not> P e) m)"
  by (induction m) auto

lemma sum_map_nonneg: "(\<And>v. 0 \<le> f v) \<Longrightarrow> 0 \<le> sum_map f m"
  by (induction m) auto

lemma sum_map_ge_entry:
  assumes "\<And>v. 0 \<le> f v" and "map_of m k = Some v"
  shows "f v \<le> sum_map f m"
  using assms(2)
proof (induction m)
  case Nil
  then show ?case by simp
next
  case (Cons e m)
  obtain k' v' where e: "e = (k', v')" by (cases e)
  show ?case
  proof (cases "k' = k")
    case True
    with Cons.prems sum_map_nonneg [of f m] assms(1) show ?thesis by (simp add: e)
  next
    case False
    with Cons.prems Cons.IH assms(1) [of v'] show ?thesis by (simp add: e)
  qed
qed

section \<open>Lists\<close>

lemma replicate_numeral_Cons [simp]: "replicate (numeral k) x = x # replicate (pred_numeral k) x"
  by (simp add: numeral_eq_Suc)

lemma upt_0_numeral [simp]: "[0 ..< numeral k] = [0 ..< pred_numeral k] @ [pred_numeral k]"
  by (simp add: numeral_eq_Suc)

text \<open>Go's \<^verbatim>\<open>copy(buf[off:], data)\<close> into a slice, clipped to the slice's length.\<close>

definition overwrite :: "'a list \<Rightarrow> nat \<Rightarrow> 'a list \<Rightarrow> 'a list" where
  "overwrite buf off data =
     take off buf @ take (length buf - off) data @ drop (off + length data) buf"

lemma length_overwrite [simp]: "off \<le> length buf \<Longrightarrow> length (overwrite buf off data) = length buf"
  by (auto simp: overwrite_def)

lemma nth_overwrite:
  assumes "off \<le> length buf" and "i < length buf"
  shows "overwrite buf off data ! i =
    (if off \<le> i \<and> i < off + length data then data ! (i - off) else buf ! i)"
  using assms by (auto simp: overwrite_def nth_append min_def not_less)

text \<open>Growing a slice to a length, the new bytes zero.\<close>

definition zext :: "nat \<Rightarrow> byte list \<Rightarrow> byte list" where
  "zext n xs = take n xs @ replicate (n - length xs) 0"

lemma length_zext [simp]: "length (zext n xs) = n"
  by (auto simp: zext_def)

lemma nth_zext: "i < n \<Longrightarrow> zext n xs ! i = (if i < length xs then xs ! i else 0)"
  by (auto simp: zext_def nth_append)

lemma zext_ge: "length xs \<le> n \<Longrightarrow> zext n xs = xs @ replicate (n - length xs) 0"
  by (simp add: zext_def)

lemma zext_self [simp]: "zext (length xs) xs = xs"
  by (simp add: zext_def)

text \<open>The byte at a position of a file image: zero beyond the stored bytes.\<close>

definition byte_at :: "byte list \<Rightarrow> nat \<Rightarrow> byte" where
  "byte_at xs i = (if i < length xs then xs ! i else 0)"

lemma byte_at_zext [simp]: "byte_at (zext n xs) i = (if i < n then byte_at xs i else 0)"
  by (auto simp: byte_at_def nth_zext)

lemma byte_at_Nil [simp]: "byte_at [] i = 0"
  by (simp add: byte_at_def)

lemma byte_at_take [simp]: "byte_at (take n xs) i = (if i < n then byte_at xs i else 0)"
  by (auto simp: byte_at_def)

lemma byte_at_nth: "i < length xs \<Longrightarrow> byte_at xs i = xs ! i"
  by (simp add: byte_at_def)

section \<open>Results\<close>

lemma map_sum_Inr [simp]: "map_sum id f x = Inr y \<longleftrightarrow> (\<exists>z. x = Inr z \<and> y = f z)"
  by (cases x) auto

lemma map_sum_Inl [simp]: "map_sum id f x = Inl e \<longleftrightarrow> x = Inl e"
  by (cases x) auto

text \<open>A step of a transaction after another one, and a transaction that is rolled back on an error.\<close>

definition tx_bind :: "'e + 's \<Rightarrow> ('s \<Rightarrow> 'e + 't) \<Rightarrow> 'e + 't" where
  "tx_bind x f = (case x of Inl e \<Rightarrow> Inl e | Inr s \<Rightarrow> f s)"

definition or_keep :: "'s \<Rightarrow> 'e + 's \<Rightarrow> 's" where
  "or_keep s x = (case x of Inl e \<Rightarrow> s | Inr s' \<Rightarrow> s')"

lemma tx_bind_simps [simp]: "tx_bind (Inl e) f = Inl e" "tx_bind (Inr s) f = f s"
  by (simp_all add: tx_bind_def)

lemma tx_bind_Inr: "tx_bind x f = Inr y \<longleftrightarrow> (\<exists>s. x = Inr s \<and> f s = Inr y)"
  by (cases x) auto

end
