(* ===== verification/Go_Strings.thy ===== *)
theory Go_Strings
  imports Prelude
begin

text \<open>
  The functions of Go's standard packages \<^verbatim>\<open>strings\<close>, \<^verbatim>\<open>path\<close> and \<^verbatim>\<open>unicode/utf8\<close> that the
  sources use, on byte strings, with their algebra: splitting at a separator and joining are
  inverse, and \<^verbatim>\<open>path.Clean\<close> fixes the rooted paths made of proper segments.
\<close>

section \<open>Package strings\<close>

definition HasPrefix :: "string \<Rightarrow> string \<Rightarrow> bool" where
  "HasPrefix s p \<longleftrightarrow> prefix p s"

definition HasSuffix :: "string \<Rightarrow> string \<Rightarrow> bool" where
  "HasSuffix s p \<longleftrightarrow> suffix p s"

definition TrimPrefix :: "string \<Rightarrow> string \<Rightarrow> string" where
  "TrimPrefix s p = (if HasPrefix s p then drop (length p) s else s)"

definition TrimSuffix :: "string \<Rightarrow> string \<Rightarrow> string" where
  "TrimSuffix s p = (if HasSuffix s p then take (length s - length p) s else s)"

text \<open>\<^verbatim>\<open>strings.Trim(s, cutset)\<close> for a one-character cutset.\<close>

definition TrimChar :: "string \<Rightarrow> char \<Rightarrow> string" where
  "TrimChar s c = rev (dropWhile (\<lambda>x. x = c) (rev (dropWhile (\<lambda>x. x = c) s)))"

text \<open>\<^verbatim>\<open>strings.Split\<close> at a one-character separator, and \<^verbatim>\<open>strings.Join\<close>.\<close>

fun split_on :: "char \<Rightarrow> string \<Rightarrow> string list" where
  "split_on c [] = [[]]"
| "split_on c (x # xs) =
     (if x = c then [] # split_on c xs
      else (case split_on c xs of [] \<Rightarrow> [[x]] | y # ys \<Rightarrow> (x # y) # ys))"

fun join_with :: "char \<Rightarrow> string list \<Rightarrow> string" where
  "join_with c [] = []"
| "join_with c [s] = s"
| "join_with c (s # t # ss) = s @ c # join_with c (t # ss)"

text \<open>The text after, and up to and including, the last occurrence of a character.\<close>

definition after_last :: "char \<Rightarrow> string \<Rightarrow> string" where
  "after_last c s = rev (takeWhile (\<lambda>x. x \<noteq> c) (rev s))"

definition upto_last :: "char \<Rightarrow> string \<Rightarrow> string" where
  "upto_last c s = rev (dropWhile (\<lambda>x. x \<noteq> c) (rev s))"

section \<open>Package unicode/utf8\<close>

definition is_cont :: "char \<Rightarrow> bool" where
  "is_cont c \<longleftrightarrow> (let n = (of_char c :: nat) in 0x80 \<le> n \<and> n \<le> 0xBF)"

definition in_range :: "char \<Rightarrow> nat \<Rightarrow> nat \<Rightarrow> bool" where
  "in_range c lo hi \<longleftrightarrow> lo \<le> (of_char c :: nat) \<and> (of_char c :: nat) \<le> hi"

text \<open>\<^verbatim>\<open>utf8.ValidString\<close>: the byte patterns of well-formed UTF-8, without surrogates and
  without overlong forms.\<close>

fun utf8_valid :: "string \<Rightarrow> bool" where
  "utf8_valid [] = True"
| "utf8_valid [a] = in_range a 0 0x7F"
| "utf8_valid [a, b] =
     ((in_range a 0 0x7F \<and> utf8_valid [b]) \<or> (in_range a 0xC2 0xDF \<and> is_cont b))"
| "utf8_valid [a, b, c] =
     ((in_range a 0 0x7F \<and> utf8_valid [b, c]) \<or>
      (in_range a 0xC2 0xDF \<and> is_cont b \<and> utf8_valid [c]) \<or>
      (((in_range a 0xE0 0xE0 \<and> in_range b 0xA0 0xBF) \<or>
        (in_range a 0xED 0xED \<and> in_range b 0x80 0x9F) \<or>
        ((in_range a 0xE1 0xEC \<or> in_range a 0xEE 0xEF) \<and> is_cont b)) \<and> is_cont c))"
| "utf8_valid (a # b # c # d # r) =
     ((in_range a 0 0x7F \<and> utf8_valid (b # c # d # r)) \<or>
      (in_range a 0xC2 0xDF \<and> is_cont b \<and> utf8_valid (c # d # r)) \<or>
      (((in_range a 0xE0 0xE0 \<and> in_range b 0xA0 0xBF) \<or>
        (in_range a 0xED 0xED \<and> in_range b 0x80 0x9F) \<or>
        ((in_range a 0xE1 0xEC \<or> in_range a 0xEE 0xEF) \<and> is_cont b)) \<and> is_cont c \<and>
        utf8_valid (d # r)) \<or>
      (((in_range a 0xF0 0xF0 \<and> in_range b 0x90 0xBF) \<or>
        (in_range a 0xF4 0xF4 \<and> in_range b 0x80 0x8F) \<or>
        (in_range a 0xF1 0xF3 \<and> is_cont b)) \<and> is_cont c \<and> is_cont d \<and> utf8_valid r))"

section \<open>Package path\<close>

text \<open>
  \<^verbatim>\<open>path.Clean\<close>: process the segments left to right with a stack, dropping empty and \<^verbatim>\<open>.\<close>
  segments, popping for \<^verbatim>\<open>..\<close>; a rooted path swallows a leading \<^verbatim>\<open>..\<close>.
\<close>

definition clean_step :: "bool \<Rightarrow> string list \<Rightarrow> string \<Rightarrow> string list" where
  "clean_step rooted stack seg =
     (if seg = [] \<or> seg = ''.'' then stack
      else if seg = ''..'' then
        (if stack \<noteq> [] \<and> hd stack \<noteq> ''..'' then tl stack
         else if rooted then stack else seg # stack)
      else seg # stack)"

definition clean_segs :: "bool \<Rightarrow> string list \<Rightarrow> string list" where
  "clean_segs rooted segs = rev (foldl (clean_step rooted) [] segs)"

definition path_Clean :: "string \<Rightarrow> string" where
  "path_Clean p =
     (if p = [] then ''.''
      else if hd p = CHR ''/'' then CHR ''/'' # join_with (CHR ''/'') (clean_segs True (split_on (CHR ''/'') p))
      else (case join_with (CHR ''/'') (clean_segs False (split_on (CHR ''/'') p)) of
              [] \<Rightarrow> ''.'' | r \<Rightarrow> r))"

definition path_Dir :: "string \<Rightarrow> string" where
  "path_Dir p = path_Clean (upto_last (CHR ''/'') p)"

definition path_Base :: "string \<Rightarrow> string" where
  "path_Base p =
     (if p = [] then ''.''
      else (let q = rev (dropWhile (\<lambda>x. x = CHR ''/'') (rev p)) in
            case after_last (CHR ''/'') q of [] \<Rightarrow> ''/'' | b \<Rightarrow> b))"

text \<open>\<^verbatim>\<open>path.Ext\<close>: the suffix of the final element from its last dot, empty if there is none.\<close>

definition path_Ext :: "string \<Rightarrow> string" where
  "path_Ext p =
     (let b = after_last (CHR ''/'') p in
      if CHR ''.'' \<in> set b then CHR ''.'' # after_last (CHR ''.'') b else [])"

text \<open>\<^verbatim>\<open>strings.TrimSpace\<close> cuts Unicode white space off both ends. The bytes of a white-space rune
  at the front of a string, 0 if there is none, and the test \<^verbatim>\<open>strings.TrimSpace(s) == ""\<close>.\<close>

definition white_rune :: "string \<Rightarrow> nat" where
  "white_rune s =
    (let b = map of_char (take 3 s) :: nat list in
     if b \<noteq> [] \<and> (9 \<le> hd b \<and> hd b \<le> 13 \<or> hd b = 32) then 1
     else if take 2 b \<in> set [[194, 133], [194, 160]] then 2
     else if b \<in> set [[225, 154, 128], [226, 128, 168], [226, 128, 169], [226, 128, 175], [226, 129, 159], [227, 128, 128]]
        \<or> length b = 3 \<and> take 2 b = [226, 128] \<and> 128 \<le> b ! 2 \<and> b ! 2 \<le> 138 then 3
     else 0)"

function blank :: "string \<Rightarrow> bool" where
  "blank s = (if s = [] then True else if white_rune s = 0 then False else blank (drop (white_rune s) s))"
  by pat_completeness auto
termination by (relation "measure length") auto

function TrimLeftSpace :: "string \<Rightarrow> string" where
  "TrimLeftSpace s = (if s = [] \<or> white_rune s = 0 then s else TrimLeftSpace (drop (white_rune s) s))"
  by pat_completeness auto
termination by (relation "measure length") auto

declare blank.simps [simp del] TrimLeftSpace.simps [simp del]

definition TrimSpace :: "string \<Rightarrow> string" where
  "TrimSpace s = (let t = TrimLeftSpace s in take (hd (filter (\<lambda>n. blank (drop n t)) [0..<Suc (length t)])) t)"

section \<open>Algebra\<close>

lemma split_on_neq_Nil [simp]: "split_on c s \<noteq> []"
  by (induction s) (auto split: list.splits)

lemma join_with_Cons: "ss \<noteq> [] \<Longrightarrow> join_with c (s # ss) = s @ c # join_with c ss"
  by (cases ss) auto

lemma join_with_Cons_Cons: "join_with c ((x # y) # ys) = x # join_with c (y # ys)"
  by (cases ys) auto

lemma join_split [simp]: "join_with c (split_on c s) = s"
proof (induction s)
  case Nil
  then show ?case by simp
next
  case (Cons x s)
  then show ?case
    by (cases "split_on c s") (auto simp: join_with_Cons join_with_Cons_Cons)
qed

lemma split_on_no_sep: "s \<in> set (split_on c t) \<Longrightarrow> c \<notin> set s"
proof (induction t arbitrary: s)
  case Nil
  then show ?case by simp
next
  case (Cons x t)
  then show ?case by (cases "split_on c t") (auto split: if_splits)
qed

lemma split_on_no_sep_id: "c \<notin> set s \<Longrightarrow> split_on c s = [s]"
  by (induction s) auto

lemma split_on_append_sep: "c \<notin> set s \<Longrightarrow> split_on c (s @ c # t) = s # split_on c t"
  by (induction s) auto

lemma split_join:
  assumes "ss \<noteq> []" and "\<And>s. s \<in> set ss \<Longrightarrow> c \<notin> set s"
  shows "split_on c (join_with c ss) = ss"
  using assms
proof (induction c ss rule: join_with.induct)
  case (1 c)
  then show ?case by simp
next
  case (2 c s)
  then show ?case by (simp add: split_on_no_sep_id)
next
  case (3 c s t ss)
  then show ?case by (simp add: split_on_append_sep)
qed

text \<open>Rooted paths as concatenations of \<^verbatim>\<open>/segment\<close>.\<close>

definition abs_path :: "string list \<Rightarrow> string" where
  "abs_path segs = concat (map (\<lambda>s. CHR ''/'' # s) segs)"

lemma abs_path_simps [simp]:
  "abs_path [] = []" "abs_path (s # ss) = CHR ''/'' # s @ abs_path ss"
  "abs_path (ss @ ts) = abs_path ss @ abs_path ts"
  by (auto simp: abs_path_def)

lemma abs_path_join: "ss \<noteq> [] \<Longrightarrow> CHR ''/'' # join_with (CHR ''/'') ss = abs_path ss"
  by (induction "CHR ''/''" ss rule: join_with.induct) auto

lemma abs_path_eq_Nil [simp]: "abs_path ss = [] \<longleftrightarrow> ss = []"
  by (cases ss) auto

lemma split_abs_path:
  assumes "\<And>s. s \<in> set ss \<Longrightarrow> CHR ''/'' \<notin> set s" and "ss \<noteq> []"
  shows "split_on (CHR ''/'') (abs_path ss) = [] # ss"
proof -
  have "split_on (CHR ''/'') (abs_path ss) = [] # split_on (CHR ''/'') (join_with (CHR ''/'') ss)"
    using assms(2) by (simp flip: abs_path_join)
  with split_join [OF assms(2,1)] show ?thesis by simp
qed

text \<open>A proper segment, the ones that name a file or a directory.\<close>

definition proper_seg :: "string \<Rightarrow> bool" where
  "proper_seg s \<longleftrightarrow> s \<noteq> [] \<and> s \<noteq> ''.'' \<and> s \<noteq> ''..'' \<and> CHR ''/'' \<notin> set s"

lemma clean_segs_dotfree:
  assumes "\<And>s. s \<in> set ss \<Longrightarrow> s \<noteq> ''.'' \<and> s \<noteq> ''..''"
  shows "clean_segs r ss = filter (\<lambda>s. s \<noteq> []) ss"
proof -
  have "foldl (clean_step r) st ss = rev (filter (\<lambda>s. s \<noteq> []) ss) @ st" for st
    using assms by (induction ss arbitrary: st) (auto simp: clean_step_def)
  then show ?thesis by (simp add: clean_segs_def)
qed

lemma clean_segs_proper: "list_all proper_seg ss \<Longrightarrow> clean_segs r ss = ss"
  by (subst clean_segs_dotfree) (auto simp: list_all_iff proper_seg_def filter_id_conv)

text \<open>Cleaning a rooted path leaves proper segments only: \<^verbatim>\<open>..\<close> cannot climb above the root.\<close>

lemma foldl_clean_proper:
  assumes "\<And>s. s \<in> set ss \<Longrightarrow> CHR ''/'' \<notin> set s" and "list_all proper_seg st"
  shows "list_all proper_seg (foldl (clean_step True) st ss)"
  using assms
proof (induction ss arbitrary: st)
  case Nil
  then show ?case by simp
next
  case (Cons s ss)
  have "list_all proper_seg (clean_step True st s)"
  proof (cases "s = ''..''")
    case True
    with Cons.prems(2) show ?thesis by (cases st) (auto simp: clean_step_def)
  next
    case False
    with Cons.prems show ?thesis by (auto simp: clean_step_def proper_seg_def [of s])
  qed
  with Cons.IH Cons.prems(1) show ?case by simp
qed

lemma clean_segs_rooted_proper:
  assumes "\<And>s. s \<in> set ss \<Longrightarrow> CHR ''/'' \<notin> set s"
  shows "list_all proper_seg (clean_segs True ss)"
  using foldl_clean_proper [of ss "[]"] assms by (simp add: clean_segs_def)

definition rooted :: "string list \<Rightarrow> string" where
  "rooted ss = (if ss = [] then ''/'' else abs_path ss)"

lemma rooted_join: "CHR ''/'' # join_with (CHR ''/'') ss = rooted ss"
  using abs_path_join [of ss] by (auto simp: rooted_def)

lemma Clean_rooted: "hd p = CHR ''/'' \<Longrightarrow> p \<noteq> [] \<Longrightarrow>
    path_Clean p = rooted (clean_segs True (split_on (CHR ''/'') p))"
  by (simp add: path_Clean_def rooted_join)

lemma Clean_rooted_proper:
  assumes "hd p = CHR ''/''" and "p \<noteq> []"
  shows "\<exists>ss. list_all proper_seg ss \<and> path_Clean p = rooted ss"
  using Clean_rooted [OF assms] clean_segs_rooted_proper [of "split_on (CHR ''/'') p"] split_on_no_sep
  by blast

lemma proper_no_slash: "list_all proper_seg ss \<Longrightarrow> s \<in> set ss \<Longrightarrow> CHR ''/'' \<notin> set s"
  by (auto simp: list_all_iff proper_seg_def)

lemma clean_segs_skip_Nil [simp]: "clean_segs r ([] # ss) = clean_segs r ss"
  by (simp add: clean_segs_def clean_step_def)

lemma Clean_fixed:
  assumes "list_all proper_seg ss"
  shows "path_Clean (rooted ss) = rooted ss"
proof (cases "ss = []")
  case True
  then show ?thesis by (simp add: rooted_def path_Clean_def clean_segs_def clean_step_def)
next
  case False
  then have "split_on (CHR ''/'') (rooted ss) = [] # ss"
    using split_abs_path [of ss] proper_no_slash [OF assms] by (simp add: rooted_def)
  moreover have "hd (rooted ss) = CHR ''/''" "rooted ss \<noteq> []"
    using False by (cases ss; simp add: rooted_def)+
  ultimately show ?thesis
    using Clean_rooted [of "rooted ss"] clean_segs_proper [OF assms] by simp
qed

text \<open>Last segment of a rooted path.\<close>

lemma takeWhile_append_stop: "(\<forall>x\<in>set xs. P x) \<Longrightarrow> \<not> P y \<Longrightarrow> takeWhile P (xs @ y # ys) = xs"
  by (induction xs) auto

lemma after_last_append: "c \<notin> set s \<Longrightarrow> after_last c (t @ c # s) = s"
  unfolding after_last_def
  by (subst rev_append, simp) (subst takeWhile_append_stop, auto)

lemma upto_last_append: "c \<notin> set s \<Longrightarrow> upto_last c (t @ c # s) = t @ [c]"
  unfolding upto_last_def
  by (subst rev_append, simp) (subst dropWhile_append2, auto)

lemma TrimSuffix_append [simp]: "TrimSuffix (s @ t) t = s"
  by (auto simp: TrimSuffix_def HasSuffix_def suffix_def)

lemma TrimPrefix_append [simp]: "TrimPrefix (p @ s) p = s"
  by (auto simp: TrimPrefix_def HasPrefix_def)

lemma HasPrefix_append [simp]: "HasPrefix (p @ s) p"
  by (simp add: HasPrefix_def)

lemma HasPrefix_iff: "HasPrefix s p \<longleftrightarrow> (\<exists>t. s = p @ t)"
  by (auto simp: HasPrefix_def prefix_def)

lemma HasSuffix_iff: "HasSuffix s p \<longleftrightarrow> (\<exists>t. s = t @ p)"
  by (auto simp: HasSuffix_def suffix_def)

lemma TrimSuffix_no: "\<not> HasSuffix s p \<Longrightarrow> TrimSuffix s p = s"
  by (simp add: TrimSuffix_def)

end
