(* ===== verification/Path_Util.thy ===== *)
theory Path_Util
  imports Go_Strings
begin

text \<open>
  Package \<^verbatim>\<open>pathutil\<close> (src/pkg/pathutil/pathutil.go): canonicalization of the paths of the
  namespace and their parents and names, and the datastore's own copies of the last two
  (src/pkg/datastore/store.go). Unicode normalization is the third-party package
  \<^verbatim>\<open>golang.org/x/text/unicode/norm\<close>, a parameter \<open>nfc\<close> of the model; \<open>nfc_law\<close> collects what the
  code relies on.
\<close>

section \<open>Canonicalization\<close>

datatype path_error =
    NulChar | ControlChar char | HasBackslash | DotSegment string | InvalidUTF8

definition bslash :: char where
  "bslash = CHR 0x5C"

definition is_ctrl :: "char \<Rightarrow> bool" where
  "is_ctrl c \<longleftrightarrow> (of_char c :: nat) \<le> 0x1f"

fun check_bytes :: "string \<Rightarrow> path_error option" where
  "check_bytes [] = None"
| "check_bytes (b # bs) =
     (if (of_char b :: nat) = 0 then Some NulChar
      else if 1 \<le> (of_char b :: nat) \<and> (of_char b :: nat) \<le> 0x1f then Some (ControlChar b)
      else check_bytes bs)"

definition dot_seg :: "string \<Rightarrow> bool" where
  "dot_seg s \<longleftrightarrow> s = ''.'' \<or> s = ''..''"

definition with_root :: "string \<Rightarrow> string" where
  "with_root raw = (if HasPrefix raw ''/'' then raw else ''/'' @ raw)"

definition canonicalize :: "(string \<Rightarrow> string) \<Rightarrow> string \<Rightarrow> bool \<Rightarrow> path_error + string" where
  "canonicalize nfc raw isDir =
     (if raw = [] \<or> raw = ''/'' then Inr ''/''
      else (case check_bytes raw of
        Some e \<Rightarrow> Inl e
      | None \<Rightarrow>
          if bslash \<in> set raw then Inl HasBackslash
          else
            let raw1 = with_root raw;
                segments = split_on (CHR ''/'') (TrimChar raw1 (CHR ''/''))
            in (case find dot_seg segments of
                  Some seg \<Rightarrow> Inl (DotSegment seg)
                | None \<Rightarrow>
                    let cleaned = path_Clean raw1 in
                    if cleaned = ''.'' then Inr ''/''
                    else
                      let cleaned1 = TrimSuffix cleaned ''/'' in
                      if \<not> utf8_valid cleaned1 then Inl InvalidUTF8
                      else
                        let cleaned2 = nfc cleaned1 in
                        Inr (if isDir \<and> cleaned2 \<noteq> ''/'' then cleaned2 @ ''/'' else cleaned2))))"

definition Canonicalize :: "(string \<Rightarrow> string) \<Rightarrow> string \<Rightarrow> path_error + string" where
  "Canonicalize nfc raw = canonicalize nfc raw False"

definition CanonicalizeDir :: "(string \<Rightarrow> string) \<Rightarrow> string \<Rightarrow> path_error + string" where
  "CanonicalizeDir nfc raw = canonicalize nfc raw True"

section \<open>Parents and names\<close>

definition ParentPath :: "string \<Rightarrow> string" where
  "ParentPath p =
     (if p = ''/'' then ''/''
      else
        let dir = path_Dir (TrimSuffix p ''/'') in
        if dir = ''.'' then ''/''
        else if \<not> HasSuffix dir ''/'' then dir @ ''/'' else dir)"

definition BaseName :: "string \<Rightarrow> string" where
  "BaseName p = (if p = ''/'' then ''/'' else path_Base (TrimSuffix p ''/''))"

definition IsDir :: "string \<Rightarrow> bool" where
  "IsDir p \<longleftrightarrow> p = ''/'' \<or> HasSuffix p ''/''"

definition Ext :: "string \<Rightarrow> string" where
  "Ext p = path_Ext (TrimSuffix p ''/'')"

text \<open>The datastore's \<^verbatim>\<open>parentPath\<close> and \<^verbatim>\<open>baseName\<close>.\<close>

definition parentPath :: "string \<Rightarrow> string" where
  "parentPath p =
     (if p = ''/'' then ''/''
      else
        let q = TrimSuffix p ''/''; upto = upto_last (CHR ''/'') q in
        if length upto \<le> 1 then ''/'' else upto)"

definition baseName :: "string \<Rightarrow> string" where
  "baseName p = after_last (CHR ''/'') (TrimSuffix p ''/'')"

section \<open>What the code relies on of NFC\<close>

definition reserved :: "char \<Rightarrow> bool" where
  "reserved c \<longleftrightarrow> c = CHR ''/'' \<or> c = bslash \<or> is_ctrl c"

text \<open>
  Unicode normalization form C: the slash is a boundary it never composes across, it neither
  introduces a reserved ASCII character nor turns another segment into a dot segment, it is
  idempotent and keeps UTF-8 well-formed.
\<close>

definition nfc_law :: "(string \<Rightarrow> string) \<Rightarrow> bool" where
  "nfc_law nfc \<longleftrightarrow>
     nfc [] = [] \<and>
     (\<forall>s t. nfc (s @ ''/'' @ t) = nfc s @ ''/'' @ nfc t) \<and>
     (\<forall>s. nfc s = [] \<longrightarrow> s = []) \<and>
     (\<forall>s. nfc (nfc s) = nfc s) \<and>
     (\<forall>s c. reserved c \<longrightarrow> c \<in> set (nfc s) \<longrightarrow> c \<in> set s) \<and>
     (\<forall>s. dot_seg (nfc s) \<longrightarrow> dot_seg s) \<and>
     (\<forall>s. utf8_valid s \<longrightarrow> utf8_valid (nfc s))"

lemma nfc_law_id: "nfc_law (\<lambda>s. s)"
  by (simp add: nfc_law_def)

lemma nfc_abs_path:
  assumes "nfc_law nfc"
  shows "nfc (abs_path ss) = abs_path (map nfc ss)"
proof (induction ss rule: rev_induct)
  case Nil
  then show ?case using assms by (simp add: nfc_law_def)
next
  case (snoc s ss)
  have "nfc (abs_path ss @ ''/'' @ s) = nfc (abs_path ss) @ ''/'' @ nfc s"
    using assms unfolding nfc_law_def by blast
  with snoc show ?case by simp
qed

section \<open>Canonical paths\<close>

text \<open>A segment that a canonical path may carry, and the canonical form of a list of them.\<close>

definition safe_seg :: "string \<Rightarrow> bool" where
  "safe_seg s \<longleftrightarrow> proper_seg s \<and> bslash \<notin> set s \<and> (\<forall>c\<in>set s. \<not> is_ctrl c)"

definition canon :: "bool \<Rightarrow> string list \<Rightarrow> string" where
  "canon isDir ss = (if ss = [] then ''/'' else abs_path ss @ (if isDir then ''/'' else []))"

lemma safe_proper: "list_all safe_seg ss \<Longrightarrow> list_all proper_seg ss"
  by (auto simp: list_all_iff safe_seg_def)

lemma safe_seg_nfc:
  assumes law: "nfc_law nfc" and s: "safe_seg s"
  shows "safe_seg (nfc s)"
proof -
  have ne: "nfc s \<noteq> []" using law s by (auto simp: nfc_law_def safe_seg_def proper_seg_def)
  have dot: "\<not> dot_seg (nfc s)"
    using law s unfolding nfc_law_def safe_seg_def proper_seg_def dot_seg_def by blast
  have res: "reserved c \<Longrightarrow> c \<in> set (nfc s) \<Longrightarrow> c \<in> set s" for c
    using law by (auto simp: nfc_law_def)
  have "CHR ''/'' \<notin> set (nfc s)" "bslash \<notin> set (nfc s)" "\<forall>c\<in>set (nfc s). \<not> is_ctrl c"
    using res s by (auto simp: reserved_def safe_seg_def proper_seg_def)
  with ne dot show ?thesis by (simp add: safe_seg_def proper_seg_def dot_seg_def)
qed

lemma check_bytes_None: "check_bytes s = None \<longleftrightarrow> (\<forall>c\<in>set s. \<not> is_ctrl c)"
proof (induction s)
  case Nil
  then show ?case by simp
next
  case (Cons b s)
  have "(of_char b :: nat) = 0 \<or> (1 \<le> (of_char b :: nat) \<and> (of_char b :: nat) \<le> 0x1f) \<longleftrightarrow> is_ctrl b"
    by (auto simp: is_ctrl_def)
  with Cons show ?case by auto
qed

lemma split_on_append: "split_on c (s @ c # t) = split_on c s @ split_on c t"
  by (induction s) (auto split: list.splits)

lemma split_on_replicate: "split_on c (replicate k c @ t) = replicate k [] @ split_on c t"
  by (induction k) auto

lemma split_on_replicate_right: "split_on c (t @ replicate m c) = split_on c t @ replicate m []"
proof (induction m)
  case 0
  then show ?case by simp
next
  case (Suc m)
  have "t @ replicate (Suc m) c = (t @ replicate m c) @ c # []"
    by (simp add: replicate_append_same)
  then have "split_on c (t @ replicate (Suc m) c) = split_on c (t @ replicate m c) @ [[]]"
    by (simp only: split_on_append) simp
  with Suc show ?case by (simp add: replicate_append_same)
qed

lemma dropWhile_replicate: "\<exists>k. s = replicate k c @ dropWhile (\<lambda>x. x = c) s"
proof -
  have "takeWhile (\<lambda>x. x = c) s = replicate (length (takeWhile (\<lambda>x. x = c) s)) c"
    by (rule replicate_length_same [symmetric]) (auto dest: set_takeWhileD)
  then show ?thesis by (metis takeWhile_dropWhile_id)
qed

lemma TrimChar_decomp: "\<exists>k m. s = replicate k c @ TrimChar s c @ replicate m c"
proof -
  define d where "d = dropWhile (\<lambda>x. x = c) s"
  obtain k where k: "s = replicate k c @ d"
    using dropWhile_replicate [of s c] unfolding d_def by (rule exE)
  obtain m where m: "rev d = replicate m c @ dropWhile (\<lambda>x. x = c) (rev d)"
    using dropWhile_replicate [of "rev d" c] by (rule exE)
  have "d = rev (rev d)" by simp
  also have "\<dots> = TrimChar s c @ replicate m c"
    by (subst m) (simp add: TrimChar_def d_def)
  finally show ?thesis using k by (intro exI [of _ k] exI [of _ m]) simp
qed

lemma split_TrimChar: "set (split_on c s) \<subseteq> insert [] (set (split_on c (TrimChar s c)))"
proof -
  obtain k m where s: "s = replicate k c @ TrimChar s c @ replicate m c"
    using TrimChar_decomp by blast
  have "split_on c s = replicate k [] @ split_on c (TrimChar s c) @ replicate m []"
    by (subst s) (simp only: split_on_replicate split_on_replicate_right)
  then show ?thesis by auto
qed

text \<open>The segments of a raw path that survive cleaning.\<close>

definition raw_segs :: "string \<Rightarrow> string list" where
  "raw_segs raw = filter (\<lambda>s. s \<noteq> []) (split_on (CHR ''/'') raw)"

lemma Clean_dotfree:
  assumes "find dot_seg (split_on (CHR ''/'') (TrimChar p (CHR ''/''))) = None"
    and "hd p = CHR ''/''" and "p \<noteq> []"
  shows "path_Clean p = rooted (raw_segs p)" and "list_all proper_seg (raw_segs p)"
proof -
  have dotfree: "s \<noteq> ''.'' \<and> s \<noteq> ''..''" if "s \<in> set (split_on (CHR ''/'') p)" for s
    using assms(1) that split_TrimChar [of "CHR ''/''" p] by (auto simp: find_None_iff dot_seg_def)
  then show "path_Clean p = rooted (raw_segs p)"
    using Clean_rooted [OF assms(2,3)] clean_segs_dotfree [of "split_on (CHR ''/'') p" True]
    by (simp add: raw_segs_def)
  show "list_all proper_seg (raw_segs p)"
    using dotfree split_on_no_sep [of _ "CHR ''/''" p]
    by (auto simp: list_all_iff raw_segs_def proper_seg_def)
qed

lemma abs_path_no_slash_suffix:
  assumes "list_all proper_seg ss" "ss \<noteq> []"
  shows "\<not> HasSuffix (abs_path ss) ''/''"
proof -
  obtain ts t where ss: "ss = ts @ [t]" using assms(2) by (metis rev_exhaust)
  have "t \<noteq> []" "CHR ''/'' \<notin> set t" using assms(1) by (auto simp: ss proper_seg_def)
  then have "last (abs_path ss) \<noteq> CHR ''/''" by (auto simp: ss dest: last_in_set)
  then show ?thesis by (auto simp: HasSuffix_iff)
qed

lemma TrimSuffix_rooted:
  assumes "list_all proper_seg ss"
  shows "TrimSuffix (rooted ss) ''/'' = abs_path ss"
proof (cases "ss = []")
  case True
  then show ?thesis using TrimSuffix_append [of "[]" "''/''"] by (simp add: rooted_def)
next
  case False
  with abs_path_no_slash_suffix [OF assms] show ?thesis
    by (simp add: rooted_def TrimSuffix_no)
qed

lemma set_split_on: "s \<in> set (split_on c t) \<Longrightarrow> set s \<subseteq> set t"
proof (induction t arbitrary: s)
  case Nil
  then show ?case by simp
next
  case (Cons x t)
  then show ?case by (cases "split_on c t") (auto split: if_splits, blast)
qed

text \<open>
  The success cases of canonicalization: the two spellings of the root the code tests first,
  and otherwise the normalized segments of the raw path.
\<close>

lemma canonicalize_Inr:
  assumes "canonicalize nfc raw d = Inr p" and "raw \<noteq> []" and "raw \<noteq> ''/''"
  shows "check_bytes raw = None" "bslash \<notin> set raw"
    "find dot_seg (split_on (CHR ''/'') (TrimChar (with_root raw) (CHR ''/''))) = None"
    "path_Clean (with_root raw) \<noteq> ''.'' \<Longrightarrow>
     utf8_valid (TrimSuffix (path_Clean (with_root raw)) ''/'') \<and>
     p = (let q = nfc (TrimSuffix (path_Clean (with_root raw)) ''/'') in
          if d \<and> q \<noteq> ''/'' then q @ ''/'' else q)"
proof -
  show chk: "check_bytes raw = None"
    using assms by (cases "check_bytes raw") (simp_all add: canonicalize_def)
  show bs: "bslash \<notin> set raw"
    using assms chk by (cases "bslash \<in> set raw") (simp_all add: canonicalize_def)
  show nd: "find dot_seg (split_on (CHR ''/'') (TrimChar (with_root raw) (CHR ''/''))) = None"
    using assms chk bs
    by (cases "find dot_seg (split_on (CHR ''/'') (TrimChar (with_root raw) (CHR ''/'')))")
      (simp_all add: canonicalize_def Let_def)
  assume "path_Clean (with_root raw) \<noteq> ''.''"
  with assms chk bs nd
  show "utf8_valid (TrimSuffix (path_Clean (with_root raw)) ''/'') \<and>
     p = (let q = nfc (TrimSuffix (path_Clean (with_root raw)) ''/'') in
          if d \<and> q \<noteq> ''/'' then q @ ''/'' else q)"
    by (cases "utf8_valid (TrimSuffix (path_Clean (with_root raw)) ''/'')")
      (simp_all add: canonicalize_def Let_def)
qed

lemma canonicalize_success:
  assumes "canonicalize nfc raw d = Inr p" and "raw \<noteq> []" and "raw \<noteq> ''/''"
  shows "list_all safe_seg (raw_segs (with_root raw))"
    and "utf8_valid (abs_path (raw_segs (with_root raw)))"
    and "p = (let q = nfc (abs_path (raw_segs (with_root raw))) in
              if d \<and> q \<noteq> ''/'' then q @ ''/'' else q)"
proof -
  note Inr = canonicalize_Inr [OF assms]
  have hd1: "hd (with_root raw) = CHR ''/''" "with_root raw \<noteq> []"
    using assms(2) by (auto simp: with_root_def HasPrefix_iff)
  note cl = Clean_dotfree [OF Inr(3) hd1]
  have notdot: "path_Clean (with_root raw) \<noteq> ''.''"
    by (simp add: cl(1) rooted_def) (cases "raw_segs (with_root raw)"; simp)
  have sub: "set (with_root raw) \<subseteq> insert (CHR ''/'') (set raw)" by (auto simp: with_root_def)
  show "list_all safe_seg (raw_segs (with_root raw))"
    unfolding list_all_iff
  proof
    fix s assume s: "s \<in> set (raw_segs (with_root raw))"
    then have in_split: "s \<in> set (split_on (CHR ''/'') (with_root raw))" by (simp add: raw_segs_def)
    have "set s \<subseteq> set raw"
      using set_split_on [OF in_split] split_on_no_sep [OF in_split] sub by blast
    then have "bslash \<notin> set s" "\<forall>c\<in>set s. \<not> is_ctrl c"
      using Inr(1,2) by (auto simp: check_bytes_None)
    moreover have "proper_seg s" using cl(2) s by (simp add: list_all_iff)
    ultimately show "safe_seg s" by (simp add: safe_seg_def)
  qed
  have "TrimSuffix (path_Clean (with_root raw)) ''/'' = abs_path (raw_segs (with_root raw))"
    using TrimSuffix_rooted [OF cl(2)] cl(1) by simp
  with Inr(4) [OF notdot]
  show "utf8_valid (abs_path (raw_segs (with_root raw)))"
    and "p = (let q = nfc (abs_path (raw_segs (with_root raw))) in
              if d \<and> q \<noteq> ''/'' then q @ ''/'' else q)"
    by simp_all
qed

text \<open>Conversely, a raw path whose segments are safe is accepted.\<close>

lemma split_TrimChar_sub: "set (split_on c (TrimChar s c)) \<subseteq> set (split_on c s)"
proof -
  obtain k m where s: "s = replicate k c @ TrimChar s c @ replicate m c"
    using TrimChar_decomp by blast
  have "split_on c s = replicate k [] @ split_on c (TrimChar s c) @ replicate m []"
    by (subst s) (simp only: split_on_replicate split_on_replicate_right)
  then show ?thesis by auto
qed

lemma canonicalize_accepts:
  assumes "raw \<noteq> []" "raw \<noteq> ''/''" "\<forall>c\<in>set raw. \<not> is_ctrl c" "bslash \<notin> set raw"
    and ts: "list_all safe_seg ts" "raw_segs (with_root raw) = ts" "utf8_valid (abs_path ts)"
  shows "canonicalize nfc raw d =
    Inr (let q = nfc (abs_path ts) in if d \<and> q \<noteq> ''/'' then q @ ''/'' else q)"
proof -
  have hd1: "hd (with_root raw) = CHR ''/''" "with_root raw \<noteq> []"
    using assms(1) by (auto simp: with_root_def HasPrefix_iff)
  have nd: "find dot_seg (split_on (CHR ''/'') (TrimChar (with_root raw) (CHR ''/''))) = None"
    unfolding find_None_iff
  proof
    assume "\<exists>x. x \<in> set (split_on (CHR ''/'') (TrimChar (with_root raw) (CHR ''/''))) \<and> dot_seg x"
    then obtain x where x: "x \<in> set (split_on (CHR ''/'') (with_root raw))" "dot_seg x"
      using split_TrimChar_sub by blast
    then have "x \<in> set ts" using ts(2) by (auto simp: raw_segs_def dot_seg_def)
    with ts(1) x(2) show False by (auto simp: list_all_iff safe_seg_def proper_seg_def dot_seg_def)
  qed
  note cl = Clean_dotfree [OF nd hd1]
  have "path_Clean (with_root raw) \<noteq> ''.''"
    by (simp add: cl(1) rooted_def) (cases "raw_segs (with_root raw)"; simp)
  moreover have "TrimSuffix (path_Clean (with_root raw)) ''/'' = abs_path ts"
    using TrimSuffix_rooted [OF cl(2)] cl(1) ts(2) by simp
  moreover have "check_bytes raw = None" using assms(3) by (simp add: check_bytes_None)
  ultimately show ?thesis
    using assms(1,2,4) nd ts(3) by (simp add: canonicalize_def Let_def)
qed

lemma raw_segs_canon:
  assumes "list_all proper_seg ts" and "ts \<noteq> []"
  shows "raw_segs (with_root (canon e ts)) = ts"
proof -
  have nosl: "\<And>s. s \<in> set ts \<Longrightarrow> CHR ''/'' \<notin> set s" using proper_no_slash [OF assms(1)] .
  have "HasPrefix (canon e ts) ''/''"
    using assms(2) by (cases ts) (auto simp: canon_def HasPrefix_iff)
  then have wr: "with_root (canon e ts) = canon e ts" by (simp add: with_root_def)
  have "split_on (CHR ''/'') (canon e ts) = [] # ts @ (if e then [[]] else [])"
    using split_abs_path [OF nosl assms(2)] assms(2)
      split_on_append [of "CHR ''/''" "abs_path ts" "[]"] by (simp add: canon_def)
  moreover have "filter (\<lambda>s. s \<noteq> []) ts = ts"
    using assms(1) by (auto simp: filter_id_conv list_all_iff proper_seg_def)
  ultimately show ?thesis by (auto simp: raw_segs_def wr)
qed

lemma set_abs_path: "set (abs_path ts) \<subseteq> insert (CHR ''/'') (\<Union>s\<in>set ts. set s)"
  by (induction ts) auto

lemma slash_not_ctrl [simp]: "\<not> is_ctrl (CHR ''/'')"
  by (simp add: is_ctrl_def)

lemma slash_not_bslash [simp]: "bslash \<noteq> CHR ''/''" "CHR ''/'' \<noteq> bslash"
  by (simp_all add: bslash_def)

lemma canon_chars:
  assumes "list_all safe_seg ts"
  shows "\<forall>c\<in>set (canon e ts). \<not> is_ctrl c" "bslash \<notin> set (canon e ts)"
  using assms set_abs_path [of ts]
  by (auto simp: canon_def list_all_iff safe_seg_def split: if_splits)

lemma canon_not_root:
  assumes "list_all proper_seg ts" "ts \<noteq> []"
  shows "canon e ts \<noteq> []" "canon e ts \<noteq> ''/''"
  using assms by (cases ts; auto simp: canon_def proper_seg_def)+

lemma canonicalize_canon:
  assumes "list_all safe_seg ts" "ts \<noteq> []" "utf8_valid (abs_path ts)" "nfc (abs_path ts) = abs_path ts"
  shows "canonicalize nfc (canon e ts) d = Inr (canon d ts)"
proof -
  note pr = safe_proper [OF assms(1)]
  have ne: "abs_path ts \<noteq> ''/''"
    using canon_not_root [OF pr assms(2), of False] assms(2) by (simp add: canon_def)
  from canonicalize_accepts [OF canon_not_root [OF pr assms(2)] canon_chars [OF assms(1)]
      assms(1) raw_segs_canon [OF pr assms(2)] assms(3)] assms(2,4) ne
  show ?thesis by (simp add: canon_def Let_def)
qed

text \<open>The shape of a successful result, before the trailing slash question.\<close>

lemma set_join_Nils: "\<forall>s\<in>set ss. s = [] \<Longrightarrow> set (join_with c ss) \<subseteq> {c}"
  by (induction c ss rule: join_with.induct) auto

lemma canonicalize_result:
  assumes law: "nfc_law nfc" and can: "canonicalize nfc raw d = Inr p"
  obtains (canonical) ts where "list_all safe_seg ts" "p = canon d ts" "utf8_valid (abs_path ts)"
      "nfc (abs_path ts) = abs_path ts"
    | (slashes) "p = []" "\<not> d" "2 \<le> length raw" "set raw = {CHR ''/''}"
proof (cases "raw = [] \<or> raw = ''/''")
  case True
  with can have "p = canon d []" by (auto simp: canonicalize_def canon_def)
  then show ?thesis using law by (intro canonical [of "[]"]) (auto simp: nfc_law_def)
next
  case False
  then have ne: "raw \<noteq> []" "raw \<noteq> ''/''" by auto
  define ss where "ss = raw_segs (with_root raw)"
  note suc = canonicalize_success [OF can ne, folded ss_def]
  have safe: "list_all safe_seg (map nfc ss)"
    using suc(1) safe_seg_nfc [OF law] by (auto simp: list_all_iff)
  have nfcp: "nfc (abs_path ss) = abs_path (map nfc ss)" by (rule nfc_abs_path [OF law])
  show ?thesis
  proof (cases "ss = []")
    case True
    have "set raw \<subseteq> {CHR ''/''}"
    proof
      fix c assume "c \<in> set raw"
      then have c: "c \<in> set (with_root raw)" by (simp add: with_root_def)
      have "\<forall>s\<in>set (split_on (CHR ''/'') (with_root raw)). s = []"
        using True by (auto simp: ss_def raw_segs_def filter_empty_conv)
      then have "set (join_with (CHR ''/'') (split_on (CHR ''/'') (with_root raw))) \<subseteq> {CHR ''/''}"
        by (rule set_join_Nils)
      with c show "c \<in> {CHR ''/''}" by auto
    qed
    then have raw: "set raw = {CHR ''/''}" using ne(1) by (cases raw) auto
    moreover have "2 \<le> length raw"
    proof (cases raw)
      case (Cons x xs)
      with raw ne(2) have "x = CHR ''/''" "xs \<noteq> []" by auto
      with Cons show ?thesis by (cases xs) auto
    qed (use ne in simp)
    moreover have "p = (if d then ''/'' else [])"
      using suc(3) True law by (simp add: nfc_law_def Let_def)
    ultimately show ?thesis
      using canonical [of "[]"] slashes law by (cases d) (auto simp: canon_def nfc_law_def)
  next
    case False
    then have ne': "abs_path (map nfc ss) \<noteq> ''/''"
      using canon_not_root(2) [OF safe_proper [OF safe], of False] by (simp add: canon_def)
    have "p = canon d (map nfc ss)"
      using suc(3) ne' False by (simp add: nfcp Let_def canon_def)
    moreover have "utf8_valid (abs_path (map nfc ss))" "nfc (abs_path (map nfc ss)) = abs_path (map nfc ss)"
      using law suc(2) unfolding nfcp [symmetric] nfc_law_def by blast+
    ultimately show ?thesis using canonical [OF safe] by blast
  qed
qed

section \<open>Parents and names of canonical paths\<close>

lemma TrimSuffix_canon:
  assumes "list_all proper_seg ss" "ss \<noteq> []"
  shows "TrimSuffix (canon e ss) ''/'' = abs_path ss"
  using assms abs_path_no_slash_suffix [OF assms] by (simp add: canon_def TrimSuffix_no)

lemma Clean_abs_path_slash:
  assumes "list_all proper_seg ss"
  shows "path_Clean (abs_path ss @ ''/'') = rooted ss"
proof -
  have "clean_segs True (split_on (CHR ''/'') (abs_path ss @ ''/'')) = ss"
  proof (cases "ss = []")
    case True
    then show ?thesis by (simp add: clean_segs_def clean_step_def)
  next
    case False
    have "clean_segs True (ss @ [[]]) = ss"
      using assms by (subst clean_segs_dotfree) (auto simp: list_all_iff proper_seg_def filter_id_conv)
    with split_abs_path [OF proper_no_slash [OF assms] False] show ?thesis
      by (simp add: split_on_append)
  qed
  moreover have "hd (abs_path ss @ ''/'') = CHR ''/''" by (cases ss) auto
  ultimately show ?thesis using Clean_rooted [of "abs_path ss @ ''/''"] by simp
qed

lemma ParentPath_canon:
  assumes "list_all proper_seg (ss @ [s])"
  shows "ParentPath (canon e (ss @ [s])) = canon True ss"
proof -
  have pr: "list_all proper_seg ss" and nosl: "CHR ''/'' \<notin> set s"
    using assms by (auto simp: proper_seg_def)
  have "path_Dir (TrimSuffix (canon e (ss @ [s])) ''/'') = rooted ss"
    using TrimSuffix_canon [OF assms, of e] upto_last_append [OF nosl, of "abs_path ss"]
      Clean_abs_path_slash [OF pr] by (simp add: path_Dir_def)
  moreover have "rooted ss \<noteq> ''.''" by (cases ss) (auto simp: rooted_def)
  moreover have "HasSuffix ''/'' ''/''" by (simp add: HasSuffix_iff)
  ultimately show ?thesis
    using canon_not_root(2) [OF assms, of e] abs_path_no_slash_suffix [OF pr]
    by (auto simp: ParentPath_def rooted_def canon_def)
qed

lemma dropWhile_not_hd: "(xs = [] \<or> \<not> P (hd xs)) \<Longrightarrow> dropWhile P xs = xs"
  by (cases xs) auto

lemma BaseName_canon:
  assumes "list_all proper_seg (ss @ [s])"
  shows "BaseName (canon e (ss @ [s])) = s"
proof -
  have nosl: "CHR ''/'' \<notin> set s" and ne: "s \<noteq> []" using assms by (auto simp: proper_seg_def)
  have "hd (rev (abs_path (ss @ [s]))) \<noteq> CHR ''/''"
    using nosl ne by (simp add: hd_append hd_rev) (metis last_in_set)
  then have "rev (dropWhile (\<lambda>x. x = CHR ''/'') (rev (abs_path (ss @ [s])))) = abs_path (ss @ [s])"
    by (subst dropWhile_not_hd) auto
  then have "path_Base (abs_path (ss @ [s])) = s"
    using after_last_append [OF nosl, of "abs_path ss"] ne
    by (auto simp: path_Base_def Let_def split: list.splits)
  then show ?thesis
    using canon_not_root(2) [OF assms, of e] TrimSuffix_canon [OF assms, of e]
    by (simp add: BaseName_def)
qed

lemma parentPath_canon:
  assumes "list_all proper_seg (ss @ [s])"
  shows "parentPath (canon e (ss @ [s])) = canon True ss"
proof -
  have nosl: "CHR ''/'' \<notin> set s" using assms by (auto simp: proper_seg_def)
  have "upto_last (CHR ''/'') (TrimSuffix (canon e (ss @ [s])) ''/'') = abs_path ss @ ''/''"
    using TrimSuffix_canon [OF assms, of e] upto_last_append [OF nosl, of "abs_path ss"] by simp
  moreover have "length (abs_path ss @ ''/'') \<le> 1 \<longleftrightarrow> ss = []" by simp
  ultimately show ?thesis
    using canon_not_root(2) [OF assms, of e] by (simp add: parentPath_def Let_def canon_def)
qed

lemma baseName_canon:
  assumes "list_all proper_seg (ss @ [s])"
  shows "baseName (canon e (ss @ [s])) = s"
proof -
  have "CHR ''/'' \<notin> set s" using assms by (auto simp: proper_seg_def)
  then show ?thesis
    using TrimSuffix_canon [OF assms, of e] after_last_append [of "CHR ''/''" s "abs_path ss"]
    by (simp add: baseName_def)
qed

lemma IsDir_canon:
  assumes "list_all proper_seg ss" "ss \<noteq> []"
  shows "IsDir (canon e ss) \<longleftrightarrow> e"
  using assms abs_path_no_slash_suffix [OF assms] canon_not_root(2) [OF assms, of e]
  by (auto simp: IsDir_def canon_def HasSuffix_iff)

section \<open>Properties\<close>

text \<open>
  C25: \<^verbatim>\<open>canonicalize\<close> returns either an error or a canonical path: the root, or a slash before
  every segment, no empty, dot or dot-dot segment, no backslash and no control character, and
  a trailing slash exactly for directories. The one exception is the code's own: the file
  variant maps a raw path of two or more slashes to the empty string.
\<close>
theorem canonicalize_canonical:
  assumes "nfc_law nfc" and "canonicalize nfc raw d = Inr p"
  shows "(\<exists>ss. list_all safe_seg ss \<and> p = canon d ss) \<or>
    (p = [] \<and> \<not> d \<and> 2 \<le> length raw \<and> set raw = {CHR ''/''})"
  using canonicalize_result [OF assms] by metis

theorem canonicalize_canonical_witness:
  "canonicalize (\<lambda>s. s) ''docs//a.md'' False = Inr ''/docs/a.md'' \<and>
   ((\<exists>ss. list_all safe_seg ss \<and> ''/docs/a.md'' = canon False ss) \<or>
    (''/docs/a.md'' = [] \<and> \<not> False \<and> 2 \<le> length ''docs//a.md'' \<and>
     set ''docs//a.md'' = {CHR ''/''}))"
proof -
  have h: "canonicalize (\<lambda>s. s) ''docs//a.md'' False = Inr ''/docs/a.md''"
    by code_simp
  show ?thesis using h canonicalize_canonical [OF nfc_law_id h] by blast
qed

text \<open>
  canonicalization is idempotent: a path it returned (other than the empty string of the
  all-slashes case) is accepted again and returned unchanged.
\<close>
theorem canonicalize_idempotent:
  assumes "nfc_law nfc" and "canonicalize nfc raw d = Inr p" and "p \<noteq> []"
  shows "canonicalize nfc p d = Inr p"
  using assms(1,2)
proof (cases rule: canonicalize_result)
  case (canonical ts)
  show ?thesis
  proof (cases "ts = []")
    case True
    with canonical(2) show ?thesis by (simp add: canon_def canonicalize_def)
  next
    case False
    with canonical show ?thesis using canonicalize_canon [of ts nfc d d] by simp
  qed
next
  case slashes
  with assms(3) show ?thesis by simp
qed

theorem canonicalize_idempotent_witness:
  "canonicalize (\<lambda>s. s) ''docs//a/'' True = Inr ''/docs/a/'' \<and>
   canonicalize (\<lambda>s. s) ''/docs/a/'' True = Inr ''/docs/a/''"
proof -
  have h: "canonicalize (\<lambda>s. s) ''docs//a/'' True = Inr ''/docs/a/''"
    by code_simp
  show ?thesis using h canonicalize_idempotent [OF nfc_law_id h] by simp
qed

text \<open>
  a canonical path other than the root is its parent directory followed by its base name
  (and the directory slash); the parent is again canonical, and the datastore's private
  \<^verbatim>\<open>parentPath\<close> and \<^verbatim>\<open>baseName\<close> compute the same two strings as \<^verbatim>\<open>pathutil\<close>.
\<close>
theorem parent_base_decompose:
  assumes "list_all safe_seg ss" and "ss \<noteq> []"
  shows "ParentPath (canon d ss) @ BaseName (canon d ss) @ (if IsDir (canon d ss) then ''/'' else []) =
      canon d ss \<and>
    ParentPath (canon d ss) = canon True (butlast ss) \<and> BaseName (canon d ss) = last ss \<and>
    parentPath (canon d ss) = ParentPath (canon d ss) \<and> baseName (canon d ss) = BaseName (canon d ss)"
proof -
  obtain ts t where ss: "ss = ts @ [t]" using assms(2) by (metis rev_exhaust)
  have pr: "list_all proper_seg (ts @ [t])" using safe_proper [OF assms(1)] by (simp add: ss)
  show ?thesis
    using ParentPath_canon [OF pr, of d] BaseName_canon [OF pr, of d] IsDir_canon [OF pr, of d]
      parentPath_canon [OF pr, of d] baseName_canon [OF pr, of d]
    by (simp add: ss canon_def)
qed

theorem parent_base_decompose_witness:
  "ParentPath ''/docs/a.md'' = canon True [''docs''] \<and> BaseName ''/docs/a.md'' = ''a.md'' \<and>
   parentPath ''/docs/a.md'' = canon True [''docs'']"
proof -
  have safe: "list_all safe_seg [''docs'', ''a.md'']"
    by code_simp
  have c: "canon False [''docs'', ''a.md''] = ''/docs/a.md''"
    by code_simp
  show ?thesis
    using parent_base_decompose [OF safe, of False] by (simp add: c)
qed

end
