(* ===== verification/Mount_Path.thy ===== *)
theory Mount_Path
  imports Path_Util
begin

text \<open>
  The path mapping of a mount (\<^verbatim>\<open>pkg/mountpath/mountpath.go\<close>): a local path below the mount point
  and a remote path below the mounted subtree. The FUSE and the WebDAV mount both translate every
  request through \<^verbatim>\<open>ToRemote\<close>, so that a request cannot name anything outside the subtree, and
  every listing back through \<^verbatim>\<open>ToLocal\<close>.
\<close>

section \<open>Model\<close>

datatype root_error = NotAbsolute | InvalidRoot path_error

definition NormalizeRoot :: "(string \<Rightarrow> string) \<Rightarrow> string \<Rightarrow> root_error + string" where
  "NormalizeRoot nfc root =
    (if root = [] then Inr ''/''
     else if \<not> HasPrefix root ''/'' then Inl NotAbsolute
     else case Canonicalize nfc root of
       Inl e \<Rightarrow> Inl (InvalidRoot e)
     | Inr cleaned \<Rightarrow> Inr cleaned)"

definition ToRemote :: "string \<Rightarrow> string \<Rightarrow> string" where
  "ToRemote remoteRoot localPath =
    (let local = path_Clean (''/'' @ localPath) in
     if remoteRoot = ''/'' then local
     else if local = ''/'' then remoteRoot
     else remoteRoot @ local)"

text \<open>The second result of \<^verbatim>\<open>ToLocal\<close>, whether the path is in scope, is the \<^const>\<open>Some\<close>.\<close>

definition ToLocal :: "string \<Rightarrow> string \<Rightarrow> string option" where
  "ToLocal remoteRoot remotePath =
    (let remote = path_Clean remotePath; prefix = remoteRoot @ ''/'' in
     if remoteRoot = ''/'' then Some remote
     else if remote = remoteRoot then Some ''/''
     else if HasPrefix remote prefix then Some (''/'' @ drop (length prefix) remote)
     else None)"

section \<open>The mapping on segment lists\<close>

lemma local_segs:
  obtains ls where "list_all proper_seg ls" "path_Clean (''/'' @ l) = rooted ls"
  using Clean_rooted_proper [of "''/'' @ l"] by auto

lemma abs_path_append [simp]: "abs_path (ss @ ts) = abs_path ss @ abs_path ts"
  by (simp add: abs_path_def)

lemma rooted_eq_root [simp]: "list_all proper_seg ss \<Longrightarrow> rooted ss = ''/'' \<longleftrightarrow> ss = []"
  using canon_not_root(2) [of ss False] by (cases "ss = []") (auto simp: rooted_def canon_def)

lemma abs_path_ne_root: "list_all proper_seg ss \<Longrightarrow> abs_path ss \<noteq> ''/''"
  using canon_not_root(2) [of ss False] by (cases "ss = []") (auto simp: canon_def)

lemma split_rooted: "list_all proper_seg ss \<Longrightarrow> ss \<noteq> [] \<Longrightarrow> split_on (CHR ''/'') (abs_path ss) = [] # ss"
  by (rule split_abs_path) (auto dest: proper_no_slash)

lemma ToRemote_segs:
  assumes "list_all proper_seg rs" "list_all proper_seg ls" "path_Clean (''/'' @ l) = rooted ls"
  shows "ToRemote (rooted rs) l = rooted (rs @ ls)"
  using assms by (auto simp: ToRemote_def Let_def rooted_def abs_path_ne_root)

lemma rooted_prefix_cases:
  assumes "list_all proper_seg rs" "list_all proper_seg ps" "rs \<noteq> []"
  shows "HasPrefix (rooted ps) (rooted rs @ ''/'') \<longleftrightarrow> (\<exists>ts. ts \<noteq> [] \<and> ps = rs @ ts)"
proof
  assume "HasPrefix (rooted ps) (rooted rs @ ''/'')"
  then obtain u where u: "rooted ps = abs_path rs @ CHR ''/'' # u"
    using assms(3) by (auto simp: HasPrefix_iff rooted_def)
  have "ps \<noteq> []" using u assms(3) by (cases rs) (auto simp: rooted_def)
  then have "[] # ps = split_on (CHR ''/'') (abs_path rs) @ split_on (CHR ''/'') u"
    using u split_rooted [OF assms(2)] by (simp add: rooted_def flip: split_on_append)
  then have "ps = rs @ split_on (CHR ''/'') u"
    using split_rooted [OF assms(1,3)] by simp
  moreover have "split_on (CHR ''/'') u \<noteq> []" by (cases u) (auto split: list.splits)
  ultimately show "\<exists>ts. ts \<noteq> [] \<and> ps = rs @ ts" by blast
next
  assume "\<exists>ts. ts \<noteq> [] \<and> ps = rs @ ts"
  then obtain t ts where "ps = rs @ t # ts" by (metis neq_Nil_conv)
  then show "HasPrefix (rooted ps) (rooted rs @ ''/'')"
    using assms(3) by (auto simp: HasPrefix_iff rooted_def)
qed

lemma ToLocal_segs:
  assumes "list_all proper_seg rs" "list_all proper_seg ps" "path_Clean p = rooted ps"
  shows "ToLocal (rooted rs) p =
    (if \<exists>ts. ps = rs @ ts then Some (rooted (drop (length rs) ps)) else None)"
proof (cases "rs = []")
  case True
  with assms show ?thesis by (simp add: ToLocal_def Let_def)
next
  case False
  have inj: "rooted ps = rooted rs \<longleftrightarrow> ps = rs"
  proof
    assume eq: "rooted ps = rooted rs"
    then have "ps \<noteq> []" using False abs_path_ne_root [OF assms(1)] by (auto simp: rooted_def)
    with eq False show "ps = rs"
      using split_rooted [OF assms(1) False] split_rooted [OF assms(2)] by (simp add: rooted_def)
  qed simp
  show ?thesis
  proof (cases "\<exists>ts. ts \<noteq> [] \<and> ps = rs @ ts")
    case True
    then obtain t ts where "ps = rs @ t # ts" by (metis neq_Nil_conv)
    with assms False True inj rooted_prefix_cases [OF assms(1,2) False] show ?thesis
      by (simp add: ToLocal_def Let_def rooted_def abs_path_ne_root)
  next
    case none: False
    then show ?thesis
      using assms False inj rooted_prefix_cases [OF assms(1,2) False]
      by (auto simp: ToLocal_def Let_def rooted_def abs_path_ne_root)
  qed
qed

section \<open>Properties\<close>

text \<open>
  C26: with a normalized mount root, whatever local path a client sends (dot-dot segments included),
  the remote path is the root followed by proper segments: no request leaves the mounted subtree.
\<close>
theorem ToRemote_confined:
  assumes "list_all proper_seg rs"
  shows "\<exists>ts. list_all proper_seg ts \<and> ToRemote (rooted rs) localPath = rooted (rs @ ts)"
  using local_segs [of localPath] ToRemote_segs [OF assms] by metis

theorem ToRemote_confined_witness:
  "\<exists>ts. list_all proper_seg ts \<and> ToRemote (rooted [''team'']) ''../../etc'' = rooted ([''team''] @ ts)"
  by (rule ToRemote_confined) code_simp



text \<open>
  \<^verbatim>\<open>NormalizeRoot\<close> accepts only absolute roots and returns the root or a slash-joined list of
  safe segments, the form the two mappings rely on; the exception is again a root of several
  slashes, which becomes the empty string.
\<close>
theorem NormalizeRoot_normal:
  assumes "nfc_law nfc" and "NormalizeRoot nfc root = Inr r"
  shows "(\<exists>rs. list_all safe_seg rs \<and> r = rooted rs) \<or>
    (r = [] \<and> 2 \<le> length root \<and> set root = {CHR ''/''})"
proof (cases "root = []")
  case True
  with assms(2) have "r = rooted []" by (simp add: NormalizeRoot_def rooted_def)
  then show ?thesis by (intro disjI1 exI [of _ "[]"]) simp
next
  case False
  with assms(2) have "canonicalize nfc root False = Inr r"
    by (auto simp: NormalizeRoot_def Canonicalize_def split: sum.splits if_splits)
  with assms(1) show ?thesis
  proof (cases rule: canonicalize_result)
    case (canonical ts)
    then have "r = rooted ts" by (simp add: canon_def rooted_def)
    with canonical(1) show ?thesis by blast
  qed simp
qed

theorem NormalizeRoot_normal_witness:
  "NormalizeRoot (\<lambda>s. s) ''/team//docs/'' = Inr ''/team/docs'' \<and>
   ((\<exists>rs. list_all safe_seg rs \<and> ''/team/docs'' = rooted rs) \<or>
    (''/team/docs'' = [] \<and> 2 \<le> length ''/team//docs/'' \<and> set ''/team//docs/'' = {CHR ''/''}))"
proof -
  have h: "NormalizeRoot (\<lambda>s. s) ''/team//docs/'' = Inr ''/team/docs''" by code_simp
  show ?thesis using h NormalizeRoot_normal [OF nfc_law_id h] by blast
qed

end
