(* ===== verification/Inode_Map.thy ===== *)
theory Inode_Map
  imports Go_Strings
begin

text \<open>
  The inode table of a mount (\<^verbatim>\<open>pkg/fuse/inode.go\<close>, type \<^verbatim>\<open>InodeToPath\<close>): two maps, from inode number to
  entry and from path to inode number, that the FUSE handlers keep in step. An operation that follows
  a number of one map into the other dereferences the entry without a check, so those operations
  return an option here: \<^const>\<open>None\<close> is the nil dereference that the invariant excludes.
\<close>

section \<open>State\<close>

record inode_entry =
  Ino :: nat
  Path :: string
  IsDir :: bool
  Nlookup :: int
  Size :: int
  Mtime :: int
  Mode :: nat
  HasMode :: bool
  Revision :: int

record inode_to_path =
  byInode :: "(nat, inode_entry) gomap"
  byPath :: "(string, nat) gomap"
  nextIno :: nat

definition new_entry :: "nat \<Rightarrow> string \<Rightarrow> bool \<Rightarrow> int \<Rightarrow> int \<Rightarrow> int \<Rightarrow> inode_entry" where
  "new_entry ino path isDir nl sz mtime =
    \<lparr>Ino = ino, Path = path, IsDir = isDir, Nlookup = nl, Size = sz, Mtime = mtime,
     Mode = 0, HasMode = False, Revision = 0\<rparr>"

definition NewInodeToPath :: inode_to_path where
  "NewInodeToPath =
    \<lparr>byInode = [(1, new_entry 1 ''/'' True 1 0 0)], byPath = [(''/'', 1)], nextIno = 2\<rparr>"

section \<open>Operations\<close>

definition put_entry :: "inode_to_path \<Rightarrow> inode_entry \<Rightarrow> nat \<Rightarrow> inode_to_path" where
  "put_entry m e ino = m\<lparr>byInode := AList.update ino e (byInode m)\<rparr>"

definition drop_entry :: "inode_to_path \<Rightarrow> string \<Rightarrow> nat \<Rightarrow> inode_to_path" where
  "drop_entry m path ino =
    m\<lparr>byPath := AList.delete path (byPath m), byInode := AList.delete ino (byInode m)\<rparr>"

text \<open>\<^verbatim>\<open>Lookup\<close> and \<^verbatim>\<open>EnsureInode\<close>, which differ in the lookup references they add.\<close>

definition find_or_add ::
  "int \<Rightarrow> inode_to_path \<Rightarrow> string \<Rightarrow> bool \<Rightarrow> int \<Rightarrow> int \<Rightarrow> (inode_to_path \<times> nat) option" where
  "find_or_add refs m path isDir sz mtime =
    (case map_of (byPath m) path of
      Some ino \<Rightarrow>
        (case map_of (byInode m) ino of
          None \<Rightarrow> None
        | Some e \<Rightarrow>
            Some (put_entry m (e\<lparr>Nlookup := Nlookup e + refs, Size := sz, Mtime := mtime\<rparr>) ino, ino))
    | None \<Rightarrow>
        let ino = nextIno m in
        Some (m\<lparr>nextIno := ino + 1,
                byInode := AList.update ino (new_entry ino path isDir refs sz mtime) (byInode m),
                byPath := AList.update path ino (byPath m)\<rparr>, ino))"

definition Lookup :: "inode_to_path \<Rightarrow> string \<Rightarrow> bool \<Rightarrow> int \<Rightarrow> int \<Rightarrow> (inode_to_path \<times> nat) option" where
  "Lookup m path isDir sz mtime = find_or_add 1 m path isDir sz mtime"

definition EnsureInode :: "inode_to_path \<Rightarrow> string \<Rightarrow> bool \<Rightarrow> int \<Rightarrow> int \<Rightarrow> (inode_to_path \<times> nat) option" where
  "EnsureInode m path isDir sz mtime = find_or_add 0 m path isDir sz mtime"

definition modify_entry :: "inode_to_path \<Rightarrow> nat \<Rightarrow> (inode_entry \<Rightarrow> inode_entry) \<Rightarrow> inode_to_path" where
  "modify_entry m ino f =
    (case map_of (byInode m) ino of None \<Rightarrow> m | Some e \<Rightarrow> put_entry m (f e) ino)"

definition IncrementLookup :: "inode_to_path \<Rightarrow> nat \<Rightarrow> inode_to_path \<times> bool" where
  "IncrementLookup m ino =
    (modify_entry m ino (\<lambda>e. e\<lparr>Nlookup := Nlookup e + 1\<rparr>), mem_key (byInode m) ino)"

definition GetPath :: "inode_to_path \<Rightarrow> nat \<Rightarrow> string option" where
  "GetPath m ino = map_option Path (map_of (byInode m) ino)"

definition GetInode :: "inode_to_path \<Rightarrow> string \<Rightarrow> nat option" where
  "GetInode m path = map_of (byPath m) path"

definition GetEntry :: "inode_to_path \<Rightarrow> nat \<Rightarrow> inode_entry option" where
  "GetEntry m ino = map_of (byInode m) ino"

definition Forget :: "inode_to_path \<Rightarrow> nat \<Rightarrow> nat \<Rightarrow> inode_to_path" where
  "Forget m ino nlookup =
    (case map_of (byInode m) ino of
      None \<Rightarrow> m
    | Some e \<Rightarrow>
        let n = Nlookup e - int nlookup in
        if n \<le> 0 \<and> ino \<noteq> 1 then
          if IsDir e then put_entry m (e\<lparr>Nlookup := 0\<rparr>) ino else drop_entry m (Path e) ino
        else put_entry m (e\<lparr>Nlookup := n\<rparr>) ino)"

definition ForgetKeepMapping :: "inode_to_path \<Rightarrow> nat \<Rightarrow> nat \<Rightarrow> inode_to_path" where
  "ForgetKeepMapping m ino nlookup =
    modify_entry m ino (\<lambda>e. let n = Nlookup e - int nlookup in e\<lparr>Nlookup := (if n < 0 then 0 else n)\<rparr>)"

definition RemoveFileIfUnreferenced :: "inode_to_path \<Rightarrow> nat \<Rightarrow> inode_to_path \<times> bool" where
  "RemoveFileIfUnreferenced m ino =
    (case map_of (byInode m) ino of
      None \<Rightarrow> (m, False)
    | Some e \<Rightarrow>
        if ino = 1 \<or> IsDir e \<or> 0 < Nlookup e then (m, False)
        else (drop_entry m (Path e) ino, True))"

definition UpdateSize :: "inode_to_path \<Rightarrow> nat \<Rightarrow> int \<Rightarrow> inode_to_path" where
  "UpdateSize m ino sz = modify_entry m ino (\<lambda>e. e\<lparr>Size := sz\<rparr>)"

definition UpdateMtime :: "inode_to_path \<Rightarrow> nat \<Rightarrow> int \<Rightarrow> inode_to_path" where
  "UpdateMtime m ino mtime = modify_entry m ino (\<lambda>e. e\<lparr>Mtime := mtime\<rparr>)"

definition UpdateRevision :: "inode_to_path \<Rightarrow> nat \<Rightarrow> int \<Rightarrow> inode_to_path" where
  "UpdateRevision m ino revision = modify_entry m ino (\<lambda>e. e\<lparr>Revision := revision\<rparr>)"

definition UpdateMode :: "inode_to_path \<Rightarrow> nat \<Rightarrow> nat \<Rightarrow> inode_to_path" where
  "UpdateMode m ino mode = modify_entry m ino (\<lambda>e. e\<lparr>Mode := mode, HasMode := True\<rparr>)"

text \<open>\<^verbatim>\<open>Rename\<close>: the entry itself, then every cached descendant of a directory.\<close>

definition child_path :: "string \<Rightarrow> string \<Rightarrow> string \<Rightarrow> string" where
  "child_path oldPath newPath p = newPath @ ''/'' @ TrimPrefix p (oldPath @ ''/'')"

definition rename_child ::
  "string \<Rightarrow> string \<Rightarrow> inode_to_path option \<Rightarrow> string \<times> nat \<Rightarrow> inode_to_path option" where
  "rename_child oldPath newPath om = (\<lambda>(p, cIno).
    case om of
      None \<Rightarrow> None
    | Some m \<Rightarrow>
        (case map_of (byInode m) cIno of
          None \<Rightarrow> None
        | Some e \<Rightarrow>
            let q = child_path oldPath newPath p in
            Some (m\<lparr>byPath := AList.update q cIno (AList.delete p (byPath m)),
                    byInode := AList.update cIno (e\<lparr>Path := q\<rparr>) (byInode m)\<rparr>)))"

definition rename_self :: "inode_to_path \<Rightarrow> string \<Rightarrow> string \<Rightarrow> nat \<Rightarrow> inode_entry \<Rightarrow> inode_to_path" where
  "rename_self m oldPath newPath ino e =
    (let bp = AList.delete oldPath (byPath m);
         bi = (case map_of bp newPath of
                 None \<Rightarrow> byInode m
               | Some replaced \<Rightarrow> if replaced \<noteq> ino then AList.delete replaced (byInode m) else byInode m)
     in m\<lparr>byPath := AList.update newPath ino bp, byInode := AList.update ino (e\<lparr>Path := newPath\<rparr>) bi\<rparr>)"

definition Rename :: "inode_to_path \<Rightarrow> string \<Rightarrow> string \<Rightarrow> inode_to_path option" where
  "Rename m oldPath newPath =
    (case map_of (byPath m) oldPath of
      None \<Rightarrow> Some m
    | Some ino \<Rightarrow>
        (case map_of (byInode m) ino of
          None \<Rightarrow> None
        | Some e \<Rightarrow>
            let m1 = rename_self m oldPath newPath ino e in
            if IsDir e then
              foldl (rename_child oldPath newPath) (Some m1)
                (filter (\<lambda>(p, i). HasPrefix p (oldPath @ ''/'')) (byPath m1))
            else Some m1))"

definition Snapshot :: "inode_to_path \<Rightarrow> inode_entry list" where
  "Snapshot m = map snd (byInode m)"

definition Remove :: "inode_to_path \<Rightarrow> string \<Rightarrow> inode_to_path" where
  "Remove m path =
    (case map_of (byPath m) path of None \<Rightarrow> m | Some ino \<Rightarrow> drop_entry m path ino)"

section \<open>Invariant\<close>

text \<open>The two maps are inverse to each other, and fresh numbers are fresh.\<close>

definition im_inv :: "inode_to_path \<Rightarrow> bool" where
  "im_inv m \<longleftrightarrow> wf_map (byInode m) \<and> wf_map (byPath m) \<and>
    (\<forall>p i. map_of (byPath m) p = Some i \<longrightarrow> (\<exists>e. map_of (byInode m) i = Some e \<and> Path e = p)) \<and>
    (\<forall>i e. map_of (byInode m) i = Some e \<longrightarrow>
      Ino e = i \<and> i < nextIno m \<and> map_of (byPath m) (Path e) = Some i)"

lemma im_invD:
  assumes "im_inv m"
  shows "wf_map (byInode m)" "wf_map (byPath m)"
    "map_of (byPath m) p = Some i \<Longrightarrow> \<exists>e. map_of (byInode m) i = Some e \<and> Path e = p"
    "map_of (byInode m) i = Some e \<Longrightarrow> Ino e = i" "map_of (byInode m) i = Some e \<Longrightarrow> i < nextIno m"
    "map_of (byInode m) i = Some e \<Longrightarrow> map_of (byPath m) (Path e) = Some i"
  using assms by (auto simp: im_inv_def)

lemma im_inv_new: "im_inv NewInodeToPath"
  by (auto simp: im_inv_def NewInodeToPath_def new_entry_def wf_map_def split: if_splits)

lemma im_inv_put:
  assumes "im_inv m" "map_of (byInode m) ino = Some e" "Path e' = Path e" "Ino e' = Ino e"
  shows "im_inv (put_entry m e' ino)"
proof -
  have "Path e = p" if "map_of (byPath m) p = Some ino" for p
    using im_invD(3) [OF assms(1) that] assms(2) by auto
  with assms show ?thesis unfolding im_inv_def put_entry_def by auto
qed

lemma im_inv_drop:
  assumes "im_inv m" "map_of (byInode m) ino = Some e"
  shows "im_inv (drop_entry m (Path e) ino)"
  using assms im_invD(6) [OF assms] unfolding im_inv_def drop_entry_def
  by (auto simp: wf_map_delete split: if_splits) (metis option.inject)+

lemma im_inv_modify:
  assumes "im_inv m" "\<And>e. Path (f e) = Path e" "\<And>e. Ino (f e) = Ino e"
  shows "im_inv (modify_entry m ino f)"
  using assms im_inv_put [OF assms(1)] by (auto simp: modify_entry_def split: option.splits)

lemma find_or_add_total:
  assumes "im_inv m"
  shows "find_or_add refs m path isDir sz mtime \<noteq> None"
  using im_invD(3) [OF assms, of path]
  by (cases "map_of (byPath m) path") (auto simp: find_or_add_def Let_def)

lemma im_inv_find_or_add:
  assumes "im_inv m" "find_or_add refs m path isDir sz mtime = Some (m', ino)"
  shows "im_inv m'"
proof (cases "map_of (byPath m) path")
  case (Some i)
  then obtain e where e: "map_of (byInode m) i = Some e" using im_invD(3) [OF assms(1)] by blast
  with Some assms show ?thesis by (auto simp: find_or_add_def intro: im_inv_put)
next
  case None
  have fresh: "map_of (byInode m) (nextIno m) = None"
    using im_invD(5) [OF assms(1), of "nextIno m"] by (cases "map_of (byInode m) (nextIno m)") auto
  have "Path e \<noteq> path" if "map_of (byInode m) i = Some e" for i e
    using im_invD(6) [OF assms(1) that] None by auto
  moreover have "m' = m\<lparr>nextIno := nextIno m + 1,
      byInode := AList.update (nextIno m) (new_entry (nextIno m) path isDir refs sz mtime) (byInode m),
      byPath := AList.update path (nextIno m) (byPath m)\<rparr>"
    using assms(2) None by (auto simp: find_or_add_def Let_def)
  moreover have "map_of (byPath m) p \<noteq> Some (nextIno m)" for p
    using im_invD(3) [OF assms(1), of p "nextIno m"] fresh by auto
  ultimately show ?thesis
    using assms(1) None fresh unfolding im_inv_def by (auto simp: new_entry_def less_SucI)
qed

section \<open>Renaming\<close>

lemma rename_self_maps:
  fixes newPath :: string
  assumes inv: "im_inv m" and p: "map_of (byPath m) oldPath = Some ino" "map_of (byInode m) ino = Some e"
  defines "m' \<equiv> rename_self m oldPath newPath ino e"
  shows "map_of (byPath m') = (map_of (byPath m))(oldPath := None, newPath \<mapsto> ino)"
    and "map_of (byInode m') i =
      (if i = ino then Some (e\<lparr>Path := newPath\<rparr>)
       else case map_of (byInode m) i of None \<Rightarrow> None | Some x \<Rightarrow> if Path x = newPath then None else Some x)"
    and "nextIno m' = nextIno m" "wf_map (byPath m')" "wf_map (byInode m')"
proof -
  show "map_of (byPath m') = (map_of (byPath m))(oldPath := None, newPath \<mapsto> ino)"
    and "nextIno m' = nextIno m" and "wf_map (byPath m')" and "wf_map (byInode m')"
    using im_invD(1,2) [OF inv] by (auto simp: m'_def rename_self_def Let_def split: option.splits)
  define r where "r = map_of (AList.delete oldPath (byPath m)) newPath"
  show "map_of (byInode m') i =
      (if i = ino then Some (e\<lparr>Path := newPath\<rparr>)
       else case map_of (byInode m) i of None \<Rightarrow> None | Some x \<Rightarrow> if Path x = newPath then None else Some x)"
  proof (cases "i = ino")
    case True
    then show ?thesis by (simp add: m'_def rename_self_def Let_def)
  next
    case False
    have r: "Path x = newPath \<longleftrightarrow> r = Some i" if "map_of (byInode m) i = Some x" for x
      using im_invD(6) [OF inv that] im_invD(3) [OF inv, of newPath i] that p(1) False by (auto simp: r_def)
    have "map_of (byInode m') i = (if r = Some i then None else map_of (byInode m) i)"
      using False by (auto simp: m'_def rename_self_def Let_def r_def split: option.splits if_splits)
    with r False show ?thesis by (cases "map_of (byInode m) i") auto
  qed
qed

lemma im_inv_rename_self:
  assumes inv: "im_inv m" and p: "map_of (byPath m) oldPath = Some ino" "map_of (byInode m) ino = Some e"
  shows "im_inv (rename_self m oldPath newPath ino e)"
proof -
  note mm = rename_self_maps [OF inv p, of newPath]
  have old: "Path e = oldPath" "Ino e = ino" "ino < nextIno m"
    using im_invD(3) [OF inv p(1)] im_invD(4,5) [OF inv p(2)] p(2) by auto
  have neq: "Path x \<noteq> oldPath" if "map_of (byInode m) i = Some x" "i \<noteq> ino" for i x
    using im_invD(6) [OF inv that(1)] that(2) p(1) by auto
  have a: "\<exists>e'. map_of (byInode (rename_self m oldPath newPath ino e)) i = Some e' \<and> Path e' = q"
    if "map_of (byPath (rename_self m oldPath newPath ino e)) q = Some i" for q i
  proof (cases "q = newPath")
    case True
    with that mm(1,2) show ?thesis by auto
  next
    case False
    then have "map_of (byPath m) q = Some i" "q \<noteq> oldPath" using that mm(1) by (auto split: if_splits)
    moreover from this obtain x where "map_of (byInode m) i = Some x" "Path x = q"
      using im_invD(3) [OF inv] by blast
    ultimately show ?thesis using False mm(2) [of i] p old by auto
  qed
  have b: "Ino x = i \<and> i < nextIno m \<and> map_of (byPath (rename_self m oldPath newPath ino e)) (Path x) = Some i"
    if "map_of (byInode (rename_self m oldPath newPath ino e)) i = Some x" for i x
  proof (cases "i = ino")
    case True
    with that mm(1,2) old show ?thesis by auto
  next
    case False
    then have "map_of (byInode m) i = Some x" "Path x \<noteq> newPath"
      using that mm(2) [of i] by (auto split: option.splits if_splits)
    with neq [OF _ False] im_invD(4-6) [OF inv] mm(1) show ?thesis by auto
  qed
  show ?thesis unfolding im_inv_def using a b mm(3-5) by auto
qed

lemma rename_child_self:
  assumes "map_of (byPath m) p = Some i" "map_of (byInode m) i = Some e"
    and "map_of (byPath m) (child_path oldPath newPath p) = None"
  shows "rename_child oldPath newPath (Some m) (p, i) =
    Some (rename_self m p (child_path oldPath newPath p) i e)"
proof -
  have "p \<noteq> child_path oldPath newPath p" using assms by auto
  with assms show ?thesis by (auto simp: rename_child_def rename_self_def Let_def)
qed

lemma child_path_inj:
  assumes "HasPrefix p (a @ ''/'')" "HasPrefix q (a @ ''/'')" "child_path a b p = child_path a b q"
  shows "p = q"
proof -
  obtain s t where "p = (a @ ''/'') @ s" "q = (a @ ''/'') @ t" using assms(1,2) by (auto simp: HasPrefix_iff)
  with assms(3) show ?thesis by (simp add: child_path_def TrimPrefix_append del: append_assoc)
qed

text \<open>Moving the cached children, one at a time, to places that are free.\<close>

lemma rename_children:
  assumes "im_inv m" "distinct (map fst cs)"
    and "\<And>p i. (p, i) \<in> set cs \<Longrightarrow> map_of (byPath m) p = Some i \<and> HasPrefix p (a @ ''/'') \<and>
      map_of (byPath m) (child_path a b p) = None"
  shows "\<exists>m'. foldl (rename_child a b) (Some m) cs = Some m' \<and> im_inv m' \<and> nextIno m' = nextIno m \<and>
    (\<forall>i. map_of (byInode m') i = (case map_of (byInode m) i of
      None \<Rightarrow> None
    | Some e \<Rightarrow> Some (if i \<in> snd ` set cs then e\<lparr>Path := child_path a b (Path e)\<rparr> else e)))"
  using assms
proof (induction cs arbitrary: m)
  case Nil
  then show ?case by (auto split: option.splits)
next
  case (Cons c cs)
  obtain p i where c: "c = (p, i)" by (cases c)
  have p: "map_of (byPath m) p = Some i" "HasPrefix p (a @ ''/'')" "map_of (byPath m) (child_path a b p) = None"
    using Cons.prems(3) [of p i] c by auto
  obtain e where e: "map_of (byInode m) i = Some e" "Path e = p"
    using im_invD(3) [OF Cons.prems(1) p(1)] by blast
  define m1 where "m1 = rename_self m p (child_path a b p) i e"
  have step: "rename_child a b (Some m) c = Some m1"
    using rename_child_self [OF p(1) e(1) p(3)] by (simp add: c m1_def)
  note mm = rename_self_maps [OF Cons.prems(1) p(1) e(1), of "child_path a b p", folded m1_def]
  have inv1: "im_inv m1" unfolding m1_def by (rule im_inv_rename_self [OF Cons.prems(1) p(1) e(1)])
  have "map_of (byPath m1) p' = Some i' \<and> HasPrefix p' (a @ ''/'') \<and> map_of (byPath m1) (child_path a b p') = None"
    if "(p', i') \<in> set cs" for p' i'
  proof -
    have old: "map_of (byPath m) p' = Some i'" "HasPrefix p' (a @ ''/'')"
        "map_of (byPath m) (child_path a b p') = None"
      using Cons.prems(3) [of p' i'] that by auto
    have "p' \<noteq> p" using Cons.prems(2) that c by force
    then have "child_path a b p' \<noteq> child_path a b p" using child_path_inj [OF old(2) p(2)] by blast
    with old p \<open>p' \<noteq> p\<close> show ?thesis using mm(1) by auto
  qed
  then obtain m' where m': "foldl (rename_child a b) (Some m1) cs = Some m'" "im_inv m'" "nextIno m' = nextIno m1"
      "\<And>j. map_of (byInode m') j = (case map_of (byInode m1) j of None \<Rightarrow> None
        | Some e \<Rightarrow> Some (if j \<in> snd ` set cs then e\<lparr>Path := child_path a b (Path e)\<rparr> else e))"
    using Cons.IH [OF inv1] Cons.prems(2) by auto
  have nin: "i \<notin> snd ` set cs"
  proof
    assume "i \<in> snd ` set cs"
    then obtain p' where p': "(p', i) \<in> set cs" by auto
    then have "map_of (byPath m) p' = Some i" using Cons.prems(3) [of p' i] by auto
    then have "p' = p" using im_invD(3) [OF Cons.prems(1)] e by fastforce
    with Cons.prems(2) p' c show False by force
  qed
  have free: "Path x \<noteq> child_path a b p" if "map_of (byInode m) j = Some x" for j x
    using im_invD(6) [OF Cons.prems(1) that] p(3) by auto
  have "map_of (byInode m') j = (case map_of (byInode m) j of None \<Rightarrow> None
      | Some e \<Rightarrow> Some (if j \<in> snd ` set (c # cs) then e\<lparr>Path := child_path a b (Path e)\<rparr> else e))" for j
    using m'(4) [of j] mm(2) [of j] free nin e c by (auto split: option.splits)
  with m' mm(3) step show ?case by auto
qed

text \<open>The target of a directory rename has no cached descendants and is not below the source.\<close>

definition rename_free :: "inode_to_path \<Rightarrow> string \<Rightarrow> string \<Rightarrow> bool" where
  "rename_free m oldPath newPath \<longleftrightarrow>
    list_all (\<lambda>(p, i). \<not> HasPrefix p (newPath @ ''/'')) (byPath m) \<and> \<not> HasPrefix newPath (oldPath @ ''/'')"

definition renamed :: "inode_entry \<Rightarrow> string \<Rightarrow> string \<Rightarrow> string \<Rightarrow> string" where
  "renamed e oldPath newPath p =
    (if p = oldPath then newPath
     else if IsDir e \<and> HasPrefix p (oldPath @ ''/'') then child_path oldPath newPath p else p)"

lemma child_path_prefix: "HasPrefix (child_path a b p) (b @ ''/'')"
  by (simp add: child_path_def HasPrefix_iff)

lemma Rename_spec:
  assumes inv: "im_inv m" and p: "map_of (byPath m) oldPath = Some ino" "map_of (byInode m) ino = Some e"
    and free: "IsDir e \<Longrightarrow> rename_free m oldPath newPath"
  shows "\<exists>m'. Rename m oldPath newPath = Some m' \<and> im_inv m' \<and> nextIno m' = nextIno m \<and>
    (\<forall>i x. map_of (byInode m) i = Some x \<longrightarrow> (Path x \<noteq> newPath \<or> i = ino) \<longrightarrow>
      map_of (byInode m') i = Some (x\<lparr>Path := renamed e oldPath newPath (Path x)\<rparr>))"
proof -
  define m1 where "m1 = rename_self m oldPath newPath ino e"
  note mm = rename_self_maps [OF inv p, of newPath, folded m1_def]
  have inv1: "im_inv m1" unfolding m1_def by (rule im_inv_rename_self [OF inv p])
  have old: "Path e = oldPath" using im_invD(3) [OF inv p(1)] p(2) by auto
  have same: "i = ino" if "map_of (byInode m) i = Some x" "Path x = oldPath" for i x
    using im_invD(6) [OF inv that(1)] that(2) p(1) by auto
  show ?thesis
  proof (cases "IsDir e")
    case False
    have "Rename m oldPath newPath = Some m1" using p False by (simp add: Rename_def m1_def)
    moreover have "map_of (byInode m1) i = Some (x\<lparr>Path := renamed e oldPath newPath (Path x)\<rparr>)"
      if "map_of (byInode m) i = Some x" "Path x \<noteq> newPath \<or> i = ino" for i x
      using that p(2) old same [OF that(1)] False mm(2) [of i] by (cases "i = ino") (auto simp: renamed_def)
    ultimately show ?thesis using inv1 mm(3) by auto
  next
    case True
    let ?cs = "filter (\<lambda>(p, i). HasPrefix p (oldPath @ ''/'')) (byPath m1)"
    have nf: "\<not> HasPrefix q (newPath @ ''/'')" if "map_of (byPath m) q = Some j" for q j
      using free [OF True] that by (auto simp: rename_free_def list_all_iff dest: map_of_SomeD)
    have no_self: "\<not> HasPrefix newPath (oldPath @ ''/'')" using free [OF True] by (simp add: rename_free_def)
    have new_not: "\<not> HasPrefix newPath (newPath @ ''/'')" by (auto simp: HasPrefix_iff)
    have cs: "map_of (byPath m1) q = Some j \<and> HasPrefix q (oldPath @ ''/'') \<and>
        map_of (byPath m1) (child_path oldPath newPath q) = None" if "(q, j) \<in> set ?cs" for q j
    proof -
      have "child_path oldPath newPath q \<noteq> newPath"
        using child_path_prefix [of oldPath newPath q] new_not by metis
      moreover have "map_of (byPath m) (child_path oldPath newPath q) = None"
        using nf child_path_prefix [of oldPath newPath q] by (cases "map_of (byPath m) (child_path oldPath newPath q)") auto
      ultimately have "map_of (byPath m1) (child_path oldPath newPath q) = None" using mm(1) by simp
      with that show ?thesis using map_of_in_set [OF mm(4)] by auto
    qed
    have "distinct (map fst ?cs)" using mm(4) by (simp add: wf_map_def distinct_map_filter)
    from rename_children [OF inv1 this cs] obtain m' where m':
        "foldl (rename_child oldPath newPath) (Some m1) ?cs = Some m'" "im_inv m'" "nextIno m' = nextIno m1"
        "\<And>i. map_of (byInode m') i = (case map_of (byInode m1) i of None \<Rightarrow> None
          | Some x \<Rightarrow> Some (if i \<in> snd ` set ?cs then x\<lparr>Path := child_path oldPath newPath (Path x)\<rparr> else x))"
      by auto
    have R: "Rename m oldPath newPath = Some m'" using p True m'(1) by (simp add: Rename_def m1_def Let_def)
    have mem: "i \<in> snd ` set ?cs \<longleftrightarrow> HasPrefix (Path x) (oldPath @ ''/'')" if x: "map_of (byInode m1) i = Some x" for i x
    proof
      assume "i \<in> snd ` set ?cs"
      then obtain q where "(q, i) \<in> set ?cs" by auto
      with cs [of q i] im_invD(3) [OF inv1, of q i] x show "HasPrefix (Path x) (oldPath @ ''/'')" by auto
    next
      assume "HasPrefix (Path x) (oldPath @ ''/'')"
      then have "(Path x, i) \<in> set ?cs" using im_invD(6) [OF inv1 x] by (auto dest: map_of_SomeD)
      then show "i \<in> snd ` set ?cs" by force
    qed
    have "map_of (byInode m') i = Some (x\<lparr>Path := renamed e oldPath newPath (Path x)\<rparr>)"
      if x: "map_of (byInode m) i = Some x" "Path x \<noteq> newPath \<or> i = ino" for i x
    proof (cases "i = ino")
      case i: True
      then have "map_of (byInode m1) i = Some (e\<lparr>Path := newPath\<rparr>)" using mm(2) [of i] by simp
      with m'(4) [of i] mem [of i] no_self x i p(2) old show ?thesis by (auto simp: renamed_def)
    next
      case i: False
      then have x1: "map_of (byInode m1) i = Some x" using mm(2) [of i] x by auto
      have "Path x \<noteq> oldPath" using same [OF x(1)] i by blast
      with m'(4) [of i] mem [OF x1] x1 True show ?thesis by (auto simp: renamed_def)
    qed
    with R m'(2,3) mm(3) show ?thesis by auto
  qed
qed

section \<open>Reachable tables\<close>

text \<open>One handler call on the table.\<close>

inductive im_step :: "inode_to_path \<Rightarrow> inode_to_path \<Rightarrow> bool" where
  lookup: "Lookup m path isDir sz mtime = Some (m', ino) \<Longrightarrow> im_step m m'"
| ensure: "EnsureInode m path isDir sz mtime = Some (m', ino) \<Longrightarrow> im_step m m'"
| increment: "IncrementLookup m ino = (m', ok) \<Longrightarrow> im_step m m'"
| forget: "im_step m (Forget m ino n)"
| forget_keep: "im_step m (ForgetKeepMapping m ino n)"
| remove_file: "RemoveFileIfUnreferenced m ino = (m', ok) \<Longrightarrow> im_step m m'"
| size: "im_step m (UpdateSize m ino sz)"
| mtime: "im_step m (UpdateMtime m ino t)"
| revision: "im_step m (UpdateRevision m ino rv)"
| mode: "im_step m (UpdateMode m ino md)"
| rename: "rename_free m oldPath newPath \<Longrightarrow> Rename m oldPath newPath = Some m' \<Longrightarrow> im_step m m'"
| remove: "im_step m (Remove m path)"

inductive_cases im_stepE: "im_step m m'"

lemma im_inv_Rename:
  assumes "im_inv m" "rename_free m oldPath newPath" "Rename m oldPath newPath = Some m'"
  shows "im_inv m'"
proof (cases "map_of (byPath m) oldPath")
  case None
  with assms show ?thesis by (simp add: Rename_def)
next
  case (Some ino)
  then obtain e where "map_of (byInode m) ino = Some e" using im_invD(3) [OF assms(1)] by blast
  from Rename_spec [OF assms(1) Some this assms(2)] assms(3) show ?thesis by auto
qed

lemma im_inv_step:
  assumes "im_step m m'" "im_inv m"
  shows "im_inv m'"
  using assms
proof (cases rule: im_step.cases)
  case (forget ino n)
  with assms(2) show ?thesis
    by (auto simp: Forget_def Let_def intro: im_inv_put im_inv_drop split: option.splits)
next
  case (remove path)
  with assms(2) show ?thesis
    by (cases "map_of (byPath m) path") (auto simp: Remove_def dest!: im_invD(3) [OF assms(2)] intro: im_inv_drop)
next
  case (remove_file ino ok)
  with assms(2) show ?thesis
    by (auto simp: RemoveFileIfUnreferenced_def intro: im_inv_drop split: option.splits if_splits)
qed (auto simp: Lookup_def EnsureInode_def IncrementLookup_def ForgetKeepMapping_def UpdateSize_def
    UpdateMtime_def UpdateRevision_def UpdateMode_def Let_def
    intro: im_inv_find_or_add im_inv_modify im_inv_Rename)

lemma im_inv_reachable: "im_step\<^sup>*\<^sup>* NewInodeToPath m \<Longrightarrow> im_inv m"
  by (induction rule: rtranclp_induct) (auto simp: im_inv_new intro: im_inv_step)

section \<open>Properties\<close>

text \<open>
  C16: in every table reachable by the handlers' calls (directory renames onto targets without cached
  descendants), the inode map and the path map are inverse to each other, every number handed out is
  below the next one, and \<^verbatim>\<open>Lookup\<close>, \<^verbatim>\<open>EnsureInode\<close> and \<^verbatim>\<open>Rename\<close> never dereference a missing entry.
\<close>
theorem inode_maps_inverse:
  assumes "im_step\<^sup>*\<^sup>* NewInodeToPath m"
  shows "(GetPath m ino = Some p \<longleftrightarrow> GetInode m p = Some ino) \<and>
    (GetPath m ino \<noteq> None \<longrightarrow> ino < nextIno m) \<and>
    Lookup m p isDir sz mtime \<noteq> None \<and> EnsureInode m p isDir sz mtime \<noteq> None \<and>
    (rename_free m p q \<longrightarrow> Rename m p q \<noteq> None)"
proof -
  have inv: "im_inv m" by (rule im_inv_reachable [OF assms])
  have "Rename m p q \<noteq> None" if "rename_free m p q"
  proof (cases "map_of (byPath m) p")
    case (Some i)
    then obtain e where "map_of (byInode m) i = Some e" using im_invD(3) [OF inv] by blast
    from Rename_spec [OF inv Some this that] show ?thesis by auto
  qed (simp add: Rename_def)
  then show ?thesis
    using im_invD(3) [OF inv, of p ino] im_invD(5) [OF inv, of ino] im_invD(6) [OF inv, of ino]
      find_or_add_total [OF inv, of 1 p isDir sz mtime] find_or_add_total [OF inv, of 0 p isDir sz mtime]
    by (auto simp: GetPath_def GetInode_def Lookup_def EnsureInode_def)
qed

theorem inode_maps_inverse_witness:
  "GetPath (fst (the (Lookup NewInodeToPath ''/a'' True 0 0))) 2 = Some ''/a'' \<longleftrightarrow>
   GetInode (fst (the (Lookup NewInodeToPath ''/a'' True 0 0))) ''/a'' = Some 2"
proof -
  obtain m where m: "Lookup NewInodeToPath ''/a'' True 0 0 = Some (m, 2)"
    by (simp add: Lookup_def find_or_add_def NewInodeToPath_def)
  then have "im_step\<^sup>*\<^sup>* NewInodeToPath m" by (blast intro: im_step.lookup)
  from inode_maps_inverse [OF this, of 2 "''/a''"] m show ?thesis by simp
qed

text \<open>
  renaming a directory moves its whole cached subtree: every inode keeps its number and other
  attributes, the directory gets the new path, each descendant its path below the new one, and
  nothing else moves; an entry that was cached at the target is dropped.
\<close>
theorem Rename_moves_subtree:
  assumes "im_inv m" and "GetInode m oldPath = Some ino" and "GetEntry m ino = Some e"
    and "rename_free m oldPath newPath"
  shows "\<exists>m'. Rename m oldPath newPath = Some m' \<and> im_inv m' \<and> GetInode m' newPath = Some ino \<and>
    (\<forall>i x. GetEntry m i = Some x \<and> (Path x \<noteq> newPath \<or> i = ino) \<longrightarrow>
      GetEntry m' i = Some (x\<lparr>Path :=
        (if Path x = oldPath then newPath
         else if IsDir e \<and> HasPrefix (Path x) (oldPath @ ''/'')
         then newPath @ ''/'' @ TrimPrefix (Path x) (oldPath @ ''/'') else Path x)\<rparr>))"
proof -
  have p: "map_of (byPath m) oldPath = Some ino" "map_of (byInode m) ino = Some e"
    using assms(2,3) by (auto simp: GetInode_def GetEntry_def)
  have "Path e = oldPath" using im_invD(3) [OF assms(1) p(1)] p(2) by auto
  moreover obtain m' where m': "Rename m oldPath newPath = Some m'" "im_inv m'"
      "\<And>i x. map_of (byInode m) i = Some x \<Longrightarrow> Path x \<noteq> newPath \<or> i = ino \<Longrightarrow>
        map_of (byInode m') i = Some (x\<lparr>Path := renamed e oldPath newPath (Path x)\<rparr>)"
    using Rename_spec [OF assms(1) p assms(4)] by blast
  ultimately have "map_of (byInode m') ino = Some (e\<lparr>Path := newPath\<rparr>)"
    using p(2) by (simp add: renamed_def)
  from im_invD(6) [OF m'(2) this] m' show ?thesis
    by (auto simp: GetInode_def GetEntry_def renamed_def child_path_def)
qed

theorem Rename_moves_subtree_witness:
  "\<exists>m m'. Rename m ''/a'' ''/b'' = Some m' \<and> GetInode m ''/a'' = Some 2 \<and> GetInode m' ''/b'' = Some 2"
proof -
  obtain m where m: "Lookup NewInodeToPath ''/a'' True 0 0 = Some (m, 2)" "byPath m = [(''/'', 1), (''/a'', 2)]"
      "map_of (byInode m) 2 = Some (new_entry 2 ''/a'' True 1 0 0)"
    by (simp add: Lookup_def find_or_add_def NewInodeToPath_def)
  have inv: "im_inv m"
    using m(1) by (intro im_inv_find_or_add [OF im_inv_new, of 1 "''/a''" True 0 0 m 2]) (simp add: Lookup_def)
  have "rename_free m ''/a'' ''/b''" by (simp add: rename_free_def m(2) HasPrefix_def)
  moreover have "GetInode m ''/a'' = Some 2" by (simp add: GetInode_def m(2))
  moreover have "GetEntry m 2 = Some (new_entry 2 ''/a'' True 1 0 0)" by (simp add: GetEntry_def m(3))
  ultimately show ?thesis
    using Rename_moves_subtree [OF inv, of "''/a''" 2 "new_entry 2 ''/a'' True 1 0 0" "''/b''"] by blast
qed

end
