(* ===== verification/Lease_Queue.thy ===== *)
theory Lease_Queue
  imports Go_Strings "HOL-Library.Product_Lexorder" "HOL-Library.List_Lexorder" "HOL-Library.Char_ord"
begin

text \<open>
  The lease columns and the lease protocol that the tables \<^verbatim>\<open>file_gc_tasks\<close> and \<^verbatim>\<open>semantic_tasks\<close> share
  (\<^verbatim>\<open>pkg/datastore/file_gc_tasks.go\<close>, \<^verbatim>\<open>pkg/datastore/semantic_tasks.go\<close>). A table is the list of its
  rows, \<^verbatim>\<open>task_id\<close> being the primary key; a transaction is one step on the table. The rows that
  \<^verbatim>\<open>FOR UPDATE SKIP LOCKED\<close> passes over are an argument, and so are the wall clock and the receipt
  that \<^verbatim>\<open>uuid.NewString\<close> returns. Times are integers in the resolution of the columns (milliseconds);
  the zero time is 0.
\<close>

section \<open>Rows\<close>

datatype task_status = StatusUnset | Queued | Processing | Succeeded | Failed | DeadLettered

record task_row =
  TaskID :: string
  Status :: task_status
  AttemptCount :: int
  MaxAttempts :: int
  Receipt :: "string option"
  LeasedAt :: "int option"
  LeaseUntil :: "int option"
  AvailableAt :: int
  LastError :: "string option"
  CreatedAt :: int
  UpdatedAt :: int
  CompletedAt :: "int option"

datatype task_error = ErrNotFound | ErrLeaseMismatch | ErrDuplicate | ErrInvalid string

definition or_clock :: "int \<Rightarrow> int \<Rightarrow> int" where
  "or_clock clock t = (if t = 0 then clock else t)"

definition lease_duration :: "int \<Rightarrow> int" where
  "lease_duration d = (if d \<le> 0 then 30000 else d)"

definition nullStr :: "string \<Rightarrow> string option" where
  "nullStr s = (if s = '''' then None else Some s)"

text \<open>\<^verbatim>\<open>sql.NullString.String\<close>.\<close>

definition text_of :: "string option \<Rightarrow> string" where
  "text_of x = (case x of None \<Rightarrow> '''' | Some s \<Rightarrow> s)"

definition update_where :: "('r \<Rightarrow> bool) \<Rightarrow> ('r \<Rightarrow> 'r) \<Rightarrow> 'r list \<Rightarrow> 'r list" where
  "update_where P f rows = map (\<lambda>r. if P r then f r else r) rows"

definition rows_affected :: "('r \<Rightarrow> bool) \<Rightarrow> 'r list \<Rightarrow> nat" where
  "rows_affected P rows = length (filter P rows)"

text \<open>\<^verbatim>\<open>RowsAffected\<close> of an update counts the rows that it changes, as MySQL reports them by default.\<close>

definition rows_changed :: "('r \<Rightarrow> bool) \<Rightarrow> ('r \<Rightarrow> 'r) \<Rightarrow> 'r list \<Rightarrow> nat" where
  "rows_changed P f rows = length (filter (\<lambda>r. P r \<and> f r \<noteq> r) rows)"

definition row_of :: "'a task_row_scheme list \<Rightarrow> string \<Rightarrow> 'a task_row_scheme option" where
  "row_of rows i = find (\<lambda>r. TaskID r = i) rows"

definition until_after :: "int \<Rightarrow> 'a task_row_scheme \<Rightarrow> bool" where
  "until_after now r = (case LeaseUntil r of None \<Rightarrow> False | Some u \<Rightarrow> now < u)"

definition held :: "string \<Rightarrow> int \<Rightarrow> 'a task_row_scheme \<Rightarrow> bool" where
  "held receipt now r \<longleftrightarrow> Status r = Processing \<and> Receipt r = Some receipt \<and> until_after now r"

definition expired :: "int \<Rightarrow> 'a task_row_scheme \<Rightarrow> bool" where
  "expired now r \<longleftrightarrow> Status r = Processing \<and> (case LeaseUntil r of None \<Rightarrow> False | Some u \<Rightarrow> u < now)"

definition claimable :: "int \<Rightarrow> 'a task_row_scheme \<Rightarrow> bool" where
  "claimable now r \<longleftrightarrow> Status r = Queued \<and> AvailableAt r \<le> now"

definition unlease :: "'a task_row_scheme \<Rightarrow> 'a task_row_scheme" where
  "unlease r = r\<lparr>Receipt := None, LeasedAt := None, LeaseUntil := None\<rparr>"

definition lease_row :: "string \<Rightarrow> int \<Rightarrow> int \<Rightarrow> 'a task_row_scheme \<Rightarrow> 'a task_row_scheme" where
  "lease_row receipt now dur r =
    r\<lparr>Status := Processing, AttemptCount := AttemptCount r + 1, Receipt := Some receipt,
      LeasedAt := Some now, LeaseUntil := Some (now + dur), UpdatedAt := now\<rparr>"

definition succeed_row :: "int \<Rightarrow> 'a task_row_scheme \<Rightarrow> 'a task_row_scheme" where
  "succeed_row now r = (unlease r)\<lparr>Status := Succeeded, CompletedAt := Some now, UpdatedAt := now\<rparr>"

definition dead_row :: "int \<Rightarrow> string \<Rightarrow> 'a task_row_scheme \<Rightarrow> 'a task_row_scheme" where
  "dead_row now lastErr r = (unlease r)\<lparr>Status := DeadLettered, LastError := nullStr lastErr,
    CompletedAt := Some now, UpdatedAt := now\<rparr>"

definition requeue_row :: "int \<Rightarrow> int \<Rightarrow> string \<Rightarrow> 'a task_row_scheme \<Rightarrow> 'a task_row_scheme" where
  "requeue_row now retryAt lastErr r = (unlease r)\<lparr>Status := Queued, AvailableAt := retryAt,
    LastError := nullStr lastErr, CompletedAt := None, UpdatedAt := now\<rparr>"

definition recover_row :: "int \<Rightarrow> 'a task_row_scheme \<Rightarrow> 'a task_row_scheme" where
  "recover_row now r = (unlease r)\<lparr>Status := Queued, AvailableAt := now, UpdatedAt := now\<rparr>"

section \<open>The protocol\<close>

text \<open>\<^verbatim>\<open>ORDER BY available_at, created_at, task_id\<close> and \<^verbatim>\<open>ORDER BY lease_until, created_at, task_id\<close>.\<close>

definition claim_order :: "'a task_row_scheme \<Rightarrow> int \<times> int \<times> string" where
  "claim_order r = (AvailableAt r, CreatedAt r, TaskID r)"

definition expiry_order :: "'a task_row_scheme \<Rightarrow> int \<times> int \<times> string" where
  "expiry_order r = ((case LeaseUntil r of None \<Rightarrow> 0 | Some u \<Rightarrow> u), CreatedAt r, TaskID r)"

text \<open>The claim: the oldest row that is eligible, due and unlocked is leased.\<close>

definition claim_task ::
  "('a task_row_scheme \<Rightarrow> bool) \<Rightarrow> string list \<Rightarrow> string \<Rightarrow> int \<Rightarrow> int \<Rightarrow> 'a task_row_scheme list \<Rightarrow>
   'a task_row_scheme list \<times> 'a task_row_scheme option" where
  "claim_task eligible locked receipt now dur rows =
    (case sort_key claim_order
        (filter (\<lambda>r. eligible r \<and> claimable now r \<and> TaskID r \<notin> set locked) rows) of
      [] \<Rightarrow> (rows, None)
    | task # _ \<Rightarrow>
        let P = (\<lambda>r. TaskID r = TaskID task \<and> claimable now r) in
        if rows_changed P (lease_row receipt now dur) rows = 0 then (rows, None)
        else (update_where P (lease_row receipt now dur) rows, Some (lease_row receipt now dur task)))"

definition lease_error :: "'a task_row_scheme list \<Rightarrow> string \<Rightarrow> task_error" where
  "lease_error rows taskID =
    (if rows_affected (\<lambda>r. TaskID r = taskID) rows = 0 then ErrNotFound else ErrLeaseMismatch)"

text \<open>A single guarded \<^verbatim>\<open>UPDATE ... WHERE task_id = ? AND status = ? AND receipt = ? AND lease_until > ?\<close>.\<close>

definition update_held ::
  "('a task_row_scheme \<Rightarrow> 'a task_row_scheme) \<Rightarrow> string \<Rightarrow> string \<Rightarrow> int \<Rightarrow> 'a task_row_scheme list \<Rightarrow>
   task_error + 'a task_row_scheme list" where
  "update_held f taskID receipt now rows =
    (let P = (\<lambda>r. TaskID r = taskID \<and> held receipt now r) in
     if 0 < rows_changed P f rows then Inr (update_where P f rows) else Inl (lease_error rows taskID))"

definition retry_task ::
  "('a task_row_scheme \<Rightarrow> bool) \<Rightarrow> string \<Rightarrow> string \<Rightarrow> int \<Rightarrow> int \<Rightarrow> string \<Rightarrow> 'a task_row_scheme list \<Rightarrow>
   task_error + 'a task_row_scheme list" where
  "retry_task exhausted taskID receipt now retryAt lastErr rows =
    (case row_of rows taskID of
      None \<Rightarrow> Inl ErrNotFound
    | Some task \<Rightarrow>
        if Status task \<noteq> Processing \<or> text_of (Receipt task) \<noteq> receipt \<or> \<not> until_after now task
        then Inl ErrLeaseMismatch
        else Inr (update_where (\<lambda>r. TaskID r = taskID)
          (if exhausted task then dead_row now lastErr else requeue_row now (or_clock now retryAt) lastErr) rows))"

definition recover_one ::
  "int \<Rightarrow> 'a task_row_scheme list \<times> nat \<Rightarrow> string \<Rightarrow> 'a task_row_scheme list \<times> nat" where
  "recover_one now st taskID =
    (let P = (\<lambda>r. TaskID r = taskID \<and> expired now r) in
     (update_where P (recover_row now) (fst st), snd st + rows_changed P (recover_row now) (fst st)))"

definition expired_ids :: "string list \<Rightarrow> int \<Rightarrow> int \<Rightarrow> 'a task_row_scheme list \<Rightarrow> string list" where
  "expired_ids locked now limit rows =
    map TaskID ((if 0 < limit then take (nat limit) else id)
      (sort_key expiry_order (filter (\<lambda>r. expired now r \<and> TaskID r \<notin> set locked) rows)))"

definition recover_expired ::
  "string list \<Rightarrow> int \<Rightarrow> int \<Rightarrow> 'a task_row_scheme list \<Rightarrow> 'a task_row_scheme list \<times> nat" where
  "recover_expired locked now limit rows =
    foldl (recover_one now) (rows, 0) (expired_ids locked now limit rows)"

section \<open>Well-formed tables and ownership\<close>

definition row_ok :: "'a task_row_scheme \<Rightarrow> bool" where
  "row_ok r \<longleftrightarrow>
    (Receipt r \<noteq> None \<longleftrightarrow> Status r = Processing) \<and> (LeaseUntil r \<noteq> None \<longleftrightarrow> Status r = Processing) \<and>
    (LeasedAt r \<noteq> None \<longleftrightarrow> Status r = Processing) \<and>
    (CompletedAt r \<noteq> None \<longleftrightarrow> Status r = Succeeded \<or> Status r = DeadLettered)"

definition table_ok :: "'a task_row_scheme list \<Rightarrow> bool" where
  "table_ok rows \<longleftrightarrow> distinct (map TaskID rows) \<and> list_all row_ok rows"

text \<open>Who holds the lease of a task, and until when.\<close>

definition row_owner :: "'a task_row_scheme \<Rightarrow> (string \<times> int) option" where
  "row_owner r =
    (if Status r = Processing then
      (case Receipt r of None \<Rightarrow> None | Some c \<Rightarrow>
        (case LeaseUntil r of None \<Rightarrow> None | Some u \<Rightarrow> Some (c, u)))
     else None)"

definition owner :: "'a task_row_scheme list \<Rightarrow> string \<Rightarrow> (string \<times> int) option" where
  "owner rows i = (case row_of rows i of None \<Rightarrow> None | Some r \<Rightarrow> row_owner r)"

named_theorems row_simps \<open>what a row update does to the lease columns\<close>

lemma row_fields [row_simps, simp]:
  "TaskID (lease_row c now dur r) = TaskID r" "TaskID (succeed_row now r) = TaskID r"
  "TaskID (dead_row now e r) = TaskID r" "TaskID (requeue_row now t e r) = TaskID r"
  "TaskID (recover_row now r) = TaskID r"
  by (simp_all add: lease_row_def succeed_row_def dead_row_def requeue_row_def recover_row_def unlease_def)

lemma row_owners [row_simps, simp]:
  "row_owner (lease_row c now dur r) = Some (c, now + dur)" "row_owner (succeed_row now r) = None"
  "row_owner (dead_row now e r) = None" "row_owner (requeue_row now t e r) = None"
  "row_owner (recover_row now r) = None"
  by (simp_all add: lease_row_def succeed_row_def dead_row_def requeue_row_def recover_row_def unlease_def
      row_owner_def)

lemma row_changes [row_simps, simp]:
  "claimable now' r \<Longrightarrow> lease_row c now dur r \<noteq> r" "held c now' r \<Longrightarrow> succeed_row now r \<noteq> r"
  "held c now' r \<Longrightarrow> dead_row now e r \<noteq> r" "expired now' r \<Longrightarrow> recover_row now r \<noteq> r"
  by (auto simp: claimable_def held_def expired_def lease_row_def succeed_row_def dead_row_def recover_row_def
      unlease_def dest: arg_cong [where f = Status])

lemma row_oks [row_simps, simp]:
  "claimable now r \<Longrightarrow> row_ok r \<Longrightarrow> row_ok (lease_row c now dur r)"
  "row_ok (succeed_row now r)" "row_ok (dead_row now e r)" "row_ok (requeue_row now t e r)"
  "expired now' r \<Longrightarrow> row_ok r \<Longrightarrow> row_ok (recover_row now r)"
  by (auto simp: lease_row_def succeed_row_def dead_row_def requeue_row_def recover_row_def unlease_def
      row_ok_def claimable_def expired_def)

lemma row_of_update_where:
  assumes "\<And>r. TaskID (f r) = TaskID r"
  shows "row_of (update_where P f rows) i =
    (case row_of rows i of None \<Rightarrow> None | Some r \<Rightarrow> Some (if P r then f r else r))"
  using assms by (induction rows) (auto simp: row_of_def update_where_def)

lemma row_of_SomeD: "row_of rows i = Some r \<Longrightarrow> r \<in> set rows \<and> TaskID r = i"
  by (auto simp: row_of_def find_Some_iff)

lemma row_of_in_set: "distinct (map TaskID rows) \<Longrightarrow> r \<in> set rows \<Longrightarrow> row_of rows (TaskID r) = Some r"
  by (induction rows) (auto simp: row_of_def)

lemma row_of_None: "row_of rows i = None \<longleftrightarrow> i \<notin> TaskID ` set rows"
  by (auto simp: row_of_def find_None_iff)

lemma filter_unique_key:
  "distinct (map TaskID rows) \<Longrightarrow> r \<in> set rows \<and> TaskID r = i \<Longrightarrow> Q r \<Longrightarrow>
    filter (\<lambda>x. TaskID x = i \<and> Q x) rows = [r]"
proof (induction rows)
  case (Cons a rows)
  then show ?case by (cases "TaskID a = i") (auto simp: filter_empty_conv image_iff)
qed simp

lemma table_ok_update_where:
  assumes "table_ok rows" "\<And>r. TaskID (f r) = TaskID r" "\<And>r. r \<in> set rows \<Longrightarrow> P r \<Longrightarrow> row_ok r \<Longrightarrow> row_ok (f r)"
  shows "table_ok (update_where P f rows)"
proof -
  have "map TaskID (update_where P f rows) = map TaskID rows"
    using assms(2) by (induction rows) (auto simp: update_where_def)
  moreover have "list_all row_ok (update_where P f rows)"
    using assms(1,3) by (auto simp: table_ok_def list_all_iff update_where_def)
  ultimately show ?thesis using assms(1) by (simp add: table_ok_def)
qed

lemma affected_iff:
  assumes "table_ok rows"
  shows "0 < rows_affected (\<lambda>r. TaskID r = i \<and> Q r) rows \<longleftrightarrow> (\<exists>r. row_of rows i = Some r \<and> Q r)"
  using assms by (auto simp: rows_affected_def table_ok_def filter_empty_conv dest!: row_of_SomeD
      intro: row_of_in_set)

lemma changed_iff:
  assumes "table_ok rows"
  shows "0 < rows_changed (\<lambda>r. TaskID r = i \<and> Q r) f rows \<longleftrightarrow> (\<exists>r. row_of rows i = Some r \<and> Q r \<and> f r \<noteq> r)"
  using affected_iff [OF assms, of i "\<lambda>r. Q r \<and> f r \<noteq> r"] by (simp add: rows_changed_def rows_affected_def conj_assoc)

lemma held_iff_owner: "held c now r \<longleftrightarrow> (\<exists>u. row_owner r = Some (c, u) \<and> now < u)"
  by (auto simp: held_def row_owner_def until_after_def split: option.splits)

lemma owner_update_where:
  assumes "\<And>r. TaskID (f r) = TaskID r"
  shows "owner (update_where P f rows) i =
    (case row_of rows i of None \<Rightarrow> None | Some r \<Rightarrow> row_owner (if P r then f r else r))"
  using row_of_update_where [OF assms] by (auto simp: owner_def split: option.splits)

lemma owner_eqD: "owner rows i = Some x \<Longrightarrow> \<exists>r. row_of rows i = Some r \<and> row_owner r = Some x"
  by (auto simp: owner_def split: option.splits)

section \<open>What the statements do\<close>

lemma claim_task_cases:
  assumes ok: "table_ok rows" and c: "claim_task el locked c now dur rows = (rows', ot)"
  defines "E \<equiv> \<lambda>r. el r \<and> claimable now r \<and> TaskID r \<notin> set locked"
  obtains (none) "ot = None" "rows' = rows" "\<And>r. r \<in> set rows \<Longrightarrow> \<not> E r"
  | (some) r where "r \<in> set rows" "E r" "\<And>r'. r' \<in> set rows \<Longrightarrow> E r' \<Longrightarrow> claim_order r \<le> claim_order r'"
      "ot = Some (lease_row c now dur r)"
      "rows' = update_where (\<lambda>x. TaskID x = TaskID r \<and> claimable now x) (lease_row c now dur) rows"
proof (cases "sort_key claim_order (filter E rows)")
  case Nil
  then have "filter E rows = []" by (metis set_empty set_sort)
  moreover from c Nil have "ot = None" "rows' = rows" by (auto simp: claim_task_def E_def)
  ultimately show ?thesis using none by (auto simp: filter_empty_conv)
next
  case (Cons t ts)
  have "set (t # ts) = set (filter E rows)" by (metis Cons set_sort)
  then have t: "t \<in> set rows" "E t" by auto
  have "sorted (map claim_order (t # ts))" by (metis Cons sorted_sort_key)
  moreover have "r' \<in> set (t # ts)" if "r' \<in> set rows" "E r'" for r'
    using \<open>set (t # ts) = set (filter E rows)\<close> that by simp
  ultimately have min: "claim_order t \<le> claim_order r'" if "r' \<in> set rows" "E r'" for r' using that by fastforce
  have "0 < rows_changed (\<lambda>x. TaskID x = TaskID t \<and> claimable now x) (lease_row c now dur) rows"
    using t ok row_changes(1) unfolding changed_iff [OF ok]
    by (auto simp: table_ok_def E_def intro: row_of_in_set)
  with c Cons have "ot = Some (lease_row c now dur t)"
      "rows' = update_where (\<lambda>x. TaskID x = TaskID t \<and> claimable now x) (lease_row c now dur) rows"
    by (auto simp: claim_task_def E_def Let_def)
  with some [OF t min] show ?thesis by blast
qed

lemma claim_task_ok:
  assumes "table_ok rows" "claim_task el locked c now dur rows = (rows', ot)"
  shows "table_ok rows'"
proof (cases rule: claim_task_cases [OF assms])
  case (2 r)
  then show ?thesis using assms(1) by (auto intro: table_ok_update_where)
qed (simp add: assms(1))

lemma row_owner_claimable: "claimable now r \<Longrightarrow> row_owner r = None"
  by (simp add: claimable_def row_owner_def)

lemma claim_task_owner:
  assumes "table_ok rows" "claim_task el locked c now dur rows = (rows', ot)"
  shows "owner rows' i =
    (if map_option TaskID ot = Some i then Some (c, now + dur) else owner rows i)"
proof (cases rule: claim_task_cases [OF assms])
  case (2 r)
  then have r: "row_of rows (TaskID r) = Some r" using assms(1) by (auto simp: table_ok_def intro: row_of_in_set)
  have "owner rows' i = (case row_of rows i of None \<Rightarrow> None
      | Some x \<Rightarrow> row_owner (if TaskID x = TaskID r \<and> claimable now x then lease_row c now dur x else x))"
    unfolding 2(5) by (rule owner_update_where) simp
  with 2(2,4) r show ?thesis
    by (cases "row_of rows i") (auto simp: owner_def dest: row_of_SomeD)
qed simp

lemma claim_task_free:
  assumes "table_ok rows" "claim_task el locked c now dur rows = (rows', Some t)"
  shows "owner rows (TaskID t) = None"
proof (cases rule: claim_task_cases [OF assms])
  case (2 r)
  then have "row_of rows (TaskID r) = Some r" using assms(1) by (auto simp: table_ok_def intro: row_of_in_set)
  moreover have "row_owner r = None" using 2(2) by (auto intro: row_owner_claimable)
  ultimately show ?thesis using 2(4) by (simp add: owner_def)
qed simp

lemma update_held_Inr:
  assumes "table_ok rows" "update_held f i c now rows = Inr rows'"
  shows "(\<exists>u. owner rows i = Some (c, u) \<and> now < u) \<and>
    rows' = update_where (\<lambda>r. TaskID r = i \<and> held c now r) f rows"
  using assms(2) changed_iff [OF assms(1), of i "held c now" f]
  by (auto simp: update_held_def Let_def held_iff_owner owner_def split: if_splits option.splits)

text \<open>An update that changes every row it matches succeeds exactly for the holder of the lease.\<close>

lemma update_held_iff:
  assumes "table_ok rows" "\<And>r. held c now r \<Longrightarrow> f r \<noteq> r"
  shows "update_held f i c now rows = Inr rows' \<longleftrightarrow>
    (\<exists>u. owner rows i = Some (c, u) \<and> now < u) \<and>
    rows' = update_where (\<lambda>r. TaskID r = i \<and> held c now r) f rows"
  using changed_iff [OF assms(1), of i "held c now" f] assms(2)
  by (auto simp: update_held_def Let_def held_iff_owner owner_def split: option.splits)

lemma update_held_error:
  assumes "table_ok rows" "\<And>r. held c now r \<Longrightarrow> f r \<noteq> r"
  shows "update_held f i c now rows = Inl e \<longleftrightarrow>
    (\<nexists>u. owner rows i = Some (c, u) \<and> now < u) \<and>
    e = (if row_of rows i = None then ErrNotFound else ErrLeaseMismatch)"
proof -
  have "rows_affected (\<lambda>r. TaskID r = i) rows = 0 \<longleftrightarrow> row_of rows i = None"
    by (auto simp: rows_affected_def row_of_None filter_empty_conv)
  then show ?thesis
    using changed_iff [OF assms(1), of i "held c now" f] assms(2)
    by (auto simp: update_held_def Let_def held_iff_owner owner_def lease_error_def split: option.splits)
qed

lemma text_of_processing: "row_ok r \<Longrightarrow> Status r = Processing \<Longrightarrow> text_of (Receipt r) = c \<longleftrightarrow> Receipt r = Some c"
  by (auto simp: row_ok_def text_of_def)

lemma retry_task_iff:
  assumes "table_ok rows"
  shows "retry_task ex i c now retryAt err rows = Inr rows' \<longleftrightarrow>
    (\<exists>t u. row_of rows i = Some t \<and> owner rows i = Some (c, u) \<and> now < u \<and>
      rows' = update_where (\<lambda>r. TaskID r = i)
        (if ex t then dead_row now err else requeue_row now (or_clock now retryAt) err) rows)"
proof (cases "row_of rows i")
  case (Some t)
  then have "row_ok t" using assms by (auto simp: table_ok_def list_all_iff dest: row_of_SomeD)
  then have "Status t = Processing \<and> text_of (Receipt t) = c \<and> until_after now t \<longleftrightarrow> held c now t"
    using text_of_processing [of t c] by (auto simp: held_def)
  with Some show ?thesis by (auto simp: retry_task_def held_iff_owner owner_def)
qed (simp add: retry_task_def)

lemma retry_task_error:
  assumes "table_ok rows"
  shows "retry_task ex i c now retryAt err rows = Inl e \<longleftrightarrow>
    (\<nexists>u. owner rows i = Some (c, u) \<and> now < u) \<and>
    e = (if row_of rows i = None then ErrNotFound else ErrLeaseMismatch)"
proof (cases "row_of rows i")
  case (Some t)
  then have "row_ok t" using assms by (auto simp: table_ok_def list_all_iff dest: row_of_SomeD)
  then have "Status t = Processing \<and> text_of (Receipt t) = c \<and> until_after now t \<longleftrightarrow> held c now t"
    using text_of_processing [of t c] by (auto simp: held_def)
  with Some show ?thesis by (auto simp: retry_task_def held_iff_owner owner_def)
qed (auto simp: retry_task_def owner_def)

text \<open>Recovery: exactly the listed rows return to the queue.\<close>

lemma expired_recover [simp]: "\<not> expired now (recover_row now' r)"
  by (simp add: expired_def recover_row_def)

lemma recover_fold:
  fixes rows :: "'a task_row_scheme list"
  assumes "table_ok rows" "distinct ids" "\<And>i. i \<in> set ids \<Longrightarrow> \<exists>r. row_of rows i = Some r \<and> expired now r"
  shows "table_ok (fst (foldl (recover_one now) (rows, n) ids)) \<and>
    snd (foldl (recover_one now) (rows, n) ids) = n + length ids \<and>
    (\<forall>i. row_of (fst (foldl (recover_one now) (rows, n) ids)) i =
      (case row_of rows i of None \<Rightarrow> None | Some r \<Rightarrow> Some (if i \<in> set ids then recover_row now r else r)))"
  using assms
proof (induction ids arbitrary: rows n)
  case Nil
  then show ?case by (auto split: option.splits)
next
  case (Cons i ids)
  define rows1 where "rows1 = update_where (\<lambda>r. TaskID r = i \<and> expired now r) (recover_row now) rows"
  obtain r where r: "row_of rows i = Some r" "expired now r" using Cons.prems(3) [of i] by auto
  have ro: "row_of rows1 j =
      (case row_of rows j of None \<Rightarrow> None | Some r \<Rightarrow> Some (if j = i \<and> expired now r then recover_row now r else r))" for j
    unfolding rows1_def by (auto simp: row_of_update_where dest: row_of_SomeD split: option.splits)
  have one: "recover_one now (rows, n) i = (rows1, n + 1)"
  proof -
    have "filter (\<lambda>x. TaskID x = i \<and> expired now x \<and> recover_row now x \<noteq> x) rows = [r]"
      using Cons.prems(1) r row_changes(4) [OF r(2)] by (simp add: table_ok_def filter_unique_key row_of_SomeD)
    then show ?thesis by (simp add: recover_one_def rows1_def rows_changed_def Let_def)
  qed
  have ok1: "table_ok rows1" unfolding rows1_def using Cons.prems(1) by (intro table_ok_update_where) auto
  have ids1: "\<exists>r. row_of rows1 j = Some r \<and> expired now r" if "j \<in> set ids" for j
    using that Cons.prems(2,3) ro [of j] by fastforce
  from Cons.IH [OF ok1 _ ids1, of "n + 1"] Cons.prems(2) ro r show ?case
    by (auto simp: one split: option.splits)
qed

lemma expired_ids_rows:
  assumes "table_ok rows"
  shows "distinct (expired_ids locked now limit rows)"
    and "i \<in> set (expired_ids locked now limit rows) \<Longrightarrow>
      \<exists>r. row_of rows i = Some r \<and> expired now r \<and> i \<notin> set locked"
    and "limit \<le> 0 \<Longrightarrow> row_of rows i = Some r \<Longrightarrow> expired now r \<Longrightarrow> i \<notin> set locked \<Longrightarrow>
      i \<in> set (expired_ids locked now limit rows)"
proof -
  let ?F = "filter (\<lambda>r. expired now r \<and> TaskID r \<notin> set locked) rows"
  let ?S = "sort_key expiry_order ?F"
  have "distinct (map TaskID ?F)" using assms by (simp add: table_ok_def distinct_map_filter)
  then have "distinct (map TaskID ?S)" by (simp add: distinct_map)
  then show "distinct (expired_ids locked now limit rows)"
    by (auto simp: expired_ids_def take_map [symmetric] intro: distinct_take)
  show "\<exists>r. row_of rows i = Some r \<and> expired now r \<and> i \<notin> set locked"
    if "i \<in> set (expired_ids locked now limit rows)"
  proof -
    have "i \<in> set (map TaskID ?S)"
      using that by (auto simp: expired_ids_def split: if_splits dest: in_set_takeD)
    then obtain r where "r \<in> set rows" "expired now r" "TaskID r = i" "TaskID r \<notin> set locked" by auto
    with assms show ?thesis by (auto simp: table_ok_def intro: row_of_in_set)
  qed
  show "i \<in> set (expired_ids locked now limit rows)"
    if "limit \<le> 0" "row_of rows i = Some r" "expired now r" "i \<notin> set locked"
    using that row_of_SomeD [OF that(2)] by (auto simp: expired_ids_def)
qed

lemma recover_expired_spec:
  assumes ok: "table_ok rows" and r: "recover_expired locked now limit rows = (rows', n)"
  shows "table_ok rows'" "n = length (expired_ids locked now limit rows)"
    "row_of rows' i = (case row_of rows i of None \<Rightarrow> None
      | Some r \<Rightarrow> Some (if i \<in> set (expired_ids locked now limit rows) then recover_row now r else r))"
proof -
  have "\<exists>r. row_of rows i = Some r \<and> expired now r" if "i \<in> set (expired_ids locked now limit rows)" for i
    using expired_ids_rows(2) [OF ok that] by blast
  from recover_fold [OF ok expired_ids_rows(1) [OF ok] this, of locked now limit 0] r
  show "table_ok rows'" "n = length (expired_ids locked now limit rows)"
    "row_of rows' i = (case row_of rows i of None \<Rightarrow> None
      | Some r \<Rightarrow> Some (if i \<in> set (expired_ids locked now limit rows) then recover_row now r else r))"
    by (auto simp: recover_expired_def)
qed

lemma expired_owner: "expired now r \<Longrightarrow> row_owner r = Some (c, u) \<Longrightarrow> u < now"
  by (auto simp: expired_def row_owner_def split: if_splits option.splits)

lemma recover_expired_owner:
  assumes "table_ok rows" "recover_expired locked now limit rows = (rows', n)"
    and "owner rows i = Some (c, u)" "now < u"
  shows "owner rows' i = Some (c, u)"
proof -
  obtain r where r: "row_of rows i = Some r" "row_owner r = Some (c, u)" using owner_eqD [OF assms(3)] by blast
  then have "\<not> expired now r" using expired_owner assms(4) by fastforce
  then have "i \<notin> set (expired_ids locked now limit rows)"
    using expired_ids_rows(2) [OF assms(1), of i locked now limit] r(1) by auto
  with recover_expired_spec(3) [OF assms(1,2), of i] r show ?thesis by (simp add: owner_def)
qed

lemma update_held_owner:
  assumes "table_ok rows" "update_held f j d now rows = Inr rows'" "\<And>r. TaskID (f r) = TaskID r"
    and "owner rows i = Some (c, u)" "j = i \<Longrightarrow> d \<noteq> c"
  shows "owner rows' i = Some (c, u)"
proof -
  obtain r where r: "row_of rows i = Some r" "row_owner r = Some (c, u)" using owner_eqD [OF assms(4)] by blast
  have "\<not> (TaskID r = j \<and> held d now r)" using r assms(5) row_of_SomeD [OF r(1)] by (auto simp: held_iff_owner)
  then show ?thesis
    using update_held_Inr [OF assms(1,2)] owner_update_where [OF assms(3)] r by auto
qed

lemma update_held_ok:
  assumes "table_ok rows" "update_held f j d now rows = Inr rows'" "\<And>r. TaskID (f r) = TaskID r"
    and "\<And>r. held d now r \<Longrightarrow> row_ok r \<Longrightarrow> row_ok (f r)"
  shows "table_ok rows'"
proof -
  have "rows' = update_where (\<lambda>r. TaskID r = j \<and> held d now r) f rows"
    using update_held_Inr [OF assms(1,2)] by simp
  then show ?thesis using assms(4) by (auto intro: table_ok_update_where [OF assms(1,3)])
qed

lemma retry_task_owner:
  assumes "table_ok rows" "retry_task ex j d now retryAt err rows = Inr rows'"
    and "owner rows i = Some (c, u)" "j = i \<Longrightarrow> d \<noteq> c"
  shows "owner rows' i = Some (c, u)"
proof -
  obtain t v where "rows' = update_where (\<lambda>r. TaskID r = j)
      (if ex t then dead_row now err else requeue_row now (or_clock now retryAt) err) rows"
      and "owner rows j = Some (d, v)"
    using assms(2) unfolding retry_task_iff [OF assms(1)] by blast
  moreover from this(2) assms(3,4) have "j \<noteq> i" by auto
  moreover obtain r where "row_of rows i = Some r" "row_owner r = Some (c, u)"
    using owner_eqD [OF assms(3)] by blast
  ultimately show ?thesis by (auto simp: owner_update_where dest: row_of_SomeD)
qed

lemma retry_task_ok:
  assumes "table_ok rows" "retry_task ex j d now retryAt err rows = Inr rows'"
  shows "table_ok rows'"
  using assms retry_task_iff [OF assms(1)] by (auto intro: table_ok_update_where)

lemma insert_row_ok:
  assumes "table_ok rows" "row_of rows (TaskID r) = None" "row_ok r"
  shows "table_ok (rows @ [r])"
  using assms by (auto simp: table_ok_def row_of_None)

lemma row_of_append: "row_of (rows @ [r]) i =
    (case row_of rows i of None \<Rightarrow> if TaskID r = i then Some r else None | Some x \<Rightarrow> Some x)"
  by (induction rows) (auto simp: row_of_def)

lemma owner_append: "owner rows i = Some x \<Longrightarrow> owner (rows @ [r]) i = Some x"
  by (auto simp: owner_def row_of_append split: option.splits)

lemma claim_task_keep:
  assumes "table_ok q" "owner q i = Some x"
  shows "owner (fst (claim_task el locked c now dur q)) i = Some x"
proof -
  let ?r = "claim_task el locked c now dur q"
  have "map_option TaskID (snd ?r) \<noteq> Some i"
    using claim_task_free [OF assms(1), of el locked c now dur "fst ?r"] assms(2)
    by (cases "snd ?r") (auto, metis prod.collapse option.distinct(1))
  with claim_task_owner [OF assms(1) prod.collapse [symmetric]] assms(2) show ?thesis by auto
qed

text \<open>Tasks enter the queue unleased, as \<^verbatim>\<open>NewFileGCTaskFromFile\<close> builds them.\<close>

definition fresh_task :: "'a task_row_scheme \<Rightarrow> bool" where
  "fresh_task t \<longleftrightarrow> (Status t = Queued \<or> Status t = StatusUnset) \<and> Receipt t = None \<and> LeasedAt t = None \<and>
    LeaseUntil t = None \<and> CompletedAt t = None"

section \<open>The contract of a lease queue\<close>

text \<open>
  What a worker relies on. An event is one transaction on the queue, with the time it happens;
  \<^term>\<open>uses e i c\<close>: the event acts on task \<^term>\<open>i\<close> in the name of receipt \<^term>\<open>c\<close>;
  \<^term>\<open>grants e q\<close>: the task, receipt and expiry that a claim hands out.
\<close>

locale lease_queue =
  fixes inv :: "'q \<Rightarrow> bool"
    and holder :: "'q \<Rightarrow> string \<Rightarrow> (string \<times> int) option"
    and step :: "'e \<Rightarrow> 'q \<Rightarrow> 'q"
    and time_of :: "'e \<Rightarrow> int"
    and valid :: "'e \<Rightarrow> bool"
    and uses :: "'e \<Rightarrow> string \<Rightarrow> string \<Rightarrow> bool"
    and grants :: "'e \<Rightarrow> 'q \<Rightarrow> (string \<times> string \<times> int) option"
  assumes inv_step: "inv q \<Longrightarrow> valid e \<Longrightarrow> inv (step e q)"
    and keep: "inv q \<Longrightarrow> valid e \<Longrightarrow> holder q i = Some (c, u) \<Longrightarrow> time_of e < u \<Longrightarrow> \<not> uses e i c \<Longrightarrow>
      holder (step e q) i = Some (c, u)"
    and grant: "inv q \<Longrightarrow> grants e q = Some (i, c, u) \<Longrightarrow> holder q i = None \<and> holder (step e q) i = Some (c, u)"
begin

definition run :: "'e list \<Rightarrow> 'q \<Rightarrow> 'q" where
  "run es q = foldl (\<lambda>q e. step e q) q es"

definition quiet :: "string \<Rightarrow> string \<Rightarrow> int \<Rightarrow> 'e \<Rightarrow> bool" where
  "quiet i c u e \<longleftrightarrow> valid e \<and> time_of e < u \<and> \<not> uses e i c"

lemma run_inv: "inv q \<Longrightarrow> list_all valid es \<Longrightarrow> inv (run es q)"
  unfolding run_def by (induction es arbitrary: q) (auto intro: inv_step)

lemma run_keep:
  "inv q \<Longrightarrow> holder q i = Some (c, u) \<Longrightarrow> list_all (quiet i c u) es \<Longrightarrow> holder (run es q) i = Some (c, u)"
  unfolding run_def by (induction es arbitrary: q) (auto simp: quiet_def intro: inv_step keep)

text \<open>Between a claim and the expiry of its lease nobody else is granted the task.\<close>

lemma exclusive:
  assumes "inv q" "valid e" "grants e q = Some (i, c, u)" "list_all (quiet i c u) es" "es = xs @ e' # ys"
  shows "holder (run es (step e q)) i = Some (c, u) \<and>
    (\<forall>c' u'. grants e' (run xs (step e q)) \<noteq> Some (i, c', u'))"
proof -
  have q1: "inv (step e q)" "holder (step e q) i = Some (c, u)"
    using inv_step [OF assms(1,2)] grant [OF assms(1,3)] by auto
  have xs: "list_all (quiet i c u) xs" using assms(4,5) by simp
  then have "inv (run xs (step e q))" by (intro run_inv [OF q1(1)]) (auto simp: list_all_iff quiet_def)
  moreover have "holder (run xs (step e q)) i = Some (c, u)" by (rule run_keep [OF q1 xs])
  ultimately show ?thesis using run_keep [OF q1 assms(4)] grant by fastforce
qed

end

end
