(* ===== verification/File_Rows.thy ===== *)
theory File_Rows
  imports Lease_Queue
begin

text \<open>
  The rows of a file in the tenant database and the operations on them
  (\<^verbatim>\<open>pkg/datastore/file_tx.go\<close>, \<^verbatim>\<open>inode.go\<close>, \<^verbatim>\<open>content.go\<close>, \<^verbatim>\<open>semantic.go\<close>, \<^verbatim>\<open>embedding_writeback.go\<close> and parts of
  \<^verbatim>\<open>store.go\<close>). A file lives in the three split tables \<^verbatim>\<open>inodes\<close>, \<^verbatim>\<open>contents\<close>, \<^verbatim>\<open>semantic\<close>; a tenant with
  the legacy table \<^verbatim>\<open>files\<close> writes both. An operation that returns an error leaves the state unchanged,
  since its caller rolls the transaction back. The hex SHA-256 of a storage reference is the parameter
  \<^verbatim>\<open>sha\<close>, the clock an argument. Vectors are opaque strings.
\<close>

section \<open>Rows\<close>

datatype file_status = PENDING | CONFIRMED | DELETED

datatype store_error = StoreNotFound | StorePathConflict | StoreRevisionConflict | StoreError string

record inode_row =
  i_size :: int
  i_revision :: int
  i_mode :: nat
  i_status :: file_status
  i_created :: int
  i_mtime :: int
  i_confirmed :: "int option"
  i_expires :: "int option"

record content_row =
  c_storage_type :: string
  c_storage_ref :: string
  c_storage_ref_hash :: string
  c_enc_mode :: string
  c_enc_key :: string
  c_blob :: "string option"
  c_type :: "string option"
  c_checksum :: "string option"
  c_source :: "string option"

record semantic_row =
  s_content_text :: "string option"
  s_description :: "string option"
  s_embedding :: "string option"
  s_embedding_revision :: "int option"
  s_desc_embedding :: "string option"
  s_desc_embedding_revision :: "int option"

text \<open>A row of the legacy table has the columns of all three, except the mode and the modification time.\<close>

record legacy_row =
  l_size :: int
  l_revision :: int
  l_status :: file_status
  l_created :: int
  l_confirmed :: "int option"
  l_expires :: "int option"
  l_content :: content_row
  l_semantic :: semantic_row

record file_tables =
  useLegacyFiles :: bool
  files :: "(string, legacy_row) gomap"
  inodes :: "(string, inode_row) gomap"
  contents :: "(string, content_row) gomap"
  semantic :: "(string, semantic_row) gomap"

text \<open>The Go struct \<^verbatim>\<open>File\<close>.\<close>

record file_data =
  fd_FileID :: string
  fd_StorageType :: string
  fd_StorageRef :: string
  fd_EncMode :: string
  fd_EncKeyID :: string
  fd_ContentBlob :: string
  fd_ContentType :: string
  fd_SizeBytes :: int
  fd_Checksum :: string
  fd_Revision :: int
  fd_Mode :: nat
  fd_EmbeddingRevision :: "int option"
  fd_Status :: file_status
  fd_SourceID :: string
  fd_ContentText :: string
  fd_Description :: string
  fd_DescEmbeddingRevision :: "int option"
  fd_CreatedAt :: int
  fd_ConfirmedAt :: "int option"
  fd_ExpiresAt :: "int option"

section \<open>Single tables\<close>

definition StorageRefHash :: "(string \<Rightarrow> string) \<Rightarrow> string \<Rightarrow> string" where
  "StorageRefHash sha ref = (if ref = '''' then '''' else sha ref)"

definition fileStorageEncryptionModeForWrite :: "string \<Rightarrow> string" where
  "fileStorageEncryptionModeForWrite mode = (if mode = '''' then ''legacy'' else mode)"

definition storageEncryptionKeyIDForWrite :: "string \<Rightarrow> string \<Rightarrow> string" where
  "storageEncryptionKeyIDForWrite mode keyID = (if mode = ''sse-kms'' \<or> mode = ''dsse-kms'' then keyID else '''')"

definition update_row :: "'k \<Rightarrow> ('v \<Rightarrow> 'v) \<Rightarrow> ('k, 'v) gomap \<Rightarrow> ('k, 'v) gomap" where
  "update_row k f m = (case map_of m k of None \<Rightarrow> m | Some v \<Rightarrow> AList.update k (f v) m)"

definition insert_row :: "'k \<Rightarrow> 'v \<Rightarrow> ('k, 'v) gomap \<Rightarrow> ('k, 'v) gomap option" where
  "insert_row k v m = (if mem_key m k then None else Some (AList.update k v m))"

definition content_of_file :: "(string \<Rightarrow> string) \<Rightarrow> file_data \<Rightarrow> content_row" where
  "content_of_file sha f =
    (let mode = fileStorageEncryptionModeForWrite (fd_EncMode f) in
     \<lparr>c_storage_type = fd_StorageType f, c_storage_ref = fd_StorageRef f,
      c_storage_ref_hash = StorageRefHash sha (fd_StorageRef f), c_enc_mode = mode,
      c_enc_key = storageEncryptionKeyIDForWrite mode (fd_EncKeyID f), c_blob = nullStr (fd_ContentBlob f),
      c_type = nullStr (fd_ContentType f), c_checksum = nullStr (fd_Checksum f), c_source = nullStr (fd_SourceID f)\<rparr>)"

definition semantic_of_file :: "file_data \<Rightarrow> semantic_row" where
  "semantic_of_file f =
    \<lparr>s_content_text = nullStr (fd_ContentText f), s_description = nullStr (fd_Description f), s_embedding = None,
     s_embedding_revision = fd_EmbeddingRevision f, s_desc_embedding = None,
     s_desc_embedding_revision = fd_DescEmbeddingRevision f\<rparr>"

definition inode_of_file :: "int \<Rightarrow> file_data \<Rightarrow> inode_row" where
  "inode_of_file now f =
    \<lparr>i_size = fd_SizeBytes f, i_revision = fd_Revision f, i_mode = (if fd_Mode f = 0 then 420 else fd_Mode f),
     i_status = fd_Status f, i_created = fd_CreatedAt f,
     i_mtime = (case fd_ConfirmedAt f of None \<Rightarrow> now | Some t \<Rightarrow> t),
     i_confirmed = fd_ConfirmedAt f, i_expires = fd_ExpiresAt f\<rparr>"

text \<open>The insert into \<^verbatim>\<open>files\<close> names \<^verbatim>\<open>description_embedding_revision\<close>, but no \<^verbatim>\<open>embedding_revision\<close>.\<close>

definition legacy_of_file :: "(string \<Rightarrow> string) \<Rightarrow> file_data \<Rightarrow> legacy_row" where
  "legacy_of_file sha f =
    \<lparr>l_size = fd_SizeBytes f, l_revision = fd_Revision f, l_status = fd_Status f, l_created = fd_CreatedAt f,
     l_confirmed = fd_ConfirmedAt f, l_expires = fd_ExpiresAt f, l_content = content_of_file sha f,
     l_semantic = (semantic_of_file f)\<lparr>s_embedding_revision := None\<rparr>\<rparr>"

definition insertSplitTablesTx ::
  "(string \<Rightarrow> string) \<Rightarrow> int \<Rightarrow> file_data \<Rightarrow> file_tables \<Rightarrow> store_error + file_tables" where
  "insertSplitTablesTx sha now f st =
    (case insert_row (fd_FileID f) (inode_of_file now f) (inodes st) of
      None \<Rightarrow> Inl (StoreError ''insert inode'')
    | Some is \<Rightarrow>
        (case insert_row (fd_FileID f) (content_of_file sha f) (contents st) of
          None \<Rightarrow> Inl (StoreError ''insert content'')
        | Some cs \<Rightarrow>
            (case insert_row (fd_FileID f) (semantic_of_file f) (semantic st) of
              None \<Rightarrow> Inl (StoreError ''insert semantic'')
            | Some ss \<Rightarrow> Inr (st\<lparr>inodes := is, contents := cs, semantic := ss\<rparr>))))"

definition InsertFileTx ::
  "(string \<Rightarrow> string) \<Rightarrow> int \<Rightarrow> file_data \<Rightarrow> file_tables \<Rightarrow> store_error + file_tables" where
  "InsertFileTx sha now f st =
    (if useLegacyFiles st then
      (case insert_row (fd_FileID f) (legacy_of_file sha f) (files st) of
        None \<Rightarrow> Inl (StoreError ''Duplicate entry'')
      | Some fs \<Rightarrow> insertSplitTablesTx sha now f (st\<lparr>files := fs\<rparr>))
     else insertSplitTablesTx sha now f st)"

definition UpdateInodeContentTx :: "string \<Rightarrow> int \<Rightarrow> int \<Rightarrow> file_status \<Rightarrow> int \<Rightarrow> file_tables \<Rightarrow> file_tables" where
  "UpdateInodeContentTx fileID sz revision status at st =
    st\<lparr>inodes := update_row fileID (\<lambda>i. i\<lparr>i_size := sz, i_revision := revision, i_status := status,
      i_mtime := at, i_confirmed := Some at\<rparr>) (inodes st)\<rparr>"

definition set_content ::
  "(string \<Rightarrow> string) \<Rightarrow> string \<Rightarrow> string \<Rightarrow> string \<Rightarrow> string \<Rightarrow> string \<Rightarrow> content_row \<Rightarrow> content_row" where
  "set_content sha storageType storageRef contentType checksum blob c =
    c\<lparr>c_storage_type := storageType, c_storage_ref := storageRef, c_storage_ref_hash := StorageRefHash sha storageRef,
      c_blob := nullStr blob, c_type := nullStr contentType, c_checksum := nullStr checksum\<rparr>"

definition UpdateContentTx ::
  "(string \<Rightarrow> string) \<Rightarrow> string \<Rightarrow> string \<Rightarrow> string \<Rightarrow> string \<Rightarrow> string \<Rightarrow> string \<Rightarrow> string \<Rightarrow> file_tables \<Rightarrow> file_tables" where
  "UpdateContentTx sha fileID storageType storageRef contentType checksum blob encMode st =
    st\<lparr>contents := update_row fileID (\<lambda>c. (set_content sha storageType storageRef contentType checksum blob c)
      \<lparr>c_enc_mode := fileStorageEncryptionModeForWrite encMode\<rparr>) (contents st)\<rparr>"

definition UpdateSemanticTx :: "string \<Rightarrow> string \<Rightarrow> string \<Rightarrow> file_tables \<Rightarrow> file_tables" where
  "UpdateSemanticTx fileID contentText description st =
    st\<lparr>semantic := update_row fileID (\<lambda>s. s\<lparr>s_content_text := nullStr contentText, s_description := nullStr description,
      s_embedding := None, s_embedding_revision := None, s_desc_embedding := None,
      s_desc_embedding_revision := None\<rparr>) (semantic st)\<rparr>"

definition updateSemanticNoEmbedTx :: "string \<Rightarrow> string \<Rightarrow> string \<Rightarrow> file_tables \<Rightarrow> file_tables" where
  "updateSemanticNoEmbedTx fileID contentText description st =
    st\<lparr>semantic := update_row fileID (\<lambda>s. s\<lparr>s_content_text := nullStr contentText,
      s_description := nullStr description\<rparr>) (semantic st)\<rparr>"

section \<open>Operations on a file\<close>

text \<open>\<^verbatim>\<open>InsertFile\<close>, which opens its own transaction and names no embedding revision in \<^verbatim>\<open>files\<close>.\<close>

definition InsertFile ::
  "(string \<Rightarrow> string) \<Rightarrow> int \<Rightarrow> file_data \<Rightarrow> file_tables \<Rightarrow> store_error + file_tables" where
  "InsertFile sha now f st =
    (if useLegacyFiles st then
      (case insert_row (fd_FileID f) ((legacy_of_file sha f)\<lparr>l_semantic :=
          (semantic_of_file f)\<lparr>s_embedding_revision := None, s_desc_embedding_revision := None\<rparr>\<rparr>) (files st) of
        None \<Rightarrow> Inl (StoreError ''Duplicate entry'')
      | Some fs \<Rightarrow> insertSplitTablesTx sha now f (st\<lparr>files := fs\<rparr>))
     else insertSplitTablesTx sha now f st)"

text \<open>The columns a content update writes.\<close>

record content_args =
  a_storageType :: string
  a_storageRef :: string
  a_contentType :: string
  a_checksum :: string
  a_contentText :: string
  a_contentBlob :: string
  a_size :: int
  a_description :: string

definition legacy_semantic_update ::
  "bool \<Rightarrow> content_args \<Rightarrow> string \<Rightarrow> int \<Rightarrow> semantic_row \<Rightarrow> semantic_row" where
  "legacy_semantic_update preserveEmbedding a currentDesc revision s =
    (let s1 = s\<lparr>s_content_text := nullStr (a_contentText a)\<rparr>;
         s2 = (if a_description a = '''' then s1
               else let s1d = s1\<lparr>s_description := Some (a_description a)\<rparr> in
                 if currentDesc = a_description a then s1d
                 else if preserveEmbedding then s1d\<lparr>s_desc_embedding_revision := Some (revision + 1)\<rparr>
                 else s1d\<lparr>s_desc_embedding := None, s_desc_embedding_revision := None\<rparr>)
     in if preserveEmbedding then s2 else s2\<lparr>s_embedding := None, s_embedding_revision := None\<rparr>)"

definition legacy_update ::
  "(string \<Rightarrow> string) \<Rightarrow> int \<Rightarrow> bool \<Rightarrow> content_args \<Rightarrow> string \<Rightarrow> legacy_row \<Rightarrow> legacy_row" where
  "legacy_update sha now preserveEmbedding a currentDesc l =
    l\<lparr>l_content := set_content sha (a_storageType a) (a_storageRef a) (a_contentType a) (a_checksum a)
        (a_contentBlob a) (l_content l),
      l_size := a_size a,
      l_semantic := legacy_semantic_update preserveEmbedding a currentDesc (l_revision l) (l_semantic l),
      l_revision := l_revision l + 1, l_status := CONFIRMED, l_confirmed := Some now\<rparr>"

text \<open>The writes to the split tables, which end every content update.\<close>

definition split_update ::
  "(string \<Rightarrow> string) \<Rightarrow> int \<Rightarrow> bool \<Rightarrow> content_args \<Rightarrow> string \<Rightarrow> int \<Rightarrow> file_tables \<Rightarrow> store_error + file_tables" where
  "split_update sha now preserveEmbedding a fileID rv st =
    (let st1 = UpdateInodeContentTx fileID (a_size a) rv CONFIRMED now st in
     case map_of (contents st1) fileID of
       None \<Rightarrow> Inl (StoreError ''read encryption mode'')
     | Some c \<Rightarrow>
         let st2 = UpdateContentTx sha fileID (a_storageType a) (a_storageRef a) (a_contentType a) (a_checksum a)
               (a_contentBlob a) (c_enc_mode c) st1
         in Inr ((if preserveEmbedding then updateSemanticNoEmbedTx else UpdateSemanticTx)
               fileID (a_contentText a) (a_description a) st2))"

definition updateFileContentTx ::
  "(string \<Rightarrow> string) \<Rightarrow> int \<Rightarrow> string \<Rightarrow> int \<Rightarrow> bool \<Rightarrow> content_args \<Rightarrow> file_tables \<Rightarrow> store_error + file_tables \<times> int" where
  "updateFileContentTx sha now fileID expectedRevision preserveEmbedding a st =
    (let fail = (if 0 < expectedRevision then StoreRevisionConflict else StoreNotFound);
         commit = (\<lambda>st1 rv. map_sum id (\<lambda>st2. (st2, rv)) (split_update sha now preserveEmbedding a fileID rv st1))
     in if useLegacyFiles st then
       (if a_description a \<noteq> '''' \<and> map_of (semantic st) fileID = None
        then Inl (StoreError ''read current description'')
        else
          (case map_of (files st) fileID of
            None \<Rightarrow> Inl fail
          | Some l \<Rightarrow>
              if 0 < expectedRevision \<and> \<not> (l_revision l = expectedRevision \<and> l_status l = CONFIRMED) then Inl fail
              else
                let currentDesc = (case map_of (semantic st) fileID of None \<Rightarrow> '''' | Some s \<Rightarrow> text_of (s_description s)) in
                commit (st\<lparr>files := AList.update fileID (legacy_update sha now preserveEmbedding a currentDesc l) (files st)\<rparr>)
                  (if 0 < expectedRevision then expectedRevision + 1 else l_revision l + 1)))
     else
       (case map_of (inodes st) fileID of
         None \<Rightarrow> Inl fail
       | Some i \<Rightarrow>
           if i_status i \<noteq> CONFIRMED then Inl fail
           else if 0 < expectedRevision \<and> i_revision i \<noteq> expectedRevision then Inl StoreRevisionConflict
           else commit st (i_revision i + 1)))"

definition UpdateFileStorageEncryptionTx ::
  "string \<Rightarrow> string \<Rightarrow> string \<Rightarrow> file_tables \<Rightarrow> store_error + file_tables" where
  "UpdateFileStorageEncryptionTx fileID mode0 keyID st =
    (let mode = fileStorageEncryptionModeForWrite mode0;
         key = storageEncryptionKeyIDForWrite mode keyID;
         setc = (\<lambda>c. c\<lparr>c_enc_mode := mode, c_enc_key := key\<rparr>);
         st1 = (if useLegacyFiles st
                then st\<lparr>files := update_row fileID (\<lambda>l. l\<lparr>l_content := setc (l_content l)\<rparr>) (files st)\<rparr> else st);
         changed = (useLegacyFiles st \<and>
           (case map_of (files st) fileID of None \<Rightarrow> False | Some l \<Rightarrow> setc (l_content l) \<noteq> l_content l))
     in if \<not> changed \<and> \<not> mem_key (inodes st) fileID then Inl StoreNotFound
        else Inr (st1\<lparr>contents := update_row fileID setc (contents st1)\<rparr>))"

text \<open>\<^verbatim>\<open>ConfirmPendingFileTx\<close> and its auto-embedding variant.\<close>

definition legacy_confirm ::
  "(string \<Rightarrow> string) \<Rightarrow> int \<Rightarrow> bool \<Rightarrow> content_args \<Rightarrow> legacy_row \<Rightarrow> legacy_row" where
  "legacy_confirm sha now auto a l =
    (let c0 = l_content l;
         s0 = (l_semantic l)\<lparr>s_content_text := None\<rparr>;
         s1 = (if auto then s0 else s0\<lparr>s_embedding := None, s_embedding_revision := None\<rparr>);
         s2 = (if a_description a = '''' then s1
               else if auto then s1\<lparr>s_description := Some (a_description a), s_desc_embedding_revision := Some (l_revision l)\<rparr>
               else s1\<lparr>s_description := Some (a_description a)\<rparr>)
     in l\<lparr>l_content := c0\<lparr>c_storage_type := a_storageType a, c_storage_ref := a_storageRef a,
            c_storage_ref_hash := StorageRefHash sha (a_storageRef a), c_type := nullStr (a_contentType a), c_checksum := None\<rparr>,
          l_size := a_size a, l_semantic := s2, l_status := CONFIRMED, l_confirmed := Some now\<rparr>)"

definition confirm_split ::
  "(string \<Rightarrow> string) \<Rightarrow> int \<Rightarrow> bool \<Rightarrow> string \<Rightarrow> content_args \<Rightarrow> file_tables \<Rightarrow> file_tables" where
  "confirm_split sha now auto fileID a st =
    (let st1 = UpdateInodeContentTx fileID (a_size a) 1 CONFIRMED now st;
         encMode = (case map_of (contents st1) fileID of None \<Rightarrow> ''legacy'' | Some c \<Rightarrow> c_enc_mode c);
         st2 = UpdateContentTx sha fileID (a_storageType a) (a_storageRef a) (a_contentType a) '''' '''' encMode st1
     in if \<not> auto then UpdateSemanticTx fileID '''' (a_description a) st2
        else if a_description a \<noteq> '''' then updateSemanticNoEmbedTx fileID '''' (a_description a) st2
        else st2)"

definition confirm_pending ::
  "bool \<Rightarrow> (string \<Rightarrow> string) \<Rightarrow> int \<Rightarrow> string \<Rightarrow> content_args \<Rightarrow> file_tables \<Rightarrow> store_error + file_tables" where
  "confirm_pending auto sha now fileID a st =
    (if useLegacyFiles st then
      (case map_of (files st) fileID of
        None \<Rightarrow> Inl StoreNotFound
      | Some l \<Rightarrow>
          if l_status l \<noteq> PENDING then Inl StoreNotFound
          else Inr (confirm_split sha now auto fileID a
            (st\<lparr>files := AList.update fileID (legacy_confirm sha now auto a l) (files st)\<rparr>)))
     else
      (case map_of (inodes st) fileID of
        None \<Rightarrow> Inl StoreNotFound
      | Some i \<Rightarrow>
          if i_status i \<noteq> PENDING then Inl StoreNotFound
          else Inr (confirm_split sha now auto fileID a st)))"

definition ConfirmPendingFileTx ::
  "(string \<Rightarrow> string) \<Rightarrow> int \<Rightarrow> string \<Rightarrow> content_args \<Rightarrow> file_tables \<Rightarrow> store_error + file_tables" where
  "ConfirmPendingFileTx = confirm_pending False"

definition ConfirmPendingFileAutoEmbeddingTx ::
  "(string \<Rightarrow> string) \<Rightarrow> int \<Rightarrow> string \<Rightarrow> content_args \<Rightarrow> file_tables \<Rightarrow> store_error + file_tables" where
  "ConfirmPendingFileAutoEmbeddingTx = confirm_pending True"

definition clear_ref :: "content_row \<Rightarrow> content_row" where
  "clear_ref c = c\<lparr>c_storage_ref := '''', c_storage_ref_hash := ''''\<rparr>"

definition pending_in :: "string \<Rightarrow> file_tables \<Rightarrow> bool" where
  "pending_in fileID st = (case map_of (inodes st) fileID of None \<Rightarrow> False | Some i \<Rightarrow> i_status i = PENDING)"

definition DeletePendingFileTx :: "int \<Rightarrow> string \<Rightarrow> file_tables \<Rightarrow> store_error + file_tables" where
  "DeletePendingFileTx now fileID st =
    (let legacy_ok = (case map_of (files st) fileID of None \<Rightarrow> False | Some l \<Rightarrow> l_status l = PENDING) in
     if useLegacyFiles st \<and> \<not> legacy_ok then Inl StoreNotFound
     else if \<not> pending_in fileID st then Inl StoreNotFound
     else Inr (st\<lparr>files := (if useLegacyFiles st then
                 update_row fileID (\<lambda>l. l\<lparr>l_status := DELETED, l_content := clear_ref (l_content l)\<rparr>) (files st) else files st),
               inodes := update_row fileID (\<lambda>i. i\<lparr>i_status := DELETED, i_mtime := now\<rparr>) (inodes st),
               contents := update_row fileID clear_ref (contents st)\<rparr>))"

definition MarkFileDeleted :: "string \<Rightarrow> file_tables \<Rightarrow> file_tables" where
  "MarkFileDeleted fileID st =
    st\<lparr>files := (if useLegacyFiles st then update_row fileID (\<lambda>l. l\<lparr>l_status := DELETED\<rparr>) (files st) else files st),
       inodes := update_row fileID (\<lambda>i. i\<lparr>i_status := DELETED\<rparr>) (inodes st)\<rparr>"

definition ClearFileEmbeddingStateTx :: "string \<Rightarrow> file_tables \<Rightarrow> store_error + file_tables" where
  "ClearFileEmbeddingStateTx fileID st =
    (let clr = (\<lambda>s. s\<lparr>s_embedding := None, s_embedding_revision := None\<rparr>);
         sem = st\<lparr>semantic := update_row fileID clr (semantic st)\<rparr>
     in if useLegacyFiles st then
       (case map_of (files st) fileID of
         None \<Rightarrow> Inl StoreNotFound
       | Some l \<Rightarrow>
           if clr (l_semantic l) = l_semantic l then Inl StoreNotFound
           else Inr (sem\<lparr>files := AList.update fileID (l\<lparr>l_semantic := clr (l_semantic l)\<rparr>) (files st)\<rparr>))
     else if mem_key (inodes st) fileID then Inr sem else Inl StoreNotFound)"

text \<open>The revision gate of the asynchronous writers: a confirmed file, at that revision if one is given.\<close>

definition inode_gate :: "string \<Rightarrow> int option \<Rightarrow> file_tables \<Rightarrow> bool" where
  "inode_gate fileID rv st =
    (case map_of (inodes st) fileID of None \<Rightarrow> False
     | Some i \<Rightarrow> i_status i = CONFIRMED \<and> (case rv of None \<Rightarrow> True | Some r \<Rightarrow> i_revision i = r))"

definition legacy_gate :: "string \<Rightarrow> int option \<Rightarrow> file_tables \<Rightarrow> bool" where
  "legacy_gate fileID rv st =
    (case map_of (files st) fileID of None \<Rightarrow> False
     | Some l \<Rightarrow> l_status l = CONFIRMED \<and> (case rv of None \<Rightarrow> True | Some r \<Rightarrow> l_revision l = r))"

text \<open>A gated write of semantic columns to \<^verbatim>\<open>files\<close> and \<^verbatim>\<open>semantic\<close>, and whether it changed its first table.\<close>

definition gated_semantic_update ::
  "(semantic_row \<Rightarrow> semantic_row) \<Rightarrow> string \<Rightarrow> int option \<Rightarrow> file_tables \<Rightarrow> file_tables \<times> bool" where
  "gated_semantic_update g fileID rv st =
    (let chg = (\<lambda>so. case so of None \<Rightarrow> False | Some s \<Rightarrow> g s \<noteq> s);
         sem = (if inode_gate fileID rv st then update_row fileID g (semantic st) else semantic st)
     in if useLegacyFiles st then
       (st\<lparr>files := (if legacy_gate fileID rv st
              then update_row fileID (\<lambda>l. l\<lparr>l_semantic := g (l_semantic l)\<rparr>) (files st) else files st),
           semantic := sem\<rparr>,
        legacy_gate fileID rv st \<and> chg (map_option l_semantic (map_of (files st) fileID)))
     else (st\<lparr>semantic := sem\<rparr>, inode_gate fileID rv st \<and> chg (map_of (semantic st) fileID)))"

definition updateFileSearchTextExec :: "string \<Rightarrow> int \<Rightarrow> string \<Rightarrow> file_tables \<Rightarrow> file_tables \<times> bool" where
  "updateFileSearchTextExec fileID expectedRevision contentText st =
    gated_semantic_update (\<lambda>s. s\<lparr>s_content_text := nullStr contentText\<rparr>) fileID
      (if 0 < expectedRevision then Some expectedRevision else None) st"

definition UpdateFileEmbedding :: "string \<Rightarrow> int \<Rightarrow> string \<Rightarrow> file_tables \<Rightarrow> store_error + file_tables \<times> bool" where
  "UpdateFileEmbedding fileID revision vector st =
    (if vector = '''' then Inl (StoreError ''embedding vector is required'')
     else Inr (gated_semantic_update (\<lambda>s. s\<lparr>s_embedding := Some vector, s_embedding_revision := Some revision\<rparr>)
       fileID (Some revision) st))"

definition UpdateFileDescriptionEmbedding ::
  "string \<Rightarrow> int \<Rightarrow> string \<Rightarrow> file_tables \<Rightarrow> store_error + file_tables \<times> bool" where
  "UpdateFileDescriptionEmbedding fileID revision vector st =
    (if vector = '''' then Inl (StoreError ''embedding vector is required'')
     else Inr (gated_semantic_update (\<lambda>s. s\<lparr>s_desc_embedding := Some vector, s_desc_embedding_revision := Some revision\<rparr>)
       fileID (Some revision) st))"

text \<open>\<^verbatim>\<open>GetFile\<close> with \<^verbatim>\<open>assembleFile\<close>: a missing content or semantic row is an error.\<close>

definition assembleFile :: "string \<Rightarrow> inode_row \<Rightarrow> content_row \<Rightarrow> semantic_row \<Rightarrow> file_data" where
  "assembleFile fileID i c s =
    \<lparr>fd_FileID = fileID, fd_StorageType = c_storage_type c, fd_StorageRef = c_storage_ref c, fd_EncMode = c_enc_mode c,
     fd_EncKeyID = c_enc_key c, fd_ContentBlob = text_of (c_blob c), fd_ContentType = text_of (c_type c),
     fd_SizeBytes = i_size i, fd_Checksum = text_of (c_checksum c), fd_Revision = i_revision i, fd_Mode = i_mode i,
     fd_EmbeddingRevision = s_embedding_revision s, fd_Status = i_status i, fd_SourceID = text_of (c_source c),
     fd_ContentText = text_of (s_content_text s), fd_Description = text_of (s_description s),
     fd_DescEmbeddingRevision = s_desc_embedding_revision s, fd_CreatedAt = i_created i,
     fd_ConfirmedAt = i_confirmed i, fd_ExpiresAt = i_expires i\<rparr>"

definition GetFile :: "string \<Rightarrow> file_tables \<Rightarrow> store_error + file_data" where
  "GetFile fileID st =
    (case map_of (inodes st) fileID of
      None \<Rightarrow> Inl StoreNotFound
    | Some i \<Rightarrow>
        (case map_of (contents st) fileID of
          None \<Rightarrow> Inl (StoreError ''get content'')
        | Some c \<Rightarrow>
            (case map_of (semantic st) fileID of
              None \<Rightarrow> Inl (StoreError ''get semantic'')
            | Some s \<Rightarrow> Inr (assembleFile fileID i c s))))"

definition HasConfirmedS3StorageRef :: "string \<Rightarrow> string \<Rightarrow> file_tables \<Rightarrow> bool" where
  "HasConfirmedS3StorageRef refHash ref st =
    (refHash \<noteq> '''' \<and> ref \<noteq> '''' \<and>
     list_ex (\<lambda>(k, c). c_storage_type c = ''s3'' \<and> c_storage_ref_hash c = refHash \<and> c_storage_ref c = ref \<and>
       (case map_of (inodes st) k of None \<Rightarrow> False | Some i \<Rightarrow> i_status i = CONFIRMED)) (contents st))"

section \<open>Agreement of the legacy table with the split tables\<close>

lemma map_of_update_row [simp]:
  "map_of (update_row k f m) j = (if j = k then map_option f (map_of m k) else map_of m j)"
  by (auto simp: update_row_def split: option.splits)

lemma insert_row_Some: "insert_row k v m = Some m' \<longleftrightarrow> map_of m k = None \<and> m' = AList.update k v m"
  by (auto simp: insert_row_def mem_key_def)

definition agree :: "legacy_row \<Rightarrow> inode_row \<Rightarrow> content_row \<Rightarrow> semantic_row \<Rightarrow> bool" where
  "agree l i c s \<longleftrightarrow>
    l_size l = i_size i \<and> l_revision l = i_revision i \<and> l_status l = i_status i \<and> l_confirmed l = i_confirmed i \<and>
    l_content l = c \<and> s_content_text (l_semantic l) = s_content_text s \<and>
    s_embedding (l_semantic l) = s_embedding s \<and> s_embedding_revision (l_semantic l) = s_embedding_revision s"

text \<open>A pending file is as the upload created it, and the encryption mode is always written.\<close>

definition fresh_pending :: "inode_row \<Rightarrow> content_row \<Rightarrow> semantic_row \<Rightarrow> bool" where
  "fresh_pending i c s \<longleftrightarrow> c_enc_mode c \<noteq> '''' \<and>
    (i_status i = PENDING \<longrightarrow> i_revision i = 1 \<and> c_blob c = None \<and> s_content_text s = None)"

definition rows_ok :: "bool \<Rightarrow> legacy_row option \<Rightarrow> inode_row option \<Rightarrow> content_row option \<Rightarrow> semantic_row option \<Rightarrow> bool" where
  "rows_ok legacy lo io co so \<longleftrightarrow>
    (case co of
      None \<Rightarrow> so = None \<and> (legacy \<longrightarrow> lo = None)
    | Some c \<Rightarrow> \<exists>i s. io = Some i \<and> so = Some s \<and> fresh_pending i c s \<and>
        (legacy \<longrightarrow> (\<exists>l. lo = Some l \<and> agree l i c s)))"

definition rows_at :: "file_tables \<Rightarrow> string \<Rightarrow> bool" where
  "rows_at st k = rows_ok (useLegacyFiles st) (map_of (files st) k) (map_of (inodes st) k)
    (map_of (contents st) k) (map_of (semantic st) k)"

definition tables_ok :: "file_tables \<Rightarrow> bool" where
  "tables_ok st \<longleftrightarrow> (\<forall>k. rows_at st k)"

definition same_but :: "string \<Rightarrow> file_tables \<Rightarrow> file_tables \<Rightarrow> bool" where
  "same_but fid st st' \<longleftrightarrow> useLegacyFiles st' = useLegacyFiles st \<and>
    (\<forall>k. k \<noteq> fid \<longrightarrow> map_of (files st') k = map_of (files st) k \<and> map_of (inodes st') k = map_of (inodes st) k \<and>
      map_of (contents st') k = map_of (contents st) k \<and> map_of (semantic st') k = map_of (semantic st) k)"

lemma tables_ok_one:
  assumes "tables_ok st" "same_but fid st st'" "rows_at st' fid"
  shows "tables_ok st'"
  unfolding tables_ok_def
proof
  fix k
  show "rows_at st' k"
    using assms by (cases "k = fid") (auto simp: tables_ok_def same_but_def rows_at_def)
qed

lemma rows_of:
  assumes "tables_ok st" "map_of (contents st) k = Some c"
  obtains i s where "map_of (inodes st) k = Some i" "map_of (semantic st) k = Some s" "fresh_pending i c s"
    "useLegacyFiles st \<Longrightarrow> \<exists>l. map_of (files st) k = Some l \<and> agree l i c s"
  using assms by (auto simp: tables_ok_def rows_at_def rows_ok_def dest!: spec [of _ k])

lemma rows_none:
  assumes "tables_ok st" "map_of (contents st) k = None"
  shows "map_of (semantic st) k = None" "useLegacyFiles st \<Longrightarrow> map_of (files st) k = None"
  using assms by (auto simp: tables_ok_def rows_at_def rows_ok_def dest!: spec [of _ k])

lemma rows_atI:
  assumes "map_of (inodes st) k = Some i" "map_of (contents st) k = Some c" "map_of (semantic st) k = Some s"
    "fresh_pending i c s" "useLegacyFiles st \<Longrightarrow> \<exists>l. map_of (files st) k = Some l \<and> agree l i c s"
  shows "rows_at st k"
  using assms by (simp add: rows_at_def rows_ok_def)

lemma enc_mode_id [simp]: "m \<noteq> '''' \<Longrightarrow> fileStorageEncryptionModeForWrite m = m"
  "fileStorageEncryptionModeForWrite m \<noteq> ''''"
  by (simp_all add: fileStorageEncryptionModeForWrite_def)

lemma set_content_enc [simp]: "c_enc_mode (set_content sha t r ct ck b c) = c_enc_mode c"
  "c_blob (set_content sha t r ct ck b c) = nullStr b"
  "(set_content sha t r ct ck b c)\<lparr>c_enc_mode := c_enc_mode c\<rparr> = set_content sha t r ct ck b c"
  by (simp_all add: set_content_def)

lemma legacy_semantic_fields [simp]:
  "s_content_text (legacy_semantic_update pe a d r s) = nullStr (a_contentText a)"
  "s_embedding (legacy_semantic_update pe a d r s) = (if pe then s_embedding s else None)"
  "s_embedding_revision (legacy_semantic_update pe a d r s) = (if pe then s_embedding_revision s else None)"
  by (simp_all add: legacy_semantic_update_def Let_def)

text \<open>What a successful content update leaves in the split tables.\<close>

lemma split_update_Inr:
  assumes "split_update sha now pe a fid rv st = Inr st'"
    "map_of (contents st) fid = Some c" "map_of (inodes st) fid = Some i" "map_of (semantic st) fid = Some s"
    "c_enc_mode c \<noteq> ''''"
  shows "same_but fid st st' \<and> files st' = files st \<and>
    map_of (inodes st') fid = Some (i\<lparr>i_size := a_size a, i_revision := rv, i_status := CONFIRMED, i_mtime := now,
      i_confirmed := Some now\<rparr>) \<and>
    map_of (contents st') fid = Some (set_content sha (a_storageType a) (a_storageRef a) (a_contentType a)
      (a_checksum a) (a_contentBlob a) c) \<and>
    (\<exists>s'. map_of (semantic st') fid = Some s' \<and> s_content_text s' = nullStr (a_contentText a) \<and>
      s_description s' = nullStr (a_description a) \<and>
      s_embedding s' = (if pe then s_embedding s else None) \<and>
      s_embedding_revision s' = (if pe then s_embedding_revision s else None))"
  using assms
  by (auto simp: split_update_def Let_def UpdateInodeContentTx_def UpdateContentTx_def UpdateSemanticTx_def
      updateSemanticNoEmbedTx_def same_but_def)

lemma split_update_total:
  "map_of (contents st) fid = Some c \<Longrightarrow> \<exists>st'. split_update sha now pe a fid rv st = Inr st'"
  by (simp add: split_update_def Let_def UpdateInodeContentTx_def)

lemma split_update_files:
  "split_update sha now pe a fid rv st = Inr st' \<Longrightarrow> map_of (contents st) fid \<noteq> None"
  by (auto simp: split_update_def Let_def UpdateInodeContentTx_def split: option.splits)

text \<open>A content update, both modes, on tables that agree.\<close>

lemma update_content_cases:
  assumes ok: "tables_ok st" and u: "updateFileContentTx sha now fid er pe a st = Inr (st', rv)"
  obtains i c s where "map_of (contents st) fid = Some c" "map_of (inodes st) fid = Some i"
    "map_of (semantic st) fid = Some s" "fresh_pending i c s" "rv = i_revision i + 1"
    "0 < er \<Longrightarrow> i_revision i = er \<and> i_status i = CONFIRMED" "useLegacyFiles st \<or> i_status i = CONFIRMED"
    "useLegacyFiles st \<Longrightarrow> \<exists>l d st1. map_of (files st) fid = Some l \<and> agree l i c s \<and>
      st1 = st\<lparr>files := AList.update fid (legacy_update sha now pe a d l) (files st)\<rparr> \<and>
      split_update sha now pe a fid rv st1 = Inr st'"
    "\<not> useLegacyFiles st \<Longrightarrow> split_update sha now pe a fid rv st = Inr st'"
proof (cases "useLegacyFiles st")
  case True
  then obtain l d where l: "map_of (files st) fid = Some l"
      and g: "0 < er \<Longrightarrow> l_revision l = er \<and> l_status l = CONFIRMED"
      and rv: "rv = l_revision l + 1"
      and s: "split_update sha now pe a fid rv
        (st\<lparr>files := AList.update fid (legacy_update sha now pe a d l) (files st)\<rparr>) = Inr st'"
    using u by (auto simp: updateFileContentTx_def Let_def split: if_splits option.splits)
  obtain c where c: "map_of (contents st) fid = Some c" using split_update_files [OF s] by auto
  from rows_of [OF ok c] obtain i x where r: "map_of (inodes st) fid = Some i" "map_of (semantic st) fid = Some x"
      "fresh_pending i c x" "\<exists>l. map_of (files st) fid = Some l \<and> agree l i c x" using True by metis
  then have ag: "agree l i c x" using l by auto
  show thesis
    by (rule that [OF c r(1,2,3)]) (use rv g ag l s True in \<open>auto simp: agree_def\<close>)
next
  case False
  then obtain i where i: "map_of (inodes st) fid = Some i" "i_status i = CONFIRMED" "0 < er \<Longrightarrow> i_revision i = er"
      and rv: "rv = i_revision i + 1" and s: "split_update sha now pe a fid rv st = Inr st'"
    using u by (auto simp: updateFileContentTx_def Let_def split: if_splits option.splits)
  obtain c where c: "map_of (contents st) fid = Some c" using split_update_files [OF s] by auto
  from rows_of [OF ok c] i(1) obtain x where r: "map_of (semantic st) fid = Some x" "fresh_pending i c x" by auto
  show thesis
    by (rule that [OF c i(1) r]) (use rv i s False in auto)
qed

lemma update_content_ok:
  assumes ok: "tables_ok st" and u: "updateFileContentTx sha now fid er pe a st = Inr (st', rv)"
  shows "tables_ok st' \<and> same_but fid st st'"
proof (cases rule: update_content_cases [OF ok u])
  case (1 i c s)
  have enc: "c_enc_mode c \<noteq> ''''" using 1(4) by (simp add: fresh_pending_def)
  let ?i = "i\<lparr>i_size := a_size a, i_revision := rv, i_status := CONFIRMED, i_mtime := now, i_confirmed := Some now\<rparr>"
  let ?c = "set_content sha (a_storageType a) (a_storageRef a) (a_contentType a) (a_checksum a) (a_contentBlob a) c"
  have fp: "fresh_pending ?i ?c s'" for s' using enc by (simp add: fresh_pending_def)
  have "rows_at st' fid \<and> same_but fid st st'"
  proof (cases "useLegacyFiles st")
    case True
    then obtain l d st1 where l: "map_of (files st) fid = Some l" "agree l i c s"
        and st1: "st1 = st\<lparr>files := AList.update fid (legacy_update sha now pe a d l) (files st)\<rparr>"
        and su: "split_update sha now pe a fid rv st1 = Inr st'" using 1(8) by blast
    have rows1: "map_of (contents st1) fid = Some c" "map_of (inodes st1) fid = Some i" "map_of (semantic st1) fid = Some s"
      using 1(1-3) by (simp_all add: st1)
    obtain s' where r: "same_but fid st1 st'" "files st' = files st1" "map_of (inodes st') fid = Some ?i"
        "map_of (contents st') fid = Some ?c" "map_of (semantic st') fid = Some s'"
        "s_content_text s' = nullStr (a_contentText a)" "s_embedding s' = (if pe then s_embedding s else None)"
        "s_embedding_revision s' = (if pe then s_embedding_revision s else None)"
      using split_update_Inr [OF su rows1 enc] by blast
    have "agree (legacy_update sha now pe a d l) ?i ?c s'"
      using l(2) r(6-8) 1(5) by (auto simp: agree_def legacy_update_def)
    moreover have "same_but fid st st'" using r(1) by (auto simp: same_but_def st1)
    ultimately show ?thesis using r fp by (auto simp: st1 intro!: rows_atI)
  next
    case False
    from split_update_Inr [OF 1(9) [OF False] 1(1-3) enc] fp False show ?thesis
      by (auto simp: same_but_def intro!: rows_atI)
  qed
  then show ?thesis using tables_ok_one [OF ok] by blast
qed

lemma confirm_split_rows:
  fixes sha :: "string \<Rightarrow> string" and now :: int and auto :: bool and a :: content_args
  assumes "map_of (contents st) fid = Some c" "c_enc_mode c \<noteq> ''''" "map_of (inodes st) fid = Some i"
    "map_of (semantic st) fid = Some s" "s_content_text s = None"
  defines "st' \<equiv> confirm_split sha now auto fid a st"
  shows "same_but fid st st'" "files st' = files st"
    "map_of (inodes st') fid = Some (i\<lparr>i_size := a_size a, i_revision := 1, i_status := CONFIRMED, i_mtime := now,
      i_confirmed := Some now\<rparr>)"
    "map_of (contents st') fid = Some (set_content sha (a_storageType a) (a_storageRef a) (a_contentType a) '''' '''' c)"
    "\<exists>s'. map_of (semantic st') fid = Some s' \<and> s_content_text s' = None \<and>
      s_embedding s' = (if auto then s_embedding s else None) \<and>
      s_embedding_revision s' = (if auto then s_embedding_revision s else None)"
  using assms(1-5) unfolding st'_def
  by (simp_all add: confirm_split_def Let_def UpdateInodeContentTx_def UpdateContentTx_def UpdateSemanticTx_def
      updateSemanticNoEmbedTx_def same_but_def nullStr_def)

lemma legacy_confirm_agree:
  assumes "agree l i c s" "i_revision i = 1" "c_blob c = None" "s_content_text s' = None"
    "s_embedding s' = (if auto then s_embedding s else None)"
    "s_embedding_revision s' = (if auto then s_embedding_revision s else None)"
  shows "agree (legacy_confirm sha now auto a l) (i\<lparr>i_size := a_size a, i_revision := 1, i_status := CONFIRMED,
      i_mtime := now, i_confirmed := Some now\<rparr>)
    (set_content sha (a_storageType a) (a_storageRef a) (a_contentType a) '''' '''' c) s'"
  using assms by (auto simp: agree_def legacy_confirm_def Let_def set_content_def nullStr_def)

lemma confirm_ok:
  assumes ok: "tables_ok st" and c: "confirm_pending auto sha now fid a st = Inr st'"
  shows "tables_ok st'"
proof (cases "map_of (contents st) fid")
  case None
  then have nl: "\<not> useLegacyFiles st"
    using c rows_none(2) [OF ok None] by (cases "useLegacyFiles st") (auto simp: confirm_pending_def)
  then have "st' = confirm_split sha now auto fid a st"
    using c by (auto simp: confirm_pending_def split: option.splits if_splits)
  with None nl rows_none(1) [OF ok None] have "same_but fid st st' \<and> rows_at st' fid"
    by (simp add: confirm_split_def Let_def UpdateInodeContentTx_def UpdateContentTx_def UpdateSemanticTx_def
      updateSemanticNoEmbedTx_def same_but_def rows_at_def rows_ok_def)
  then show ?thesis using tables_ok_one [OF ok] by blast
next
  case (Some x)
  from rows_of [OF ok Some] obtain i s where r: "map_of (inodes st) fid = Some i" "map_of (semantic st) fid = Some s"
      "fresh_pending i x s" "useLegacyFiles st \<Longrightarrow> \<exists>l. map_of (files st) fid = Some l \<and> agree l i x s" by metis
  have pend: "i_status i = PENDING"
    using c r by (auto simp: confirm_pending_def agree_def split: if_splits)
  with r(3) have old: "i_revision i = 1" "c_blob x = None" "s_content_text s = None" "c_enc_mode x \<noteq> ''''"
    by (auto simp: fresh_pending_def)
  have fp: "fresh_pending (i\<lparr>i_size := a_size a, i_revision := 1, i_status := CONFIRMED, i_mtime := now,
      i_confirmed := Some now\<rparr>) (set_content sha (a_storageType a) (a_storageRef a) (a_contentType a) '''' '''' x) s'" for s'
    using old(4) by (simp add: fresh_pending_def)
  have "same_but fid st st' \<and> rows_at st' fid"
  proof (cases "useLegacyFiles st")
    case True
    then obtain l where l: "map_of (files st) fid = Some l" "agree l i x s" using r(4) by blast
    let ?st1 = "st\<lparr>files := AList.update fid (legacy_confirm sha now auto a l) (files st)\<rparr>"
    have st': "st' = confirm_split sha now auto fid a ?st1"
      using c l True by (auto simp: confirm_pending_def split: if_splits)
    have rows1: "map_of (contents ?st1) fid = Some x" "map_of (inodes ?st1) fid = Some i" "map_of (semantic ?st1) fid = Some s"
      using Some r by simp_all
    note cs = confirm_split_rows [OF rows1(1) old(4) rows1(2,3) old(3), of sha now auto a, folded st']
    obtain s' where s': "map_of (semantic st') fid = Some s'" "s_content_text s' = None"
        "s_embedding s' = (if auto then s_embedding s else None)"
        "s_embedding_revision s' = (if auto then s_embedding_revision s else None)" using cs(5) by blast
    have "same_but fid st st'" using cs(1) by (auto simp: same_but_def)
    then show ?thesis
      using rows_atI [OF cs(3,4) s'(1) fp] legacy_confirm_agree [OF l(2) old(1,2) s'(2-4)] cs(2) by auto
  next
    case False
    then have st': "st' = confirm_split sha now auto fid a st" using c r pend by (simp add: confirm_pending_def)
    note cs = confirm_split_rows [OF Some old(4) r(1,2) old(3), of sha now auto a, folded st']
    then show ?thesis using rows_atI [OF cs(3,4) _ fp] False by (auto simp: same_but_def)
  qed
  then show ?thesis using tables_ok_one [OF ok] by blast
qed

lemma status_ok:
  assumes ok: "tables_ok st" and f: "\<And>i. i_size (f i) = i_size i \<and> i_revision (f i) = i_revision i \<and>
      i_confirmed (f i) = i_confirmed i \<and> i_status (f i) = DELETED"
    and g: "\<And>c. c_enc_mode (g c) = c_enc_mode c \<and> c_blob (g c) = c_blob c"
    and st': "useLegacyFiles st' = useLegacyFiles st" "semantic st' = semantic st"
      "\<And>k. map_of (files st') k = (if useLegacyFiles st \<and> k = fid
        then map_option (\<lambda>l. l\<lparr>l_status := DELETED, l_content := g (l_content l)\<rparr>) (map_of (files st) k) else map_of (files st) k)"
      "\<And>k. map_of (inodes st') k = (if k = fid then map_option f (map_of (inodes st) k) else map_of (inodes st) k)"
      "\<And>k. map_of (contents st') k = (if k = fid then map_option g (map_of (contents st) k) else map_of (contents st) k)"
  shows "tables_ok st'"
proof -
  have "rows_at st fid" using ok by (simp add: tables_ok_def)
  then have "same_but fid st st' \<and> rows_at st' fid"
    using f g by (auto simp: st' same_but_def rows_at_def rows_ok_def agree_def fresh_pending_def split: option.splits)
  then show ?thesis using tables_ok_one [OF ok] by blast
qed

lemma delete_pending_ok: "tables_ok st \<Longrightarrow> DeletePendingFileTx now fid st = Inr st' \<Longrightarrow> tables_ok st'"
  by (rule status_ok [where st = st and g = clear_ref and f = "\<lambda>i. i\<lparr>i_status := DELETED, i_mtime := now\<rparr>" and fid = fid])
    (auto simp: DeletePendingFileTx_def Let_def clear_ref_def split: if_splits)

lemma mark_deleted_ok: "tables_ok st \<Longrightarrow> tables_ok (MarkFileDeleted fid st)"
  by (rule status_ok [where st = st and g = "\<lambda>c. c" and f = "\<lambda>i. i\<lparr>i_status := DELETED\<rparr>" and fid = fid])
    (auto simp: MarkFileDeleted_def map_option.identity option.map_ident)

lemma encryption_rows:
  assumes e: "UpdateFileStorageEncryptionTx fid mode0 keyID st = Inr st'"
  defines "mode \<equiv> fileStorageEncryptionModeForWrite mode0"
  defines "setc \<equiv> \<lambda>c. c\<lparr>c_enc_mode := mode, c_enc_key := storageEncryptionKeyIDForWrite mode keyID\<rparr>"
  shows "useLegacyFiles st' = useLegacyFiles st" "inodes st' = inodes st" "semantic st' = semantic st"
    "map_of (contents st') k = (if k = fid then map_option setc (map_of (contents st) k) else map_of (contents st) k)"
    "map_of (files st') k = (if useLegacyFiles st \<and> k = fid
      then map_option (\<lambda>l. l\<lparr>l_content := setc (l_content l)\<rparr>) (map_of (files st) k) else map_of (files st) k)"
proof -
  have "st' = (let st1 = (if useLegacyFiles st
      then st\<lparr>files := update_row fid (\<lambda>l. l\<lparr>l_content := setc (l_content l)\<rparr>) (files st)\<rparr> else st)
    in st1\<lparr>contents := update_row fid setc (contents st1)\<rparr>)"
    using e by (simp add: UpdateFileStorageEncryptionTx_def Let_def setc_def mode_def split: if_split_asm)
  then show "useLegacyFiles st' = useLegacyFiles st" "inodes st' = inodes st" "semantic st' = semantic st"
    "map_of (contents st') k = (if k = fid then map_option setc (map_of (contents st) k) else map_of (contents st) k)"
    "map_of (files st') k = (if useLegacyFiles st \<and> k = fid
      then map_option (\<lambda>l. l\<lparr>l_content := setc (l_content l)\<rparr>) (map_of (files st) k) else map_of (files st) k)"
    by (simp_all add: Let_def)
qed

lemma encryption_ok:
  assumes ok: "tables_ok st" and e: "UpdateFileStorageEncryptionTx fid mode key st = Inr st'"
  shows "tables_ok st'"
proof -
  note rows = encryption_rows [OF e]
  have "same_but fid st st'" by (simp add: same_but_def rows)
  moreover have "rows_at st' fid"
  proof (cases "map_of (contents st) fid")
    case None
    then show ?thesis using rows_none [OF ok None] by (simp add: rows_at_def rows_ok_def rows)
  next
    case (Some c)
    from rows_of [OF ok Some] obtain i s where r: "map_of (inodes st) fid = Some i" "map_of (semantic st) fid = Some s"
        "fresh_pending i c s" "useLegacyFiles st \<Longrightarrow> \<exists>l. map_of (files st) fid = Some l \<and> agree l i c s" by metis
    then show ?thesis using Some by (auto simp: rows_at_def rows_ok_def rows fresh_pending_def agree_def)
  qed
  ultimately show ?thesis using tables_ok_one [OF ok] by blast
qed

lemma insertSplit_rows:
  assumes "insertSplitTablesTx sha now f st = Inr st'"
  shows "useLegacyFiles st' = useLegacyFiles st" "files st' = files st"
    "map_of (inodes st') = (map_of (inodes st))(fd_FileID f \<mapsto> inode_of_file now f)"
    "map_of (contents st') = (map_of (contents st))(fd_FileID f \<mapsto> content_of_file sha f)"
    "map_of (semantic st') = (map_of (semantic st))(fd_FileID f \<mapsto> semantic_of_file f)"
  using assms by (auto simp: insertSplitTablesTx_def insert_row_Some split: option.split_asm)

lemma insert_agree:
  "fd_EmbeddingRevision f = None \<Longrightarrow>
    agree (legacy_of_file sha f) (inode_of_file now f) (content_of_file sha f) (semantic_of_file f)"
  by (simp add: agree_def legacy_of_file_def inode_of_file_def semantic_of_file_def)

lemma insert_ok:
  assumes ok: "tables_ok st" and e: "InsertFileTx sha now f st = Inr st'" and "fd_EmbeddingRevision f = None"
    and p: "fd_Status f = PENDING \<longrightarrow> fd_Revision f = 1 \<and> fd_ContentBlob f = '''' \<and> fd_ContentText f = ''''"
  shows "tables_ok st'"
proof -
  have fp: "fresh_pending (inode_of_file now f) (content_of_file sha f) (semantic_of_file f)"
    using p by (simp add: fresh_pending_def inode_of_file_def content_of_file_def semantic_of_file_def Let_def nullStr_def)
  have "same_but (fd_FileID f) st st' \<and> rows_at st' (fd_FileID f)"
  proof (cases "useLegacyFiles st")
    case True
    then obtain fs where fs: "fs = AList.update (fd_FileID f) (legacy_of_file sha f) (files st)"
        and st': "insertSplitTablesTx sha now f (st\<lparr>files := fs\<rparr>) = Inr st'"
      using e by (auto simp: InsertFileTx_def insert_row_Some split: option.split_asm)
    show ?thesis
      using fp insert_agree [OF assms(3)] by (auto simp: same_but_def fs insertSplit_rows [OF st'] intro!: rows_atI)
  next
    case False
    then have st': "insertSplitTablesTx sha now f st = Inr st'" using e by (simp add: InsertFileTx_def)
    show ?thesis using fp False by (auto simp: same_but_def insertSplit_rows [OF st'] intro!: rows_atI)
  qed
  then show ?thesis using tables_ok_one [OF ok] by blast
qed

lemma gates_agree:
  assumes ok: "tables_ok st" and "useLegacyFiles st" and "map_of (files st) fid = Some l"
  shows "legacy_gate fid rv st = inode_gate fid rv st"
proof -
  obtain c where c: "map_of (contents st) fid = Some c"
    using rows_none(2) [OF ok _ assms(2), of fid] assms(3) by (cases "map_of (contents st) fid") auto
  from rows_of [OF ok c] assms obtain i s where "map_of (inodes st) fid = Some i" "agree l i c s" by (metis option.inject)
  with assms(3) show ?thesis by (auto simp: legacy_gate_def inode_gate_def agree_def split: option.splits)
qed

lemma gated_rows:
  fixes rv :: "int option"
  defines "u st fid g \<equiv> fst (gated_semantic_update g fid rv st)"
  shows "useLegacyFiles (u st fid g) = useLegacyFiles st" "inodes (u st fid g) = inodes st" "contents (u st fid g) = contents st"
    "map_of (semantic (u st fid g)) k = (if k = fid \<and> inode_gate fid rv st
      then map_option g (map_of (semantic st) k) else map_of (semantic st) k)"
    "map_of (files (u st fid g)) k = (if k = fid \<and> useLegacyFiles st \<and> legacy_gate fid rv st
      then map_option (\<lambda>l. l\<lparr>l_semantic := g (l_semantic l)\<rparr>) (map_of (files st) k) else map_of (files st) k)"
  by (simp_all add: u_def gated_semantic_update_def Let_def)

lemma gated_ok:
  assumes ok: "tables_ok st" and g: "\<And>s t. s_content_text s = s_content_text t \<Longrightarrow> s_embedding s = s_embedding t \<Longrightarrow>
      s_embedding_revision s = s_embedding_revision t \<Longrightarrow>
      s_content_text (g s) = s_content_text (g t) \<and> s_embedding (g s) = s_embedding (g t) \<and>
      s_embedding_revision (g s) = s_embedding_revision (g t)"
  shows "tables_ok (fst (gated_semantic_update g fid rv st))"
proof -
  let ?st' = "fst (gated_semantic_update g fid rv st)"
  note rows = gated_rows [of g fid rv st]
  have "rows_at ?st' fid"
  proof (cases "map_of (contents st) fid")
    case None
    then show ?thesis using rows_none [OF ok None] by (simp add: rows_at_def rows_ok_def rows)
  next
    case (Some c)
    from rows_of [OF ok Some] obtain i s where r: "map_of (inodes st) fid = Some i" "map_of (semantic st) fid = Some s"
        "fresh_pending i c s" "useLegacyFiles st \<Longrightarrow> \<exists>l. map_of (files st) fid = Some l \<and> agree l i c s" by metis
    show ?thesis
    proof (cases "inode_gate fid rv st")
      case True
      then have "i_status i = CONFIRMED" using r(1) by (simp add: inode_gate_def)
      then have fp: "fresh_pending i c (g s)" using r(3) by (simp add: fresh_pending_def)
      have "\<exists>l. map_of (files ?st') fid = Some l \<and> agree l i c (g s)" if L: "useLegacyFiles st"
      proof -
        obtain l where l: "map_of (files st) fid = Some l" "agree l i c s" using r(4) [OF L] by blast
        then have "legacy_gate fid rv st" using gates_agree [OF ok L l(1)] True by simp
        moreover have "agree (l\<lparr>l_semantic := g (l_semantic l)\<rparr>) i c (g s)"
          using l(2) g [of "l_semantic l" s] by (simp add: agree_def)
        ultimately show ?thesis using l(1) L by (simp add: rows)
      qed
      then show ?thesis using r Some True fp by (intro rows_atI [of _ _ i c "g s"]) (simp_all add: rows)
    next
      case False
      have "\<exists>l. map_of (files ?st') fid = Some l \<and> agree l i c s" if L: "useLegacyFiles st"
        using r(4) [OF L] gates_agree [OF ok L, of fid] False by (auto simp: rows)
      then show ?thesis using r Some False by (intro rows_atI [of _ _ i c s]) (simp_all add: rows)
    qed
  qed
  moreover have "same_but fid st ?st'" by (simp add: same_but_def rows)
  ultimately show ?thesis using tables_ok_one [OF ok] by blast
qed

section \<open>Sequences of operations\<close>

datatype file_event =
    FInsert int file_data
  | FUpdate int string int bool content_args
  | FEncryption string string string
  | FConfirm bool int string content_args
  | FDeletePending int string
  | FMarkDeleted string
  | FSearchText string int string
  | FEmbed string int string
  | FDescEmbed string int string

fun file_step :: "(string \<Rightarrow> string) \<Rightarrow> file_event \<Rightarrow> file_tables \<Rightarrow> file_tables" where
  "file_step sha (FInsert now f) st = or_keep st (InsertFileTx sha now f st)"
| "file_step sha (FUpdate now fid er pe a) st = or_keep st (map_sum id fst (updateFileContentTx sha now fid er pe a st))"
| "file_step sha (FEncryption fid mode key) st = or_keep st (UpdateFileStorageEncryptionTx fid mode key st)"
| "file_step sha (FConfirm auto now fid a) st =
    or_keep st ((if auto then ConfirmPendingFileAutoEmbeddingTx else ConfirmPendingFileTx) sha now fid a st)"
| "file_step sha (FDeletePending now fid) st = or_keep st (DeletePendingFileTx now fid st)"
| "file_step sha (FMarkDeleted fid) st = MarkFileDeleted fid st"
| "file_step sha (FSearchText fid er txt) st = fst (updateFileSearchTextExec fid er txt st)"
| "file_step sha (FEmbed fid rv vec) st = or_keep st (map_sum id fst (UpdateFileEmbedding fid rv vec st))"
| "file_step sha (FDescEmbed fid rv vec) st = or_keep st (map_sum id fst (UpdateFileDescriptionEmbedding fid rv vec st))"

text \<open>A new file has no embedding yet, and a pending one is at revision 1 without inline content.\<close>

fun file_event_ok :: "file_event \<Rightarrow> bool" where
  "file_event_ok (FInsert now f) \<longleftrightarrow> fd_EmbeddingRevision f = None \<and>
    (fd_Status f = PENDING \<longrightarrow> fd_Revision f = 1 \<and> fd_ContentBlob f = '''' \<and> fd_ContentText f = '''')"
| "file_event_ok _ \<longleftrightarrow> True"

lemma file_step_ok:
  assumes ok: "tables_ok st" and v: "file_event_ok e"
  shows "tables_ok (file_step sha e st)"
proof (cases e)
  case (FInsert now f)
  then show ?thesis using insert_ok [OF ok] v ok by (auto simp: or_keep_def split: sum.splits)
next
  case (FUpdate now fid er pe a)
  then show ?thesis using update_content_ok [OF ok] ok by (auto simp: or_keep_def split: sum.splits)
next
  case (FEncryption fid mode key)
  then show ?thesis using encryption_ok [OF ok] ok by (auto simp: or_keep_def split: sum.splits)
next
  case (FConfirm ae now fid a)
  then show ?thesis using confirm_ok [OF ok, of ae sha now fid a] ok
    by (cases ae) (auto simp: or_keep_def ConfirmPendingFileTx_def ConfirmPendingFileAutoEmbeddingTx_def split: sum.splits)
next
  case (FDeletePending now fid)
  then show ?thesis using delete_pending_ok [OF ok] ok by (auto simp: or_keep_def split: sum.splits)
next
  case (FMarkDeleted fid)
  then show ?thesis using mark_deleted_ok [OF ok] by simp
next
  case (FSearchText fid er x)
  then show ?thesis by (simp add: updateFileSearchTextExec_def gated_ok [OF ok])
next
  case (FEmbed fid rv vec)
  then show ?thesis using ok by (simp add: UpdateFileEmbedding_def or_keep_def gated_ok [OF ok])
next
  case (FDescEmbed fid rv vec)
  then show ?thesis using ok by (simp add: UpdateFileDescriptionEmbedding_def or_keep_def gated_ok [OF ok])
qed

lemma gate_closed: "\<not> inode_gate fid rv st \<Longrightarrow> \<not> (useLegacyFiles st \<and> legacy_gate fid rv st) \<Longrightarrow>
    gated_semantic_update g fid rv st = (st, False)"
  by (auto simp: gated_semantic_update_def Let_def)

text \<open>After an update the file is confirmed at the new revision in every table that has it.\<close>

lemma update_content_after:
  assumes ok: "tables_ok st" and u: "updateFileContentTx sha now fid er pe a st = Inr (st', rv)"
  obtains i c s where "map_of (inodes st') fid = Some i" "map_of (contents st') fid = Some c"
    "map_of (semantic st') fid = Some s" "i_revision i = rv" "i_status i = CONFIRMED" "i_size i = a_size a"
    "c_storage_ref c = a_storageRef a" "c_storage_type c = a_storageType a" "c_blob c = nullStr (a_contentBlob a)"
    "s_content_text s = nullStr (a_contentText a)"
proof (cases rule: update_content_cases [OF ok u])
  case (1 i c s)
  have enc: "c_enc_mode c \<noteq> ''''" using 1(4) by (simp add: fresh_pending_def)
  obtain st1 where st1: "split_update sha now pe a fid rv st1 = Inr st'" "map_of (contents st1) fid = Some c"
      "map_of (inodes st1) fid = Some i" "map_of (semantic st1) fid = Some s"
    using 1(1-3,8,9) by (cases "useLegacyFiles st") auto
  from split_update_Inr [OF st1 enc] that show thesis by (auto simp: set_content_def)
qed

lemma GetFile_rows:
  "map_of (inodes st) fid = Some i \<Longrightarrow> map_of (contents st) fid = Some c \<Longrightarrow> map_of (semantic st) fid = Some s \<Longrightarrow>
    GetFile fid st = Inr (assembleFile fid i c s)"
  by (simp add: GetFile_def)

lemma text_of_nullStr [simp]: "text_of (nullStr s) = s"
  by (simp add: text_of_def nullStr_def)

lemma stale_update_conflict:
  assumes ok: "tables_ok st" and i: "map_of (inodes st) fid = Some i" "i_revision i \<noteq> er" "0 < er"
    and c: "map_of (contents st) fid = Some c"
  shows "updateFileContentTx sha now fid er pe a st = Inl StoreRevisionConflict"
proof -
  from rows_of [OF ok c] i(1) obtain s where r: "map_of (semantic st) fid = Some s"
      "useLegacyFiles st \<Longrightarrow> \<exists>l. map_of (files st) fid = Some l \<and> agree l i c s" by (metis option.inject)
  show ?thesis
  proof (cases "useLegacyFiles st")
    case True
    then obtain l where "map_of (files st) fid = Some l" "agree l i c s" using r(2) by blast
    with i True r(1) show ?thesis by (auto simp: updateFileContentTx_def Let_def agree_def)
  qed (use i in \<open>simp add: updateFileContentTx_def Let_def\<close>)
qed

lemma legacy_flag_simps [simp]:
  "useLegacyFiles (UpdateInodeContentTx fid sz rv sta at st) = useLegacyFiles st"
  "useLegacyFiles (UpdateContentTx sha fid t r ct ck b e st) = useLegacyFiles st"
  "useLegacyFiles (UpdateSemanticTx fid x d st) = useLegacyFiles st"
  "useLegacyFiles (updateSemanticNoEmbedTx fid x d st) = useLegacyFiles st"
  "useLegacyFiles (confirm_split sha now ae fid a st) = useLegacyFiles st"
  "useLegacyFiles (MarkFileDeleted fid st) = useLegacyFiles st"
  "useLegacyFiles (fst (gated_semantic_update g fid gr st)) = useLegacyFiles st"
  by (simp_all add: UpdateInodeContentTx_def UpdateContentTx_def UpdateSemanticTx_def updateSemanticNoEmbedTx_def
      confirm_split_def MarkFileDeleted_def gated_semantic_update_def Let_def)

lemma split_update_flag: "split_update sha now pe a fid rv st = Inr st' \<Longrightarrow> useLegacyFiles st' = useLegacyFiles st"
  by (cases pe) (auto simp: split_update_def Let_def split: option.split_asm)

lemma update_flag: "updateFileContentTx sha now fid er pe a st = Inr (st', rv) \<Longrightarrow> useLegacyFiles st' = useLegacyFiles st"
proof -
  assume u: "updateFileContentTx sha now fid er pe a st = Inr (st', rv)"
  have "\<exists>st1. split_update sha now pe a fid rv st1 = Inr st' \<and> useLegacyFiles st1 = useLegacyFiles st"
    by (cases "useLegacyFiles st")
      (use u in \<open>auto simp: updateFileContentTx_def Let_def split: if_splits option.splits\<close>)
  then show ?thesis using split_update_flag by fastforce
qed

lemma insert_flag: "InsertFileTx sha now f st = Inr st' \<Longrightarrow> useLegacyFiles st' = useLegacyFiles st"
  by (auto simp: InsertFileTx_def split: if_split_asm option.split_asm dest: insertSplit_rows(1))

lemma confirm_flag: "confirm_pending ae sha now fid a st = Inr st' \<Longrightarrow> useLegacyFiles st' = useLegacyFiles st"
  by (auto simp: confirm_pending_def split: if_split_asm option.split_asm)

lemma delete_flag: "DeletePendingFileTx now fid st = Inr st' \<Longrightarrow> useLegacyFiles st' = useLegacyFiles st"
  by (auto simp: DeletePendingFileTx_def Let_def split: if_split_asm)

lemma or_keep_flag:
  "(\<And>st'. x = Inr st' \<Longrightarrow> useLegacyFiles st' = useLegacyFiles st) \<Longrightarrow> useLegacyFiles (or_keep st x) = useLegacyFiles st"
  by (cases x) (auto simp: or_keep_def)

lemma or_keep_fst_flag:
  "(\<And>st' r. x = Inr (st', r) \<Longrightarrow> useLegacyFiles st' = useLegacyFiles st) \<Longrightarrow>
    useLegacyFiles (or_keep st (map_sum id fst x)) = useLegacyFiles st"
  by (cases x) (auto simp: or_keep_def)

lemma file_step_flag: "useLegacyFiles (file_step sha e st) = useLegacyFiles st"
proof (cases e)
  case (FInsert now f)
  then show ?thesis by (simp add: or_keep_flag [OF insert_flag])
next
  case (FUpdate now fid er pe a)
  then show ?thesis by (simp add: or_keep_fst_flag [OF update_flag])
next
  case (FEncryption fid mode key)
  then show ?thesis by (simp add: or_keep_flag [OF encryption_rows(1)])
next
  case (FConfirm ae now fid a)
  then show ?thesis
    by (cases ae) (simp_all add: ConfirmPendingFileTx_def ConfirmPendingFileAutoEmbeddingTx_def or_keep_flag [OF confirm_flag])
next
  case (FDeletePending now fid)
  then show ?thesis by (simp add: or_keep_flag [OF delete_flag])
qed (simp_all add: or_keep_def updateFileSearchTextExec_def UpdateFileEmbedding_def UpdateFileDescriptionEmbedding_def)

section \<open>Properties\<close>

definition no_tables :: "bool \<Rightarrow> file_tables" where
  "no_tables legacy = \<lparr>useLegacyFiles = legacy, files = [], inodes = [], contents = [], semantic = []\<rparr>"

definition sample_file :: file_data where
  "sample_file = \<lparr>fd_FileID = ''f'', fd_StorageType = ''db9'', fd_StorageRef = ''inline'', fd_EncMode = ''none'',
     fd_EncKeyID = [], fd_ContentBlob = ''old'', fd_ContentType = ''text/plain'', fd_SizeBytes = 3, fd_Checksum = ''c'',
     fd_Revision = 1, fd_Mode = 0, fd_EmbeddingRevision = None, fd_Status = CONFIRMED, fd_SourceID = [],
     fd_ContentText = ''old'', fd_Description = ''notes'', fd_DescEmbeddingRevision = None, fd_CreatedAt = 1,
     fd_ConfirmedAt = Some 1, fd_ExpiresAt = None\<rparr>"

definition sample_args :: content_args where
  "sample_args = \<lparr>a_storageType = ''db9'', a_storageRef = ''inline'', a_contentType = ''text/plain'', a_checksum = ''d'',
     a_contentText = ''new'', a_contentBlob = ''new'', a_size = 3, a_description = []\<rparr>"

definition sample_tables :: "bool \<Rightarrow> file_tables" where
  "sample_tables legacy = file_step (\<lambda>x. x) (FInsert 1 sample_file) (no_tables legacy)"

lemmas file_eval = sample_tables_def no_tables_def sample_file_def sample_args_def or_keep_def InsertFileTx_def
  insertSplitTablesTx_def insert_row_def mem_key_def inode_of_file_def content_of_file_def semantic_of_file_def
  legacy_of_file_def nullStr_def fileStorageEncryptionModeForWrite_def storageEncryptionKeyIDForWrite_def
  StorageRefHash_def Let_def updateFileContentTx_def split_update_def UpdateInodeContentTx_def UpdateContentTx_def
  UpdateSemanticTx_def updateSemanticNoEmbedTx_def update_row_def set_content_def legacy_update_def
  legacy_semantic_update_def text_of_def

lemma tables_ok_empty: "tables_ok (no_tables legacy)"
  by (simp add: tables_ok_def rows_at_def rows_ok_def no_tables_def)

lemma tables_ok_sample: "tables_ok (sample_tables legacy)"
  unfolding sample_tables_def by (rule file_step_ok [OF tables_ok_empty]) (simp add: sample_file_def)



text \<open>
  C19: a content update with an expected revision is a compare-and-swap, in legacy and in split mode.
  It succeeds only on a confirmed file at that revision, the file then reads back at the next
  revision with the new content, and every other writer that expected the old revision is refused
  with a revision conflict, so no update is lost.
\<close>
theorem optimistic_update:
  assumes "tables_ok st" and "0 < er" and "updateFileContentTx sha now fid er pe a st = Inr (st', rv)"
  shows "rv = er + 1 \<and> (\<exists>f. GetFile fid st = Inr f \<and> fd_Revision f = er \<and> fd_Status f = CONFIRMED) \<and>
    (\<exists>f. GetFile fid st' = Inr f \<and> fd_Revision f = er + 1 \<and> fd_Status f = CONFIRMED \<and> fd_SizeBytes f = a_size a \<and>
      fd_StorageType f = a_storageType a \<and> fd_StorageRef f = a_storageRef a \<and> fd_ContentBlob f = a_contentBlob a \<and>
      fd_ContentText f = a_contentText a) \<and>
    updateFileContentTx sha now' fid er pe' a' st' = Inl StoreRevisionConflict"
proof -
  have old: "rv = er + 1 \<and> (\<exists>f. GetFile fid st = Inr f \<and> fd_Revision f = er \<and> fd_Status f = CONFIRMED)"
    by (cases rule: update_content_cases [OF assms(1,3)]) (use assms(2) in \<open>auto simp: GetFile_def assembleFile_def\<close>)
  from update_content_after [OF assms(1,3)] obtain i c s where
      r: "map_of (inodes st') fid = Some i" "map_of (contents st') fid = Some c" "map_of (semantic st') fid = Some s"
      "i_revision i = rv" "i_status i = CONFIRMED" "i_size i = a_size a" "c_storage_ref c = a_storageRef a"
      "c_storage_type c = a_storageType a" "c_blob c = nullStr (a_contentBlob a)"
      "s_content_text s = nullStr (a_contentText a)" by blast
  have "tables_ok st'" using update_content_ok [OF assms(1,3)] by blast
  from stale_update_conflict [OF this r(1) _ assms(2) r(2), of sha now' pe' a'] old r show ?thesis
    by (auto simp: GetFile_rows [OF r(1-3)] assembleFile_def)
qed

theorem optimistic_update_witness:
  "\<exists>st'. updateFileContentTx (\<lambda>x. x) 2 ''f'' 1 False sample_args (sample_tables True) = Inr (st', 2) \<and>
    updateFileContentTx (\<lambda>x. x) 3 ''f'' 1 False sample_args st' = Inl StoreRevisionConflict"
proof -
  obtain st' where "updateFileContentTx (\<lambda>x. x) 2 ''f'' 1 False sample_args (sample_tables True) = Inr (st', 2)"
    by (simp add: file_eval)
  with optimistic_update [OF tables_ok_sample, of 1 "\<lambda>x. x" 2 "''f''" False sample_args True st' 2 3 False sample_args]
  show ?thesis by auto
qed

text \<open>
  a late write-back is dropped. Once a file's content has moved to a new revision, an embedding,
  a description embedding or extracted text that was computed for another revision changes nothing
  and is reported as not applied.
\<close>
theorem stale_writeback_dropped:
  assumes "tables_ok st" and "updateFileContentTx sha now fid er pe a st = Inr (st', rv)"
    and "old \<noteq> rv" and "0 < old" and "vec \<noteq> ''''"
  shows "UpdateFileEmbedding fid old vec st' = Inr (st', False) \<and>
    UpdateFileDescriptionEmbedding fid old vec st' = Inr (st', False) \<and>
    updateFileSearchTextExec fid old extracted st' = (st', False)"
proof -
  from update_content_after [OF assms(1,2)] obtain i c where
      r: "map_of (inodes st') fid = Some i" "i_revision i = rv" by blast
  then have g: "\<not> inode_gate fid (Some old) st'" using assms(3) by (simp add: inode_gate_def)
  have "tables_ok st'" using update_content_ok [OF assms(1,2)] by blast
  then have "\<not> (useLegacyFiles st' \<and> legacy_gate fid (Some old) st')"
    using gates_agree [of st' fid _ "Some old"] g by (cases "map_of (files st') fid") (auto simp: legacy_gate_def)
  with g assms(4,5) show ?thesis
    by (simp add: UpdateFileEmbedding_def UpdateFileDescriptionEmbedding_def updateFileSearchTextExec_def gate_closed)
qed

theorem stale_writeback_dropped_witness:
  "\<exists>st'. updateFileContentTx (\<lambda>x. x) 2 ''f'' 0 False sample_args (sample_tables False) = Inr (st', 2) \<and>
    UpdateFileEmbedding ''f'' 1 ''[0.5]'' st' = Inr (st', False)"
proof -
  obtain st' where "updateFileContentTx (\<lambda>x. x) 2 ''f'' 0 False sample_args (sample_tables False) = Inr (st', 2)"
    by (simp add: file_eval)
  with stale_writeback_dropped [OF tables_ok_sample, of "\<lambda>x. x" 2 "''f''" 0 False sample_args False st' 2 1 "''[0.5]''"]
  show ?thesis by auto
qed

text \<open>
  overwriting a file's content without giving a description erases its description from the
  \<^verbatim>\<open>semantic\<close> table, from which it is read, while the legacy row of the same file keeps it.
\<close>
theorem overwrite_erases_description:
  "\<exists>st' l f f'. updateFileContentTx (\<lambda>x. x) 2 ''f'' 0 False sample_args (sample_tables True) = Inr (st', 2) \<and>
    GetFile ''f'' (sample_tables True) = Inr f \<and> fd_Description f = ''notes'' \<and>
    GetFile ''f'' st' = Inr f' \<and> fd_Description f' = [] \<and>
    map_of (files st') ''f'' = Some l \<and> s_description (l_semantic l) = Some ''notes''"
  by (simp add: file_eval GetFile_def assembleFile_def)

text \<open>
  an unconditional content update revives a deleted file when the tenant has the legacy table,
  and is refused as not found when it has not.
\<close>
theorem legacy_update_revives_deleted:
  "updateFileContentTx (\<lambda>x. x) 2 ''f'' 0 False sample_args (MarkFileDeleted ''f'' (sample_tables False)) = Inl StoreNotFound \<and>
   (\<exists>st' f. updateFileContentTx (\<lambda>x. x) 2 ''f'' 0 False sample_args (MarkFileDeleted ''f'' (sample_tables True)) = Inr (st', 2) \<and>
     GetFile ''f'' st' = Inr f \<and> fd_Status f = CONFIRMED)"
  by (simp add: file_eval MarkFileDeleted_def GetFile_def assembleFile_def)

end
