(* ===== verification/File_GC.thy ===== *)
theory File_GC
  imports Lease_Queue
begin

text \<open>
  The queue of file clean-ups (\<^verbatim>\<open>pkg/datastore/file_gc_tasks.go\<close>): rows of \<^verbatim>\<open>file_gc_tasks\<close> extend the
  lease columns with the identity of the orphaned file. The model interprets \<^verbatim>\<open>lease_queue\<close>.
\<close>

section \<open>Rows and operations\<close>

record file_gc_task = task_row +
  FileID :: string
  StorageType :: string
  StorageRef :: string
  SizeBytes :: int
  ContentType :: "string option"

record orphan_file =
  f_FileID :: string
  f_StorageType :: string
  f_StorageRef :: string
  f_SizeBytes :: int
  f_ContentType :: string

definition defaultFileGCMaxAttempts :: int where
  "defaultFileGCMaxAttempts = 0"

definition NewFileGCTaskFromFile :: "int \<Rightarrow> orphan_file option \<Rightarrow> int \<Rightarrow> task_error + file_gc_task" where
  "NewFileGCTaskFromFile clock fo now0 =
    (case fo of
      None \<Rightarrow> Inl (ErrInvalid ''file is required'')
    | Some f \<Rightarrow>
        if blank (f_FileID f) then Inl (ErrInvalid ''file_id is required'')
        else
          let now = or_clock clock now0 in
          Inr \<lparr>TaskID = f_FileID f, Status = Queued, AttemptCount = 0, MaxAttempts = defaultFileGCMaxAttempts,
               Receipt = None, LeasedAt = None, LeaseUntil = None, AvailableAt = now, LastError = None,
               CreatedAt = now, UpdatedAt = now, CompletedAt = None, FileID = f_FileID f,
               StorageType = f_StorageType f, StorageRef = f_StorageRef f, SizeBytes = f_SizeBytes f,
               ContentType = nullStr (f_ContentType f)\<rparr>)"

text \<open>\<^verbatim>\<open>enqueueFileGCTask\<close>: the row it inserts, and the insert, where a duplicate \<^verbatim>\<open>task_id\<close> or
  \<^verbatim>\<open>file_id\<close> is the unique violation.\<close>

definition gc_insert_row :: "int \<Rightarrow> file_gc_task \<Rightarrow> file_gc_task" where
  "gc_insert_row clock task =
    (let createdAt = or_clock clock (CreatedAt task) in
     task\<lparr>TaskID := (if blank (TaskID task) then FileID task else TaskID task),
       Status := (if Status task = StatusUnset then Queued else Status task),
       MaxAttempts := (if MaxAttempts task \<le> 0 then defaultFileGCMaxAttempts else MaxAttempts task),
       AvailableAt := or_clock clock (AvailableAt task), CreatedAt := createdAt,
       UpdatedAt := or_clock createdAt (UpdatedAt task)\<rparr>)"

definition enqueueFileGCTask ::
  "int \<Rightarrow> file_gc_task option \<Rightarrow> file_gc_task list \<Rightarrow> task_error + file_gc_task list \<times> bool" where
  "enqueueFileGCTask clock taskp rows =
    (case taskp of
      None \<Rightarrow> Inl (ErrInvalid ''file gc task is required'')
    | Some task \<Rightarrow>
        if blank (FileID task) then Inl (ErrInvalid ''file_id is required'')
        else
          let row = gc_insert_row clock task in
          if list_ex (\<lambda>r. TaskID r = TaskID row \<or> FileID r = FileID row) rows then Inr (rows, False)
          else Inr (rows @ [row], True))"

definition GetFileGCTaskByFileID :: "string \<Rightarrow> file_gc_task list \<Rightarrow> task_error + file_gc_task" where
  "GetFileGCTaskByFileID fileID rows =
    (case find (\<lambda>r. FileID r = fileID) rows of None \<Rightarrow> Inl ErrNotFound | Some r \<Rightarrow> Inr r)"

definition ClaimFileGCTask ::
  "int \<Rightarrow> string list \<Rightarrow> string \<Rightarrow> int \<Rightarrow> int \<Rightarrow> file_gc_task list \<Rightarrow> file_gc_task list \<times> file_gc_task option" where
  "ClaimFileGCTask clock locked receipt now leaseDuration rows =
    claim_task (\<lambda>_. True) locked receipt (or_clock clock now) (lease_duration leaseDuration) rows"

definition AckFileGCTask ::
  "int \<Rightarrow> string \<Rightarrow> string \<Rightarrow> file_gc_task list \<Rightarrow> task_error + file_gc_task list" where
  "AckFileGCTask clock taskID receipt rows = update_held (succeed_row clock) taskID receipt clock rows"

definition RetryFileGCTask ::
  "int \<Rightarrow> string \<Rightarrow> string \<Rightarrow> int \<Rightarrow> string \<Rightarrow> file_gc_task list \<Rightarrow> task_error + file_gc_task list" where
  "RetryFileGCTask clock taskID receipt retryAt lastErr rows =
    retry_task (\<lambda>task. 0 < MaxAttempts task \<and> MaxAttempts task \<le> AttemptCount task)
      taskID receipt clock retryAt lastErr rows"

definition RecoverExpiredFileGCTasks ::
  "int \<Rightarrow> string list \<Rightarrow> int \<Rightarrow> int \<Rightarrow> file_gc_task list \<Rightarrow> file_gc_task list \<times> nat" where
  "RecoverExpiredFileGCTasks clock locked now limit rows = recover_expired locked (or_clock clock now) limit rows"

text \<open>One page of the distinct S3 references and the cursor of the next one.\<close>

definition ListFileGCTaskS3Refs :: "string \<Rightarrow> int \<Rightarrow> file_gc_task list \<Rightarrow> string list \<times> string" where
  "ListFileGCTaskS3Refs cursor limit0 rows =
    (let limit = (if limit0 \<le> 0 then 500 else nat limit0);
         refs = take limit (sort (remdups (map StorageRef
           (filter (\<lambda>r. StorageType r = ''s3'' \<and> StorageRef r \<noteq> '''' \<and> (cursor = '''' \<or> cursor < StorageRef r)) rows))))
     in (refs, if length refs = limit then last refs else ''''))"

section \<open>The table as a lease queue\<close>

datatype gc_event =
    GClaim int "string list" string int int
  | GAck int string string
  | GRetry int string string int string
  | GRecover int "string list" int int
  | GEnqueue int file_gc_task

fun gc_step :: "gc_event \<Rightarrow> file_gc_task list \<Rightarrow> file_gc_task list" where
  "gc_step (GClaim clock locked receipt now dur) q = fst (ClaimFileGCTask clock locked receipt now dur q)"
| "gc_step (GAck clock i c) q = or_keep q (AckFileGCTask clock i c q)"
| "gc_step (GRetry clock i c retryAt err) q = or_keep q (RetryFileGCTask clock i c retryAt err q)"
| "gc_step (GRecover clock locked now limit) q = fst (RecoverExpiredFileGCTasks clock locked now limit q)"
| "gc_step (GEnqueue clock task) q = or_keep q (map_sum id fst (enqueueFileGCTask clock (Some task) q))"

fun gc_time :: "gc_event \<Rightarrow> int" where
  "gc_time (GClaim clock locked receipt now dur) = or_clock clock now"
| "gc_time (GAck clock i c) = clock"
| "gc_time (GRetry clock i c retryAt err) = clock"
| "gc_time (GRecover clock locked now limit) = or_clock clock now"
| "gc_time (GEnqueue clock task) = clock"

fun gc_uses :: "gc_event \<Rightarrow> string \<Rightarrow> string \<Rightarrow> bool" where
  "gc_uses (GAck clock i c) j d = (i = j \<and> c = d)"
| "gc_uses (GRetry clock i c retryAt err) j d = (i = j \<and> c = d)"
| "gc_uses _ j d = False"

fun gc_valid :: "gc_event \<Rightarrow> bool" where
  "gc_valid (GEnqueue clock task) = fresh_task task"
| "gc_valid _ = True"

fun gc_grants :: "gc_event \<Rightarrow> file_gc_task list \<Rightarrow> (string \<times> string \<times> int) option" where
  "gc_grants (GClaim clock locked receipt now dur) q =
    map_option (\<lambda>t. (TaskID t, receipt, or_clock clock now + lease_duration dur))
      (snd (ClaimFileGCTask clock locked receipt now dur q))"
| "gc_grants _ q = None"

lemma gc_insert_row_ok: "fresh_task task \<Longrightarrow> row_ok (gc_insert_row clock task)"
  by (auto simp: gc_insert_row_def Let_def fresh_task_def row_ok_def)

lemma enqueue_cases:
  assumes "enqueueFileGCTask clock (Some task) rows = Inr (rows', b)"
  shows "rows' = rows \<and> \<not> b \<or>
    rows' = rows @ [gc_insert_row clock task] \<and> b \<and> row_of rows (TaskID (gc_insert_row clock task)) = None"
  using assms
  by (auto simp: enqueueFileGCTask_def Let_def row_of_None list_ex_iff split: if_splits)

lemma gc_step_enqueue:
  "gc_step (GEnqueue clock task) q = q \<or>
   gc_step (GEnqueue clock task) q = q @ [gc_insert_row clock task] \<and>
     row_of q (TaskID (gc_insert_row clock task)) = None"
proof (cases "enqueueFileGCTask clock (Some task) q")
  case (Inr z)
  then show ?thesis using enqueue_cases [of clock task q "fst z" "snd z"] by (auto simp: or_keep_def)
qed (simp add: or_keep_def)

lemma gc_step_ok: "table_ok q \<Longrightarrow> gc_valid e \<Longrightarrow> table_ok (gc_step e q)"
proof (cases e)
  case (GClaim clock locked receipt now dur)
  then show "table_ok q \<Longrightarrow> table_ok (gc_step e q)"
    by (auto simp: ClaimFileGCTask_def intro: claim_task_ok [OF _ prod.collapse [symmetric]])
next
  case (GAck clock i c)
  then show "table_ok q \<Longrightarrow> table_ok (gc_step e q)"
    by (auto simp: AckFileGCTask_def or_keep_def split: sum.splits intro: update_held_ok)
next
  case (GRetry clock i c retryAt err)
  then show "table_ok q \<Longrightarrow> table_ok (gc_step e q)"
    by (auto simp: RetryFileGCTask_def or_keep_def split: sum.splits intro: retry_task_ok)
next
  case (GRecover clock locked now limit)
  then show "table_ok q \<Longrightarrow> table_ok (gc_step e q)"
    by (auto simp: RecoverExpiredFileGCTasks_def intro: recover_expired_spec(1) [OF _ prod.collapse [symmetric]])
next
  case (GEnqueue clock task)
  assume "table_ok q" "gc_valid e"
  then show ?thesis
    using GEnqueue gc_step_enqueue [of clock task q] insert_row_ok [OF _ _ gc_insert_row_ok, of q clock task]
    by (auto simp del: gc_step.simps)
qed

lemma gc_step_keep:
  assumes "table_ok q" "owner q i = Some (c, u)" "gc_time e < u" "\<not> gc_uses e i c"
  shows "owner (gc_step e q) i = Some (c, u)"
proof (cases e)
  case (GClaim clock locked receipt now dur)
  then show ?thesis using claim_task_keep [OF assms(1,2)] by (simp add: ClaimFileGCTask_def)
next
  case (GAck clock j d)
  then show ?thesis using assms
    by (auto simp: AckFileGCTask_def or_keep_def split: sum.splits intro: update_held_owner)
next
  case (GRetry clock j d retryAt err)
  then show ?thesis using assms
    by (auto simp: RetryFileGCTask_def or_keep_def split: sum.splits intro: retry_task_owner)
next
  case (GRecover clock locked now limit)
  then show ?thesis using assms
    by (auto simp: RecoverExpiredFileGCTasks_def intro: recover_expired_owner [OF _ prod.collapse [symmetric]])
next
  case (GEnqueue clock task)
  then show ?thesis using gc_step_enqueue [of clock task q] assms(2)
    by (auto simp del: gc_step.simps intro: owner_append)
qed

lemma gc_grant:
  assumes "table_ok q" "gc_grants e q = Some (i, c, u)"
  shows "owner q i = None \<and> owner (gc_step e q) i = Some (c, u)"
proof (cases e)
  case (GClaim clock locked receipt now dur)
  with assms(2) obtain t q' where "ClaimFileGCTask clock locked receipt now dur q = (q', Some t)"
      and t: "TaskID t = i" "receipt = c" "or_clock clock now + lease_duration dur = u"
    by (cases "ClaimFileGCTask clock locked receipt now dur q") auto
  with claim_task_free [OF assms(1)] claim_task_owner [OF assms(1)] GClaim show ?thesis
    by (auto simp: ClaimFileGCTask_def)
qed (use assms in auto)

interpretation gcq: lease_queue table_ok owner gc_step gc_time gc_valid gc_uses gc_grants
  by unfold_locales (auto simp del: gc_step.simps intro: gc_step_ok gc_step_keep dest: gc_grant)

section \<open>Properties\<close>

definition sample_gc :: file_gc_task where
  "sample_gc = \<lparr>TaskID = ''f'', Status = Queued, AttemptCount = 0, MaxAttempts = 0, Receipt = None,
     LeasedAt = None, LeaseUntil = None, AvailableAt = 1, LastError = None, CreatedAt = 1, UpdatedAt = 1,
     CompletedAt = None, FileID = ''f'', StorageType = ''s3'', StorageRef = ''blobs/f'', SizeBytes = 3,
     ContentType = None\<rparr>"

definition pending :: "file_gc_task \<Rightarrow> bool" where
  "pending r \<longleftrightarrow> (Status r = Queued \<or> Status r = Processing) \<and> MaxAttempts r \<le> 0"

lemma pending_rows:
  "pending r \<Longrightarrow> pending (lease_row c now dur r) \<and> FileID (lease_row c now dur r) = FileID r \<and> StorageRef (lease_row c now dur r) = StorageRef r \<and>
    StorageType (lease_row c now dur r) = StorageType r"
  "pending r \<Longrightarrow> pending (requeue_row now t err r) \<and> FileID (requeue_row now t err r) = FileID r \<and> StorageRef (requeue_row now t err r) = StorageRef r \<and>
    StorageType (requeue_row now t err r) = StorageType r"
  "pending r \<Longrightarrow> pending (recover_row now r) \<and> FileID (recover_row now r) = FileID r \<and> StorageRef (recover_row now r) = StorageRef r \<and>
    StorageType (recover_row now r) = StorageType r"
  by (simp_all add: pending_def lease_row_def requeue_row_def recover_row_def unlease_def)

lemma gc_pending_step:
  assumes ok: "table_ok q" and r: "row_of q i = Some r" "pending r" and e: "\<forall>clock c. e \<noteq> GAck clock i c"
  shows "\<exists>r'. row_of (gc_step e q) i = Some r' \<and> pending r' \<and> FileID r' = FileID r \<and> StorageRef r' = StorageRef r \<and>
    StorageType r' = StorageType r"
proof (cases e)
  case (GClaim clock locked receipt now dur)
  let ?el = "\<lambda>_::file_gc_task. True"
  have "claim_task ?el locked receipt (or_clock clock now) (lease_duration dur) q = (gc_step e q, snd (ClaimFileGCTask clock locked receipt now dur q))"
    using GClaim by (simp add: ClaimFileGCTask_def)
  then show ?thesis
    by (cases rule: claim_task_cases [OF ok]) (use r pending_rows(1) in \<open>auto simp: row_of_update_where\<close>)
next
  case (GAck clock j d)
  then have "j \<noteq> i" using e by blast
  show ?thesis
  proof (cases "AckFileGCTask clock j d q")
    case (Inr q')
    then have "q' = update_where (\<lambda>r. TaskID r = j \<and> held d clock r) (succeed_row clock) q"
      using update_held_Inr [OF ok] by (auto simp: AckFileGCTask_def)
    with GAck Inr r row_of_SomeD [OF r(1)] \<open>j \<noteq> i\<close> show ?thesis by (auto simp: or_keep_def row_of_update_where)
  qed (use GAck r in \<open>simp add: or_keep_def\<close>)
next
  case (GRetry clock j d retryAt err)
  show ?thesis
  proof (cases "RetryFileGCTask clock j d retryAt err q")
    case (Inr q')
    then obtain t where t: "row_of q j = Some t" "q' = update_where (\<lambda>r. TaskID r = j)
        (if 0 < MaxAttempts t \<and> MaxAttempts t \<le> AttemptCount t then dead_row clock err
         else requeue_row clock (or_clock clock retryAt) err) q"
      unfolding RetryFileGCTask_def retry_task_iff [OF ok] by blast
    have "row_of q' i = Some (if i = j then requeue_row clock (or_clock clock retryAt) err r else r)"
      using t r row_of_SomeD [OF r(1)] by (auto simp: row_of_update_where pending_def)
    then show ?thesis using GRetry Inr r(2) pending_rows(2) by (simp add: or_keep_def)
  qed (use GRetry r in \<open>simp add: or_keep_def\<close>)
next
  case (GRecover clock locked now limit)
  then show ?thesis
    using recover_expired_spec(3) [OF ok prod.collapse [symmetric], of locked "or_clock clock now" limit i]
      r pending_rows(3) by (auto simp: RecoverExpiredFileGCTasks_def)
next
  case (GEnqueue clock task)
  then show ?thesis using gc_step_enqueue [of clock task q] r
    by (auto simp del: gc_step.simps simp: row_of_append)
qed

text \<open>
  C15: mutual exclusion of the clean-up workers. Once a claim hands out a task, then through every
  sequence of claims, acks, retries, recoveries and enqueues that happen before the lease expires and
  do not act under that lease's receipt, the lease stays with its worker, no claim hands the task out
  again, and an ack by the worker before the expiry succeeds and completes the task.
\<close>
theorem gc_lease_exclusive:
  assumes "table_ok q" and "ClaimFileGCTask clock locked receipt now dur q = (q1, Some t)"
    and "\<forall>e\<in>set es. gc_valid e \<and> gc_time e < or_clock clock now + lease_duration dur \<and>
      \<not> gc_uses e (TaskID t) receipt"
    and "es = xs @ e # ys" and "ack_time < or_clock clock now + lease_duration dur"
  shows "(\<forall>c' u'. gc_grants e (foldl (\<lambda>q e. gc_step e q) q1 xs) \<noteq> Some (TaskID t, c', u')) \<and>
    (\<exists>q'. AckFileGCTask ack_time (TaskID t) receipt (foldl (\<lambda>q e. gc_step e q) q1 es) = Inr q' \<and>
      map_option Status (row_of q' (TaskID t)) = Some Succeeded)"
proof -
  let ?u = "or_clock clock now + lease_duration dur" and ?c = "GClaim clock locked receipt now dur"
  let ?q = "foldl (\<lambda>q e. gc_step e q) q1 es"
  have g: "gc_grants ?c q = Some (TaskID t, receipt, ?u)" and s: "gc_step ?c q = q1" using assms(2) by simp_all
  have quiet: "list_all (gcq.quiet (TaskID t) receipt ?u) es"
    using assms(3) by (simp add: gcq.quiet_def list_all_iff)
  have x: "owner ?q (TaskID t) = Some (receipt, ?u)"
      "\<forall>c' u'. gc_grants e (foldl (\<lambda>q e. gc_step e q) q1 xs) \<noteq> Some (TaskID t, c', u')"
    using gcq.exclusive [OF assms(1) _ g quiet assms(4)] s by (simp_all add: gcq.run_def)
  have "table_ok q1" using gcq.inv_step [OF assms(1), of ?c] s by simp
  then have ok: "table_ok ?q"
    using gcq.run_inv [of q1 es] assms(3) by (simp add: gcq.run_def list_all_iff)
  obtain r where r: "row_of ?q (TaskID t) = Some r" "row_owner r = Some (receipt, ?u)"
    using owner_eqD [OF x(1)] by blast
  have h: "held receipt ack_time r" using r(2) assms(5) by (simp add: held_iff_owner)
  have "TaskID r = TaskID t" using row_of_SomeD [OF r(1)] by simp
  then have "AckFileGCTask ack_time (TaskID t) receipt ?q =
      Inr (update_where (\<lambda>x. TaskID x = TaskID t \<and> held receipt ack_time x) (succeed_row ack_time) ?q)"
    using update_held_iff [OF ok row_changes(2)] x(1) assms(5) by (simp add: AckFileGCTask_def)
  with r h \<open>TaskID r = TaskID t\<close> x(2) show ?thesis
    by (auto simp: row_of_update_where) (simp add: succeed_row_def)
qed

theorem gc_lease_exclusive_witness:
  "(\<forall>c' u'. gc_grants (GClaim 6 [] ''r2'' 0 10)
      (foldl (\<lambda>q e. gc_step e q) (fst (ClaimFileGCTask 5 [] ''r1'' 0 10 [sample_gc])) []) \<noteq> Some (''f'', c', u')) \<and>
   (\<exists>q'. AckFileGCTask 9 ''f'' ''r1''
        (foldl (\<lambda>q e. gc_step e q) (fst (ClaimFileGCTask 5 [] ''r1'' 0 10 [sample_gc])) [GClaim 6 [] ''r2'' 0 10]) = Inr q' \<and>
      map_option Status (row_of q' ''f'') = Some Succeeded)"
proof -
  have "table_ok [sample_gc]" by (simp add: table_ok_def row_ok_def sample_gc_def)
  moreover have "ClaimFileGCTask 5 [] ''r1'' 0 10 [sample_gc] =
      (fst (ClaimFileGCTask 5 [] ''r1'' 0 10 [sample_gc]), Some (lease_row ''r1'' 5 10 sample_gc))"
    by (simp add: ClaimFileGCTask_def claim_task_def claimable_def rows_changed_def lease_row_def Let_def or_clock_def
        lease_duration_def sample_gc_def)
  ultimately show ?thesis
    using gc_lease_exclusive [of "[sample_gc]" 5 "[]" "''r1''" 0 10 _ "lease_row ''r1'' 5 10 sample_gc"
        "[GClaim 6 [] ''r2'' 0 10]" "[]" "GClaim 6 [] ''r2'' 0 10" "[]" 9]
    by (simp add: or_clock_def lease_duration_def sample_gc_def)
qed

text \<open>
  C23: a clean-up is never lost. A queued or leased task with the default \<^verbatim>\<open>max_attempts\<close> of 0 stays
  queued or leased, for the same file and blob, through every sequence of claims, retries, recoveries,
  enqueues and acks of other tasks: it is never dead-lettered, however often its worker fails or
  crashes, and only an ack of the task itself completes it.
\<close>
theorem gc_never_lost:
  assumes "table_ok q" and "row_of q i = Some r" and "pending r"
    and "\<forall>e\<in>set es. gc_valid e \<and> (\<forall>clock c. e \<noteq> GAck clock i c)"
  shows "\<exists>r'. row_of (foldl (\<lambda>q e. gc_step e q) q es) i = Some r' \<and> (Status r' = Queued \<or> Status r' = Processing) \<and>
    FileID r' = FileID r \<and> StorageRef r' = StorageRef r"
  using assms
proof (induction es arbitrary: q r)
  case Nil
  then show ?case by (auto simp: pending_def)
next
  case (Cons e es)
  obtain r1 where r1: "row_of (gc_step e q) i = Some r1" "pending r1" "FileID r1 = FileID r" "StorageRef r1 = StorageRef r"
    using gc_pending_step [OF Cons.prems(1-3), of e] Cons.prems(4) by auto
  have "table_ok (gc_step e q)" using gc_step_ok Cons.prems(1,4) by simp
  from Cons.IH [OF this r1(1,2)] Cons.prems(4) r1(3,4) show ?case by auto
qed

theorem gc_never_lost_witness:
  "\<exists>r'. row_of (foldl (\<lambda>q e. gc_step e q) [sample_gc]
      [GClaim 5 [] ''r1'' 0 10, GRetry 6 ''f'' ''r1'' 0 ''s3 down'', GClaim 7 [] ''r2'' 0 10, GRecover 30 [] 0 0]) ''f'' = Some r' \<and>
    (Status r' = Queued \<or> Status r' = Processing) \<and> FileID r' = ''f'' \<and> StorageRef r' = ''blobs/f''"
  using gc_never_lost [of "[sample_gc]" "''f''" sample_gc
      "[GClaim 5 [] ''r1'' 0 10, GRetry 6 ''f'' ''r1'' 0 ''s3 down'', GClaim 7 [] ''r2'' 0 10, GRecover 30 [] 0 0]"]
  by (simp add: table_ok_def row_ok_def row_of_def pending_def sample_gc_def)

end
