(* ===== verification/Object_GC.thy ===== *)
theory Object_GC
  imports File_Rows File_GC
begin

text \<open>
  Collection of S3 objects (\<^verbatim>\<open>pkg/meta/meta.go\<close>, \<^verbatim>\<open>pkg/server/object_gc_worker.go\<close>,
  \<^verbatim>\<open>pkg/backend/object_gc.go\<close>, \<^verbatim>\<open>pkg/server/fork.go\<close>). A storage namespace holds the objects
  of one live tenant, its owner, and of the forks made from it. An overwrite or a deletion of a file
  only records its object as a candidate; a worker deletes the object of a candidate that is due, once no
  fork is left and no confirmed file of the owner refers to it.

  The state holds the control-plane tables (tenants, namespaces, candidates), the file tables of every
  tenant and the keys present in S3. Calls that can fail are named by \<^verbatim>\<open>gc_call\<close>; which of them fail is
  an argument.
\<close>

section \<open>State\<close>

datatype tenant_status =
    TenantProvisioning | TenantActive | TenantFailed | TenantSuspended | TenantDeleting | TenantDeleted

datatype tenant_kind = TenantKindLive | TenantKindFork

record tenant_row =
  t_Status :: tenant_status
  t_Kind :: tenant_kind
  t_Parent :: string
  t_Namespace :: string
  t_BranchID :: string

datatype cand_state = CandPending | CandDeleting | CandDeleted | CandFailed

datatype cand_reason = ReasonOverwrite | ReasonFileDelete | ReasonFailedWrite | ReasonForkDelete

record candidate =
  cd_NamespaceID :: string
  cd_StorageRef :: string
  cd_StorageRefHash :: string
  cd_Reason :: cand_reason
  cd_SourceTenantID :: string
  cd_SourceFileID :: string
  cd_NotBefore :: int
  cd_State :: cand_state
  cd_Attempts :: int
  cd_LastError :: "string option"

record gc_world =
  g_tenants :: "(string, tenant_row) gomap"
  g_namespaces :: "(string, string) gomap"
  g_stores :: "(string, file_tables) gomap"
  g_cands :: "(string \<times> string, candidate) gomap"
  g_objects :: "(string \<times> string) list"

datatype gc_call = CallForks | CallNamespace | CallTenant | CallAcquire | CallReachable | CallDelete | CallMark | CallPostpone | CallRetry | CallEnqueue

datatype gc_error = GCCall gc_call | GCNotFound | GCRequired string

section \<open>Candidates\<close>

text \<open>A missing \<^verbatim>\<open>NotBefore\<close> is the clock. The key of the table is the namespace with the hash.\<close>

definition EnqueueObjectGCCandidate ::
  "int \<Rightarrow> string \<Rightarrow> string \<Rightarrow> string \<Rightarrow> cand_reason \<Rightarrow> string \<Rightarrow> string \<Rightarrow> int option \<Rightarrow> gc_world \<Rightarrow> gc_error + gc_world" where
  "EnqueueObjectGCCandidate now ns ref refHash reason src fid notBefore w =
    (if ns = '''' then Inl (GCRequired ''namespace id'')
     else if ref = '''' then Inl (GCRequired ''storage ref'')
     else if refHash = '''' then Inl (GCRequired ''storage ref hash'')
     else
       let nb = (case notBefore of None \<Rightarrow> now | Some t \<Rightarrow> t) in
       Inr (w\<lparr>g_cands := AList.update (ns, refHash)
         (case map_of (g_cands w) (ns, refHash) of
           None \<Rightarrow> \<lparr>cd_NamespaceID = ns, cd_StorageRef = ref, cd_StorageRefHash = refHash, cd_Reason = reason,
             cd_SourceTenantID = src, cd_SourceFileID = fid, cd_NotBefore = nb, cd_State = CandPending,
             cd_Attempts = 0, cd_LastError = None\<rparr>
         | Some c \<Rightarrow> c\<lparr>cd_StorageRef := ref, cd_Reason := reason, cd_SourceTenantID := src, cd_SourceFileID := fid,
             cd_NotBefore := min (cd_NotBefore c) nb,
             cd_State := (if cd_State c = CandDeleted then CandDeleted else CandPending)\<rparr>) (g_cands w)\<rparr>))"

definition ListDueObjectGCCandidates :: "int \<Rightarrow> int \<Rightarrow> gc_world \<Rightarrow> candidate list" where
  "ListDueObjectGCCandidates now limit w =
    take (if limit \<le> 0 then 100 else nat limit)
      (sort_key cd_NotBefore (filter (\<lambda>c. cd_State c = CandPending \<and> cd_NotBefore c \<le> now) (map snd (g_cands w))))"

definition NamespaceHasNonDeletedFork :: "string \<Rightarrow> gc_world \<Rightarrow> gc_error + bool" where
  "NamespaceHasNonDeletedFork ns w =
    (if ns = '''' then Inl (GCRequired ''namespace id'')
     else Inr (list_ex (\<lambda>(t, r). t_Namespace r = ns \<and> t_Kind r = TenantKindFork \<and> t_Status r \<noteq> TenantDeleted) (g_tenants w)))"

text \<open>The rows an update of a candidate reaches: its key and its reference.\<close>

definition update_cand :: "(candidate \<Rightarrow> bool) \<Rightarrow> (candidate \<Rightarrow> candidate) \<Rightarrow> candidate \<Rightarrow> gc_world \<Rightarrow> gc_world" where
  "update_cand P f c w =
    w\<lparr>g_cands := map (\<lambda>(k, r). (k, if k = (cd_NamespaceID c, cd_StorageRefHash c) \<and> cd_StorageRef r = cd_StorageRef c \<and> P r
      then f r else r)) (g_cands w)\<rparr>"

definition PostponeObjectGCCandidate :: "candidate \<Rightarrow> int \<Rightarrow> string \<Rightarrow> gc_world \<Rightarrow> gc_world" where
  "PostponeObjectGCCandidate c notBefore lastError w =
    update_cand (\<lambda>r. cd_State r = CandPending) (\<lambda>r. r\<lparr>cd_NotBefore := notBefore, cd_LastError := nullStr lastError\<rparr>) c w"

definition RetryObjectGCCandidate :: "candidate \<Rightarrow> int \<Rightarrow> string \<Rightarrow> gc_world \<Rightarrow> gc_world" where
  "RetryObjectGCCandidate c notBefore lastError w =
    update_cand (\<lambda>r. cd_State r = CandPending)
      (\<lambda>r. r\<lparr>cd_NotBefore := notBefore, cd_LastError := nullStr lastError, cd_Attempts := cd_Attempts r + 1\<rparr>) c w"

definition MarkObjectGCCandidateDeleted :: "candidate \<Rightarrow> gc_world \<Rightarrow> gc_world" where
  "MarkObjectGCCandidateDeleted c w =
    update_cand (\<lambda>r. True) (\<lambda>r. r\<lparr>cd_State := CandDeleted, cd_LastError := None\<rparr>) c w"

section \<open>The worker\<close>

definition DeleteS3ObjectForGC :: "string \<Rightarrow> string \<Rightarrow> gc_world \<Rightarrow> gc_world" where
  "DeleteS3ObjectForGC ns ref w = (if ref = '''' then w else w\<lparr>g_objects := removeAll (ns, ref) (g_objects w)\<rparr>)"

definition defaultObjectGCActiveForkDelay :: int where "defaultObjectGCActiveForkDelay = 3600"
definition defaultObjectGCInactiveOwnerTTL :: int where "defaultObjectGCInactiveOwnerTTL = 3600"
definition defaultObjectGCReachableDelay :: int where "defaultObjectGCReachableDelay = 86400"
definition defaultObjectGCRetryDelay :: int where "defaultObjectGCRetryDelay = 3600"
definition defaultObjectGCBatchSize :: int where "defaultObjectGCBatchSize = 100"

text \<open>
  The reads of \<^verbatim>\<open>processCandidate\<close>, first of the forks, then of the owner. The result is the delay and
  the reason of a postponement, or nothing when the object is to be deleted.
\<close>

definition gc_check_forks :: "(gc_call \<Rightarrow> bool) \<Rightarrow> candidate \<Rightarrow> gc_world \<Rightarrow> gc_error + (int \<times> string) option" where
  "gc_check_forks fails c w =
    (if HasPrefix (cd_StorageRef c) ''blobs/'' then
       (if fails CallForks then Inl (GCCall CallForks)
        else
          (case NamespaceHasNonDeletedFork (cd_NamespaceID c) w of
            Inl e \<Rightarrow> Inl e
          | Inr hasFork \<Rightarrow> Inr (if hasFork then Some (defaultObjectGCActiveForkDelay, ''namespace has active fork'') else None)))
     else Inr None)"

definition gc_check_owner :: "(gc_call \<Rightarrow> bool) \<Rightarrow> candidate \<Rightarrow> gc_world \<Rightarrow> gc_error + (int \<times> string) option" where
  "gc_check_owner fails c w =
    (if fails CallNamespace then Inl (GCCall CallNamespace)
     else
       (case map_of (g_namespaces w) (cd_NamespaceID c) of
         None \<Rightarrow> Inl GCNotFound
       | Some t \<Rightarrow>
           if fails CallTenant then Inl (GCCall CallTenant)
           else
             (case map_of (g_tenants w) t of
               None \<Rightarrow> Inl GCNotFound
             | Some row \<Rightarrow>
                 if t_Status row \<noteq> TenantActive
                 then Inr (Some (defaultObjectGCInactiveOwnerTTL, ''namespace owner is not active''))
                 else if fails CallAcquire then Inl (GCCall CallAcquire)
                 else
                   (case map_of (g_stores w) t of
                     None \<Rightarrow> Inl (GCCall CallAcquire)
                   | Some st \<Rightarrow>
                       if fails CallReachable then Inl (GCCall CallReachable)
                       else if HasConfirmedS3StorageRef (cd_StorageRefHash c) (cd_StorageRef c) st
                       then Inr (Some (defaultObjectGCReachableDelay, ''storage ref still reachable''))
                       else Inr None))))"

definition gc_verdict :: "(gc_call \<Rightarrow> bool) \<Rightarrow> candidate \<Rightarrow> gc_world \<Rightarrow> gc_error + (int \<times> string) option" where
  "gc_verdict fails c w =
    (case gc_check_forks fails c w of
      Inl e \<Rightarrow> Inl e
    | Inr (Some d) \<Rightarrow> Inr (Some d)
    | Inr None \<Rightarrow> gc_check_owner fails c w)"

text \<open>The writes. A deletion in S3 that reports a failure may still have removed the object.\<close>

definition gc_act ::
  "(gc_call \<Rightarrow> bool) \<Rightarrow> bool \<Rightarrow> int \<Rightarrow> candidate \<Rightarrow> (int \<times> string) option \<Rightarrow> gc_world \<Rightarrow> gc_world \<times> gc_error option" where
  "gc_act fails gone now c v w =
    (case v of
      Some (delay, why) \<Rightarrow>
        if fails CallPostpone then (w, Some (GCCall CallPostpone))
        else (PostponeObjectGCCandidate c (now + delay) why w, None)
    | None \<Rightarrow>
        let w1 = DeleteS3ObjectForGC (cd_NamespaceID c) (cd_StorageRef c) w in
        if fails CallDelete then (if gone then w1 else w, Some (GCCall CallDelete))
        else if fails CallMark then (w1, Some (GCCall CallMark))
        else (MarkObjectGCCandidateDeleted c w1, None))"

definition processCandidate ::
  "(gc_call \<Rightarrow> bool) \<Rightarrow> bool \<Rightarrow> int \<Rightarrow> candidate \<Rightarrow> gc_world \<Rightarrow> gc_world \<times> gc_error option" where
  "processCandidate fails gone now c w =
    (case gc_verdict fails c w of Inl e \<Rightarrow> (w, Some e) | Inr v \<Rightarrow> gc_act fails gone now c v w)"

definition gc_error_text :: "gc_error \<Rightarrow> string" where
  "gc_error_text e = (case e of GCCall k \<Rightarrow> ''call failed'' | GCNotFound \<Rightarrow> ''not found'' | GCRequired what \<Rightarrow> what @ '' is required'')"

definition process_candidate ::
  "(candidate \<Rightarrow> gc_call \<Rightarrow> bool) \<Rightarrow> bool \<Rightarrow> int \<Rightarrow> gc_world \<Rightarrow> candidate \<Rightarrow> gc_world" where
  "process_candidate fails gone now w c =
    (case processCandidate (fails c) gone now c w of
      (w', None) \<Rightarrow> w'
    | (w', Some e) \<Rightarrow>
        if fails c CallRetry then w'
        else RetryObjectGCCandidate c (now + defaultObjectGCRetryDelay) (gc_error_text e) w')"

definition processOnce :: "(candidate \<Rightarrow> gc_call \<Rightarrow> bool) \<Rightarrow> bool \<Rightarrow> int \<Rightarrow> gc_world \<Rightarrow> gc_world" where
  "processOnce fails gone now w =
    foldl (process_candidate fails gone now) w (ListDueObjectGCCandidates now defaultObjectGCBatchSize w)"

section \<open>Candidates of the write path and of forks\<close>

text \<open>\<^verbatim>\<open>enqueueObjectGCCandidateCtx\<close>: the object becomes due after seven days. The result says whether a candidate was asked for.\<close>

definition enqueueObjectGCCandidateCtx ::
  "(string \<Rightarrow> string) \<Rightarrow> int \<Rightarrow> string \<Rightarrow> string \<Rightarrow> string \<Rightarrow> cand_reason \<Rightarrow> string \<Rightarrow> gc_world \<Rightarrow> bool \<times> (gc_error + gc_world)" where
  "enqueueObjectGCCandidateCtx sha now ns t ref reason fid w =
    (if ns = '''' \<or> ref = '''' then (False, Inr w)
     else (True, EnqueueObjectGCCandidate now ns ref (StorageRefHash sha ref) reason t fid (Some (now + 7 * 86400)) w))"

definition deleteBlobIfS3Ctx ::
  "(string \<Rightarrow> string) \<Rightarrow> int \<Rightarrow> string \<Rightarrow> string \<Rightarrow> string \<Rightarrow> string \<Rightarrow> string \<Rightarrow> gc_world \<Rightarrow> gc_world" where
  "deleteBlobIfS3Ctx sha now ns t storageType ref keepRef w =
    (if storageType \<noteq> ''s3'' \<or> ref = '''' \<or> ref = keepRef then w
     else or_keep w (snd (enqueueObjectGCCandidateCtx sha now ns t ref ReasonOverwrite '''' w)))"

definition deleteBlobCtx :: "string \<Rightarrow> string \<Rightarrow> gc_world \<Rightarrow> gc_world" where
  "deleteBlobCtx ns ref w = (if ref = '''' then w else w\<lparr>g_objects := removeAll (ns, ref) (g_objects w)\<rparr>)"

text \<open>
  Reading a table in pages: the rows with a key after the cursor in byte order, a limit, and the key of the
  last row as the next cursor until a page is not full. The stores read this way do not change in between.
\<close>

definition page_of :: "('a \<Rightarrow> string) \<Rightarrow> nat \<Rightarrow> string \<Rightarrow> 'a list \<Rightarrow> 'a list" where
  "page_of key limit cursor xs = take limit (sort_key key (filter (\<lambda>x. cursor = '''' \<or> cursor < key x) xs))"

definition next_cursor :: "('a \<Rightarrow> string) \<Rightarrow> nat \<Rightarrow> 'a list \<Rightarrow> string" where
  "next_cursor key limit page = (if length page = limit \<and> page \<noteq> [] then key (last page) else '''')"

lemma page_set: "x \<in> set (page_of key limit cursor xs) \<Longrightarrow> x \<in> set xs \<and> (cursor = '''' \<or> cursor < key x)"
  by (auto simp: page_of_def dest: in_set_takeD)

lemma next_cursor_row:
  assumes "next_cursor key limit (page_of key limit cursor xs) \<noteq> ''''"
  obtains x where "x \<in> set xs" "key x = next_cursor key limit (page_of key limit cursor xs)" "cursor = '''' \<or> cursor < key x"
proof -
  let ?p = "page_of key limit cursor xs"
  have ne: "?p \<noteq> []" and k: "next_cursor key limit ?p = key (last ?p)"
    using assms by (auto simp: next_cursor_def split: if_splits)
  from ne have "last ?p \<in> set ?p" by simp
  with page_set [OF this] show thesis using that [of "last ?p"] k by metis
qed

lemma filter_shrinks:
  assumes "x \<in> set xs" "P x" "\<not> Q x" "\<And>y. Q y \<Longrightarrow> P y"
  shows "length (filter Q xs) < length (filter P xs)"
proof -
  have "filter Q xs = filter Q (filter P xs)" using assms(4) by (auto intro: filter_cong)
  also have "length \<dots> < length (filter P xs)"
    using assms(1-3) by (intro length_filter_less [of x]) auto
  finally show ?thesis .
qed

function all_pages :: "('a \<Rightarrow> string) \<Rightarrow> nat \<Rightarrow> string \<Rightarrow> 'a list \<Rightarrow> 'a list" where
  "all_pages key limit cursor xs =
    (let page = page_of key limit cursor xs; next = next_cursor key limit page in
     if next = '''' then page else page @ all_pages key limit next xs)"
  by pat_completeness auto
termination
proof (relation "measure (\<lambda>(key, limit, cursor, xs). length (filter (\<lambda>x. cursor = '''' \<or> cursor < key x) xs))")
  fix key :: "'a \<Rightarrow> string" and limit cursor and xs :: "'a list" and page "next"
  assume page: "page = page_of key limit cursor xs" and nx: "next = next_cursor key limit page" and ne: "next \<noteq> ''''"
  from ne obtain x where x: "x \<in> set xs" "key x = next" "cursor = '''' \<or> cursor < key x"
    unfolding nx page by (rule next_cursor_row)
  have "length (filter (\<lambda>x. next = '''' \<or> next < key x) xs) < length (filter (\<lambda>x. cursor = '''' \<or> cursor < key x) xs)"
    using x(3) ne unfolding x(2) by (intro filter_shrinks [OF x(1)]) (auto simp: x(2))
  then show "((key, limit, next, xs), (key, limit, cursor, xs))
    \<in> measure (\<lambda>(key, limit, cursor, xs). length (filter (\<lambda>x. cursor = '''' \<or> cursor < key x) xs))"
    by simp
qed simp

declare all_pages.simps [simp del]

lemma sorted_split_keys:
  fixes key :: "'a \<Rightarrow> string"
  assumes "sorted (map key (p @ r))" "p \<noteq> []"
  shows "key ` set (p @ r) = key ` set p \<union> {k \<in> key ` set (p @ r). key (last p) < k}"
proof -
  have r: "key (last p) \<le> key x" if "x \<in> set r" for x
    using assms that by (auto simp: sorted_append)
  have "key x \<in> key ` set p \<union> {k \<in> key ` set (p @ r). key (last p) < k}" if "x \<in> set r" for x
  proof (cases "key (last p) = key x")
    case True
    then show ?thesis using assms(2) unfolding True [symmetric] by simp
  next
    case False
    then show ?thesis using r [OF that] that by auto
  qed
  then show ?thesis by auto
qed

text \<open>Reading page after page reaches every key, also when rows share a key at the end of a page.\<close>

lemma all_pages_keys:
  assumes "0 < limit" "\<forall>x\<in>set xs. key x \<noteq> ''''"
  shows "key ` set (all_pages key limit cursor xs) = {k \<in> key ` set xs. cursor = '''' \<or> cursor < k}"
  using assms
proof (induction key limit cursor xs rule: all_pages.induct)
  case (1 key limit cursor xs)
  define S where "S = sort_key key (filter (\<lambda>x. cursor = '''' \<or> cursor < key x) xs)"
  define p where "p = page_of key limit cursor xs"
  have S: "key ` set S = {k \<in> key ` set xs. cursor = '''' \<or> cursor < k}" by (auto simp: S_def)
  have p: "p = take limit S" by (simp add: p_def page_of_def S_def)
  show ?case
  proof (cases "next_cursor key limit p = ''''")
    case True
    have "length p < limit"
    proof (rule ccontr)
      assume "\<not> length p < limit"
      then have l: "length p = limit" "p \<noteq> []" using p "1.prems"(1) by auto
      then have "last p \<in> set xs" using page_set [of "last p" key limit cursor xs] by (simp add: p_def)
      then show False using True l "1.prems"(2) by (simp add: next_cursor_def)
    qed
    then have "p = S" by (simp add: p)
    moreover have "all_pages key limit cursor xs = p" using True by (subst all_pages.simps) (simp add: p_def Let_def)
    ultimately show ?thesis using S by simp
  next
    case False
    then have ne: "p \<noteq> []" and k: "next_cursor key limit p = key (last p)" by (auto simp: next_cursor_def split: if_splits)
    have c: "cursor = '''' \<or> cursor < key (last p)" using page_set [of "last p" key limit cursor xs] ne by (simp add: p_def)
    have "key ` set (all_pages key limit (key (last p)) xs) = {k \<in> key ` set xs. key (last p) = '''' \<or> key (last p) < k}"
      using "1.IH" [OF refl refl] False "1.prems" by (simp add: p_def [symmetric] k)
    also have "\<dots> = {k \<in> key ` set S. key (last p) < k}"
      using False c unfolding S k by (auto intro: less_trans)
    finally have rest: "key ` set (all_pages key limit (key (last p)) xs) = {k \<in> key ` set S. key (last p) < k}" .
    have "all_pages key limit cursor xs = p @ all_pages key limit (key (last p)) xs"
      using False by (subst all_pages.simps) (simp add: p_def [symmetric] Let_def k)
    then have "key ` set (all_pages key limit cursor xs) = key ` set p \<union> {k \<in> key ` set S. key (last p) < k}"
      by (simp add: image_Un rest)
    also have "\<dots> = key ` set S"
      using sorted_split_keys [of key p "drop limit S"] ne by (simp add: p S_def)
    finally show ?thesis using S by simp
  qed
qed

lemma all_pages_subset: "set (all_pages key limit cursor xs) \<subseteq> set xs"
proof (induction key limit cursor xs rule: all_pages.induct)
  case (1 key limit cursor xs)
  have "set (page_of key limit cursor xs) \<subseteq> set xs" using page_set by fastforce
  then show ?case using "1.IH" [OF refl refl] by (subst all_pages.simps) (auto simp: Let_def)
qed

section \<open>Deleting a fork\<close>

text \<open>The confirmed S3 references of a tenant, with the hash its row stores.\<close>

definition confirmed_rows :: "file_tables \<Rightarrow> (string \<times> string) list" where
  "confirmed_rows st = map (\<lambda>(k, c). (c_storage_ref c, c_storage_ref_hash c))
    (filter (\<lambda>(k, c). c_storage_type c = ''s3'' \<and> c_storage_ref c \<noteq> '''' \<and>
      (case map_of (inodes st) k of None \<Rightarrow> False | Some i \<Rightarrow> i_status i = CONFIRMED)) (contents st))"

definition page_limit :: "int \<Rightarrow> nat" where
  "page_limit limit = (if limit \<le> 0 then 500 else nat limit)"

definition with_hash :: "(string \<Rightarrow> string) \<Rightarrow> string \<times> string \<Rightarrow> string \<times> string" where
  "with_hash sha = (\<lambda>(ref, h). (ref, if h = '''' then StorageRefHash sha ref else h))"

definition ListConfirmedS3Refs ::
  "(string \<Rightarrow> string) \<Rightarrow> string \<Rightarrow> int \<Rightarrow> file_tables \<Rightarrow> (string \<times> string) list \<times> string" where
  "ListConfirmedS3Refs sha cursor limit st =
    (let page = page_of fst (page_limit limit) cursor (confirmed_rows st)
     in (map (with_hash sha) page, next_cursor fst (page_limit limit) page))"

text \<open>One candidate per reference, until one fails; those already recorded stay. \<^verbatim>\<open>up\<close> holds of the references whose insert reaches the database.\<close>

fun enqueue_refs ::
  "(string \<Rightarrow> bool) \<Rightarrow> int \<Rightarrow> string \<Rightarrow> string \<Rightarrow> cand_reason \<Rightarrow> (string \<times> string) list \<Rightarrow> gc_world \<Rightarrow> gc_world \<times> gc_error option" where
  "enqueue_refs up now ns t reason [] w = (w, None)"
| "enqueue_refs up now ns t reason ((ref, h) # refs) w =
    (case (if up ref then EnqueueObjectGCCandidate now ns ref h reason t '''' None w else Inl (GCCall CallEnqueue)) of
      Inl e \<Rightarrow> (w, Some e)
    | Inr w' \<Rightarrow> enqueue_refs up now ns t reason refs w')"

definition enqueueForkConfirmedRefs ::
  "(string \<Rightarrow> string) \<Rightarrow> (string \<Rightarrow> bool) \<Rightarrow> int \<Rightarrow> string \<Rightarrow> string \<Rightarrow> file_tables \<Rightarrow> gc_world \<Rightarrow> gc_world \<times> gc_error option" where
  "enqueueForkConfirmedRefs sha up now ns t st w =
    enqueue_refs up now ns t ReasonForkDelete (map (with_hash sha) (all_pages fst (page_limit 500) '''' (confirmed_rows st))) w"

definition enqueueForkFileGCTaskRefs ::
  "(string \<Rightarrow> string) \<Rightarrow> (string \<Rightarrow> bool) \<Rightarrow> int \<Rightarrow> string \<Rightarrow> string \<Rightarrow> file_gc_task list \<Rightarrow> gc_world \<Rightarrow> gc_world \<times> gc_error option" where
  "enqueueForkFileGCTaskRefs sha up now ns t tasks w =
    enqueue_refs up now ns t ReasonFileDelete
      (map (\<lambda>ref. (ref, StorageRefHash sha ref)) (all_pages id (page_limit 500) ''''
        (remdups (map StorageRef (filter (\<lambda>r. StorageType r = ''s3'' \<and> StorageRef r \<noteq> '''') tasks))))) w"

section \<open>Confirmed references\<close>

definition confirmed_s3 :: "file_tables \<Rightarrow> string \<Rightarrow> bool" where
  "confirmed_s3 st ref \<longleftrightarrow> ref \<in> fst ` set (confirmed_rows st)"

text \<open>Every row stores the hash of its reference.\<close>

definition hashes_ok :: "(string \<Rightarrow> string) \<Rightarrow> file_tables \<Rightarrow> bool" where
  "hashes_ok sha st \<longleftrightarrow> wf_map (contents st) \<and>
    (\<forall>k c. map_of (contents st) k = Some c \<longrightarrow> c_storage_ref_hash c = StorageRefHash sha (c_storage_ref c))"

lemma confirmed_iff:
  assumes "wf_map (contents st)"
  shows "confirmed_s3 st ref \<longleftrightarrow> ref \<noteq> '''' \<and> (\<exists>k c i. map_of (contents st) k = Some c \<and> map_of (inodes st) k = Some i \<and>
    i_status i = CONFIRMED \<and> c_storage_type c = ''s3'' \<and> c_storage_ref c = ref)"
proof -
  have "(k, c) \<in> set (contents st) \<longleftrightarrow> map_of (contents st) k = Some c" for k c
    using assms by (auto simp: map_of_in_set dest: map_of_SomeD)
  then show ?thesis
    by (force simp: confirmed_s3_def confirmed_rows_def image_iff split: option.splits)
qed

lemma confirmed_hash:
  assumes "hashes_ok sha st" "(ref, h) \<in> set (confirmed_rows st)"
  shows "h = StorageRefHash sha ref"
  using assms by (auto simp: confirmed_rows_def hashes_ok_def dest!: map_of_in_set)

lemma reachable_iff:
  assumes "hashes_ok sha st" "StorageRefHash sha ref \<noteq> ''''"
  shows "HasConfirmedS3StorageRef (StorageRefHash sha ref) ref st \<longleftrightarrow> confirmed_s3 st ref"
proof -
  have "c_storage_ref_hash c = StorageRefHash sha (c_storage_ref c)" if "(k, c) \<in> set (contents st)" for k c
    using assms(1) that by (auto simp: hashes_ok_def dest: map_of_in_set)
  moreover have "ref \<noteq> ''''" using assms(2) by (auto simp: StorageRefHash_def)
  ultimately show ?thesis using assms(2)
    by (fastforce simp: HasConfirmedS3StorageRef_def confirmed_s3_def confirmed_rows_def list_ex_iff image_iff)
qed

text \<open>The reference that an operation on files can confirm.\<close>

fun event_ref :: "file_event \<Rightarrow> string" where
  "event_ref (FInsert now f) = (if fd_Status f = CONFIRMED \<and> fd_StorageType f = ''s3'' then fd_StorageRef f else '''')"
| "event_ref (FUpdate now fid er pe a) = (if a_storageType a = ''s3'' then a_storageRef a else '''')"
| "event_ref (FConfirm auto now fid a) = (if a_storageType a = ''s3'' then a_storageRef a else '''')"
| "event_ref _ = ''''"

text \<open>The reference a file holds as a confirmed one, and the pair of reference and hash in its row.\<close>

definition key_ref :: "file_tables \<Rightarrow> string \<Rightarrow> string" where
  "key_ref st k = (case map_of (contents st) k of None \<Rightarrow> ''''
    | Some c \<Rightarrow> (case map_of (inodes st) k of None \<Rightarrow> ''''
      | Some i \<Rightarrow> if i_status i = CONFIRMED \<and> c_storage_type c = ''s3'' then c_storage_ref c else ''''))"

definition key_hash :: "file_tables \<Rightarrow> string \<Rightarrow> (string \<times> string) option" where
  "key_hash st k = map_option (\<lambda>c. (c_storage_ref c, c_storage_ref_hash c)) (map_of (contents st) k)"

text \<open>How rows may change: a file keeps its confirmed reference, loses it or takes that of the operation.\<close>

definition row_step :: "(string \<Rightarrow> string) \<Rightarrow> string \<Rightarrow> file_tables \<Rightarrow> file_tables \<Rightarrow> string \<Rightarrow> bool" where
  "row_step sha new st st' k \<longleftrightarrow>
    (key_hash st' k = key_hash st k \<or> (case key_hash st' k of None \<Rightarrow> True | Some (ref, h) \<Rightarrow> h = StorageRefHash sha ref)) \<and>
    (key_ref st' k = key_ref st k \<or> key_ref st' k = '''' \<or> key_ref st' k = new)"

definition refs_step :: "(string \<Rightarrow> string) \<Rightarrow> string \<Rightarrow> file_tables \<Rightarrow> file_tables \<Rightarrow> bool" where
  "refs_step sha new st st' \<longleftrightarrow> wf_map (contents st') \<and> (\<forall>k. row_step sha new st st' k)"

lemma confirmed_key_ref: "wf_map (contents st) \<Longrightarrow> confirmed_s3 st ref \<longleftrightarrow> ref \<noteq> '''' \<and> (\<exists>k. key_ref st k = ref)"
  by (force simp: confirmed_iff key_ref_def split: option.splits)

lemma hashes_ok_keys:
  "hashes_ok sha st \<longleftrightarrow> wf_map (contents st) \<and>
    (\<forall>k. case key_hash st k of None \<Rightarrow> True | Some (ref, h) \<Rightarrow> h = StorageRefHash sha ref)"
  by (auto simp: hashes_ok_def key_hash_def split: option.splits)

lemma refs_step_ok:
  assumes "hashes_ok sha st" "refs_step sha new st st'"
  shows "hashes_ok sha st'" and "confirmed_s3 st' ref \<Longrightarrow> confirmed_s3 st ref \<or> ref = new"
proof -
  have wf: "wf_map (contents st)" "wf_map (contents st')" using assms by (auto simp: hashes_ok_def refs_step_def)
  show "hashes_ok sha st'" using assms unfolding hashes_ok_keys refs_step_def row_step_def by metis
  show "confirmed_s3 st' ref \<Longrightarrow> confirmed_s3 st ref \<or> ref = new"
    using assms(2) unfolding confirmed_key_ref [OF wf(1)] confirmed_key_ref [OF wf(2)] refs_step_def row_step_def by metis
qed

lemma refs_stepI:
  assumes "wf_map (contents st')" "\<And>k. k \<noteq> fid \<Longrightarrow> map_of (contents st') k = map_of (contents st) k \<and> map_of (inodes st') k = map_of (inodes st) k"
    "row_step sha new st st' fid"
  shows "refs_step sha new st st'"
proof -
  have "row_step sha new st st' k" for k
  proof (cases "k = fid")
    case True
    with assms(3) show ?thesis by simp
  next
    case False
    then have rows: "map_of (contents st') k = map_of (contents st) k" "map_of (inodes st') k = map_of (inodes st) k"
      using assms(2) by auto
    have "key_hash st' k = key_hash st k" "key_ref st' k = key_ref st k"
      unfolding key_hash_def key_ref_def rows by (rule refl)+
    then show ?thesis by (simp add: row_step_def)
  qed
  with assms(1) show ?thesis by (simp add: refs_step_def)
qed

lemmas row_step_defs = row_step_def key_ref_def key_hash_def

lemma wf_map_update_row: "wf_map m \<Longrightarrow> wf_map (update_row k f m)"
  by (simp add: update_row_def split: option.splits)

lemma insert_split_refs:
  assumes "wf_map (contents st)" "insertSplitTablesTx sha now f st = Inr st'"
  shows "refs_step sha (event_ref (FInsert now f)) st st'"
proof -
  have *: "contents st' = AList.update (fd_FileID f) (content_of_file sha f) (contents st)"
      "inodes st' = AList.update (fd_FileID f) (inode_of_file now f) (inodes st)"
    using assms(2) by (auto simp: insertSplitTablesTx_def insert_row_Some split: option.splits)
  show ?thesis
    by (rule refs_stepI [of _ "fd_FileID f"])
      (simp_all add: * assms(1) row_step_defs content_of_file_def inode_of_file_def Let_def)
qed

text \<open>A row that becomes confirmed with the reference of the operation.\<close>

lemma content_write_refs:
  assumes "wf_map (contents st)" and c: "contents st' = update_row fid f (contents st)" and i: "inodes st' = update_row fid g (inodes st)"
    and f: "\<And>c. c_storage_type (f c) = tp \<and> c_storage_ref (f c) = ref \<and> c_storage_ref_hash (f c) = StorageRefHash sha ref"
  shows "refs_step sha (if tp = ''s3'' then ref else '''') st st'"
proof (rule refs_stepI [of _ fid])
  show "wf_map (contents st')" by (simp add: c assms(1) wf_map_update_row)
  show "row_step sha (if tp = ''s3'' then ref else '''') st st' fid"
    by (cases "map_of (contents st) fid"; cases "map_of (inodes st) fid") (simp_all add: row_step_defs c i f)
qed (simp add: c i)

lemma split_update_refs:
  assumes "wf_map (contents st)" "split_update sha now pe a fid rv st = Inr st'"
  shows "refs_step sha (if a_storageType a = ''s3'' then a_storageRef a else '''') st st'"
proof -
  obtain f g where "contents st' = update_row fid f (contents st)" "inodes st' = update_row fid g (inodes st)"
    "\<And>c. c_storage_type (f c) = a_storageType a \<and> c_storage_ref (f c) = a_storageRef a \<and>
      c_storage_ref_hash (f c) = StorageRefHash sha (a_storageRef a)"
  proof (cases "map_of (contents st) fid")
    case None
    then show thesis using assms(2) by (simp add: split_update_def Let_def UpdateInodeContentTx_def)
  next
    case (Some c)
    show thesis
      by (rule that [of "\<lambda>x. (set_content sha (a_storageType a) (a_storageRef a) (a_contentType a) (a_checksum a)
            (a_contentBlob a) x)\<lparr>c_enc_mode := fileStorageEncryptionModeForWrite (c_enc_mode c)\<rparr>"
          "\<lambda>i. i\<lparr>i_size := a_size a, i_revision := rv, i_status := CONFIRMED, i_mtime := now, i_confirmed := Some now\<rparr>"])
        (use assms(2) Some in \<open>auto simp: split_update_def Let_def UpdateInodeContentTx_def UpdateContentTx_def
          UpdateSemanticTx_def updateSemanticNoEmbedTx_def set_content_def\<close>)
  qed
  from content_write_refs [OF assms(1) this] show ?thesis .
qed

lemma confirm_split_refs:
  assumes "wf_map (contents st)"
  shows "refs_step sha (if a_storageType a = ''s3'' then a_storageRef a else '''') st (confirm_split sha now auto fid a st)"
  by (rule content_write_refs [OF assms])
    (auto simp: confirm_split_def Let_def UpdateInodeContentTx_def UpdateContentTx_def UpdateSemanticTx_def
      updateSemanticNoEmbedTx_def set_content_def)

lemma refs_step_refl: "wf_map (contents st) \<Longrightarrow> refs_step sha new st st"
  by (simp add: refs_step_def row_step_def)

lemma row_step_cong:
  assumes "contents st1 = contents st" "inodes st1 = inodes st"
  shows "key_ref st1 = key_ref st" "key_hash st1 = key_hash st"
  unfolding key_ref_def [abs_def] key_hash_def [abs_def] assms by (rule refl)+

lemma key_files [simp]: "key_ref (st\<lparr>files := fs\<rparr>) = key_ref st" "key_hash (st\<lparr>files := fs\<rparr>) = key_hash st"
  by (rule row_step_cong; simp)+

lemma refs_step_files [simp]: "refs_step sha new (st\<lparr>files := fs\<rparr>) st' = refs_step sha new st st'"
  by (simp add: refs_step_def row_step_def)

lemma refs_step_same:
  assumes "wf_map (contents st)" "contents st' = contents st" "inodes st' = inodes st"
  shows "refs_step sha new st st'"
  using row_step_cong [OF assms(2,3)] assms(1,2) by (simp add: refs_step_def row_step_def)

lemma gated_refs: "wf_map (contents st) \<Longrightarrow> refs_step sha new st (fst (gated_semantic_update g fid rv st))"
  by (rule refs_step_same) (simp_all add: gated_semantic_update_def Let_def)

lemma encryption_refs:
  assumes wf: "wf_map (contents st)" and u: "UpdateFileStorageEncryptionTx fid mode key st = Inr st'"
  shows "refs_step sha new st st'"
proof -
  let ?m = "fileStorageEncryptionModeForWrite mode"
  define f :: "content_row \<Rightarrow> content_row" where "f = (\<lambda>c. c\<lparr>c_enc_mode := ?m, c_enc_key := storageEncryptionKeyIDForWrite ?m key\<rparr>)"
  have "contents st' = update_row fid f (contents st) \<and> inodes st' = inodes st"
    using u unfolding UpdateFileStorageEncryptionTx_def Let_def f_def [symmetric] by (auto split: if_splits)
  then have c: "contents st' = update_row fid f (contents st)" and i: "inodes st' = inodes st" by auto
  have f: "c_storage_type (f c) = c_storage_type c \<and> c_storage_ref (f c) = c_storage_ref c \<and>
      c_storage_ref_hash (f c) = c_storage_ref_hash c" for c by (simp add: f_def)
  have "row_step sha new st st' fid"
    by (cases "map_of (contents st) fid"; cases "map_of (inodes st) fid") (simp_all add: row_step_defs c i f)
  then show ?thesis by (intro refs_stepI [of _ fid]) (simp_all add: c i wf wf_map_update_row)
qed

lemma unconfirm_refs:
  assumes wf: "wf_map (contents st)" and i: "inodes st' = update_row fid g (inodes st)" "\<And>x. i_status (g x) \<noteq> CONFIRMED"
    and c: "contents st' = contents st \<or> contents st' = update_row fid clear_ref (contents st)"
  shows "refs_step sha new st st'"
proof -
  have r: "key_ref st' fid = ''''"
    by (cases "map_of (inodes st) fid") (simp_all add: key_ref_def i split: option.splits)
  have h: "key_hash st' fid = key_hash st fid \<or> (case key_hash st' fid of None \<Rightarrow> True | Some (ref, h) \<Rightarrow> h = StorageRefHash sha ref)"
    using c by (cases "map_of (contents st) fid") (auto simp: key_hash_def clear_ref_def StorageRefHash_def)
  have "row_step sha new st st' fid" using r h by (simp add: row_step_def)
  then show ?thesis by (intro refs_stepI [of _ fid]) (use c in \<open>auto simp: i wf wf_map_update_row\<close>)
qed

lemma delete_pending_refs:
  "wf_map (contents st) \<Longrightarrow> DeletePendingFileTx now fid st = Inr st' \<Longrightarrow> refs_step sha new st st'"
  by (rule unconfirm_refs [where fid = fid and g = "\<lambda>i. i\<lparr>i_status := DELETED, i_mtime := now\<rparr>"])
    (auto simp: DeletePendingFileTx_def Let_def split: if_splits)

lemma mark_deleted_refs: "wf_map (contents st) \<Longrightarrow> refs_step sha new st (MarkFileDeleted fid st)"
  by (rule unconfirm_refs [where fid = fid and g = "\<lambda>i. i\<lparr>i_status := DELETED\<rparr>"]) (simp_all add: MarkFileDeleted_def)

lemma confirm_pending_refs:
  assumes "wf_map (contents st)" "confirm_pending auto sha now fid a st = Inr st'"
  shows "refs_step sha (if a_storageType a = ''s3'' then a_storageRef a else '''') st st'"
proof -
  have "\<exists>fs. st' = confirm_split sha now auto fid a (st\<lparr>files := fs\<rparr>)"
  proof (cases "useLegacyFiles st")
    case True
    then show ?thesis using assms(2) by (auto simp: confirm_pending_def split: option.splits if_splits)
  next
    case False
    then show ?thesis using assms(2)
      by (intro exI [of _ "files st"]) (auto simp: confirm_pending_def split: option.splits if_splits)
  qed
  then obtain fs where st': "st' = confirm_split sha now auto fid a (st\<lparr>files := fs\<rparr>)" by blast
  show ?thesis using confirm_split_refs [of "st\<lparr>files := fs\<rparr>" sha a now auto fid] assms(1) by (simp add: st')
qed

lemma file_step_refs:
  assumes wf: "wf_map (contents st)"
  shows "refs_step sha (event_ref e) st (file_step sha e st)"
proof -
  have ok: "refs_step sha new st (or_keep st x)" if "\<And>st'. x = Inr st' \<Longrightarrow> refs_step sha new st st'" for new and x :: "store_error + file_tables"
    using that refs_step_refl [OF wf] by (cases x) (auto simp: or_keep_def)
  have gated: "refs_step sha new st st'" if "gated_semantic_update g fid rv st = (st', b)" for new g fid rv st' b
    using gated_refs [OF wf, of sha new g fid rv] that by simp
  show ?thesis
  proof (cases e)
    case (FInsert now f)
    show ?thesis unfolding FInsert file_step.simps
      by (rule ok) (auto simp: InsertFileTx_def wf split: if_splits option.splits dest!: insert_split_refs [rotated])
  next
    case (FUpdate now fid er pe a)
    show ?thesis unfolding FUpdate file_step.simps event_ref.simps
      by (rule ok) (auto simp: updateFileContentTx_def Let_def wf split: if_splits option.splits sum.splits dest!: split_update_refs [rotated])
  next
    case (FEncryption fid mode key)
    show ?thesis unfolding FEncryption file_step.simps
      by (rule ok) (rule encryption_refs [OF wf])
  next
    case (FConfirm auto now fid a)
    show ?thesis unfolding FConfirm file_step.simps event_ref.simps ConfirmPendingFileAutoEmbeddingTx_def ConfirmPendingFileTx_def
      by (rule ok, rule confirm_pending_refs [OF wf, where auto = auto]) (auto split: if_splits)
  next
    case (FDeletePending now fid)
    show ?thesis unfolding FDeletePending file_step.simps by (rule ok) (rule delete_pending_refs [OF wf])
  next
    case (FMarkDeleted fid)
    show ?thesis unfolding FMarkDeleted file_step.simps by (rule mark_deleted_refs [OF wf])
  next
    case (FSearchText fid er str)
    show ?thesis unfolding FSearchText file_step.simps updateFileSearchTextExec_def by (rule gated_refs [OF wf])
  next
    case (FEmbed fid rv vec)
    show ?thesis unfolding FEmbed file_step.simps
      by (rule ok) (auto simp: UpdateFileEmbedding_def split: if_splits dest: gated)
  next
    case (FDescEmbed fid rv vec)
    show ?thesis unfolding FDescEmbed file_step.simps
      by (rule ok) (auto simp: UpdateFileDescriptionEmbedding_def split: if_splits dest: gated)
  qed
qed

end
