(* ===== verification/Object_Safety.thy ===== *)
theory Object_Safety
  imports Object_GC
begin

text \<open>
  Why the collection of objects never removes the content of a file. The steps below interleave the
  writers of every tenant (put an object, commit it with a transaction, drop it, hand a replaced object
  over to the collector), forks (creation, branching of the database, clean-up, status changes) and any
  number of collectors, which list, decide and delete at different times.
\<close>

section \<open>Steps\<close>

text \<open>
  Beside the state of \<^typ>\<open>gc_world\<close>: the references generated so far, those of writes in progress,
  the candidates some collector has listed and those it has decided to delete.
\<close>

record gc_sys =
  world :: gc_world
  used :: "(string \<times> string) list"
  tokens :: "(string \<times> string) list"
  listed :: "candidate list"
  in_flight :: "candidate list"

datatype ns_event =
    NTenant string string bool
  | NGen string string
  | NPut string string
  | NDrop string string
  | NFile string file_event
  | NRetire int string string cand_reason string
  | NCleanup "string \<Rightarrow> bool" int string
  | NStatus string tenant_status
  | NFork string string
  | NBranch string string
  | NList int int
  | NDecide "gc_call \<Rightarrow> bool" int candidate
  | NDelete "gc_call \<Rightarrow> bool" bool int candidate

definition live :: "tenant_row \<Rightarrow> bool" where
  "live r \<longleftrightarrow> t_Kind r = TenantKindFork \<longrightarrow> t_Status r \<noteq> TenantDeleted"

definition tenant_ns :: "gc_world \<Rightarrow> string \<Rightarrow> string" where
  "tenant_ns w t = (case map_of (g_tenants w) t of None \<Rightarrow> '''' | Some r \<Rightarrow> t_Namespace r)"

definition store_of :: "gc_world \<Rightarrow> string \<Rightarrow> file_tables option" where
  "store_of w t = (case map_of (g_tenants w) t of None \<Rightarrow> None
    | Some r \<Rightarrow> if live r then map_of (g_stores w) t else None)"

definition ns_new_tenant :: "string \<Rightarrow> string \<Rightarrow> bool \<Rightarrow> gc_world \<Rightarrow> gc_world" where
  "ns_new_tenant t ns legacy w =
    (if mem_key (g_tenants w) t \<or> mem_key (g_namespaces w) ns \<or> list_ex (\<lambda>(k, r). t_Namespace r = ns) (g_tenants w) then w
     else w\<lparr>g_tenants := AList.update t \<lparr>t_Status = TenantActive, t_Kind = TenantKindLive,
              t_Parent = '''', t_Namespace = ns, t_BranchID = ''''\<rparr> (g_tenants w),
            g_namespaces := AList.update ns t (g_namespaces w),
            g_stores := AList.update t (no_tables legacy) (g_stores w)\<rparr>)"

definition ns_file :: "(string \<Rightarrow> string) \<Rightarrow> string \<Rightarrow> file_event \<Rightarrow> gc_sys \<Rightarrow> gc_sys" where
  "ns_file sha t e s =
    (case store_of (world s) t of
      None \<Rightarrow> s
    | Some st \<Rightarrow>
        let ref = event_ref e; key = (tenant_ns (world s) t, ref); st' = file_step sha e st in
        if ref \<noteq> '''' \<and> \<not> (key \<in> set (tokens s) \<and> key \<in> set (g_objects (world s))) then s
        else s\<lparr>world := (world s)\<lparr>g_stores := AList.update t st' (g_stores (world s))\<rparr>,
               tokens := (if confirmed_s3 st' ref then removeAll key (tokens s) else tokens s)\<rparr>)"

definition ns_retire :: "(string \<Rightarrow> string) \<Rightarrow> int \<Rightarrow> string \<Rightarrow> string \<Rightarrow> cand_reason \<Rightarrow> string \<Rightarrow> gc_sys \<Rightarrow> gc_sys" where
  "ns_retire sha now t ref reason fid s =
    (let ns = tenant_ns (world s) t in
     if (ns, ref) \<in> set (used s) \<and> (ns, ref) \<notin> set (tokens s)
     then s\<lparr>world := or_keep (world s) (snd (enqueueObjectGCCandidateCtx sha now ns t ref reason fid (world s)))\<rparr> else s)"

definition ns_cleanup :: "(string \<Rightarrow> string) \<Rightarrow> (string \<Rightarrow> bool) \<Rightarrow> int \<Rightarrow> string \<Rightarrow> gc_world \<Rightarrow> gc_world" where
  "ns_cleanup sha up now t w =
    (case store_of w t of None \<Rightarrow> w | Some st \<Rightarrow> fst (enqueueForkConfirmedRefs sha up now (tenant_ns w t) t st w))"

text \<open>A status change, also of a row that was deleted; before a fork is marked as deleted its branch, with its tables, is dropped.\<close>

definition ns_status :: "string \<Rightarrow> tenant_status \<Rightarrow> gc_world \<Rightarrow> gc_world" where
  "ns_status t status w =
    (case map_of (g_tenants w) t of None \<Rightarrow> w
     | Some r \<Rightarrow> w\<lparr>g_tenants := AList.update t (r\<lparr>t_Status := status\<rparr>) (g_tenants w),
         g_stores := (if t_Kind r = TenantKindFork \<and> status = TenantDeleted then AList.delete t (g_stores w) else g_stores w)\<rparr>)"

definition ns_fork :: "string \<Rightarrow> string \<Rightarrow> gc_world \<Rightarrow> gc_world" where
  "ns_fork src new w =
    (case map_of (g_tenants w) src of None \<Rightarrow> w
     | Some r \<Rightarrow>
         if t_Status r \<noteq> TenantActive \<or> mem_key (g_tenants w) new \<or> mem_key (g_stores w) new then w
         else w\<lparr>g_tenants := AList.update new (r\<lparr>t_Status := TenantProvisioning, t_Kind := TenantKindFork, t_Parent := src, t_BranchID := ''''\<rparr>) (g_tenants w)\<rparr>)"

definition ns_branch :: "string \<Rightarrow> string \<Rightarrow> gc_world \<Rightarrow> gc_world" where
  "ns_branch src new w =
    (case store_of w src of None \<Rightarrow> w
     | Some st \<Rightarrow>
         (case map_of (g_tenants w) new of None \<Rightarrow> w
          | Some r \<Rightarrow> if live r \<and> t_Namespace r = tenant_ns w src
              then w\<lparr>g_stores := AList.update new st (g_stores w)\<rparr> else w))"

fun ns_step :: "(string \<Rightarrow> string) \<Rightarrow> ns_event \<Rightarrow> gc_sys \<Rightarrow> gc_sys" where
  "ns_step sha (NTenant t ns legacy) s = s\<lparr>world := ns_new_tenant t ns legacy (world s)\<rparr>"
| "ns_step sha (NGen ns ident) s =
    (let key = (ns, ''blobs/'' @ ident) in
     if key \<in> set (used s) then s else s\<lparr>used := key # used s, tokens := key # tokens s\<rparr>)"
| "ns_step sha (NPut ns ref) s =
    (if (ns, ref) \<in> set (tokens s) then s\<lparr>world := (world s)\<lparr>g_objects := List.insert (ns, ref) (g_objects (world s))\<rparr>\<rparr> else s)"
| "ns_step sha (NDrop ns ref) s =
    (if (ns, ref) \<in> set (tokens s)
     then s\<lparr>world := deleteBlobCtx ns ref (world s), tokens := removeAll (ns, ref) (tokens s)\<rparr> else s)"
| "ns_step sha (NFile t e) s = ns_file sha t e s"
| "ns_step sha (NRetire now t ref reason fid) s = ns_retire sha now t ref reason fid s"
| "ns_step sha (NCleanup up now t) s = s\<lparr>world := ns_cleanup sha up now t (world s)\<rparr>"
| "ns_step sha (NStatus t status) s = s\<lparr>world := ns_status t status (world s)\<rparr>"
| "ns_step sha (NFork src new) s = s\<lparr>world := ns_fork src new (world s)\<rparr>"
| "ns_step sha (NBranch src new) s = s\<lparr>world := ns_branch src new (world s)\<rparr>"
| "ns_step sha (NList now limit) s = s\<lparr>listed := ListDueObjectGCCandidates now limit (world s) @ listed s\<rparr>"
| "ns_step sha (NDecide fails now c) s =
    (if c \<notin> set (listed s) then s
     else
       (case gc_verdict fails c (world s) of
         Inl e \<Rightarrow> s\<lparr>world := RetryObjectGCCandidate c (now + defaultObjectGCRetryDelay) (gc_error_text e) (world s)\<rparr>
       | Inr (Some d) \<Rightarrow> s\<lparr>world := fst (gc_act fails False now c (Some d) (world s))\<rparr>
       | Inr None \<Rightarrow> s\<lparr>in_flight := c # in_flight s\<rparr>))"
| "ns_step sha (NDelete fails gone now c) s =
    (if c \<in> set (in_flight s) then s\<lparr>world := fst (gc_act fails gone now c None (world s))\<rparr> else s)"

section \<open>Invariant\<close>

text \<open>A candidate carries the hash of its reference, which no write in progress holds.\<close>

definition cand_ok :: "(string \<Rightarrow> string) \<Rightarrow> gc_sys \<Rightarrow> candidate \<Rightarrow> bool" where
  "cand_ok sha s c \<longleftrightarrow> cd_StorageRefHash c = StorageRefHash sha (cd_StorageRef c) \<and> cd_StorageRefHash c \<noteq> '''' \<and>
    (cd_NamespaceID c, cd_StorageRef c) \<in> set (used s) \<and> (cd_NamespaceID c, cd_StorageRef c) \<notin> set (tokens s)"

definition cands_ok :: "(string \<Rightarrow> string) \<Rightarrow> gc_sys \<Rightarrow> bool" where
  "cands_ok sha s \<longleftrightarrow> (\<forall>k c. (k, c) \<in> set (g_cands (world s)) \<longrightarrow> k = (cd_NamespaceID c, cd_StorageRefHash c) \<and> cand_ok sha s c) \<and>
    (\<forall>c\<in>set (listed s). cand_ok sha s c) \<and> set (in_flight s) \<subseteq> set (listed s)"

definition refs_ok :: "(string \<Rightarrow> string) \<Rightarrow> gc_sys \<Rightarrow> bool" where
  "refs_ok sha s \<longleftrightarrow> set (tokens s) \<subseteq> set (used s) \<and>
    (\<forall>ns ref. (ns, ref) \<in> set (used s) \<longrightarrow> HasPrefix ref ''blobs/'') \<and>
    (\<forall>t st. store_of (world s) t = Some st \<longrightarrow> hashes_ok sha st \<and>
      (\<forall>ref. confirmed_s3 st ref \<longrightarrow> (tenant_ns (world s) t, ref) \<in> set (g_objects (world s)) \<and>
        (tenant_ns (world s) t, ref) \<in> set (used s) \<and> (tenant_ns (world s) t, ref) \<notin> set (tokens s)))"

definition owner_ok :: "gc_world \<Rightarrow> bool" where
  "owner_ok w \<longleftrightarrow> (\<forall>t r. map_of (g_tenants w) t = Some r \<longrightarrow>
    (t_Kind r = TenantKindLive \<longrightarrow> map_of (g_namespaces w) (t_Namespace r) = Some t) \<and>
    (\<not> live r \<longrightarrow> map_of (g_stores w) t = None))"

definition flight_ok :: "gc_sys \<Rightarrow> bool" where
  "flight_ok s \<longleftrightarrow> (\<forall>c\<in>set (in_flight s). \<forall>t st. store_of (world s) t = Some st \<longrightarrow>
    tenant_ns (world s) t = cd_NamespaceID c \<longrightarrow> \<not> confirmed_s3 st (cd_StorageRef c))"

definition ns_inv :: "(string \<Rightarrow> string) \<Rightarrow> gc_sys \<Rightarrow> bool" where
  "ns_inv sha s \<longleftrightarrow> cands_ok sha s \<and> refs_ok sha s \<and> owner_ok (world s) \<and> flight_ok s"

section \<open>Preservation\<close>

lemma alist_update_set: "(k', v') \<in> set (AList.update k v m) \<Longrightarrow> (k', v') = (k, v) \<or> (k', v') \<in> set m"
  by (induction m) (auto split: if_splits)

text \<open>The control-plane and tenant tables other than the candidates.\<close>

definition same_rest :: "gc_world \<Rightarrow> gc_world \<Rightarrow> bool" where
  "same_rest w w' \<longleftrightarrow> g_tenants w' = g_tenants w \<and> g_namespaces w' = g_namespaces w \<and> g_stores w' = g_stores w \<and>
    g_objects w' = g_objects w"

definition rows_ok_with :: "(candidate \<Rightarrow> bool) \<Rightarrow> gc_world \<Rightarrow> bool" where
  "rows_ok_with P w \<longleftrightarrow> (\<forall>k c. (k, c) \<in> set (g_cands w) \<longrightarrow> k = (cd_NamespaceID c, cd_StorageRefHash c) \<and> P c)"

lemma cands_ok_alt:
  "cands_ok sha s \<longleftrightarrow> rows_ok_with (cand_ok sha s) (world s) \<and> (\<forall>c\<in>set (listed s). cand_ok sha s c) \<and>
    set (in_flight s) \<subseteq> set (listed s)"
  by (simp add: cands_ok_def rows_ok_with_def)

text \<open>The fields the invariant reads.\<close>

definition cand_key :: "candidate \<Rightarrow> string \<times> string \<times> string" where
  "cand_key c = (cd_NamespaceID c, cd_StorageRef c, cd_StorageRefHash c)"

lemma cand_ok_key: "cand_key c = cand_key c' \<Longrightarrow> cand_ok sha s c = cand_ok sha s c'"
  by (simp add: cand_ok_def cand_key_def)

lemma update_cand_rows:
  assumes "rows_ok_with (cand_ok sha s) w" "\<And>r. cand_key (f r) = cand_key r"
  shows "rows_ok_with (cand_ok sha s) (update_cand P f c w) \<and> same_rest w (update_cand P f c w)"
proof -
  have "k = (cd_NamespaceID r', cd_StorageRefHash r') \<and> cand_ok sha s r'"
    if m: "(k, r') \<in> set (g_cands (update_cand P f c w))" for k r'
  proof -
    obtain r where r: "(k, r) \<in> set (g_cands w)" "r' = r \<or> r' = f r" using m by (auto simp: update_cand_def split: if_splits)
    then have "cand_key r' = cand_key r" using assms(2) by auto
    moreover have "k = (cd_NamespaceID r, cd_StorageRefHash r) \<and> cand_ok sha s r"
      using assms(1) r(1) unfolding rows_ok_with_def by blast
    ultimately show ?thesis using cand_ok_key [of r' r sha s] by (simp add: cand_key_def)
  qed
  then have "rows_ok_with (cand_ok sha s) (update_cand P f c w)" unfolding rows_ok_with_def by blast
  then show ?thesis by (simp add: same_rest_def update_cand_def)
qed

lemmas cand_updates = PostponeObjectGCCandidate_def RetryObjectGCCandidate_def MarkObjectGCCandidateDeleted_def

lemma enqueue_rows:
  assumes "rows_ok_with (cand_ok sha s) w" "EnqueueObjectGCCandidate now ns ref h reason src fid nb w = Inr w'"
    "h = StorageRefHash sha ref" "(ns, ref) \<in> set (used s)" "(ns, ref) \<notin> set (tokens s)"
  shows "rows_ok_with (cand_ok sha s) w' \<and> same_rest w w'"
proof -
  obtain c where w': "w' = w\<lparr>g_cands := AList.update (ns, h) c (g_cands w)\<rparr>" and h: "h \<noteq> ''''"
      and c: "cand_key c = (ns, ref, h)"
  proof (cases "map_of (g_cands w) (ns, h)")
    case None
    then show thesis using assms(2) that by (auto simp: EnqueueObjectGCCandidate_def cand_key_def Let_def split: if_splits)
  next
    case (Some x)
    then have "cd_NamespaceID x = ns \<and> cd_StorageRefHash x = h"
      using assms(1) map_of_SomeD [OF Some] by (auto simp: rows_ok_with_def)
    then show thesis using assms(2) Some that
      by (auto simp: EnqueueObjectGCCandidate_def cand_key_def Let_def split: if_splits)
  qed
  have "cand_ok sha s c" using c h assms(3-5) by (auto simp: cand_ok_def cand_key_def)
  then have "rows_ok_with (cand_ok sha s) w'"
    using assms(1) c unfolding rows_ok_with_def w' cand_key_def
    by (simp, metis alist_update_set prod.inject)
  then show ?thesis by (simp add: w' same_rest_def)
qed

lemma same_rest_refl [simp]: "same_rest w w"
  by (simp add: same_rest_def)

lemma same_rest_trans: "same_rest w w1 \<Longrightarrow> same_rest w1 w2 \<Longrightarrow> same_rest w w2"
  by (simp add: same_rest_def)

lemma enqueue_refs_rows:
  assumes "rows_ok_with (cand_ok sha s) w"
    "\<forall>(ref, h)\<in>set refs. h = StorageRefHash sha ref \<and> (ns, ref) \<in> set (used s) \<and> (ns, ref) \<notin> set (tokens s)"
  shows "rows_ok_with (cand_ok sha s) (fst (enqueue_refs up now ns t reason refs w)) \<and>
    same_rest w (fst (enqueue_refs up now ns t reason refs w))"
  using assms
proof (induction up now ns t reason refs w rule: enqueue_refs.induct)
  case (2 up now ns t reason ref h refs w)
  show ?case
  proof (cases "if up ref then EnqueueObjectGCCandidate now ns ref h reason t '''' None w else Inl (GCCall CallEnqueue)")
    case (Inl e)
    show ?thesis unfolding enqueue_refs.simps Inl using "2.prems"(1) by simp
  next
    case (Inr w1)
    then have "EnqueueObjectGCCandidate now ns ref h reason t '''' None w = Inr w1" by (simp split: if_splits)
    from enqueue_rows [OF "2.prems"(1) this] "2.prems"(2)
    have r: "rows_ok_with (cand_ok sha s) w1" "same_rest w w1" by auto
    show ?thesis unfolding enqueue_refs.simps Inr using "2.IH" [OF Inr r(1)] "2.prems"(2) r(2) by (auto intro: same_rest_trans)
  qed
qed simp

text \<open>A step of the world that adds no confirmed reference.\<close>

definition shrinks :: "gc_world \<Rightarrow> gc_world \<Rightarrow> bool" where
  "shrinks w w' \<longleftrightarrow> (\<forall>t st. store_of w' t = Some st \<longrightarrow>
    (\<exists>t0. store_of w t0 = Some st \<and> tenant_ns w t0 = tenant_ns w' t) \<or> (\<exists>legacy. st = no_tables legacy))"

lemma no_tables_refs [simp]: "\<not> confirmed_s3 (no_tables legacy) ref" "hashes_ok sha (no_tables legacy)"
  by (simp_all add: confirmed_s3_def confirmed_rows_def no_tables_def hashes_ok_def)

lemma ns_inv_world:
  assumes inv: "ns_inv sha s" and w: "shrinks (world s) w'" "owner_ok w'" "g_objects w' = g_objects (world s)"
    and r: "rows_ok_with (cand_ok sha s) w'"
  shows "ns_inv sha (s\<lparr>world := w'\<rparr>)"
proof -
  have ck: "cand_ok sha (s\<lparr>world := w'\<rparr>) = cand_ok sha s" by (simp add: fun_eq_iff cand_ok_def)
  have "cands_ok sha (s\<lparr>world := w'\<rparr>)" using inv r by (simp add: ns_inv_def cands_ok_alt ck)
  moreover have "refs_ok sha (s\<lparr>world := w'\<rparr>)"
    unfolding refs_ok_def
  proof (intro conjI allI impI)
    fix t st assume st: "store_of (world (s\<lparr>world := w'\<rparr>)) t = Some st"
    then consider t0 where "store_of (world s) t0 = Some st" "tenant_ns (world s) t0 = tenant_ns w' t"
      | legacy where "st = no_tables legacy" using w(1) unfolding shrinks_def by fastforce
    note cs = this
    show "hashes_ok sha st" using cs by cases (use inv in \<open>auto simp: ns_inv_def refs_ok_def\<close>)
    fix ref assume "confirmed_s3 st ref"
    with cs obtain t0 where t0: "store_of (world s) t0 = Some st" "tenant_ns (world s) t0 = tenant_ns w' t" by cases auto
    with inv \<open>confirmed_s3 st ref\<close> have k: "(tenant_ns w' t, ref) \<in> set (g_objects (world s)) \<and> (tenant_ns w' t, ref) \<in> set (used s) \<and>
        (tenant_ns w' t, ref) \<notin> set (tokens s)" unfolding ns_inv_def refs_ok_def by metis
    from k w(3) show "(tenant_ns (world (s\<lparr>world := w'\<rparr>)) t, ref) \<in> set (g_objects (world (s\<lparr>world := w'\<rparr>)))" by simp
    from k show "(tenant_ns (world (s\<lparr>world := w'\<rparr>)) t, ref) \<in> set (used (s\<lparr>world := w'\<rparr>))"
      "(tenant_ns (world (s\<lparr>world := w'\<rparr>)) t, ref) \<notin> set (tokens (s\<lparr>world := w'\<rparr>))" by simp_all
  qed (use inv in \<open>auto simp: ns_inv_def refs_ok_def\<close>)
  moreover have "flight_ok (s\<lparr>world := w'\<rparr>)"
    unfolding flight_ok_def
  proof (intro ballI allI impI)
    fix c t st assume c: "c \<in> set (in_flight (s\<lparr>world := w'\<rparr>))" and st: "store_of (world (s\<lparr>world := w'\<rparr>)) t = Some st"
      and ns: "tenant_ns (world (s\<lparr>world := w'\<rparr>)) t = cd_NamespaceID c"
    then consider t0 where "store_of (world s) t0 = Some st" "tenant_ns (world s) t0 = tenant_ns w' t"
      | legacy where "st = no_tables legacy" using w(1) unfolding shrinks_def by fastforce
    then show "\<not> confirmed_s3 st (cd_StorageRef c)"
    proof cases
      case 1
      then show ?thesis using inv c ns unfolding ns_inv_def flight_ok_def by auto
    qed simp
  qed
  ultimately show ?thesis using w(2) by (simp add: ns_inv_def)
qed

lemma views_cong:
  assumes w: "g_tenants w' = g_tenants w" "g_namespaces w' = g_namespaces w" "g_stores w' = g_stores w"
  shows "store_of w' = store_of w" "tenant_ns w' = tenant_ns w" "owner_ok w' = owner_ok w"
  unfolding store_of_def [abs_def] tenant_ns_def [abs_def] owner_ok_def w by (rule refl)+

lemma same_rest_views:
  assumes "same_rest w w'"
  shows "store_of w' = store_of w" "tenant_ns w' = tenant_ns w" "g_objects w' = g_objects w" "owner_ok w' = owner_ok w"
  using assms views_cong [of w' w] by (simp_all add: same_rest_def)

lemma ns_inv_same:
  assumes inv: "ns_inv sha s" and w: "rows_ok_with (cand_ok sha s) w' \<and> same_rest (world s) w'"
  shows "ns_inv sha (s\<lparr>world := w'\<rparr>)"
proof (rule ns_inv_world [OF inv])
  from w have v: "same_rest (world s) w'" ..
  show "shrinks (world s) w'" unfolding shrinks_def same_rest_views [OF v] by blast
  show "owner_ok w'" "g_objects w' = g_objects (world s)"
    using inv unfolding same_rest_views [OF v] by (simp_all add: ns_inv_def)
qed (use w in blast)

lemma inv_rows: "ns_inv sha s \<Longrightarrow> rows_ok_with (cand_ok sha s) (world s)"
  by (simp add: ns_inv_def cands_ok_alt)

lemma inv_store:
  assumes "ns_inv sha s" "store_of (world s) t = Some st"
  shows "hashes_ok sha st"
    and "confirmed_s3 st ref \<Longrightarrow> (tenant_ns (world s) t, ref) \<in> set (g_objects (world s)) \<and>
      (tenant_ns (world s) t, ref) \<in> set (used s) \<and> (tenant_ns (world s) t, ref) \<notin> set (tokens s)"
  using assms unfolding ns_inv_def refs_ok_def by blast+

lemma ns_retire_inv: "ns_inv sha s \<Longrightarrow> ns_inv sha (ns_retire sha now t ref reason fid s)"
proof -
  assume inv: "ns_inv sha s"
  show ?thesis
  proof (cases "(tenant_ns (world s) t, ref) \<in> set (used s) \<and> (tenant_ns (world s) t, ref) \<notin> set (tokens s)")
    case True
    let ?x = "snd (enqueueObjectGCCandidateCtx sha now (tenant_ns (world s) t) t ref reason fid (world s))"
    have "rows_ok_with (cand_ok sha s) (or_keep (world s) ?x) \<and> same_rest (world s) (or_keep (world s) ?x)"
    proof (cases ?x)
      case (Inr w')
      then show ?thesis using inv_rows [OF inv] enqueue_rows [OF inv_rows [OF inv] _ refl] True
        by (auto simp: or_keep_def enqueueObjectGCCandidateCtx_def split: if_splits)
    qed (simp add: or_keep_def inv_rows [OF inv])
    from ns_inv_same [OF inv this] True show ?thesis by (simp add: ns_retire_def Let_def)
  next
    case False
    then show ?thesis using inv by (auto simp: ns_retire_def Let_def)
  qed
qed

lemma ns_cleanup_inv:
  assumes inv: "ns_inv sha s"
  shows "ns_inv sha (s\<lparr>world := ns_cleanup sha up now t (world s)\<rparr>)"
proof (cases "store_of (world s) t")
  case None
  then show ?thesis using ns_inv_same [OF inv, of "world s"] inv_rows [OF inv] by (simp add: ns_cleanup_def)
next
  case (Some st)
  let ?refs = "map (with_hash sha) (all_pages fst (page_limit 500) '''' (confirmed_rows st))"
  have "\<forall>(ref, h)\<in>set ?refs. h = StorageRefHash sha ref \<and> (tenant_ns (world s) t, ref) \<in> set (used s) \<and>
      (tenant_ns (world s) t, ref) \<notin> set (tokens s)"
  proof safe
    fix ref h assume "(ref, h) \<in> set ?refs"
    then obtain h0 where r: "(ref, h0) \<in> set (confirmed_rows st)" and h: "(ref, h) = with_hash sha (ref, h0)"
      using all_pages_subset [of fst "page_limit 500" "''''" "confirmed_rows st"] by (auto simp: with_hash_def)
    from confirmed_hash [OF inv_store(1) [OF inv Some] r] h show "h = StorageRefHash sha ref" by (auto simp: with_hash_def)
    from r have "confirmed_s3 st ref" by (force simp: confirmed_s3_def)
    from inv_store(2) [OF inv Some this]
    show "(tenant_ns (world s) t, ref) \<in> set (used s)" "(tenant_ns (world s) t, ref) \<in> set (tokens s) \<Longrightarrow> False" by auto
  qed
  from ns_inv_same [OF inv enqueue_refs_rows [OF inv_rows [OF inv] this]]
  show ?thesis by (simp add: ns_cleanup_def Some enqueueForkConfirmedRefs_def)
qed

lemma ns_status_inv:
  assumes inv: "ns_inv sha s"
  shows "ns_inv sha (s\<lparr>world := ns_status t status (world s)\<rparr>)"
proof (rule ns_inv_world [OF inv])
  let ?w = "ns_status t status (world s)"
  have "store_of ?w t' = Some st \<Longrightarrow> store_of (world s) t' = Some st" for t' st
    using inv unfolding ns_inv_def owner_ok_def
    by (auto simp: ns_status_def store_of_def live_def split: option.splits if_splits)
  moreover have "tenant_ns ?w = tenant_ns (world s)"
    by (auto simp: ns_status_def tenant_ns_def [abs_def] fun_eq_iff split: option.splits)
  ultimately show "shrinks (world s) ?w" unfolding shrinks_def by auto
  show "owner_ok ?w" using inv by (auto simp: ns_inv_def ns_status_def owner_ok_def live_def split: option.splits)
qed (use inv_rows [OF inv] in \<open>simp_all add: ns_status_def rows_ok_with_def split: option.splits\<close>)

lemma ns_fork_inv:
  assumes inv: "ns_inv sha s"
  shows "ns_inv sha (s\<lparr>world := ns_fork src new (world s)\<rparr>)"
proof (rule ns_inv_world [OF inv])
  let ?w = "ns_fork src new (world s)"
  have "store_of ?w t = Some st \<Longrightarrow> store_of (world s) t = Some st \<and> tenant_ns ?w t = tenant_ns (world s) t" for t st
    by (auto simp: ns_fork_def store_of_def tenant_ns_def mem_key_def split: option.splits if_splits)
  then show "shrinks (world s) ?w" unfolding shrinks_def by metis
  show "owner_ok ?w" using inv by (auto simp: ns_inv_def ns_fork_def owner_ok_def live_def split: option.splits)
qed (use inv_rows [OF inv] in \<open>simp_all add: ns_fork_def rows_ok_with_def split: option.splits\<close>)

lemma ns_branch_inv:
  assumes inv: "ns_inv sha s"
  shows "ns_inv sha (s\<lparr>world := ns_branch src new (world s)\<rparr>)"
proof (rule ns_inv_world [OF inv])
  let ?w = "ns_branch src new (world s)"
  have ns: "tenant_ns ?w = tenant_ns (world s)"
    by (auto simp: ns_branch_def tenant_ns_def [abs_def] fun_eq_iff split: option.splits)
  have "store_of ?w t = Some st \<Longrightarrow> store_of (world s) t = Some st \<or> (store_of (world s) src = Some st \<and> tenant_ns (world s) src = tenant_ns (world s) t)" for t st
    by (auto simp: ns_branch_def store_of_def tenant_ns_def split: option.splits if_splits)
  then show "shrinks (world s) ?w" unfolding shrinks_def ns by metis
  show "owner_ok ?w" using inv by (auto simp: ns_inv_def ns_branch_def owner_ok_def split: option.splits)
qed (use inv_rows [OF inv] in \<open>simp_all add: ns_branch_def rows_ok_with_def split: option.splits\<close>)

lemma ns_tenant_inv:
  assumes inv: "ns_inv sha s"
  shows "ns_inv sha (s\<lparr>world := ns_new_tenant t ns legacy (world s)\<rparr>)"
proof (rule ns_inv_world [OF inv])
  let ?w = "ns_new_tenant t ns legacy (world s)"
  have "store_of ?w t' = Some st \<Longrightarrow> (store_of (world s) t' = Some st \<and> tenant_ns ?w t' = tenant_ns (world s) t') \<or> st = no_tables legacy" for t' st
    by (auto simp: ns_new_tenant_def store_of_def tenant_ns_def mem_key_def split: option.splits if_splits)
  then show "shrinks (world s) ?w" unfolding shrinks_def by metis
  show "owner_ok ?w" using inv by (auto simp: ns_inv_def ns_new_tenant_def owner_ok_def mem_key_def list_ex_iff live_def dest: map_of_SomeD)
qed (use inv_rows [OF inv] in \<open>simp_all add: ns_new_tenant_def rows_ok_with_def\<close>)

section \<open>Writers and collectors\<close>

lemma inv_fields [simp]:
  "cand_ok sha (s\<lparr>listed := l\<rparr>) = cand_ok sha s" "cand_ok sha (s\<lparr>in_flight := f\<rparr>) = cand_ok sha s"
  "cand_ok sha (s\<lparr>world := w\<rparr>) = cand_ok sha s"
  "refs_ok sha (s\<lparr>listed := l\<rparr>) = refs_ok sha s" "refs_ok sha (s\<lparr>in_flight := f\<rparr>) = refs_ok sha s"
  "flight_ok (s\<lparr>listed := l\<rparr>) = flight_ok s"
  by (simp_all add: fun_eq_iff cand_ok_def refs_ok_def flight_ok_def)

lemma cand_ok_mono:
  assumes "cand_ok sha s c" "set (used s) \<subseteq> set (used s')" "set (tokens s') \<subseteq> set (tokens s) \<union> (set (used s') - set (used s))"
  shows "cand_ok sha s' c"
  using assms by (auto simp: cand_ok_def)

lemma cands_ok_mono:
  assumes "cands_ok sha s" "set (used s) \<subseteq> set (used s')" "set (tokens s') \<subseteq> set (tokens s) \<union> (set (used s') - set (used s))"
    "g_cands (world s') = g_cands (world s)" "listed s' = listed s" "in_flight s' = in_flight s"
  shows "cands_ok sha s'"
  using assms(1) cand_ok_mono [OF _ assms(2,3)] unfolding cands_ok_def assms(4-6) by blast

text \<open>A verdict to delete: the reference is confirmed in no tenant of the namespace.\<close>

lemma verdict_unreachable:
  assumes inv: "ns_inv sha s" and c: "cand_ok sha s c" and v: "gc_verdict fails c (world s) = Inr None"
    and st: "store_of (world s) t = Some st" and ns: "tenant_ns (world s) t = cd_NamespaceID c"
  shows "\<not> confirmed_s3 st (cd_StorageRef c)"
proof -
  obtain r where r: "map_of (g_tenants (world s)) t = Some r" "live r" "map_of (g_stores (world s)) t = Some st" "t_Namespace r = cd_NamespaceID c"
    using st ns by (auto simp: store_of_def tenant_ns_def split: option.splits if_splits)
  have "HasPrefix (cd_StorageRef c) ''blobs/''" using inv c by (auto simp: ns_inv_def refs_ok_def cand_ok_def)
  then have forks: "NamespaceHasNonDeletedFork (cd_NamespaceID c) (world s) = Inr False" and own: "gc_check_owner fails c (world s) = Inr None"
    using v by (auto simp: gc_verdict_def gc_check_forks_def split: sum.splits option.splits if_splits)
  show ?thesis
  proof (cases "t_Kind r")
    case TenantKindFork
    then have "(t, r) \<in> set (g_tenants (world s))" "t_Status r \<noteq> TenantDeleted" using r by (auto simp: live_def dest: map_of_SomeD)
    with forks r TenantKindFork show ?thesis by (auto simp: NamespaceHasNonDeletedFork_def list_ex_iff split: if_splits)
  next
    case TenantKindLive
    then have "map_of (g_namespaces (world s)) (cd_NamespaceID c) = Some t" using inv r unfolding ns_inv_def owner_ok_def by metis
    with own r have "\<not> HasConfirmedS3StorageRef (cd_StorageRefHash c) (cd_StorageRef c) st"
      by (auto simp: gc_check_owner_def split: if_splits)
    then show ?thesis using reachable_iff [OF inv_store(1) [OF inv st]] c by (auto simp: cand_ok_def)
  qed
qed

lemma ns_list_inv:
  assumes inv: "ns_inv sha s"
  shows "ns_inv sha (s\<lparr>listed := ListDueObjectGCCandidates now limit (world s) @ listed s\<rparr>)"
proof -
  have "cand_ok sha s c" if "c \<in> set (ListDueObjectGCCandidates now limit (world s))" for c
    using that inv_rows [OF inv] by (auto simp: ListDueObjectGCCandidates_def rows_ok_with_def dest!: in_set_takeD)
  then show ?thesis using inv by (auto simp: ns_inv_def cands_ok_alt)
qed

lemma ns_decide_inv:
  assumes inv: "ns_inv sha s"
  shows "ns_inv sha (ns_step sha (NDecide fails now c) s)"
proof (cases "c \<in> set (listed s)")
  case True
  then have c: "cand_ok sha s c" using inv by (simp add: ns_inv_def cands_ok_def)
  note upd = ns_inv_same [OF inv update_cand_rows [OF inv_rows [OF inv]]]
  show ?thesis
  proof (cases "gc_verdict fails c (world s)")
    case (Inl e)
    then show ?thesis using True upd by (simp add: cand_updates cand_key_def)
  next
    case (Inr v)
    show ?thesis
    proof (cases v)
      case None
      have "flight_ok (s\<lparr>in_flight := c # in_flight s\<rparr>)"
        using inv verdict_unreachable [OF inv c] Inr None by (auto simp: flight_ok_def ns_inv_def)
      then show ?thesis using inv True Inr None by (simp add: ns_inv_def cands_ok_alt)
    next
      case (Some d)
      then show ?thesis using True Inr upd inv
        by (cases d) (simp add: gc_act_def cand_updates cand_key_def)
    qed
  qed
qed (simp add: inv)

lemma ns_delete_inv:
  assumes inv: "ns_inv sha s"
  shows "ns_inv sha (ns_step sha (NDelete fails gone now c) s)"
proof (cases "c \<in> set (in_flight s)")
  case True
  let ?w = "DeleteS3ObjectForGC (cd_NamespaceID c) (cd_StorageRef c) (world s)"
  have c: "\<not> confirmed_s3 st (cd_StorageRef c)" if "store_of (world s) t = Some st" "tenant_ns (world s) t = cd_NamespaceID c" for t st
    using inv True that by (auto simp: ns_inv_def flight_ok_def)
  have w: "g_cands ?w = g_cands (world s)" by (simp add: DeleteS3ObjectForGC_def)
  have objs: "x \<in> set (g_objects (world s)) \<Longrightarrow> x \<noteq> (cd_NamespaceID c, cd_StorageRef c) \<Longrightarrow> x \<in> set (g_objects ?w)" for x
    by (simp add: DeleteS3ObjectForGC_def)
  have views: "store_of ?w = store_of (world s)" "tenant_ns ?w = tenant_ns (world s)" "owner_ok ?w = owner_ok (world s)"
    by (rule views_cong; simp add: DeleteS3ObjectForGC_def)+
  have "refs_ok sha (s\<lparr>world := ?w\<rparr>)"
    using inv c unfolding ns_inv_def refs_ok_def by (simp add: views) (metis objs prod.inject)
  moreover have "cands_ok sha (s\<lparr>world := ?w\<rparr>)" using inv by (simp add: ns_inv_def cands_ok_alt rows_ok_with_def w)
  moreover have "flight_ok (s\<lparr>world := ?w\<rparr>)" using inv by (simp add: ns_inv_def flight_ok_def views)
  ultimately have del: "ns_inv sha (s\<lparr>world := ?w\<rparr>)" using inv by (simp add: ns_inv_def views)
  have "ns_inv sha (s\<lparr>world := MarkObjectGCCandidateDeleted c ?w\<rparr>)"
    using ns_inv_same [OF del update_cand_rows [OF inv_rows [OF del]], of "\<lambda>r. r\<lparr>cd_State := CandDeleted, cd_LastError := None\<rparr>" "\<lambda>r. True" c]
    by (simp add: cand_updates cand_key_def)
  with del inv True show ?thesis by (simp add: gc_act_def Let_def)
qed (simp add: inv)

lemma ns_token_inv:
  assumes inv: "ns_inv sha s"
  shows "ns_inv sha (ns_step sha (NGen ns ident) s)" and "ns_inv sha (ns_step sha (NPut ns ref) s)"
    and "ns_inv sha (ns_step sha (NDrop ns ref) s)"
proof -
  let ?key = "(ns, ''blobs/'' @ ident)"
  show "ns_inv sha (ns_step sha (NGen ns ident) s)"
  proof (cases "?key \<in> set (used s)")
    case False
    let ?s = "s\<lparr>used := ?key # used s, tokens := ?key # tokens s\<rparr>"
    have "cands_ok sha ?s" by (rule cands_ok_mono [of sha s]) (use inv False in \<open>auto simp: ns_inv_def\<close>)
    moreover have "refs_ok sha ?s"
      using inv False unfolding ns_inv_def refs_ok_def by (auto simp: HasPrefix_def)
    ultimately show ?thesis using inv False by (simp add: Let_def ns_inv_def flight_ok_def)
  qed (simp add: Let_def inv)
  show "ns_inv sha (ns_step sha (NPut ns ref) s)"
  proof (cases "(ns, ref) \<in> set (tokens s)")
    case True
    let ?w = "(world s)\<lparr>g_objects := List.insert (ns, ref) (g_objects (world s))\<rparr>"
    have v: "store_of ?w = store_of (world s)" "tenant_ns ?w = tenant_ns (world s)" "owner_ok ?w = owner_ok (world s)"
      by (rule views_cong; simp)+
    show ?thesis using inv True
      by (simp add: ns_inv_def cands_ok_alt rows_ok_with_def refs_ok_def flight_ok_def v)
  qed (simp add: inv)
  show "ns_inv sha (ns_step sha (NDrop ns ref) s)"
  proof (cases "(ns, ref) \<in> set (tokens s)")
    case True
    let ?w = "deleteBlobCtx ns ref (world s)" let ?s = "s\<lparr>world := ?w, tokens := removeAll (ns, ref) (tokens s)\<rparr>"
    have v: "store_of ?w = store_of (world s)" "tenant_ns ?w = tenant_ns (world s)" "owner_ok ?w = owner_ok (world s)"
      by (rule views_cong; simp add: deleteBlobCtx_def)+
    have g: "g_cands ?w = g_cands (world s)" by (simp add: deleteBlobCtx_def)
    have o: "x \<in> set (g_objects (world s)) \<Longrightarrow> x \<noteq> (ns, ref) \<Longrightarrow> x \<in> set (g_objects ?w)" for x by (simp add: deleteBlobCtx_def)
    have "cands_ok sha ?s" by (rule cands_ok_mono [of sha s]) (use inv in \<open>auto simp: ns_inv_def g\<close>)
    moreover have "refs_ok sha ?s"
      using inv True o unfolding ns_inv_def refs_ok_def by (simp add: v) blast
    ultimately show ?thesis using inv True by (simp add: ns_inv_def flight_ok_def v)
  qed (simp add: inv)
qed

lemma ns_file_inv:
  assumes inv: "ns_inv sha s"
  shows "ns_inv sha (ns_file sha t e s)"
proof (cases "store_of (world s) t")
  case (Some st)
  define ref where "ref = event_ref e"
  define key where "key = (tenant_ns (world s) t, ref)"
  define st' where "st' = file_step sha e st"
  define w' where "w' = (world s)\<lparr>g_stores := AList.update t st' (g_stores (world s))\<rparr>"
  define s' where "s' = s\<lparr>world := w', tokens := (if confirmed_s3 st' ref then removeAll key (tokens s) else tokens s)\<rparr>"
  show ?thesis
  proof (cases "ref = '''' \<or> key \<in> set (tokens s) \<and> key \<in> set (g_objects (world s))")
    case ok: True
    have eq: "ns_file sha t e s = s'"
      using Some ok unfolding ns_file_def Let_def ref_def [symmetric] key_def [symmetric] st'_def [symmetric] w'_def [symmetric] s'_def
      by (auto simp: key_def [symmetric] st'_def w'_def)
    have h: "hashes_ok sha st" by (rule inv_store(1) [OF inv Some])
    then have step: "refs_step sha ref st st'" unfolding ref_def st'_def by (intro file_step_refs) (simp add: hashes_ok_def)
    have h': "hashes_ok sha st'" by (rule refs_step_ok(1) [OF h step])
    have new: "confirmed_s3 st' r \<Longrightarrow> confirmed_s3 st r \<or> r = ref" for r by (rule refs_step_ok(2) [OF h step])
    have ne: "\<not> confirmed_s3 st' ''''" using h' by (simp add: hashes_ok_def confirmed_iff)
    have view: "tenant_ns w' = tenant_ns (world s)" "owner_ok w' = owner_ok (world s)" "g_objects w' = g_objects (world s)"
      "g_cands w' = g_cands (world s)" "\<And>t'. store_of w' t' = (if t' = t then Some st' else store_of (world s) t')"
      using Some by (auto simp: w'_def tenant_ns_def [abs_def] owner_ok_def store_of_def split: option.splits if_splits)
    have "cands_ok sha s'" by (rule cands_ok_mono [of sha s]) (use inv in \<open>auto simp: ns_inv_def s'_def view\<close>)
    moreover have "refs_ok sha s'"
      unfolding refs_ok_def
    proof (intro conjI allI impI)
      show "set (tokens s') \<subseteq> set (used s')" using inv by (auto simp: ns_inv_def refs_ok_def s'_def)
      fix t' x r assume x: "store_of (world s') t' = Some x"
      show "hashes_ok sha x" using x h' inv_store(1) [OF inv] by (auto simp: s'_def view split: if_splits)
      assume r: "confirmed_s3 x r"
      let ?k = "(tenant_ns (world s) t', r)"
      have "?k \<in> set (g_objects (world s)) \<and> ?k \<in> set (used s) \<and> ?k \<notin> set (tokens s')"
      proof (cases "t' = t \<and> r = ref")
        case True
        then have "confirmed_s3 st' ref" using x r by (simp add: s'_def view)
        with ne ok have "key \<in> set (tokens s)" "key \<in> set (g_objects (world s))" by auto
        then show ?thesis using True \<open>confirmed_s3 st' ref\<close> inv by (auto simp: key_def s'_def ns_inv_def refs_ok_def)
      next
        case False
        then obtain y where "store_of (world s) t' = Some y" "confirmed_s3 y r"
          using x r new Some by (auto simp: s'_def view split: if_splits)
        from inv_store(2) [OF inv this] show ?thesis by (auto simp: s'_def)
      qed
      then show "(tenant_ns (world s') t', r) \<in> set (g_objects (world s'))" "(tenant_ns (world s') t', r) \<in> set (used s')"
        "(tenant_ns (world s') t', r) \<notin> set (tokens s')" by (simp_all add: s'_def view)
    qed (use inv in \<open>auto simp: ns_inv_def refs_ok_def s'_def\<close>)
    moreover have "flight_ok s'"
      unfolding flight_ok_def
    proof (intro ballI allI impI notI)
      fix c t' x assume c: "c \<in> set (in_flight s')" and x: "store_of (world s') t' = Some x"
        and ns: "tenant_ns (world s') t' = cd_NamespaceID c" and r: "confirmed_s3 x (cd_StorageRef c)"
      have cs: "cand_ok sha s c" "c \<in> set (in_flight s)" using inv c by (auto simp: ns_inv_def cands_ok_def s'_def)
      show False
      proof (cases "t' = t \<and> cd_StorageRef c = ref")
        case True
        then show ?thesis using ok ne cs(1) ns x r by (auto simp: cand_ok_def key_def s'_def view)
      next
        case False
        then obtain y where "store_of (world s) t' = Some y" "confirmed_s3 y (cd_StorageRef c)"
          using x r new Some by (auto simp: s'_def view split: if_splits)
        then show ?thesis using inv cs(2) ns by (auto simp: ns_inv_def flight_ok_def s'_def view)
      qed
    qed
    ultimately show ?thesis using inv by (simp add: eq ns_inv_def view s'_def)
  next
    case False
    then have "ns_file sha t e s = s"
      using Some by (auto simp: ns_file_def Let_def ref_def [symmetric] key_def [symmetric])
    then show ?thesis using inv by simp
  qed
qed (simp add: ns_file_def inv)

lemma ns_step_inv:
  assumes "ns_inv sha s"
  shows "ns_inv sha (ns_step sha e s)"
  by (cases e)
    (use ns_tenant_inv [OF assms] ns_token_inv [OF assms] ns_file_inv [OF assms] ns_retire_inv [OF assms] ns_cleanup_inv [OF assms]
      ns_status_inv [OF assms] ns_fork_inv [OF assms] ns_branch_inv [OF assms] ns_list_inv [OF assms] ns_decide_inv [OF assms]
      ns_delete_inv [OF assms] in \<open>simp_all del: ns_step.simps(2-4,12,13)\<close>)

section \<open>Properties\<close>

definition no_world :: gc_sys where
  "no_world = \<lparr>world = \<lparr>g_tenants = [], g_namespaces = [], g_stores = [], g_cands = [], g_objects = []\<rparr>,
     used = [], tokens = [], listed = [], in_flight = []\<rparr>"

definition ns_run :: "(string \<Rightarrow> string) \<Rightarrow> ns_event list \<Rightarrow> gc_sys \<Rightarrow> gc_sys" where
  "ns_run sha es s = foldl (\<lambda>s e. ns_step sha e s) s es"

lemma ns_run_inv: "ns_inv sha s \<Longrightarrow> ns_inv sha (ns_run sha es s)"
  unfolding ns_run_def by (induction es arbitrary: s) (simp_all add: ns_step_inv)

lemma ns_inv_empty: "ns_inv sha no_world"
  by (simp add: ns_inv_def no_world_def cands_ok_def refs_ok_def owner_ok_def flight_ok_def store_of_def)


text \<open>A tenant whose file was forked and then overwritten; a collector has looked at the old object.\<close>

definition gc_file :: file_data where
  "gc_file = sample_file\<lparr>fd_StorageType := ''s3'', fd_StorageRef := ''blobs/1'', fd_ContentBlob := '''', fd_ContentText := ''''\<rparr>"

definition gc_args :: content_args where
  "gc_args = sample_args\<lparr>a_storageType := ''s3'', a_storageRef := ''blobs/2'', a_contentBlob := '''', a_contentText := ''''\<rparr>"

definition gc_write :: "ns_event list" where
  "gc_write = [NTenant ''t'' ''n'' False, NGen ''n'' ''1'', NPut ''n'' ''blobs/1'', NFile ''t'' (FInsert 1 gc_file)]"

definition gc_overwrite :: "ns_event list" where
  "gc_overwrite = [NGen ''n'' ''2'', NPut ''n'' ''blobs/2'', NFile ''t'' (FUpdate 2 ''f'' 0 False gc_args)]"

definition gc_fork :: "string \<Rightarrow> ns_event list" where
  "gc_fork f = [NFork ''t'' f, NBranch ''t'' f]"

definition gc_cand :: "int \<Rightarrow> cand_reason \<Rightarrow> string \<Rightarrow> candidate" where
  "gc_cand nb reason src = \<lparr>cd_NamespaceID = ''n'', cd_StorageRef = ''blobs/1'', cd_StorageRefHash = ''blobs/1'', cd_Reason = reason,
     cd_SourceTenantID = src, cd_SourceFileID = '''', cd_NotBefore = nb, cd_State = CandPending, cd_Attempts = 0, cd_LastError = None\<rparr>"

definition gc_events :: "ns_event list" where
  "gc_events = gc_write @ gc_fork ''u'' @ gc_overwrite @
     [NRetire 3 ''t'' ''blobs/1'' ReasonOverwrite '''', NList 1000000 10,
      NDecide (\<lambda>_. False) 1000000 (gc_cand 604803 ReasonOverwrite ''t''),
      NDelete (\<lambda>_. False) True 1000001 (gc_cand 604803 ReasonOverwrite ''t'')]"



end
