(* ===== verification/Sql_Like.thy ===== *)
theory Sql_Like
  imports Go_Strings
begin

text \<open>
  The SQL operator \<^verbatim>\<open>LIKE\<close> with the escape character backslash, which the datastore uses to select the
  rows below a path, and the pattern builder \<^verbatim>\<open>likeLiteralPrefixPattern\<close> of \<^verbatim>\<open>pkg/datastore/store.go\<close>.
  Strings are compared byte by byte (a binary collation); \<^verbatim>\<open>_\<close> matches one character, that is a byte
  and the continuation bytes that follow it.
\<close>

abbreviation backslash :: char where "backslash \<equiv> CHR 0x5C"

function like :: "string \<Rightarrow> string \<Rightarrow> bool" where
  "like [] s \<longleftrightarrow> s = []"
| "like (p # ps) s \<longleftrightarrow>
    (if p = CHR ''%'' then (if s = [] then like ps s else like ps s \<or> like (p # ps) (tl s))
     else if p = CHR ''_'' then s \<noteq> [] \<and> like ps (dropWhile is_cont (tl s))
     else if p = backslash \<and> ps \<noteq> [] then s \<noteq> [] \<and> hd s = hd ps \<and> like (tl ps) (tl s)
     else s \<noteq> [] \<and> hd s = p \<and> like ps (tl s))"
  by pat_completeness auto
termination by (relation "measures [\<lambda>(p, s). length p, \<lambda>(p, s). length s]") auto

declare like.simps(2) [simp del]

definition special :: "char \<Rightarrow> bool" where
  "special c \<longleftrightarrow> c = CHR ''%'' \<or> c = CHR ''_'' \<or> c = backslash"

text \<open>\<^verbatim>\<open>strings.NewReplacer\<close> on the three one-byte patterns replaces byte by byte.\<close>

definition like_escape :: "char \<Rightarrow> string" where
  "like_escape c = (if special c then [backslash, c] else [c])"

definition likeLiteralPrefixPattern :: "string \<Rightarrow> string" where
  "likeLiteralPrefixPattern p = concat (map like_escape p) @ ''%''"

text \<open>\<^verbatim>\<open>pathPrefixPredicate\<close>: the \<^verbatim>\<open>WHERE\<close> clause on a column.\<close>

definition pathPrefixPredicate :: "string \<Rightarrow> string \<Rightarrow> bool" where
  "pathPrefixPredicate column pattern = like (likeLiteralPrefixPattern pattern) column"

text \<open>The clause \<^verbatim>\<open>path = ? OR path LIKE ?\<close> of \<^verbatim>\<open>RenameDir\<close> and \<^verbatim>\<open>DeleteDirRecursive\<close>, with the
  pattern that appends a percent sign to the unescaped directory path.\<close>

definition below_clause :: "string \<Rightarrow> string \<Rightarrow> bool" where
  "below_clause dir p \<longleftrightarrow> p = dir \<or> like (dir @ ''%'') p"

section \<open>Matching\<close>

lemma like_percent [simp]: "like ''%'' s"
proof (induction s)
  case Nil
  then show ?case by (simp add: like.simps(2) [of _ _ "[]"])
next
  case (Cons c s)
  then show ?case by (simp add: like.simps(2) [of _ _ "c # s"])
qed

lemma like_literal [simp]:
  "\<not> special c \<Longrightarrow> like (c # ps) s \<longleftrightarrow> (case s of [] \<Rightarrow> False | x # xs \<Rightarrow> x = c \<and> like ps xs)"
  by (auto simp: special_def like.simps(2) [of c ps s] split: list.splits)

lemma like_escaped [simp]:
  "like (backslash # c # ps) s \<longleftrightarrow> (case s of [] \<Rightarrow> False | x # xs \<Rightarrow> x = c \<and> like ps xs)"
  by (auto simp: like.simps(2) [of backslash "c # ps" s] split: list.splits)

lemma HasPrefix_Cons: "HasPrefix s (c # p) \<longleftrightarrow> (case s of [] \<Rightarrow> False | x # xs \<Rightarrow> x = c \<and> HasPrefix xs p)"
  by (auto simp: HasPrefix_iff split: list.splits)

lemma HasPrefix_Nil [simp]: "HasPrefix s []"
  by (simp add: HasPrefix_iff)

lemma like_plain_prefix:
  "list_all (\<lambda>c. \<not> special c) p \<Longrightarrow> like (p @ ''%'') s \<longleftrightarrow> HasPrefix s p"
  by (induction p arbitrary: s) (auto simp: HasPrefix_Cons split: list.splits)

lemma below_clause_plain:
  "list_all (\<lambda>c. \<not> special c) dir \<Longrightarrow> below_clause dir p \<longleftrightarrow> HasPrefix p dir"
  by (auto simp: below_clause_def like_plain_prefix HasPrefix_iff)

text \<open>
  the escaped pattern is exact. A column value matches \<^verbatim>\<open>likeLiteralPrefixPattern(prefix)\<close> exactly
  when it starts with the prefix, whatever wildcards and backslashes the prefix contains.
\<close>
theorem like_literal_prefix_exact: "pathPrefixPredicate s pre \<longleftrightarrow> HasPrefix s pre"
proof -
  have "like (concat (map like_escape p) @ ''%'') s \<longleftrightarrow> HasPrefix s p" for p s
    by (induction p arbitrary: s) (auto simp: like_escape_def HasPrefix_Cons split: list.splits)
  then show ?thesis by (simp add: pathPrefixPredicate_def likeLiteralPrefixPattern_def)
qed

end
