(* ===== verification/Node_Store.thy ===== *)
theory Node_Store
  imports File_Rows File_GC Sql_Like Path_Util
begin

text \<open>
  The directory tree of a tenant (\<^verbatim>\<open>pkg/datastore/store.go\<close>): the table \<^verbatim>\<open>file_nodes\<close>, whose rows name
  files and directories by absolute path (a directory path ends in a slash), with the file rows of
  \<^verbatim>\<open>File_Rows\<close>, the tags and the clean-up queue of \<^verbatim>\<open>File_GC\<close>. One transaction is one step; a
  failed one leaves the store unchanged. \<^verbatim>\<open>node_id\<close> is the primary key and \<^verbatim>\<open>path\<close> is unique.
\<close>

section \<open>State\<close>

record file_node =
  fn_node_id :: string
  fn_path :: string
  fn_parent_path :: string
  fn_name :: string
  fn_is_dir :: bool
  fn_file_id :: "string option"
  fn_inode_id :: "string option"
  fn_created :: int

record node_store =
  tables :: file_tables
  nodes :: "file_node list"
  tags :: "(string \<times> string \<times> string) list"
  gc :: "file_gc_task list"

definition node_at :: "node_store \<Rightarrow> string \<Rightarrow> file_node option" where
  "node_at s p = find (\<lambda>n. fn_path n = p) (nodes s)"

definition ref_count :: "node_store \<Rightarrow> string \<Rightarrow> nat" where
  "ref_count s fid = length (filter (\<lambda>n. fn_file_id n = Some fid) (nodes s))"

section \<open>Single rows\<close>

definition insert_node :: "file_node \<Rightarrow> node_store \<Rightarrow> store_error + node_store" where
  "insert_node n s =
    (if list_ex (\<lambda>m. fn_node_id m = fn_node_id n \<or> fn_path m = fn_path n) (nodes s) then Inl StorePathConflict
     else Inr (s\<lparr>nodes := nodes s @ [n]\<rparr>))"

text \<open>\<^verbatim>\<open>lockConfirmedFileForAttachTx\<close>: only a confirmed file can be given a name.\<close>

definition lockConfirmedFileForAttachTx :: "string \<Rightarrow> file_tables \<Rightarrow> store_error option" where
  "lockConfirmedFileForAttachTx fid st =
    (if useLegacyFiles st \<and> \<not> (case map_of (files st) fid of None \<Rightarrow> False | Some l \<Rightarrow> l_status l = CONFIRMED)
     then Some StoreNotFound
     else if \<not> (case map_of (inodes st) fid of None \<Rightarrow> False | Some i \<Rightarrow> i_status i = CONFIRMED)
     then Some StoreNotFound
     else None)"

text \<open>The argument is the row the statement inserts: the empty \<^verbatim>\<open>FileID\<close> of the Go struct is \<^verbatim>\<open>NULL\<close>.\<close>

definition InsertNode :: "file_node \<Rightarrow> node_store \<Rightarrow> store_error + node_store" where
  "InsertNode n s = insert_node n s"

definition InsertNodeTx :: "file_node \<Rightarrow> node_store \<Rightarrow> store_error + node_store" where
  "InsertNodeTx n s =
    (case (if fn_is_dir n then None else fn_file_id n) of
      None \<Rightarrow> insert_node n s
    | Some fid \<Rightarrow>
        (case lockConfirmedFileForAttachTx fid (tables s) of
          Some e \<Rightarrow> Inl e
        | None \<Rightarrow> insert_node n s))"

definition GetNode :: "string \<Rightarrow> node_store \<Rightarrow> store_error + file_node" where
  "GetNode path s = (case node_at s path of None \<Rightarrow> Inl StoreNotFound | Some n \<Rightarrow> Inr n)"

definition ListNodes :: "string \<Rightarrow> node_store \<Rightarrow> file_node list" where
  "ListNodes parent s = sort_key fn_name (filter (\<lambda>n. fn_parent_path n = parent) (nodes s))"

definition DeleteNode :: "string \<Rightarrow> node_store \<Rightarrow> store_error + node_store" where
  "DeleteNode path s =
    (if rows_affected (\<lambda>n. fn_path n = path) (nodes s) = 0 then Inl StoreNotFound
     else Inr (s\<lparr>nodes := filter (\<lambda>n. fn_path n \<noteq> path) (nodes s)\<rparr>))"

definition dirHasChildrenTx :: "string \<Rightarrow> node_store \<Rightarrow> bool" where
  "dirHasChildrenTx path s = list_ex (\<lambda>n. fn_parent_path n = path) (nodes s)"

definition DeleteEmptyDir :: "string \<Rightarrow> node_store \<Rightarrow> store_error + node_store" where
  "DeleteEmptyDir path s =
    (if dirHasChildrenTx path s then Inl (StoreError ''directory not empty'')
     else if rows_affected (\<lambda>n. fn_path n = path \<and> fn_is_dir n) (nodes s) = 0 then Inl StoreNotFound
     else Inr (s\<lparr>nodes := filter (\<lambda>n. \<not> (fn_path n = path \<and> fn_is_dir n)) (nodes s)\<rparr>))"

definition DeleteNodesByPrefix :: "string \<Rightarrow> node_store \<Rightarrow> node_store \<times> nat" where
  "DeleteNodesByPrefix pre s =
    (s\<lparr>nodes := filter (\<lambda>n. \<not> pathPrefixPredicate (fn_path n) pre) (nodes s)\<rparr>,
     rows_affected (\<lambda>n. pathPrefixPredicate (fn_path n) pre) (nodes s))"

text \<open>An \<^verbatim>\<open>UPDATE\<close> of the name columns of the rows that satisfy a condition; another row with the new
  path is a unique violation.\<close>

definition set_name :: "string \<Rightarrow> string \<Rightarrow> string \<Rightarrow> file_node \<Rightarrow> file_node" where
  "set_name path parent name n = n\<lparr>fn_path := path, fn_parent_path := parent, fn_name := name\<rparr>"

definition move_node ::
  "string \<Rightarrow> string \<Rightarrow> string \<Rightarrow> (file_node \<Rightarrow> bool) \<Rightarrow> file_node list \<Rightarrow> file_node list option" where
  "move_node path parent name P ns =
    (if list_ex P ns \<and> list_ex (\<lambda>n. \<not> P n \<and> fn_path n = path) ns then None
     else Some (update_where P (set_name path parent name) ns))"

definition UpdateNodePath ::
  "string \<Rightarrow> string \<Rightarrow> string \<Rightarrow> string \<Rightarrow> node_store \<Rightarrow> store_error + node_store" where
  "UpdateNodePath oldPath newPath newParent newName s =
    (case move_node newPath newParent newName (\<lambda>n. fn_path n = oldPath) (nodes s) of
      None \<Rightarrow> Inl (StoreError ''Duplicate entry'')
    | Some ns \<Rightarrow>
        if rows_changed (\<lambda>n. fn_path n = oldPath) (set_name newPath newParent newName) (nodes s) = 0
        then Inl StoreNotFound else Inr (s\<lparr>nodes := ns\<rparr>))"

definition RefCount :: "string \<Rightarrow> node_store \<Rightarrow> nat" where
  "RefCount fid s = ref_count s fid"

definition Chmod :: "string \<Rightarrow> nat \<Rightarrow> node_store \<Rightarrow> store_error + node_store" where
  "Chmod path mode0 s =
    (case node_at s path of
      None \<Rightarrow> Inl StoreNotFound
    | Some n \<Rightarrow>
        (case (case fn_inode_id n of Some i \<Rightarrow> Some i | None \<Rightarrow> if fn_is_dir n then None else fn_file_id n) of
          None \<Rightarrow> Inl StoreNotFound
        | Some iid \<Rightarrow>
            let mode = mode0 mod 512 in
            (case map_of (inodes (tables s)) iid of
              None \<Rightarrow> Inl StoreNotFound
            | Some i \<Rightarrow>
                if i_status i \<noteq> CONFIRMED \<or> i_mode i = mode then Inl StoreNotFound
                else Inr (s\<lparr>tables := (tables s)\<lparr>inodes := AList.update iid (i\<lparr>i_mode := mode\<rparr>) (inodes (tables s))\<rparr>\<rparr>))))"

section \<open>Tags\<close>

definition ReplaceFileTagsTx :: "string \<Rightarrow> (string, string) gomap \<Rightarrow> node_store \<Rightarrow> node_store" where
  "ReplaceFileTagsTx fid kvs s =
    s\<lparr>tags := filter (\<lambda>(f, k, v). f \<noteq> fid) (tags s) @ map (\<lambda>(k, v). (fid, k, v)) (sort_key fst kvs)\<rparr>"

definition ReplaceFileTagsByPrefixTx ::
  "string \<Rightarrow> string \<Rightarrow> (string, string) gomap \<Rightarrow> node_store \<Rightarrow> store_error + node_store" where
  "ReplaceFileTagsByPrefixTx fid prefix0 kvs s =
    (let pre = TrimSpace prefix0 in
     if pre = '''' then Inl (StoreError ''tag prefix is required'')
     else if \<not> list_all (\<lambda>(k, v). HasPrefix k pre) kvs then Inl (StoreError ''tag key does not match prefix'')
     else
       let kept = filter (\<lambda>(f, k, v). \<not> (f = fid \<and> like (likeLiteralPrefixPattern pre) k)) (tags s)
       in Inr (s\<lparr>tags := kept @ map (\<lambda>(k, v). (fid, k, v)) (sort_key fst kvs)\<rparr>))"

definition GetFileTags :: "string \<Rightarrow> node_store \<Rightarrow> (string, string) gomap" where
  "GetFileTags fid s = sort_key fst (map (\<lambda>(f, k, v). (k, v)) (filter (\<lambda>(f, k, v). f = fid) (tags s)))"

section \<open>Missing parents\<close>

text \<open>The ancestors of a path below the root, nearest first.\<close>

lemma upto_last_prefix: "\<exists>t. s = upto_last c s @ t"
proof -
  have "rev s = takeWhile (\<lambda>x. x \<noteq> c) (rev s) @ dropWhile (\<lambda>x. x \<noteq> c) (rev s)" by simp
  then have "s = rev (dropWhile (\<lambda>x. x \<noteq> c) (rev s)) @ rev (takeWhile (\<lambda>x. x \<noteq> c) (rev s))"
    by (metis rev_append rev_rev_ident)
  then show ?thesis unfolding upto_last_def by blast
qed

lemma TrimSuffix_prefix: "\<exists>t. s = TrimSuffix s p @ t"
  by (metis TrimSuffix_def append_Nil2 append_take_drop_id)

lemma parentPath_shorter:
  assumes "parentPath p \<noteq> p" "parentPath p \<noteq> ''/''"
  shows "length (parentPath p) < length p"
proof -
  have "parentPath p = upto_last (CHR ''/'') (TrimSuffix p ''/'')"
    using assms by (auto simp: parentPath_def Let_def split: if_splits)
  then obtain t where "p = parentPath p @ t"
    using upto_last_prefix TrimSuffix_prefix by (metis append_assoc)
  with assms(1) show ?thesis by (metis append_Nil2 length_append less_add_same_cancel1 length_greater_0_conv)
qed

function ancestors :: "string \<Rightarrow> string list" where
  "ancestors cur =
    (let parent = parentPath cur in
     if parent = cur \<or> parent = ''/'' then [] else parent # ancestors parent)"
  by pat_completeness auto
termination by (relation "measure length") (auto intro: parentPath_shorter)

declare ancestors.simps [simp del]

text \<open>One missing directory; \<^verbatim>\<open>nid\<close> is \<^verbatim>\<open>deterministicNodeID\<close>, the hex SHA-256 of the path.\<close>

definition dir_inode :: "int \<Rightarrow> inode_row" where
  "dir_inode now = \<lparr>i_size = 0, i_revision = 1, i_mode = 493, i_status = CONFIRMED, i_created = now,
     i_mtime = now, i_confirmed = None, i_expires = None\<rparr>"

definition ensure_inode :: "string \<Rightarrow> int \<Rightarrow> node_store \<Rightarrow> node_store" where
  "ensure_inode iid now s =
    (if mem_key (inodes (tables s)) iid then s
     else s\<lparr>tables := (tables s)\<lparr>inodes := AList.update iid (dir_inode now) (inodes (tables s))\<rparr>\<rparr>)"

definition ensure_dir :: "(string \<Rightarrow> string) \<Rightarrow> int \<Rightarrow> string \<Rightarrow> node_store \<Rightarrow> node_store" where
  "ensure_dir nid now dirPath s =
    (case find (\<lambda>n. fn_path n = dirPath \<and> fn_is_dir n) (nodes s) of
      Some n \<Rightarrow>
        if fn_inode_id n \<noteq> None then s
        else
          let s1 = ensure_inode (nid dirPath) now s in
          s1\<lparr>nodes := update_where (\<lambda>n. fn_path n = dirPath \<and> fn_is_dir n)
              (\<lambda>n. n\<lparr>fn_inode_id := Some (nid dirPath)\<rparr>) (nodes s1)\<rparr>
    | None \<Rightarrow>
        let s1 = ensure_inode (nid dirPath) now s;
            row = \<lparr>fn_node_id = nid dirPath, fn_path = dirPath, fn_parent_path = parentPath dirPath,
              fn_name = baseName dirPath, fn_is_dir = True, fn_file_id = None, fn_inode_id = Some (nid dirPath),
              fn_created = now\<rparr>
        in or_keep s1 (insert_node row s1))"

definition ensureParentDirsWithExecer :: "(string \<Rightarrow> string) \<Rightarrow> int \<Rightarrow> string \<Rightarrow> node_store \<Rightarrow> node_store" where
  "ensureParentDirsWithExecer nid now path s = foldl (\<lambda>s d. ensure_dir nid now d s) s (rev (ancestors path))"

text \<open>\<^verbatim>\<open>EnsureParentDirs\<close> runs the transaction at most three times while it ends in a deadlock; the outcomes of
  the attempts are an argument.\<close>

datatype tx_outcome = TxCommitted | TxDeadlock | TxFailed

fun ensure_attempts ::
  "nat \<Rightarrow> tx_outcome list \<Rightarrow> (string \<Rightarrow> string) \<Rightarrow> int \<Rightarrow> string \<Rightarrow> node_store \<Rightarrow> store_error + node_store" where
  "ensure_attempts 0 outs nid now path s = Inl (StoreError ''Deadlock'')"
| "ensure_attempts (Suc left) [] nid now path s = Inr (ensureParentDirsWithExecer nid now path s)"
| "ensure_attempts (Suc left) (o1 # outs) nid now path s =
    (case o1 of
      TxCommitted \<Rightarrow> Inr (ensureParentDirsWithExecer nid now path s)
    | TxDeadlock \<Rightarrow> if 0 < left then ensure_attempts left outs nid now path s else Inl (StoreError ''Deadlock'')
    | TxFailed \<Rightarrow> Inl (StoreError ''transaction''))"

definition EnsureParentDirs ::
  "tx_outcome list \<Rightarrow> (string \<Rightarrow> string) \<Rightarrow> int \<Rightarrow> string \<Rightarrow> node_store \<Rightarrow> store_error + node_store" where
  "EnsureParentDirs outs nid now path s = ensure_attempts 3 outs nid now path s"

section \<open>Deleting and renaming\<close>

text \<open>\<^verbatim>\<open>scanFileForGCTx\<close>, and the enqueueing of a clean-up task.\<close>

definition scanFileForGCTx :: "string \<Rightarrow> file_tables \<Rightarrow> orphan_file option" where
  "scanFileForGCTx fid st =
    (if useLegacyFiles st then
      map_option (\<lambda>l. \<lparr>f_FileID = fid, f_StorageType = c_storage_type (l_content l),
        f_StorageRef = c_storage_ref (l_content l), f_SizeBytes = l_size l,
        f_ContentType = text_of (c_type (l_content l))\<rparr>) (map_of (files st) fid)
     else
      (case map_of (inodes st) fid of
        None \<Rightarrow> None
      | Some i \<Rightarrow> map_option (\<lambda>c. \<lparr>f_FileID = fid, f_StorageType = c_storage_type c, f_StorageRef = c_storage_ref c,
          f_SizeBytes = i_size i, f_ContentType = text_of (c_type c)\<rparr>) (map_of (contents st) fid)))"

text \<open>\<^verbatim>\<open>scanDeleteCandidateTx\<close>: the file of a name, the directory flag, and the file row. Its joins are
  outer joins, so a split row without inode counts with size 0.\<close>

definition scanDeleteCandidateTx :: "string \<Rightarrow> node_store \<Rightarrow> (string \<times> bool \<times> orphan_file option) option" where
  "scanDeleteCandidateTx path s =
    map_option (\<lambda>n.
      (text_of (fn_file_id n), fn_is_dir n,
       (case fn_file_id n of
         None \<Rightarrow> None
       | Some fid \<Rightarrow>
           if useLegacyFiles (tables s) then scanFileForGCTx fid (tables s)
           else map_option (\<lambda>c. \<lparr>f_FileID = fid, f_StorageType = c_storage_type c, f_StorageRef = c_storage_ref c,
                  f_SizeBytes = (case map_of (inodes (tables s)) fid of None \<Rightarrow> 0 | Some i \<Rightarrow> i_size i),
                  f_ContentType = text_of (c_type c)\<rparr>) (map_of (contents (tables s)) fid))))
      (node_at s path)"

definition enqueue_gc :: "int \<Rightarrow> orphan_file \<Rightarrow> node_store \<Rightarrow> store_error + node_store" where
  "enqueue_gc now f s =
    (case NewFileGCTaskFromFile now (Some f) now of
      Inl e \<Rightarrow> Inl (StoreError ''file gc task'')
    | Inr task \<Rightarrow>
        (case enqueueFileGCTask now (Some task) (gc s) of
          Inl e \<Rightarrow> Inl (StoreError ''file gc task'')
        | Inr (rows, created) \<Rightarrow> Inr (s\<lparr>gc := rows\<rparr>)))"

text \<open>Batches of at most \<^verbatim>\<open>deleteFileIDBatchSize\<close> identifiers.\<close>

definition deleteFileIDBatchSize :: nat where "deleteFileIDBatchSize = 1000"

function batches :: "nat \<Rightarrow> 'a list \<Rightarrow> 'a list list" where
  "batches n xs = (if xs = [] \<or> n = 0 then [] else take n xs # batches n (drop n xs))"
  by pat_completeness auto
termination by (relation "measure (length \<circ> snd)") auto

declare batches.simps [simp del]

definition mark_batch :: "file_tables \<Rightarrow> string list \<Rightarrow> file_tables" where
  "mark_batch st batch =
    st\<lparr>files := (if useLegacyFiles st then
         map (\<lambda>(k, l). (k, if k \<in> set batch then l\<lparr>l_status := DELETED\<rparr> else l)) (files st) else files st),
       inodes := map (\<lambda>(k, i). (k, if k \<in> set batch then i\<lparr>i_status := DELETED\<rparr> else i)) (inodes st)\<rparr>"

definition markFilesDeletedTx :: "string list \<Rightarrow> node_store \<Rightarrow> node_store" where
  "markFilesDeletedTx ids s = s\<lparr>tables := foldl mark_batch (tables s) (batches deleteFileIDBatchSize ids)\<rparr>"

definition deleteFileTagsByIDsTx :: "string list \<Rightarrow> node_store \<Rightarrow> node_store" where
  "deleteFileTagsByIDsTx ids s =
    s\<lparr>tags := foldl (\<lambda>ts batch. filter (\<lambda>(f, k, v). f \<notin> set batch) ts) (tags s) (batches deleteFileIDBatchSize ids)\<rparr>"

definition scan_orphans :: "node_store \<Rightarrow> string list \<Rightarrow> orphan_file list" where
  "scan_orphans s batch =
    concat (map (\<lambda>k. case scanFileForGCTx k (tables s) of None \<Rightarrow> [] | Some f \<Rightarrow> [f])
      (filter (\<lambda>k. k \<in> set batch \<and> ref_count s k = 0)
        (if useLegacyFiles (tables s) then map fst (files (tables s)) else map fst (inodes (tables s)))))"

definition scanOrphanedFilesByIDTx :: "string list \<Rightarrow> node_store \<Rightarrow> orphan_file list" where
  "scanOrphanedFilesByIDTx ids s = concat (map (scan_orphans s) (batches deleteFileIDBatchSize ids))"

definition release_orphans :: "int \<Rightarrow> orphan_file list \<Rightarrow> node_store \<Rightarrow> store_error + node_store" where
  "release_orphans now fs s =
    foldl (\<lambda>x f. case x of Inl e \<Rightarrow> Inl e | Inr s \<Rightarrow> enqueue_gc now f s)
      (Inr (deleteFileTagsByIDsTx (map f_FileID fs) (markFilesDeletedTx (map f_FileID fs) s))) fs"

definition DeleteFileWithRefCheck ::
  "int \<Rightarrow> string \<Rightarrow> node_store \<Rightarrow> store_error + node_store \<times> orphan_file option" where
  "DeleteFileWithRefCheck now path s =
    (case scanDeleteCandidateTx path s of
      None \<Rightarrow> Inl StoreNotFound
    | Some (fid, isDir, file) \<Rightarrow>
        if isDir then Inl StoreNotFound
        else
          let s1 = s\<lparr>nodes := filter (\<lambda>n. fn_path n \<noteq> path) (nodes s)\<rparr> in
          if fid = '''' \<or> 0 < ref_count s1 fid then Inr (s1, None)
          else
            (case file of
              None \<Rightarrow> Inl StoreNotFound
            | Some f \<Rightarrow> map_sum id (\<lambda>s2. (s2, Some f)) (release_orphans now [f] s1)))"

definition DeleteDirRecursive ::
  "int \<Rightarrow> string \<Rightarrow> node_store \<Rightarrow> store_error + node_store \<times> orphan_file list" where
  "DeleteDirRecursive now dirPath s =
    (let below = (\<lambda>n. below_clause dirPath (fn_path n));
         fileIDs = remdups (concat (map (\<lambda>n. case fn_file_id n of None \<Rightarrow> [] | Some f \<Rightarrow> [f]) (filter below (nodes s))));
         s1 = s\<lparr>nodes := filter (\<lambda>n. \<not> below n) (nodes s)\<rparr>;
         orphaned = scanOrphanedFilesByIDTx fileIDs s1
     in map_sum id (\<lambda>s2. (s2, orphaned)) (release_orphans now orphaned s1))"

text \<open>\<^verbatim>\<open>RenameFileReplacingTarget\<close>: its last part releases the file of the replaced target.\<close>

definition release_replaced ::
  "int \<Rightarrow> file_node option \<Rightarrow> node_store \<Rightarrow> store_error + node_store \<times> orphan_file option" where
  "release_replaced now dst s =
    (case (case dst of None \<Rightarrow> None | Some d \<Rightarrow> fn_file_id d) of
      None \<Rightarrow> Inr (s, None)
    | Some fid \<Rightarrow>
        if fid = '''' \<or> 0 < ref_count s fid then Inr (s, None)
        else
          (case scanFileForGCTx fid (tables s) of
            None \<Rightarrow> Inl StoreNotFound
          | Some f \<Rightarrow> map_sum id (\<lambda>s'. (s', Some f)) (release_orphans now [f] s)))"

definition RenameFileReplacingTarget ::
  "int \<Rightarrow> string \<Rightarrow> string \<Rightarrow> string \<Rightarrow> string \<Rightarrow> node_store \<Rightarrow> store_error + node_store \<times> orphan_file option" where
  "RenameFileReplacingTarget now oldPath newPath newParent newName s =
    (case node_at s oldPath of
      None \<Rightarrow> Inl StoreNotFound
    | Some old \<Rightarrow>
        if fn_is_dir old then Inl (StoreError ''source is a directory'')
        else if oldPath = newPath then Inr (s, None)
        else
          let dst = node_at s newPath in
          if (case dst of None \<Rightarrow> False | Some d \<Rightarrow> fn_is_dir d) then Inl StorePathConflict
          else if (case dst of None \<Rightarrow> False | Some d \<Rightarrow> fn_node_id d = fn_node_id old) then Inr (s, None)
          else
            let ns1 = (case dst of None \<Rightarrow> nodes s | Some d \<Rightarrow> filter (\<lambda>n. fn_node_id n \<noteq> fn_node_id d) (nodes s)) in
            (case move_node newPath newParent newName (\<lambda>n. fn_node_id n = fn_node_id old) ns1 of
              None \<Rightarrow> Inl StorePathConflict
            | Some ns2 \<Rightarrow>
                if rows_changed (\<lambda>n. fn_node_id n = fn_node_id old) (set_name newPath newParent newName) ns1 = 0
                then Inl StoreNotFound
                else release_replaced now dst (s\<lparr>nodes := ns2\<rparr>)))"

definition dir_update :: "string \<Rightarrow> string \<Rightarrow> file_node \<Rightarrow> string \<times> string \<times> string \<times> string" where
  "dir_update oldPrefix newPrefix n =
    (if fn_path n = oldPrefix then (fn_node_id n, newPrefix, parentPath newPrefix, baseName newPrefix)
     else (fn_node_id n, newPrefix @ TrimPrefix (fn_path n) oldPrefix, newPrefix @ TrimPrefix (fn_parent_path n) oldPrefix, fn_name n))"

definition RenameDir :: "string \<Rightarrow> string \<Rightarrow> node_store \<Rightarrow> store_error + node_store \<times> nat" where
  "RenameDir oldPrefix newPrefix s =
    (let updates = map (dir_update oldPrefix newPrefix)
           (sort_key fn_path (filter (\<lambda>n. below_clause oldPrefix (fn_path n)) (nodes s)))
     in case foldl (\<lambda>ns (nid, path, parent, name). case ns of None \<Rightarrow> None
            | Some ns \<Rightarrow> move_node path parent name (\<lambda>n. fn_node_id n = nid) ns) (Some (nodes s)) updates of
       None \<Rightarrow> Inl (StoreError ''Duplicate entry'')
     | Some ns \<Rightarrow> Inr (s\<lparr>nodes := ns\<rparr>, length updates))"

end
