(* ===== verification/Quota.thy ===== *)
theory Quota
  imports Go_Strings "HOL-Library.Product_Lexorder" "HOL-Library.List_Lexorder" "HOL-Library.Char_ord"
begin

text \<open>
  The quota accounting of the control plane (\<^verbatim>\<open>pkg/meta/quota.go\<close>) and its clients in the backend
  (\<^verbatim>\<open>pkg/backend/quota.go\<close>, \<^verbatim>\<open>upload_reservation.go\<close>, \<^verbatim>\<open>quota_mutation.go\<close>, \<^verbatim>\<open>mutation_replay.go\<close> and the
  central part of \<^verbatim>\<open>file_gc_worker.go\<close>). Counters per tenant, reservations of running uploads, sizes of
  files, and a log of mutations that are applied once, inline or by the replay worker. One
  transaction is one step; the JSON payload of a log entry is kept as the value it encodes. Counters
  are unbounded integers; an \<^verbatim>\<open>UPDATE\<close> that changes no column affects no row.
\<close>

section \<open>State\<close>

datatype quota_error =
    ErrStorageQuotaExceeded
  | ErrReservationAlreadyExists
  | DuplicateReservation
  | ErrMetaNotFound
  | UsageRowMissing
  | MutationNotPending
  | MalformedMutation
  | MutationPending

record quota_config =
  MaxStorageBytes :: int
  MaxMediaLLMFiles :: int
  MaxMonthlyCostMC :: int

record quota_usage =
  StorageBytes :: int
  ReservedBytes :: int
  MediaFileCount :: int

record file_meta =
  fm_SizeBytes :: int
  fm_IsMedia :: bool

datatype res_status = RActive | RCompleted | RAborted

record reservation =
  rv_ReservedBytes :: int
  rv_TargetPath :: string
  rv_Status :: res_status
  rv_ExpiresAt :: int

datatype mutation =
    FileCreate string int bool
  | FileOverwrite string int bool int bool
  | FileDelete string int bool
  | UploadComplete string string int int bool int bool
  | LLMCostRecord string string int int string
  | Malformed
  | UnknownMutation

datatype mutation_status = MPending | MApplied | MFailed

record mutation_row =
  m_TenantID :: string
  m_Data :: mutation
  m_Status :: mutation_status
  m_RetryCount :: int
  m_CreatedAt :: int

record quota_db =
  configs :: "(string, quota_config) gomap"
  usages :: "(string, quota_usage) gomap"
  metas :: "(string \<times> string, file_meta) gomap"
  reservations :: "(string \<times> string, reservation) gomap"
  ledger :: "(string \<times> string \<times> string \<times> int \<times> int \<times> string) list"
  monthly :: "(string \<times> int, int) gomap"
  mutations :: "(nat, mutation_row) gomap"

section \<open>Configuration and counters\<close>

definition GetQuotaConfig :: "string \<Rightarrow> quota_db \<Rightarrow> quota_config" where
  "GetQuotaConfig t s =
    (case map_of (configs s) t of
      None \<Rightarrow> \<lparr>MaxStorageBytes = 53687091200, MaxMediaLLMFiles = 500, MaxMonthlyCostMC = 0\<rparr>
    | Some c \<Rightarrow> c)"

definition SetQuotaConfig :: "string \<Rightarrow> quota_config \<Rightarrow> quota_db \<Rightarrow> quota_db" where
  "SetQuotaConfig t c s = s\<lparr>configs := AList.update t c (configs s)\<rparr>"

definition CopyQuotaConfig :: "string \<Rightarrow> string \<Rightarrow> quota_db \<Rightarrow> quota_db" where
  "CopyQuotaConfig source dest s = SetQuotaConfig dest (GetQuotaConfig source s) s"

definition zero_usage :: quota_usage where
  "zero_usage = \<lparr>StorageBytes = 0, ReservedBytes = 0, MediaFileCount = 0\<rparr>"

definition GetQuotaUsage :: "string \<Rightarrow> quota_db \<Rightarrow> quota_usage" where
  "GetQuotaUsage t s = (case map_of (usages s) t of None \<Rightarrow> zero_usage | Some u \<Rightarrow> u)"

definition EnsureQuotaUsageRow :: "string \<Rightarrow> quota_db \<Rightarrow> quota_db" where
  "EnsureQuotaUsageRow t s = (if mem_key (usages s) t then s else s\<lparr>usages := AList.update t zero_usage (usages s)\<rparr>)"

text \<open>An \<^verbatim>\<open>UPDATE tenant_quota_usage\<close> followed by \<^verbatim>\<open>ensureRowsAffected\<close>.\<close>

definition update_usage :: "string \<Rightarrow> (quota_usage \<Rightarrow> quota_usage) \<Rightarrow> quota_db \<Rightarrow> quota_error + quota_db" where
  "update_usage t f s =
    (case map_of (usages s) t of
      None \<Rightarrow> Inl UsageRowMissing
    | Some u \<Rightarrow> if f u = u then Inl UsageRowMissing else Inr (s\<lparr>usages := AList.update t (f u) (usages s)\<rparr>))"

definition IncrStorageBytesTx :: "string \<Rightarrow> int \<Rightarrow> quota_db \<Rightarrow> quota_error + quota_db" where
  "IncrStorageBytesTx t delta = update_usage t (\<lambda>u. u\<lparr>StorageBytes := StorageBytes u + delta\<rparr>)"

definition IncrReservedBytesTx :: "string \<Rightarrow> int \<Rightarrow> quota_db \<Rightarrow> quota_error + quota_db" where
  "IncrReservedBytesTx t delta = update_usage t (\<lambda>u. u\<lparr>ReservedBytes := ReservedBytes u + delta\<rparr>)"

definition IncrMediaFileCountTx :: "string \<Rightarrow> int \<Rightarrow> quota_db \<Rightarrow> quota_error + quota_db" where
  "IncrMediaFileCountTx t delta = update_usage t (\<lambda>u. u\<lparr>MediaFileCount := MediaFileCount u + delta\<rparr>)"

definition TransferReservedToConfirmedTx :: "string \<Rightarrow> int \<Rightarrow> int \<Rightarrow> quota_db \<Rightarrow> quota_error + quota_db" where
  "TransferReservedToConfirmedTx t reservedDelta storageDelta =
    update_usage t (\<lambda>u. u\<lparr>ReservedBytes := ReservedBytes u + reservedDelta, StorageBytes := StorageBytes u + storageDelta\<rparr>)"

text \<open>The calls guarded by a test that the delta is not zero.\<close>

definition incr_storage_nz :: "string \<Rightarrow> int \<Rightarrow> quota_db \<Rightarrow> quota_error + quota_db" where
  "incr_storage_nz t delta s = (if delta \<noteq> 0 then IncrStorageBytesTx t delta s else Inr s)"

definition incr_media_nz :: "string \<Rightarrow> int \<Rightarrow> quota_db \<Rightarrow> quota_error + quota_db" where
  "incr_media_nz t delta s = (if delta \<noteq> 0 then IncrMediaFileCountTx t delta s else Inr s)"

definition SetQuotaCounters :: "string \<Rightarrow> int \<Rightarrow> int \<Rightarrow> quota_db \<Rightarrow> quota_db" where
  "SetQuotaCounters t storageBytes mediaFileCount s =
    s\<lparr>usages := AList.update t
      (case map_of (usages s) t of
        None \<Rightarrow> \<lparr>StorageBytes = storageBytes, ReservedBytes = 0, MediaFileCount = mediaFileCount\<rparr>
      | Some u \<Rightarrow> u\<lparr>StorageBytes := storageBytes, MediaFileCount := mediaFileCount\<rparr>) (usages s)\<rparr>"

text \<open>The twins outside a transaction run the same statement as a transaction of its own.\<close>

definition IncrStorageBytes :: "string \<Rightarrow> int \<Rightarrow> quota_db \<Rightarrow> quota_error + quota_db" where
  "IncrStorageBytes t d s = IncrStorageBytesTx t d s"

definition IncrReservedBytes :: "string \<Rightarrow> int \<Rightarrow> quota_db \<Rightarrow> quota_error + quota_db" where
  "IncrReservedBytes t d s = IncrReservedBytesTx t d s"

definition IncrMediaFileCount :: "string \<Rightarrow> int \<Rightarrow> quota_db \<Rightarrow> quota_error + quota_db" where
  "IncrMediaFileCount t d s = IncrMediaFileCountTx t d s"

definition TransferReservedToConfirmed :: "string \<Rightarrow> int \<Rightarrow> int \<Rightarrow> quota_db \<Rightarrow> quota_error + quota_db" where
  "TransferReservedToConfirmed t reservedDelta storageDelta s = TransferReservedToConfirmedTx t reservedDelta storageDelta s"

section \<open>Sizes of files\<close>

definition UpsertFileMetaTx :: "string \<Rightarrow> string \<Rightarrow> int \<Rightarrow> bool \<Rightarrow> quota_db \<Rightarrow> quota_db" where
  "UpsertFileMetaTx t fid sz media s =
    s\<lparr>metas := AList.update (t, fid) \<lparr>fm_SizeBytes = sz, fm_IsMedia = media\<rparr> (metas s)\<rparr>"

definition GetFileMeta :: "string \<Rightarrow> string \<Rightarrow> quota_db \<Rightarrow> quota_error + file_meta" where
  "GetFileMeta t fid s = (case map_of (metas s) (t, fid) of None \<Rightarrow> Inl ErrMetaNotFound | Some m \<Rightarrow> Inr m)"

definition DeleteFileMetaIfExistsTx :: "string \<Rightarrow> string \<Rightarrow> quota_db \<Rightarrow> quota_db \<times> bool" where
  "DeleteFileMetaIfExistsTx t fid s = (s\<lparr>metas := AList.delete (t, fid) (metas s)\<rparr>, mem_key (metas s) (t, fid))"

definition UpsertFileMeta :: "string \<Rightarrow> string \<Rightarrow> int \<Rightarrow> bool \<Rightarrow> quota_db \<Rightarrow> quota_db" where
  "UpsertFileMeta t fid sz media s = UpsertFileMetaTx t fid sz media s"

definition DeleteFileMetaTx :: "string \<Rightarrow> string \<Rightarrow> quota_db \<Rightarrow> quota_db" where
  "DeleteFileMetaTx t fid s = s\<lparr>metas := AList.delete (t, fid) (metas s)\<rparr>"

definition DeleteFileMeta :: "string \<Rightarrow> string \<Rightarrow> quota_db \<Rightarrow> quota_db" where
  "DeleteFileMeta t fid s = DeleteFileMetaTx t fid s"

section \<open>Reservations of uploads\<close>

definition defaultMaxStorageBytes :: int where "defaultMaxStorageBytes = 50 * 2 ^ 30"

definition AtomicReserveAndInsertUpload ::
  "string \<Rightarrow> string \<Rightarrow> int \<Rightarrow> string \<Rightarrow> int \<Rightarrow> quota_db \<Rightarrow> quota_error + quota_db" where
  "AtomicReserveAndInsertUpload t u bytes path expiresAt s =
    (let limit = (case map_of (configs s) t of None \<Rightarrow> defaultMaxStorageBytes | Some c \<Rightarrow> MaxStorageBytes c) in
     case map_of (usages s) t of
       None \<Rightarrow> Inl ErrStorageQuotaExceeded
     | Some q \<Rightarrow>
         if bytes = 0 \<or> \<not> StorageBytes q + ReservedBytes q + bytes \<le> limit then Inl ErrStorageQuotaExceeded
         else if mem_key (reservations s) (t, u) then Inl ErrReservationAlreadyExists
         else Inr (s\<lparr>usages := AList.update t (q\<lparr>ReservedBytes := ReservedBytes q + bytes\<rparr>) (usages s),
                     reservations := AList.update (t, u) \<lparr>rv_ReservedBytes = bytes, rv_TargetPath = path,
                       rv_Status = RActive, rv_ExpiresAt = expiresAt\<rparr> (reservations s)\<rparr>))"

definition InsertUploadReservation ::
  "string \<Rightarrow> string \<Rightarrow> int \<Rightarrow> string \<Rightarrow> int \<Rightarrow> quota_db \<Rightarrow> quota_error + quota_db" where
  "InsertUploadReservation t u bytes path expiresAt s =
    (if mem_key (reservations s) (t, u) then Inl DuplicateReservation
     else Inr (s\<lparr>reservations := AList.update (t, u) \<lparr>rv_ReservedBytes = bytes, rv_TargetPath = path,
                 rv_Status = RActive, rv_ExpiresAt = expiresAt\<rparr> (reservations s)\<rparr>))"

definition GetUploadReservation :: "string \<Rightarrow> string \<Rightarrow> quota_db \<Rightarrow> quota_error + reservation" where
  "GetUploadReservation t u s = (case map_of (reservations s) (t, u) of None \<Rightarrow> Inl ErrMetaNotFound | Some r \<Rightarrow> Inr r)"

definition set_active :: "(string \<times> string \<Rightarrow> reservation \<Rightarrow> bool) \<Rightarrow> res_status \<Rightarrow> quota_db \<Rightarrow> quota_db" where
  "set_active P status s =
    s\<lparr>reservations := map (\<lambda>(k, r). (k, if P k r \<and> rv_Status r = RActive then r\<lparr>rv_Status := status\<rparr> else r)) (reservations s)\<rparr>"

definition UpdateUploadReservationStatusTx :: "string \<Rightarrow> string \<Rightarrow> res_status \<Rightarrow> quota_db \<Rightarrow> quota_db" where
  "UpdateUploadReservationStatusTx t u status s = set_active (\<lambda>k r. k = (t, u)) status s"

definition UpdateUploadReservationStatus :: "string \<Rightarrow> string \<Rightarrow> res_status \<Rightarrow> quota_db \<Rightarrow> quota_db" where
  "UpdateUploadReservationStatus t u status s = UpdateUploadReservationStatusTx t u status s"

definition is_active :: "string \<Rightarrow> string \<Rightarrow> quota_db \<Rightarrow> bool" where
  "is_active t u s = (case map_of (reservations s) (t, u) of None \<Rightarrow> False | Some r \<Rightarrow> rv_Status r = RActive)"

definition SettleActiveReservationTx :: "string \<Rightarrow> string \<Rightarrow> res_status \<Rightarrow> quota_db \<Rightarrow> quota_db \<times> bool" where
  "SettleActiveReservationTx t u status s = (set_active (\<lambda>k r. k = (t, u)) status s, is_active t u s)"

definition HasActiveUploadReservations :: "string \<Rightarrow> int \<Rightarrow> quota_db \<Rightarrow> bool" where
  "HasActiveUploadReservations t now s =
    list_ex (\<lambda>((t', u), r). t' = t \<and> rv_Status r = RActive \<and> now < rv_ExpiresAt r) (reservations s)"

text \<open>The sum a \<^verbatim>\<open>SELECT SUM(reserved_bytes)\<close> reads, over the active reservations of a tenant that satisfy a condition.\<close>

definition active_bytes :: "(reservation \<Rightarrow> bool) \<Rightarrow> string \<Rightarrow> quota_db \<Rightarrow> int" where
  "active_bytes P t s =
    sum_kv (\<lambda>(t', u) r. if t' = t \<and> rv_Status r = RActive \<and> P r then rv_ReservedBytes r else 0) (reservations s)"

definition AbortActiveUploadReservations :: "string \<Rightarrow> quota_db \<Rightarrow> quota_error + quota_db" where
  "AbortActiveUploadReservations t s =
    (let total = active_bytes (\<lambda>r. True) t s in
     tx_bind (if total \<noteq> 0 then update_usage t (\<lambda>u. u\<lparr>ReservedBytes := max (ReservedBytes u - total) 0\<rparr>) s else Inr s)
       (\<lambda>s1. Inr (set_active (\<lambda>(t', u) r. t' = t) RAborted s1)))"

definition ExpireActiveReservations :: "int \<Rightarrow> quota_db \<Rightarrow> quota_error + quota_db \<times> int" where
  "ExpireActiveReservations now s =
    (let expired = (\<lambda>r. rv_ExpiresAt r < now);
         tenants = remdups (map (\<lambda>((t, u), r). t)
           (filter (\<lambda>((t, u), r). rv_Status r = RActive \<and> expired r) (reservations s)))
     in tx_bind (foldl (\<lambda>x t. tx_bind x (IncrReservedBytesTx t (- active_bytes expired t s))) (Inr s) tenants)
       (\<lambda>s1. Inr (set_active (\<lambda>k. expired) RAborted s1, sum_list (map (\<lambda>t. active_bytes expired t s) tenants))))"

text \<open>\<^verbatim>\<open>reserveUploadOnServer\<close> (\<^verbatim>\<open>up\<close>: the control plane answers) and \<^verbatim>\<open>abortUploadReservation\<close>, which looks the
  reservation up before it opens the transaction that releases the bytes it read.\<close>

definition reserveUploadOnServer ::
  "bool \<Rightarrow> string \<Rightarrow> string \<Rightarrow> string \<Rightarrow> int \<Rightarrow> int \<Rightarrow> quota_db \<Rightarrow> quota_db \<times> (quota_error + bool)" where
  "reserveUploadOnServer up t u path totalSize expiresAt s =
    (if \<not> up then (s, Inr False)
     else
       (case AtomicReserveAndInsertUpload t u totalSize path expiresAt s of
         Inr s' \<Rightarrow> (s', Inr True)
       | Inl ErrStorageQuotaExceeded \<Rightarrow> (s, Inl ErrStorageQuotaExceeded)
       | Inl ErrReservationAlreadyExists \<Rightarrow> (s, Inr True)
       | Inl e \<Rightarrow> (s, Inr False)))"

definition abort_release :: "string \<Rightarrow> string \<Rightarrow> int \<Rightarrow> quota_db \<Rightarrow> quota_error + quota_db" where
  "abort_release t u bytes s =
    tx_bind (IncrReservedBytesTx t (- bytes) s) (\<lambda>s1. Inr (UpdateUploadReservationStatusTx t u RAborted s1))"

definition abortUploadReservation :: "string \<Rightarrow> string \<Rightarrow> quota_db \<Rightarrow> quota_db" where
  "abortUploadReservation t u s =
    (case map_of (reservations s) (t, u) of
      None \<Rightarrow> s
    | Some r \<Rightarrow> if rv_Status r \<noteq> RActive then s else or_keep s (abort_release t u (rv_ReservedBytes r) s))"

section \<open>Mutations\<close>

definition media_delta :: "bool \<Rightarrow> bool \<Rightarrow> int" where
  "media_delta oldIsMedia newIsMedia = (if \<not> oldIsMedia \<and> newIsMedia then 1 else if oldIsMedia \<and> \<not> newIsMedia then -1 else 0)"

definition applyUploadCompleteTx ::
  "string \<Rightarrow> string \<Rightarrow> string \<Rightarrow> int \<Rightarrow> int \<Rightarrow> bool \<Rightarrow> int \<Rightarrow> bool \<Rightarrow> quota_db \<Rightarrow> quota_error + quota_db" where
  "applyUploadCompleteTx t u fid reserved oldSize oldIsMedia newSize newIsMedia s =
    (let (s1, settled) = SettleActiveReservationTx t u RCompleted s in
     tx_bind (if settled then TransferReservedToConfirmedTx t (- reserved) reserved s1 else incr_storage_nz t newSize s1)
       (\<lambda>s2. tx_bind (incr_storage_nz t (- oldSize) s2)
         (\<lambda>s3. incr_media_nz t (media_delta oldIsMedia newIsMedia) (UpsertFileMetaTx t fid newSize newIsMedia s3))))"

definition IncrMonthlyLLMCostTx :: "int \<Rightarrow> string \<Rightarrow> int \<Rightarrow> quota_db \<Rightarrow> quota_db" where
  "IncrMonthlyLLMCostTx month t cost s =
    s\<lparr>monthly := AList.update (t, month) ((case map_of (monthly s) (t, month) of None \<Rightarrow> 0 | Some c \<Rightarrow> c) + cost) (monthly s)\<rparr>"

definition InsertCentralLLMUsageTx :: "string \<Rightarrow> string \<Rightarrow> string \<Rightarrow> int \<Rightarrow> int \<Rightarrow> string \<Rightarrow> quota_db \<Rightarrow> quota_db" where
  "InsertCentralLLMUsageTx t taskType taskID cost units unitType s =
    s\<lparr>ledger := ledger s @ [(t, taskType, taskID, cost, units, unitType)]\<rparr>"

definition IncrMonthlyLLMCost :: "int \<Rightarrow> string \<Rightarrow> int \<Rightarrow> quota_db \<Rightarrow> quota_db" where
  "IncrMonthlyLLMCost month t cost s = IncrMonthlyLLMCostTx month t cost s"

definition InsertCentralLLMUsage :: "string \<Rightarrow> string \<Rightarrow> string \<Rightarrow> int \<Rightarrow> int \<Rightarrow> string \<Rightarrow> quota_db \<Rightarrow> quota_db" where
  "InsertCentralLLMUsage t taskType taskID cost units unitType s =
    InsertCentralLLMUsageTx t taskType taskID cost units unitType s"

fun applyMutation :: "int \<Rightarrow> string \<Rightarrow> mutation \<Rightarrow> quota_db \<Rightarrow> quota_error + quota_db" where
  "applyMutation month t (FileCreate fid sz media) s =
    tx_bind (incr_storage_nz t sz (UpsertFileMetaTx t fid sz media s))
      (incr_media_nz t (if media then 1 else 0))"
| "applyMutation month t (FileOverwrite fid oldSize oldIsMedia newSize newIsMedia) s =
    tx_bind (incr_storage_nz t (newSize - oldSize) (UpsertFileMetaTx t fid newSize newIsMedia s))
      (incr_media_nz t (media_delta oldIsMedia newIsMedia))"
| "applyMutation month t (FileDelete fid sz media) s =
    (let (s1, deleted) = DeleteFileMetaIfExistsTx t fid s in
     if \<not> deleted then Inr s1
     else tx_bind (incr_storage_nz t (- sz) s1) (incr_media_nz t (if media then -1 else 0)))"
| "applyMutation month t (UploadComplete u fid reserved oldSize oldIsMedia newSize newIsMedia) s =
    applyUploadCompleteTx t u fid reserved oldSize oldIsMedia newSize newIsMedia s"
| "applyMutation month t (LLMCostRecord taskType taskID cost units unitType) s =
    Inr (IncrMonthlyLLMCostTx month t cost (InsertCentralLLMUsageTx t taskType taskID cost units unitType s))"
| "applyMutation month t Malformed s = Inl MalformedMutation"
| "applyMutation month t UnknownMutation s = Inr s"

section \<open>The mutation log\<close>

definition next_id :: "quota_db \<Rightarrow> nat" where
  "next_id s = Suc (Max (insert 0 (fst ` set (mutations s))))"

definition InsertMutationLog :: "int \<Rightarrow> string \<Rightarrow> mutation \<Rightarrow> quota_db \<Rightarrow> quota_db \<times> nat" where
  "InsertMutationLog now t data s =
    (s\<lparr>mutations := AList.update (next_id s) \<lparr>m_TenantID = t, m_Data = data, m_Status = MPending, m_RetryCount = 0,
       m_CreatedAt = now\<rparr> (mutations s)\<rparr>, next_id s)"

definition MarkMutationAppliedTx :: "nat \<Rightarrow> quota_db \<Rightarrow> quota_error + quota_db" where
  "MarkMutationAppliedTx i s =
    (case map_of (mutations s) i of
      None \<Rightarrow> Inl MutationNotPending
    | Some m \<Rightarrow>
        if m_Status m \<noteq> MPending then Inl MutationNotPending
        else Inr (s\<lparr>mutations := AList.update i (m\<lparr>m_Status := MApplied\<rparr>) (mutations s)\<rparr>))"

definition IncrMutationRetry :: "nat \<Rightarrow> int \<Rightarrow> quota_db \<Rightarrow> quota_db" where
  "IncrMutationRetry i maxRetries s =
    (case map_of (mutations s) i of
      None \<Rightarrow> s
    | Some m \<Rightarrow>
        if m_Status m \<noteq> MPending then s
        else s\<lparr>mutations := AList.update i (m\<lparr>m_RetryCount := m_RetryCount m + 1,
               m_Status := (if maxRetries \<le> m_RetryCount m + 1 then MFailed else MPending)\<rparr>) (mutations s)\<rparr>)"

definition ListPendingMutations :: "int \<Rightarrow> int \<Rightarrow> quota_db \<Rightarrow> (nat \<times> mutation_row) list" where
  "ListPendingMutations cutoff limit0 s =
    (let limit = (if limit0 \<le> 0 then 100 else nat limit0) in
     take limit (sort_key (\<lambda>(i, m). (m_TenantID m, i))
       (filter (\<lambda>(i, m). m_Status m = MPending \<and> m_CreatedAt m < cutoff) (mutations s))))"

fun file_mutation :: "string \<Rightarrow> mutation \<Rightarrow> bool" where
  "file_mutation fid (FileCreate f sz media) = (f = fid)"
| "file_mutation fid (FileOverwrite f a b c d) = (f = fid)"
| "file_mutation fid _ = False"

definition HasPendingFileMutation :: "string \<Rightarrow> string \<Rightarrow> quota_db \<Rightarrow> bool" where
  "HasPendingFileMutation t fid s =
    list_ex (\<lambda>(i, m). m_TenantID m = t \<and> m_Status m = MPending \<and> file_mutation fid (m_Data m)) (mutations s)"

text \<open>The transaction that applies a logged mutation and marks it, inline or by the replay worker.\<close>

definition replayOne :: "int \<Rightarrow> nat \<Rightarrow> string \<Rightarrow> mutation \<Rightarrow> quota_db \<Rightarrow> quota_error + quota_db" where
  "replayOne month i t data s = tx_bind (applyMutation month t data s) (MarkMutationAppliedTx i)"

text \<open>\<^verbatim>\<open>applyLoggedQuotaMutation\<close>: \<^verbatim>\<open>logged\<close> and \<^verbatim>\<open>up\<close> say whether the log insert and the transaction reach the database.\<close>

definition applyLoggedQuotaMutation :: "bool \<Rightarrow> bool \<Rightarrow> int \<Rightarrow> int \<Rightarrow> string \<Rightarrow> mutation \<Rightarrow> quota_db \<Rightarrow> quota_db" where
  "applyLoggedQuotaMutation logged up now month t data s =
    (if t = '''' \<or> \<not> logged then s
     else
       let (s1, i) = InsertMutationLog now t data s in
       if up then or_keep s1 (replayOne month i t data s1) else s1)"

definition isQuotaMediaContentType :: "string \<Rightarrow> bool" where
  "isQuotaMediaContentType contentType \<longleftrightarrow> HasPrefix contentType ''image/'' \<or> HasPrefix contentType ''audio/''"

definition syncCentralFileCreate ::
  "bool \<Rightarrow> bool \<Rightarrow> int \<Rightarrow> int \<Rightarrow> string \<Rightarrow> string \<Rightarrow> int \<Rightarrow> string \<Rightarrow> quota_db \<Rightarrow> quota_db" where
  "syncCentralFileCreate logged up now month t fid sz contentType =
    applyLoggedQuotaMutation logged up now month t (FileCreate fid sz (isQuotaMediaContentType contentType))"

definition syncCentralFileOverwrite ::
  "bool \<Rightarrow> bool \<Rightarrow> int \<Rightarrow> int \<Rightarrow> string \<Rightarrow> string \<Rightarrow> int \<Rightarrow> string \<Rightarrow> int \<Rightarrow> string \<Rightarrow> quota_db \<Rightarrow> quota_db" where
  "syncCentralFileOverwrite logged up now month t fid oldSize oldType newSize newType =
    applyLoggedQuotaMutation logged up now month t
      (FileOverwrite fid oldSize (isQuotaMediaContentType oldType) newSize (isQuotaMediaContentType newType))"

definition syncCentralLLMCostRecord ::
  "bool \<Rightarrow> bool \<Rightarrow> int \<Rightarrow> int \<Rightarrow> string \<Rightarrow> string \<Rightarrow> string \<Rightarrow> int \<Rightarrow> int \<Rightarrow> string \<Rightarrow> quota_db \<Rightarrow> quota_db" where
  "syncCentralLLMCostRecord logged up now month t taskType taskID cost units unitType =
    applyLoggedQuotaMutation logged up now month t (LLMCostRecord taskType taskID cost units unitType)"

definition completeUploadReservation ::
  "bool \<Rightarrow> bool \<Rightarrow> int \<Rightarrow> int \<Rightarrow> string \<Rightarrow> string \<Rightarrow> int \<Rightarrow> string \<Rightarrow> int \<Rightarrow> bool \<Rightarrow> int \<Rightarrow> bool \<Rightarrow> quota_db \<Rightarrow> quota_db" where
  "completeUploadReservation logged up now month t u reserved fid oldSize oldIsMedia newSize newIsMedia s =
    (if \<not> logged then s
     else
       let data = UploadComplete u fid reserved oldSize oldIsMedia newSize newIsMedia;
           (s1, i) = InsertMutationLog now t data s
       in if up then or_keep s1 (replayOne month i t data s1) else s1)"

definition replayMaxRetries :: int where "replayMaxRetries = 5"

text \<open>One entry of \<^verbatim>\<open>replayBatch\<close>; the set holds the tenants blocked by an earlier failure, \<^verbatim>\<open>up\<close> the entries whose transaction reaches the database.\<close>

definition replay_entry ::
  "int \<Rightarrow> (nat \<Rightarrow> bool) \<Rightarrow> quota_db \<times> string list \<Rightarrow> nat \<times> mutation_row \<Rightarrow> quota_db \<times> string list" where
  "replay_entry month up = (\<lambda>(s, blocked) (i, m).
    if m_TenantID m \<in> set blocked then (s, blocked)
    else
      (case (if up i then replayOne month i (m_TenantID m) (m_Data m) s else Inl MutationNotPending) of
        Inl e \<Rightarrow> (IncrMutationRetry i replayMaxRetries s, m_TenantID m # blocked)
      | Inr s' \<Rightarrow> (s', blocked)))"

definition replayBatchLimit :: int where "replayBatchLimit = 100"

definition replayBatch :: "int \<Rightarrow> int \<Rightarrow> (nat \<Rightarrow> bool) \<Rightarrow> quota_db \<Rightarrow> quota_db" where
  "replayBatch cutoff month up s = fst (foldl (replay_entry month up) (s, []) (ListPendingMutations cutoff replayBatchLimit s))"

section \<open>Clean-up and checks\<close>

definition applyCentralFileDeleteCountersTx :: "string \<Rightarrow> int \<Rightarrow> bool \<Rightarrow> quota_db \<Rightarrow> quota_error + quota_db" where
  "applyCentralFileDeleteCountersTx t sz media s =
    tx_bind (incr_storage_nz t (- sz) s) (incr_media_nz t (if media then -1 else 0))"

definition deleteCentralFileMetaForGCTask :: "string \<Rightarrow> string \<Rightarrow> quota_db \<Rightarrow> quota_error + quota_db" where
  "deleteCentralFileMetaForGCTask t fid s =
    (if t = '''' then Inr s
     else if HasPendingFileMutation t fid s then Inl MutationPending
     else
       (case GetFileMeta t fid s of
         Inl e \<Rightarrow> Inr s
       | Inr fm \<Rightarrow>
           let (s1, deleted) = DeleteFileMetaIfExistsTx t fid s in
           if \<not> deleted then Inr s1 else applyCentralFileDeleteCountersTx t (fm_SizeBytes fm) (fm_IsMedia fm) s1))"

definition ensureStorageQuotaServer :: "string \<Rightarrow> int \<Rightarrow> quota_db \<Rightarrow> quota_error option" where
  "ensureStorageQuotaServer t deltaBytes s =
    (let usage = GetQuotaUsage t s; cfg = GetQuotaConfig t s in
     if deltaBytes \<le> 0 then None
     else if MaxStorageBytes cfg \<le> 0 then None
     else if MaxStorageBytes cfg < StorageBytes usage + ReservedBytes usage + deltaBytes then Some ErrStorageQuotaExceeded
     else None)"

definition ensureStorageQuota :: "string \<Rightarrow> int \<Rightarrow> int \<Rightarrow> quota_db \<Rightarrow> quota_error option" where
  "ensureStorageQuota t currentSize newSize s =
    (if newSize - currentSize \<le> 0 then None else ensureStorageQuotaServer t (newSize - currentSize) s)"

text \<open>The check against the tenant database: the sums it reads are arguments.\<close>

definition ensureTenantStorageQuotaTx :: "int \<Rightarrow> int \<Rightarrow> int \<Rightarrow> int \<Rightarrow> int \<Rightarrow> quota_error option" where
  "ensureTenantStorageQuotaTx maxTenantStorageBytes confirmedBytes reservedBytes currentPathBytes newSize =
    (if newSize \<le> 0 \<or> maxTenantStorageBytes \<le> 0 then None
     else if maxTenantStorageBytes < confirmedBytes + reservedBytes + max 0 (newSize - currentPathBytes)
     then Some ErrStorageQuotaExceeded else None)"

definition mediaLLMQuotaExceededServer :: "string \<Rightarrow> quota_db \<Rightarrow> bool" where
  "mediaLLMQuotaExceededServer t s =
    (let cfg = GetQuotaConfig t s in
     0 < MaxMediaLLMFiles cfg \<and> MaxMediaLLMFiles cfg < MediaFileCount (GetQuotaUsage t s))"

text \<open>The sum over the raw ledger \<^verbatim>\<open>llm_usage\<close>, read when there is no counter row yet, is the argument \<^verbatim>\<open>raw\<close>.\<close>

definition MonthlyLLMCostMillicents :: "int \<Rightarrow> int \<Rightarrow> string \<Rightarrow> quota_db \<Rightarrow> int" where
  "MonthlyLLMCostMillicents raw month t s = (case map_of (monthly s) (t, month) of Some c \<Rightarrow> c | None \<Rightarrow> raw)"

definition monthlyLLMCostExceededServer :: "int \<Rightarrow> int \<Rightarrow> int \<Rightarrow> string \<Rightarrow> quota_db \<Rightarrow> bool" where
  "monthlyLLMCostExceededServer raw globalLimit month t s =
    (let cfg = GetQuotaConfig t s;
         limit = (if 0 < MaxMonthlyCostMC cfg then MaxMonthlyCostMC cfg else globalLimit)
     in 0 < limit \<and> limit < MonthlyLLMCostMillicents raw month t s)"

section \<open>Effects\<close>

lemma GetQuotaUsage_update:
  "map_of (usages s) t = Some u \<Longrightarrow> us = AList.update t v (usages s) \<Longrightarrow>
    GetQuotaUsage t' (s\<lparr>usages := us\<rparr>) = (if t' = t then v else GetQuotaUsage t' s)"
  by (simp add: GetQuotaUsage_def)

lemma update_usage_Inr:
  assumes "update_usage t f s = Inr s'"
  shows "\<exists>us. s' = s\<lparr>usages := us\<rparr>" "GetQuotaUsage t' s' = (if t' = t then f (GetQuotaUsage t s) else GetQuotaUsage t' s)"
  using assms by (auto simp: update_usage_def GetQuotaUsage_def split: option.split_asm if_split_asm)

lemma incr_storage_Inr:
  assumes "incr_storage_nz t d s = Inr s'"
  shows "\<exists>us. s' = s\<lparr>usages := us\<rparr>" "GetQuotaUsage t' s' = (if t' = t
    then (GetQuotaUsage t s)\<lparr>StorageBytes := StorageBytes (GetQuotaUsage t s) + d\<rparr> else GetQuotaUsage t' s)"
  using assms update_usage_Inr [of t "\<lambda>u. u\<lparr>StorageBytes := StorageBytes u + d\<rparr>" s s']
  by (auto simp: incr_storage_nz_def IncrStorageBytesTx_def split: if_split_asm intro: exI [of _ "usages s"])

lemma incr_media_Inr:
  assumes "incr_media_nz t d s = Inr s'"
  shows "\<exists>us. s' = s\<lparr>usages := us\<rparr>" "GetQuotaUsage t' s' = (if t' = t
    then (GetQuotaUsage t s)\<lparr>MediaFileCount := MediaFileCount (GetQuotaUsage t s) + d\<rparr> else GetQuotaUsage t' s)"
  using assms update_usage_Inr [of t "\<lambda>u. u\<lparr>MediaFileCount := MediaFileCount u + d\<rparr>" s s']
  by (auto simp: incr_media_nz_def IncrMediaFileCountTx_def split: if_split_asm intro: exI [of _ "usages s"])

lemma GetQuotaUsage_other [simp]:
  "GetQuotaUsage t (s\<lparr>metas := ms\<rparr>) = GetQuotaUsage t s" "GetQuotaUsage t (s\<lparr>reservations := rs\<rparr>) = GetQuotaUsage t s"
  "GetQuotaUsage t (s\<lparr>mutations := us\<rparr>) = GetQuotaUsage t s" "GetQuotaUsage t (s\<lparr>configs := cs\<rparr>) = GetQuotaUsage t s"
  "GetQuotaUsage t (s\<lparr>monthly := mo\<rparr>) = GetQuotaUsage t s" "GetQuotaUsage t (s\<lparr>ledger := le\<rparr>) = GetQuotaUsage t s"
  by (simp_all add: GetQuotaUsage_def)

text \<open>What an applied mutation does to the counters of its tenant, to the sizes and to the reservations.\<close>

fun storage_change :: "string \<Rightarrow> quota_db \<Rightarrow> mutation \<Rightarrow> int" where
  "storage_change t s (FileCreate fid sz media) = sz"
| "storage_change t s (FileOverwrite fid osz om nsz nm) = nsz - osz"
| "storage_change t s (FileDelete fid sz media) = (if mem_key (metas s) (t, fid) then - sz else 0)"
| "storage_change t s (UploadComplete u fid res osz om nsz nm) = (if is_active t u s then res else nsz) - osz"
| "storage_change t s _ = 0"

fun media_change :: "string \<Rightarrow> quota_db \<Rightarrow> mutation \<Rightarrow> int" where
  "media_change t s (FileCreate fid sz media) = (if media then 1 else 0)"
| "media_change t s (FileOverwrite fid osz om nsz nm) = media_delta om nm"
| "media_change t s (FileDelete fid sz media) = (if mem_key (metas s) (t, fid) \<and> media then -1 else 0)"
| "media_change t s (UploadComplete u fid res osz om nsz nm) = media_delta om nm"
| "media_change t s _ = 0"

fun reserved_change :: "string \<Rightarrow> quota_db \<Rightarrow> mutation \<Rightarrow> int" where
  "reserved_change t s (UploadComplete u fid res osz om nsz nm) = (if is_active t u s then - res else 0)"
| "reserved_change t s _ = 0"

fun metas_after :: "string \<Rightarrow> mutation \<Rightarrow> (string \<times> string, file_meta) gomap \<Rightarrow> (string \<times> string, file_meta) gomap" where
  "metas_after t (FileCreate fid sz media) ms = AList.update (t, fid) \<lparr>fm_SizeBytes = sz, fm_IsMedia = media\<rparr> ms"
| "metas_after t (FileOverwrite fid osz om nsz nm) ms = AList.update (t, fid) \<lparr>fm_SizeBytes = nsz, fm_IsMedia = nm\<rparr> ms"
| "metas_after t (FileDelete fid sz media) ms = AList.delete (t, fid) ms"
| "metas_after t (UploadComplete u fid res osz om nsz nm) ms = AList.update (t, fid) \<lparr>fm_SizeBytes = nsz, fm_IsMedia = nm\<rparr> ms"
| "metas_after t _ ms = ms"

fun reservations_after :: "string \<Rightarrow> mutation \<Rightarrow> quota_db \<Rightarrow> (string \<times> string, reservation) gomap" where
  "reservations_after t (UploadComplete u fid res osz om nsz nm) s = reservations (set_active (\<lambda>k r. k = (t, u)) RCompleted s)"
| "reservations_after t _ s = reservations s"

definition charge :: "int \<Rightarrow> int \<Rightarrow> int \<Rightarrow> quota_usage \<Rightarrow> quota_usage" where
  "charge ds dr dm u = \<lparr>StorageBytes = StorageBytes u + ds, ReservedBytes = ReservedBytes u + dr, MediaFileCount = MediaFileCount u + dm\<rparr>"

lemma charge_0 [simp]: "charge 0 0 0 u = u"
  by (simp add: charge_def)

lemma two_charges:
  assumes "tx_bind (incr_storage_nz t ds s) (incr_media_nz t dm) = Inr s'"
  shows "\<exists>us. s' = s\<lparr>usages := us\<rparr>" "GetQuotaUsage t' s' = (if t' = t then charge ds 0 dm (GetQuotaUsage t s) else GetQuotaUsage t' s)"
proof -
  from assms obtain s1 where s1: "incr_storage_nz t ds s = Inr s1" "incr_media_nz t dm s1 = Inr s'" by (auto simp: tx_bind_Inr)
  from incr_storage_Inr(1) [OF s1(1)] incr_media_Inr(1) [OF s1(2)] show "\<exists>us. s' = s\<lparr>usages := us\<rparr>" by auto
  show "GetQuotaUsage t' s' = (if t' = t then charge ds 0 dm (GetQuotaUsage t s) else GetQuotaUsage t' s)"
    using incr_storage_Inr(2) [OF s1(1)] incr_media_Inr(2) [OF s1(2)] by (simp add: charge_def)
qed

lemma complete_effect:
  assumes "applyUploadCompleteTx t u fid res osz om nsz nm s = Inr s'"
  shows "\<exists>us. s' = s\<lparr>reservations := reservations (set_active (\<lambda>k r. k = (t, u)) RCompleted s),
      metas := AList.update (t, fid) \<lparr>fm_SizeBytes = nsz, fm_IsMedia = nm\<rparr> (metas s), usages := us\<rparr>"
    "GetQuotaUsage t' s' = (if t' = t then charge ((if is_active t u s then res else nsz) - osz)
      (if is_active t u s then - res else 0) (media_delta om nm) (GetQuotaUsage t s) else GetQuotaUsage t' s)"
proof -
  let ?s1 = "set_active (\<lambda>k r. k = (t, u)) RCompleted s"
  from assms obtain s2 s3 where s2: "(if is_active t u s then TransferReservedToConfirmedTx t (- res) res ?s1
        else incr_storage_nz t nsz ?s1) = Inr s2"
      and s3: "incr_storage_nz t (- osz) s2 = Inr s3"
      and s4: "incr_media_nz t (media_delta om nm) (UpsertFileMetaTx t fid nsz nm s3) = Inr s'"
    by (auto simp: applyUploadCompleteTx_def SettleActiveReservationTx_def tx_bind_Inr)
  have u2: "\<exists>us. s2 = ?s1\<lparr>usages := us\<rparr>" "GetQuotaUsage t' s2 = (if t' = t then charge (if is_active t u s then res else nsz)
      (if is_active t u s then - res else 0) 0 (GetQuotaUsage t ?s1) else GetQuotaUsage t' ?s1)" for t'
    using s2 update_usage_Inr [of t "\<lambda>v. v\<lparr>ReservedBytes := ReservedBytes v + - res, StorageBytes := StorageBytes v + res\<rparr>" ?s1 s2]
      incr_storage_Inr [of t nsz ?s1 s2]
    by (auto simp: TransferReservedToConfirmedTx_def charge_def split: if_split_asm)
  from u2(1) incr_storage_Inr(1) [OF s3] incr_media_Inr(1) [OF s4]
  show "\<exists>us. s' = s\<lparr>reservations := reservations ?s1,
      metas := AList.update (t, fid) \<lparr>fm_SizeBytes = nsz, fm_IsMedia = nm\<rparr> (metas s), usages := us\<rparr>"
    by (auto simp: UpsertFileMetaTx_def set_active_def)
  have "GetQuotaUsage x (UpsertFileMetaTx t fid nsz nm s3) = GetQuotaUsage x s3" "GetQuotaUsage x ?s1 = GetQuotaUsage x s" for x
    by (simp_all add: UpsertFileMetaTx_def set_active_def)
  then show "GetQuotaUsage t' s' = (if t' = t then charge ((if is_active t u s then res else nsz) - osz)
      (if is_active t u s then - res else 0) (media_delta om nm) (GetQuotaUsage t s) else GetQuotaUsage t' s)"
    using u2(2) incr_storage_Inr(2) [OF s3] incr_media_Inr(2) [OF s4] by (simp add: charge_def)
qed

lemma apply_effect:
  assumes a: "applyMutation month t d s = Inr s'"
  shows "mutations s' = mutations s" "configs s' = configs s" "metas s' = metas_after t d (metas s)"
    "reservations s' = reservations_after t d s"
    "GetQuotaUsage t' s' = (if t' = t then charge (storage_change t s d) (reserved_change t s d) (media_change t s d) (GetQuotaUsage t s)
      else GetQuotaUsage t' s)"
proof -
  have "mutations s' = mutations s \<and> configs s' = configs s \<and> metas s' = metas_after t d (metas s) \<and>
    reservations s' = reservations_after t d s \<and>
    GetQuotaUsage t' s' = (if t' = t then charge (storage_change t s d) (reserved_change t s d) (media_change t s d) (GetQuotaUsage t s)
      else GetQuotaUsage t' s)"
  proof (cases d)
    case (FileCreate fid sz media)
    then have "tx_bind (incr_storage_nz t sz (UpsertFileMetaTx t fid sz media s)) (incr_media_nz t (if media then 1 else 0)) = Inr s'"
      using a by simp
    from two_charges [OF this] show ?thesis by (auto simp: FileCreate UpsertFileMetaTx_def)
  next
    case (FileOverwrite fid osz om nsz nm)
    then have "tx_bind (incr_storage_nz t (nsz - osz) (UpsertFileMetaTx t fid nsz nm s)) (incr_media_nz t (media_delta om nm)) = Inr s'"
      using a by simp
    from two_charges [OF this] show ?thesis by (auto simp: FileOverwrite UpsertFileMetaTx_def)
  next
    case (FileDelete fid sz media)
    show ?thesis
    proof (cases "mem_key (metas s) (t, fid)")
      case True
      then have "tx_bind (incr_storage_nz t (- sz) (s\<lparr>metas := AList.delete (t, fid) (metas s)\<rparr>))
          (incr_media_nz t (if media then -1 else 0)) = Inr s'"
        using a FileDelete by (simp add: DeleteFileMetaIfExistsTx_def)
      from two_charges [OF this] True show ?thesis by (auto simp: FileDelete)
    next
      case False
      then show ?thesis using a by (auto simp: FileDelete DeleteFileMetaIfExistsTx_def)
    qed
  next
    case (UploadComplete u fid res osz om nsz nm)
    then have c: "applyUploadCompleteTx t u fid res osz om nsz nm s = Inr s'" using a by simp
    from complete_effect(1) [OF c] obtain us where "s' = s\<lparr>reservations := reservations (set_active (\<lambda>k r. k = (t, u)) RCompleted s),
      metas := AList.update (t, fid) \<lparr>fm_SizeBytes = nsz, fm_IsMedia = nm\<rparr> (metas s), usages := us\<rparr>" by blast
    moreover note complete_effect(2) [OF c, of t']
    ultimately show ?thesis by (simp add: UploadComplete)
  qed (use a in \<open>auto simp: IncrMonthlyLLMCostTx_def InsertCentralLLMUsageTx_def\<close>)
  then show "mutations s' = mutations s" "configs s' = configs s" "metas s' = metas_after t d (metas s)"
    "reservations s' = reservations_after t d s"
    "GetQuotaUsage t' s' = (if t' = t then charge (storage_change t s d) (reserved_change t s d) (media_change t s d) (GetQuotaUsage t s)
      else GetQuotaUsage t' s)" by blast+
qed

end
