(* ===== verification/Quota_Books.thy ===== *)
theory Quota_Books
  imports Quota
begin

text \<open>
  The books of \<^verbatim>\<open>Quota\<close> under every interleaving of its transactions: reservations, aborts, completions,
  inline and replayed mutations, retries, expiry sweeps. The counters are compared with what the other
  tables say they should be.
\<close>

section \<open>Data of the mutations\<close>

text \<open>An upload has a fixed size \<^verbatim>\<open>sz\<close>, which its reservation, its completion and its file all state
  (\<^verbatim>\<open>upload.TotalSize\<close> in \<^verbatim>\<open>pkg/backend/upload.go\<close>); deletions are no longer logged.\<close>

fun data_ok :: "(string \<Rightarrow> string \<Rightarrow> int) \<Rightarrow> string \<Rightarrow> mutation \<Rightarrow> bool" where
  "data_ok sz t (UploadComplete u fid res osz om nsz nm) \<longleftrightarrow> res = sz t u \<and> nsz = sz t u"
| "data_ok sz t (FileDelete fid fsz media) \<longleftrightarrow> False"
| "data_ok sz t _ \<longleftrightarrow> True"

fun storage_delta :: "mutation \<Rightarrow> int" where
  "storage_delta (FileCreate fid sz media) = sz"
| "storage_delta (FileOverwrite fid osz om nsz nm) = nsz - osz"
| "storage_delta (UploadComplete u fid res osz om nsz nm) = nsz - osz"
| "storage_delta _ = 0"

fun mutation_media_delta :: "mutation \<Rightarrow> int" where
  "mutation_media_delta (FileCreate fid sz media) = (if media then 1 else 0)"
| "mutation_media_delta (FileOverwrite fid osz om nsz nm) = media_delta om nm"
| "mutation_media_delta (UploadComplete u fid res osz om nsz nm) = media_delta om nm"
| "mutation_media_delta _ = 0"

lemma change_delta:
  "data_ok sz t d \<Longrightarrow> storage_change t s d = storage_delta d"
  "data_ok sz t d \<Longrightarrow> media_change t s d = mutation_media_delta d"
  by (cases d; simp)+

definition applied_sum :: "(mutation \<Rightarrow> int) \<Rightarrow> string \<Rightarrow> quota_db \<Rightarrow> int" where
  "applied_sum f t s = sum_kv (\<lambda>i m. if m_TenantID m = t \<and> m_Status m = MApplied then f (m_Data m) else 0) (mutations s)"

definition log_ok :: "(string \<Rightarrow> string \<Rightarrow> int) \<Rightarrow> quota_db \<Rightarrow> bool" where
  "log_ok sz s \<longleftrightarrow> wf_map (mutations s) \<and> (\<forall>i m. map_of (mutations s) i = Some m \<longrightarrow> data_ok sz (m_TenantID m) (m_Data m))"

definition once_ok :: "(string \<Rightarrow> quota_usage) \<Rightarrow> quota_db \<Rightarrow> bool" where
  "once_ok base s \<longleftrightarrow> (\<forall>t. StorageBytes (GetQuotaUsage t s) = StorageBytes (base t) + applied_sum storage_delta t s \<and>
    MediaFileCount (GetQuotaUsage t s) = MediaFileCount (base t) + applied_sum mutation_media_delta t s)"

definition res_ok :: "(string \<Rightarrow> string \<Rightarrow> int) \<Rightarrow> quota_db \<Rightarrow> bool" where
  "res_ok sz s \<longleftrightarrow> wf_map (reservations s) \<and>
    (\<forall>t u r. map_of (reservations s) (t, u) = Some r \<longrightarrow> rv_ReservedBytes r = sz t u) \<and>
    (\<forall>t. ReservedBytes (GetQuotaUsage t s) = active_bytes (\<lambda>r. True) t s)"

definition books :: "(string \<Rightarrow> string \<Rightarrow> int) \<Rightarrow> (string \<Rightarrow> quota_usage) \<Rightarrow> quota_db \<Rightarrow> bool" where
  "books sz base s \<longleftrightarrow> log_ok sz s \<and> once_ok base s \<and> res_ok sz s"

section \<open>Reservations\<close>

lemma map_of_set_active:
  "map_of (reservations (set_active Q st s)) k =
    map_option (\<lambda>r. if Q k r \<and> rv_Status r = RActive then r\<lparr>rv_Status := st\<rparr> else r) (map_of (reservations s) k)"
  by (simp add: set_active_def map_of_map_val)

lemma set_active_other [simp]:
  "usages (set_active Q st s) = usages s" "mutations (set_active Q st s) = mutations s" "metas (set_active Q st s) = metas s"
  "GetQuotaUsage t (set_active Q st s) = GetQuotaUsage t s"
  by (simp_all add: set_active_def)

lemma active_split:
  assumes "st \<noteq> RActive"
  shows "active_bytes (\<lambda>r. True) t (set_active Q st s) = active_bytes (\<lambda>r. True) t s -
    sum_kv (\<lambda>(t', u) r. if t' = t \<and> rv_Status r = RActive \<and> Q (t', u) r then rv_ReservedBytes r else 0) (reservations s)"
proof -
  have "sum_kv (\<lambda>(t', u) r. if t' = t \<and> rv_Status r = RActive then rv_ReservedBytes r else 0)
      (map (\<lambda>(k, r). (k, if Q k r \<and> rv_Status r = RActive then r\<lparr>rv_Status := st\<rparr> else r)) rs) =
    sum_kv (\<lambda>(t', u) r. if t' = t \<and> rv_Status r = RActive then rv_ReservedBytes r else 0) rs -
    sum_kv (\<lambda>(t', u) r. if t' = t \<and> rv_Status r = RActive \<and> Q (t', u) r then rv_ReservedBytes r else 0) rs" for rs
    by (induction rs) (use assms in auto)
  then show ?thesis by (simp add: active_bytes_def set_active_def)
qed

lemma sum_kv_single:
  "wf_map m \<Longrightarrow> sum_kv (\<lambda>k v. if k = k0 then f v else 0) m = (case map_of m k0 of None \<Rightarrow> 0 | Some v \<Rightarrow> f v)"
proof (induction m)
  case (Cons e m)
  obtain k v where e: "e = (k, v)" by (cases e)
  have "k \<notin> fst ` set m" "wf_map m" using Cons.prems by (auto simp: wf_map_def e)
  then show ?case using Cons.IH by (auto simp: e map_of_eq_None_iff [symmetric])
qed simp

lemma active_settle:
  assumes "wf_map (reservations s)" "st \<noteq> RActive"
  shows "active_bytes (\<lambda>r. True) t' (set_active (\<lambda>k r. k = (t, u)) st s) = active_bytes (\<lambda>r. True) t' s -
    (if t' = t \<and> is_active t u s then rv_ReservedBytes (the (map_of (reservations s) (t, u))) else 0)"
proof -
  have "sum_kv (\<lambda>(t'', u') r. if t'' = t' \<and> rv_Status r = RActive \<and> (t'', u') = (t, u) then rv_ReservedBytes r else 0) (reservations s) =
      sum_kv (\<lambda>k r. if k = (t, u) then (if t' = t \<and> rv_Status r = RActive then rv_ReservedBytes r else 0) else 0) (reservations s)"
    by (rule sum_kv_cong) (auto split: if_split_asm)
  then show ?thesis
    unfolding active_split [OF assms(2)] sum_kv_single [OF assms(1)]
    by (simp add: is_active_def split: option.split)
qed

lemma wf_set_active [simp]: "wf_map (reservations (set_active Q st s)) = wf_map (reservations s)"
  by (simp add: set_active_def)

lemma res_ok_settle:
  assumes r: "res_ok sz s" and st: "st \<noteq> RActive"
    and s': "reservations s' = reservations (set_active (\<lambda>k r. k = (t, u)) st s)"
    and g: "\<And>t'. ReservedBytes (GetQuotaUsage t' s') = ReservedBytes (GetQuotaUsage t' s) - (if t' = t \<and> is_active t u s then sz t u else 0)"
  shows "res_ok sz s'"
proof -
  have wf: "wf_map (reservations s)" and b: "\<And>t u r. map_of (reservations s) (t, u) = Some r \<Longrightarrow> rv_ReservedBytes r = sz t u"
    and a: "\<And>t. ReservedBytes (GetQuotaUsage t s) = active_bytes (\<lambda>r. True) t s" using r by (auto simp: res_ok_def)
  have "active_bytes P t' s' = active_bytes P t' (set_active (\<lambda>k r. k = (t, u)) st s)" for P t'
    by (simp add: active_bytes_def s')
  moreover have "is_active t u s \<Longrightarrow> rv_ReservedBytes (the (map_of (reservations s) (t, u))) = sz t u"
    using b by (auto simp: is_active_def split: option.split_asm)
  ultimately have "ReservedBytes (GetQuotaUsage t' s') = active_bytes (\<lambda>r. True) t' s'" for t'
    using g a active_settle [OF wf st, of t' t u] by simp
  moreover have "rv_ReservedBytes r = sz t1 u1" if "map_of (reservations s') (t1, u1) = Some r" for t1 u1 r
    using that b [of t1 u1] by (cases "map_of (reservations s) (t1, u1)") (auto simp: s' map_of_set_active split: if_split_asm)
  ultimately show ?thesis unfolding res_ok_def using wf by (simp add: s')
qed

section \<open>The mutation log\<close>

lemma mark_Inr:
  "MarkMutationAppliedTx i s = Inr s' \<longleftrightarrow> (\<exists>m. map_of (mutations s) i = Some m \<and> m_Status m = MPending \<and>
    s' = s\<lparr>mutations := AList.update i (m\<lparr>m_Status := MApplied\<rparr>) (mutations s)\<rparr>)"
  by (auto simp: MarkMutationAppliedTx_def split: option.split)

lemma applied_sum_cong: "mutations s' = mutations s \<Longrightarrow> applied_sum f t s' = applied_sum f t s"
  by (simp add: applied_sum_def)

lemma applied_sum_update:
  assumes "wf_map (mutations s)"
  shows "applied_sum f t (s\<lparr>mutations := AList.update i m (mutations s)\<rparr>) = applied_sum f t s -
    (case map_of (mutations s) i of None \<Rightarrow> 0 | Some m \<Rightarrow> if m_TenantID m = t \<and> m_Status m = MApplied then f (m_Data m) else 0) +
    (if m_TenantID m = t \<and> m_Status m = MApplied then f (m_Data m) else 0)"
  using assms by (simp add: applied_sum_def sum_kv_update)

lemma next_id_fresh: "map_of (mutations s) (next_id s) = None"
proof -
  have "next_id s \<notin> fst ` set (mutations s)"
  proof
    assume "next_id s \<in> fst ` set (mutations s)"
    then have "next_id s \<le> Max (insert 0 (fst ` set (mutations s)))" by (intro Max_ge) auto
    then show False by (simp add: next_id_def)
  qed
  then show ?thesis by (simp add: map_of_eq_None_iff)
qed

lemma apply_res_ok:
  assumes "res_ok sz s" "data_ok sz t d" "applyMutation month t d s = Inr s'"
  shows "res_ok sz s'"
proof (cases "\<exists>u fid res osz om nsz nm. d = UploadComplete u fid res osz om nsz nm")
  case True
  then obtain u fid res osz om nsz nm where d: "d = UploadComplete u fid res osz om nsz nm" by blast
  show ?thesis
    by (rule res_ok_settle [OF assms(1), of RCompleted _ t u])
      (use assms(2) apply_effect(4,5) [OF assms(3)] in \<open>auto simp: d charge_def\<close>)
next
  case False
  then have "reservations_after t d s = reservations s" "reserved_change t s d = 0" by (cases d; auto)+
  then show ?thesis using assms(1) apply_effect(4,5) [OF assms(3)] by (auto simp: res_ok_def active_bytes_def charge_def)
qed

lemma replay_books:
  assumes b: "books sz base s" and r: "replayOne month i t d s = Inr s'"
    and m: "\<And>m. map_of (mutations s) i = Some m \<Longrightarrow> m_TenantID m = t \<and> m_Data m = d"
  shows "books sz base s'"
proof -
  obtain s1 m where s1: "applyMutation month t d s = Inr s1" and mi: "map_of (mutations s1) i = Some m" "m_Status m = MPending"
      and s': "s' = s1\<lparr>mutations := AList.update i (m\<lparr>m_Status := MApplied\<rparr>) (mutations s1)\<rparr>"
    using r by (auto simp: replayOne_def tx_bind_Inr mark_Inr)
  note e = apply_effect [OF s1]
  have md: "m_TenantID m = t" "m_Data m = d" using m mi(1) e(1) by auto
  have wf: "wf_map (mutations s)" and ok: "data_ok sz t d" using b md mi(1) e(1) by (auto simp: books_def log_ok_def)
  have sum: "applied_sum f t' s' = applied_sum f t' s + (if t' = t then f d else 0)" for f t'
    unfolding s' using applied_sum_update [of s1 f t' i] applied_sum_cong [OF e(1)] wf mi md e(1) by simp
  have use: "GetQuotaUsage t' s' = GetQuotaUsage t' s1" for t' by (simp add: s')
  have old: "StorageBytes (GetQuotaUsage t' s) = StorageBytes (base t') + applied_sum storage_delta t' s"
      "MediaFileCount (GetQuotaUsage t' s) = MediaFileCount (base t') + applied_sum mutation_media_delta t' s" for t'
    using b by (simp_all add: books_def once_ok_def)
  have "once_ok base s'"
    unfolding once_ok_def use sum e(5) change_delta [OF ok] by (simp add: old charge_def)
  moreover have "log_ok sz s'"
    using b wf md ok unfolding books_def log_ok_def s' by (simp add: e(1))
  moreover have "res_ok sz s1" using apply_res_ok [OF _ ok s1] b by (simp add: books_def)
  then have "res_ok sz s'" unfolding s' by (simp add: res_ok_def active_bytes_def)
  ultimately show ?thesis by (simp add: books_def)
qed

lemma insert_log_books:
  assumes b: "books sz base s" and ok: "data_ok sz t d" and i: "InsertMutationLog now t d s = (s1, i)"
  shows "books sz base s1 \<and> map_of (mutations s1) i = Some \<lparr>m_TenantID = t, m_Data = d, m_Status = MPending, m_RetryCount = 0, m_CreatedAt = now\<rparr>"
proof -
  let ?m = "\<lparr>m_TenantID = t, m_Data = d, m_Status = MPending, m_RetryCount = 0, m_CreatedAt = now\<rparr>"
  have s1: "s1 = s\<lparr>mutations := AList.update (next_id s) ?m (mutations s)\<rparr>" "i = next_id s"
    using i by (auto simp: InsertMutationLog_def)
  have "applied_sum f t' s1 = applied_sum f t' s" for f t'
    using b by (simp add: s1 applied_sum_update next_id_fresh books_def log_ok_def)
  then show ?thesis using b ok by (auto simp: books_def log_ok_def once_ok_def res_ok_def s1 active_bytes_def)
qed

lemma logged_books:
  assumes b: "books sz base s" and ok: "data_ok sz t d"
  shows "books sz base (let (s1, i) = InsertMutationLog now t d s in if up then or_keep s1 (replayOne month i t d s1) else s1)"
proof -
  obtain s1 i where i: "InsertMutationLog now t d s = (s1, i)" by (cases "InsertMutationLog now t d s")
  note s1 = insert_log_books [OF b ok i]
  show ?thesis
  proof (cases "replayOne month i t d s1")
    case (Inr s2)
    then show ?thesis using replay_books [OF _ Inr] s1 by (auto simp: i or_keep_def)
  qed (use s1 in \<open>simp add: i or_keep_def\<close>)
qed

lemma retry_books:
  assumes b: "books sz base s"
  shows "books sz base (IncrMutationRetry i k s)"
proof (cases "\<exists>m. map_of (mutations s) i = Some m \<and> m_Status m = MPending")
  case True
  then obtain m where m: "map_of (mutations s) i = Some m" "m_Status m = MPending" by blast
  have "applied_sum f t (IncrMutationRetry i k s) = applied_sum f t s" for f t
    using b m by (simp add: IncrMutationRetry_def applied_sum_update books_def log_ok_def)
  then show ?thesis
    using b m by (auto simp: books_def log_ok_def once_ok_def res_ok_def IncrMutationRetry_def active_bytes_def)
qed (use b in \<open>auto simp: IncrMutationRetry_def split: option.split\<close>)

text \<open>A batch of the replay worker keeps tenant and data of every row, so its copies stay current.\<close>

definition copies :: "quota_db \<Rightarrow> (nat \<times> mutation_row) list \<Rightarrow> bool" where
  "copies s es \<longleftrightarrow> list_all (\<lambda>(i, m). \<exists>m'. map_of (mutations s) i = Some m' \<and> m_TenantID m' = m_TenantID m \<and> m_Data m' = m_Data m) es"

lemma copies_update:
  assumes "copies s es" "mutations s' = AList.update i m' (mutations s)" "map_of (mutations s) i = Some m"
    "m_TenantID m' = m_TenantID m" "m_Data m' = m_Data m"
  shows "copies s' es"
  using assms by (fastforce simp: copies_def list_all_iff)

lemma replay_copies: "copies s es \<Longrightarrow> replayOne month i t d s = Inr s' \<Longrightarrow> copies s' es"
  by (auto simp: replayOne_def tx_bind_Inr mark_Inr apply_effect(1) intro!: copies_update [of s es _ i])

lemma retry_copies: "copies s es \<Longrightarrow> copies (IncrMutationRetry i k s) es"
  by (auto simp: IncrMutationRetry_def split: option.split intro!: copies_update [of s es _ i])

lemma list_copies: "wf_map (mutations s) \<Longrightarrow> copies s (ListPendingMutations cutoff lim s)"
  using map_of_in_set [of "mutations s"]
  by (fastforce simp: copies_def list_all_iff ListPendingMutations_def Let_def dest!: in_set_takeD)

lemma entry_books:
  assumes "books sz base s" "copies s ((i, m) # es)" "replay_entry month up (s, bl) (i, m) = (s', bl')"
  shows "books sz base s' \<and> copies s' es"
proof (cases "if up i then replayOne month i (m_TenantID m) (m_Data m) s else Inl MutationNotPending")
  case (Inr s1)
  then have r: "replayOne month i (m_TenantID m) (m_Data m) s = Inr s1" by (simp split: if_split_asm)
  have "\<And>m'. map_of (mutations s) i = Some m' \<Longrightarrow> m_TenantID m' = m_TenantID m \<and> m_Data m' = m_Data m"
    using assms(2) by (auto simp: copies_def)
  from replay_books [OF assms(1) r this] replay_copies [OF _ r] assms Inr show ?thesis
    by (auto simp: replay_entry_def copies_def split: if_split_asm)
next
  case (Inl e)
  then show ?thesis using assms retry_books retry_copies by (auto simp: replay_entry_def copies_def split: if_split_asm)
qed

lemma batch_books:
  assumes b: "books sz base s"
  shows "books sz base (replayBatch cutoff month up s)"
proof -
  have "books sz base s \<Longrightarrow> copies s es \<Longrightarrow> books sz base (fst (foldl (replay_entry month up) (s, bl) es))" for es s bl
  proof (induction es arbitrary: s bl)
    case (Cons e es)
    obtain i m where e: "e = (i, m)" by (cases e)
    obtain s' bl' where r: "replay_entry month up (s, bl) (i, m) = (s', bl')" by (cases "replay_entry month up (s, bl) (i, m)")
    from entry_books [OF Cons.prems(1) _ r] Cons.prems(2) Cons.IH [of s' bl'] r e show ?case by auto
  qed simp
  moreover have "wf_map (mutations s)" using b by (simp add: books_def log_ok_def)
  ultimately show ?thesis using b list_copies by (simp add: replayBatch_def)
qed

section \<open>Reserving and releasing\<close>

lemma books_res:
  assumes "books sz base s" "mutations s' = mutations s" "res_ok sz s'"
    "\<And>t. StorageBytes (GetQuotaUsage t s') = StorageBytes (GetQuotaUsage t s)"
    "\<And>t. MediaFileCount (GetQuotaUsage t s') = MediaFileCount (GetQuotaUsage t s)"
  shows "books sz base s'"
  using assms unfolding books_def log_ok_def once_ok_def by (simp add: applied_sum_cong [OF assms(2)])

lemma reserve_books:
  assumes b: "books sz base s" and r: "AtomicReserveAndInsertUpload t u (sz t u) path ex s = Inr s'"
  shows "books sz base s'"
proof -
  obtain q where q: "map_of (usages s) t = Some q" "map_of (reservations s) (t, u) = None"
      and s': "s' = s\<lparr>usages := AList.update t (q\<lparr>ReservedBytes := ReservedBytes q + sz t u\<rparr>) (usages s),
        reservations := AList.update (t, u) \<lparr>rv_ReservedBytes = sz t u, rv_TargetPath = path, rv_Status = RActive,
          rv_ExpiresAt = ex\<rparr> (reservations s)\<rparr>"
    using r by (auto simp: AtomicReserveAndInsertUpload_def Let_def mem_key_def split: option.split_asm if_split_asm)
  have get: "GetQuotaUsage t' s' = (if t' = t then q\<lparr>ReservedBytes := ReservedBytes q + sz t u\<rparr> else GetQuotaUsage t' s)"
      "GetQuotaUsage t s = q" for t'
    using q(1) by (simp_all add: s' GetQuotaUsage_def)
  have ro: "res_ok sz s" using b by (simp add: books_def)
  then have "active_bytes (\<lambda>r. True) t' s' = active_bytes (\<lambda>r. True) t' s + (if t' = t then sz t u else 0)" for t'
    using q(2) by (simp add: active_bytes_def s' sum_kv_update res_ok_def)
  then have "res_ok sz s'" using ro get by (auto simp: res_ok_def s')
  from books_res [OF b _ this] get show ?thesis by (simp add: s')
qed

lemma abort_books:
  assumes b: "books sz base s"
  shows "books sz base (abortUploadReservation t u s)"
proof (cases "is_active t u s")
  case True
  then obtain r where r: "map_of (reservations s) (t, u) = Some r" "rv_Status r = RActive"
    by (auto simp: is_active_def split: option.split_asm)
  have ro: "res_ok sz s" using b by (simp add: books_def)
  then have bytes: "rv_ReservedBytes r = sz t u" using r by (simp add: res_ok_def)
  show ?thesis
  proof (cases "abort_release t u (sz t u) s")
    case (Inr s')
    then obtain s1 where s1: "IncrReservedBytesTx t (- sz t u) s = Inr s1"
        and s': "s' = set_active (\<lambda>k r. k = (t, u)) RAborted s1"
      by (auto simp: abort_release_def tx_bind_Inr UpdateUploadReservationStatusTx_def)
    obtain us where us: "s1 = s\<lparr>usages := us\<rparr>"
        and get: "\<And>t'. GetQuotaUsage t' s1 = (if t' = t then (GetQuotaUsage t s)\<lparr>ReservedBytes := ReservedBytes (GetQuotaUsage t s) - sz t u\<rparr>
          else GetQuotaUsage t' s)"
      using update_usage_Inr [OF s1 [unfolded IncrReservedBytesTx_def]] by auto
    have "reservations s' = reservations (set_active (\<lambda>k r. k = (t, u)) RAborted s)" by (simp add: s' us set_active_def)
    from res_ok_settle [OF ro _ this] True have "res_ok sz s'" by (simp add: s' get)
    from books_res [OF b _ this] have "books sz base s'" by (simp add: s' get) (simp add: us)
    then show ?thesis using r bytes Inr by (simp add: abortUploadReservation_def or_keep_def)
  qed (use b r bytes in \<open>simp add: abortUploadReservation_def or_keep_def\<close>)
qed (use b in \<open>auto simp: abortUploadReservation_def is_active_def split: option.splits\<close>)

text \<open>Releasing a set of reservations whose bytes were taken off the counters.\<close>

lemma release_res_ok:
  assumes ro: "res_ok sz s" and s': "s' = set_active Q RAborted s1" "s1 = s\<lparr>usages := us\<rparr>"
    and get: "\<And>t. ReservedBytes (GetQuotaUsage t s1) = ReservedBytes (GetQuotaUsage t s) -
      sum_kv (\<lambda>(t', u) r. if t' = t \<and> rv_Status r = RActive \<and> Q (t', u) r then rv_ReservedBytes r else 0) (reservations s)"
  shows "res_ok sz s'"
proof -
  have "active_bytes (\<lambda>r. True) t s' = active_bytes (\<lambda>r. True) t s -
      sum_kv (\<lambda>(t', u) r. if t' = t \<and> rv_Status r = RActive \<and> Q (t', u) r then rv_ReservedBytes r else 0) (reservations s)" for t
    unfolding s' by (subst active_split) (simp_all add: active_bytes_def)
  moreover have "rv_ReservedBytes r = sz t1 u1" if "map_of (reservations s') (t1, u1) = Some r" for t1 u1 r
    using that ro by (cases "map_of (reservations s) (t1, u1)") (auto simp: res_ok_def s' map_of_set_active split: if_split_asm)
  ultimately show ?thesis using ro get unfolding res_ok_def by (simp add: s')
qed

lemma abort_all_books:
  assumes b: "books sz base s" and r: "AbortActiveUploadReservations t s = Inr s'"
  shows "books sz base s'"
proof -
  let ?total = "active_bytes (\<lambda>r. True) t s"
  have ro: "res_ok sz s" using b by (simp add: books_def)
  then have tot: "ReservedBytes (GetQuotaUsage t s) = ?total" by (simp add: res_ok_def)
  obtain s1 where s1: "(if ?total \<noteq> 0 then update_usage t (\<lambda>u. u\<lparr>ReservedBytes := max (ReservedBytes u - ?total) 0\<rparr>) s else Inr s) = Inr s1"
      and s': "s' = set_active (\<lambda>(t', u) r. t' = t) RAborted s1"
    using r by (auto simp: AbortActiveUploadReservations_def Let_def tx_bind_Inr)
  have g: "\<exists>us. s1 = s\<lparr>usages := us\<rparr>" "GetQuotaUsage t' s1 = (if t' = t then (GetQuotaUsage t s)\<lparr>ReservedBytes := 0\<rparr> else GetQuotaUsage t' s)" for t'
    using s1 tot update_usage_Inr [of t "\<lambda>u. u\<lparr>ReservedBytes := max (ReservedBytes u - ?total) 0\<rparr>" s s1]
    by (auto split: if_split_asm intro: exI [of _ "usages s"])
  obtain us where us: "s1 = s\<lparr>usages := us\<rparr>" using g(1) by blast
  have "sum_kv (\<lambda>(t', u) r. if t' = x \<and> rv_Status r = RActive \<and> t' = t then rv_ReservedBytes r else 0) rs =
      (if x = t then sum_kv (\<lambda>(t', u) r. if t' = t \<and> rv_Status r = RActive then rv_ReservedBytes r else 0) rs else 0)" for x rs
    by (induction rs) auto
  note this [simp]
  have "res_ok sz s'" by (rule release_res_ok [OF ro s' us]) (simp add: g(2) tot active_bytes_def)
  from books_res [OF b _ this] show ?thesis by (simp add: s' g(2)) (simp add: us)
qed

lemma expire_fold:
  assumes "foldl (\<lambda>x t. tx_bind x (IncrReservedBytesTx t (- f t))) (Inr s) ts = Inr s'" "distinct ts"
  shows "(\<exists>us. s' = s\<lparr>usages := us\<rparr>) \<and> (\<forall>t. GetQuotaUsage t s' = (if t \<in> set ts
    then (GetQuotaUsage t s)\<lparr>ReservedBytes := ReservedBytes (GetQuotaUsage t s) - f t\<rparr> else GetQuotaUsage t s))"
  using assms
proof (induction ts arbitrary: s)
  case Nil
  then show ?case by (auto intro: exI [of _ "usages s"])
next
  case (Cons t ts)
  have err: "foldl (\<lambda>x t. tx_bind x (IncrReservedBytesTx t (- f t))) (Inl e) ts = Inl e" for e by (induction ts) simp_all
  from Cons.prems obtain s1 where s1: "IncrReservedBytesTx t (- f t) s = Inr s1"
      "foldl (\<lambda>x t. tx_bind x (IncrReservedBytesTx t (- f t))) (Inr s1) ts = Inr s'"
    by (cases "IncrReservedBytesTx t (- f t) s") (auto simp: err)
  note u = update_usage_Inr [OF s1(1) [unfolded IncrReservedBytesTx_def]]
  from Cons.IH [OF s1(2)] Cons.prems(2) u show ?case by auto
qed

lemma expire_books:
  assumes b: "books sz base s" and r: "ExpireActiveReservations now s = Inr (s', released)"
  shows "books sz base s'"
proof -
  let ?ex = "\<lambda>r. rv_ExpiresAt r < now"
  let ?ts = "remdups (map (\<lambda>((t, u), r). t) (filter (\<lambda>((t, u), r). rv_Status r = RActive \<and> ?ex r) (reservations s)))"
  have ro: "res_ok sz s" using b by (simp add: books_def)
  obtain s1 where s1: "foldl (\<lambda>x t. tx_bind x (IncrReservedBytesTx t (- active_bytes ?ex t s))) (Inr s) ?ts = Inr s1"
      and s': "s' = set_active (\<lambda>k. ?ex) RAborted s1"
    using r by (auto simp: ExpireActiveReservations_def Let_def tx_bind_Inr)
  obtain us where us: "s1 = s\<lparr>usages := us\<rparr>" and get: "\<And>t. GetQuotaUsage t s1 = (if t \<in> set ?ts
      then (GetQuotaUsage t s)\<lparr>ReservedBytes := ReservedBytes (GetQuotaUsage t s) - active_bytes ?ex t s\<rparr> else GetQuotaUsage t s)"
    using expire_fold [OF s1] by auto
  have zero: "active_bytes ?ex t s = 0" if "t \<notin> set ?ts" for t
  proof -
    have "active_bytes ?ex t s = sum_kv (\<lambda>k r. 0) (reservations s)"
      unfolding active_bytes_def by (rule sum_kv_cong) (use that in \<open>force split: if_split_asm\<close>)
    moreover have "sum_kv (\<lambda>k r. 0) rs = 0" for rs :: "(string \<times> string, reservation) gomap" by (induction rs) auto
    ultimately show ?thesis by simp
  qed
  have "res_ok sz s'"
    by (rule release_res_ok [OF ro s' us]) (use zero in \<open>auto simp: get active_bytes_def simp del: set_remdups\<close>)
  from books_res [OF b _ this] show ?thesis by (simp add: s' get) (simp add: us)
qed

section \<open>Sequences of steps\<close>

datatype quota_event =
    QReserve bool string string string int
  | QAbort string string
  | QMutation bool bool int int string mutation
  | QComplete bool bool int int string string string int bool bool
  | QReplay int nat
  | QBatch int int "nat \<Rightarrow> bool"
  | QRetry nat int
  | QExpire int
  | QAbortAll string
  | QUsageRow string
  | QConfig string quota_config

text \<open>\<^verbatim>\<open>sz\<close> is the size of an upload. \<^verbatim>\<open>QReplay\<close> is the transaction of any worker that has read the entry at some
  earlier time, whatever became of it since.\<close>

fun quota_step :: "(string \<Rightarrow> string \<Rightarrow> int) \<Rightarrow> quota_event \<Rightarrow> quota_db \<Rightarrow> quota_db" where
  "quota_step sz (QReserve up t u path ex) s = fst (reserveUploadOnServer up t u path (sz t u) ex s)"
| "quota_step sz (QAbort t u) s = abortUploadReservation t u s"
| "quota_step sz (QMutation logged up now month t d) s = applyLoggedQuotaMutation logged up now month t d s"
| "quota_step sz (QComplete logged up now month t u fid osz om nm) s =
    completeUploadReservation logged up now month t u (sz t u) fid osz om (sz t u) nm s"
| "quota_step sz (QReplay month i) s =
    (case map_of (mutations s) i of None \<Rightarrow> s
     | Some m \<Rightarrow> or_keep s (replayOne month i (m_TenantID m) (m_Data m) s))"
| "quota_step sz (QBatch cutoff month up) s = replayBatch cutoff month up s"
| "quota_step sz (QRetry i k) s = IncrMutationRetry i k s"
| "quota_step sz (QExpire now) s = or_keep s (map_sum id fst (ExpireActiveReservations now s))"
| "quota_step sz (QAbortAll t) s = or_keep s (AbortActiveUploadReservations t s)"
| "quota_step sz (QUsageRow t) s = EnsureQuotaUsageRow t s"
| "quota_step sz (QConfig t c) s = SetQuotaConfig t c s"

fun quota_event_ok :: "(string \<Rightarrow> string \<Rightarrow> int) \<Rightarrow> quota_event \<Rightarrow> bool" where
  "quota_event_ok sz (QMutation logged up now month t d) \<longleftrightarrow> data_ok sz t d"
| "quota_event_ok sz _ \<longleftrightarrow> True"

lemma books_or_keep: "books sz base s \<Longrightarrow> (\<And>s'. x = Inr s' \<Longrightarrow> books sz base s') \<Longrightarrow> books sz base (or_keep s x)"
  by (auto simp: or_keep_def split: sum.split)

lemma quota_step_books:
  assumes b: "books sz base s" and v: "quota_event_ok sz e"
  shows "books sz base (quota_step sz e s)"
proof (cases e)
  case (QReserve up t u path ex)
  then show ?thesis using b reserve_books [OF b, of t u path ex]
    by (auto simp: reserveUploadOnServer_def split: sum.split quota_error.split)
next
  case (QMutation logged up now month t d)
  then show ?thesis using b v logged_books [OF b, of t d now up month] by (simp add: applyLoggedQuotaMutation_def)
next
  case (QComplete logged up now month t u fid osz om nm)
  then show ?thesis using b logged_books [OF b, of t "UploadComplete u fid (sz t u) osz om (sz t u) nm" now up month]
    by (simp add: completeUploadReservation_def Let_def)
next
  case (QReplay month i)
  have "books sz base (or_keep s (replayOne month i (m_TenantID m) (m_Data m) s))" if "map_of (mutations s) i = Some m" for m
    by (rule books_or_keep [OF b]) (rule replay_books [OF b], auto simp: that)
  then show ?thesis using b QReplay by (simp split: option.split)
next
  case (QExpire now)
  then show ?thesis using b expire_books [OF b] by (auto intro!: books_or_keep)
next
  case (QAbortAll t)
  then show ?thesis using b abort_all_books [OF b] by (auto intro!: books_or_keep)
next
  case (QUsageRow t)
  have "GetQuotaUsage t' (EnsureQuotaUsageRow t s) = GetQuotaUsage t' s" for t'
    by (simp add: EnsureQuotaUsageRow_def GetQuotaUsage_def mem_key_def split: option.split)
  moreover have "reservations (EnsureQuotaUsageRow t s) = reservations s" "mutations (EnsureQuotaUsageRow t s) = mutations s"
    by (simp_all add: EnsureQuotaUsageRow_def)
  ultimately show ?thesis using b books_res [OF b, of "EnsureQuotaUsageRow t s"]
    by (simp add: QUsageRow books_def res_ok_def active_bytes_def)
next
  case (QConfig t c)
  then show ?thesis using b books_res [OF b, of "SetQuotaConfig t c s"]
    by (simp add: SetQuotaConfig_def books_def res_ok_def active_bytes_def)
qed (use b abort_books [OF b] batch_books [OF b] retry_books [OF b] in auto)

lemma books_run:
  "books sz base s \<Longrightarrow> \<forall>e\<in>set es. quota_event_ok sz e \<Longrightarrow> books sz base (foldl (\<lambda>s e. quota_step sz e s) s es)"
  by (induction es arbitrary: s) (simp_all add: quota_step_books del: quota_step.simps)

section \<open>Sizes of files\<close>

text \<open>A mutation arrives in order when it finds the size and kind its writer saw.\<close>

fun in_order :: "string \<Rightarrow> mutation \<Rightarrow> quota_db \<Rightarrow> bool" where
  "in_order t (FileCreate fid sz media) s \<longleftrightarrow> map_of (metas s) (t, fid) = None"
| "in_order t (FileOverwrite fid osz om nsz nm) s \<longleftrightarrow> map_of (metas s) (t, fid) = Some \<lparr>fm_SizeBytes = osz, fm_IsMedia = om\<rparr>"
| "in_order t (FileDelete fid sz media) s \<longleftrightarrow>
    (case map_of (metas s) (t, fid) of None \<Rightarrow> True | Some m \<Rightarrow> m = \<lparr>fm_SizeBytes = sz, fm_IsMedia = media\<rparr>)"
| "in_order t (UploadComplete u fid res osz om nsz nm) s \<longleftrightarrow> (is_active t u s \<longrightarrow> res = nsz) \<and>
    (case map_of (metas s) (t, fid) of None \<Rightarrow> osz = 0 \<and> \<not> om | Some m \<Rightarrow> m = \<lparr>fm_SizeBytes = osz, fm_IsMedia = om\<rparr>)"
| "in_order t _ s \<longleftrightarrow> True"

definition meta_bytes :: "string \<Rightarrow> quota_db \<Rightarrow> int" where
  "meta_bytes t s = sum_kv (\<lambda>(t', f) m. if t' = t then fm_SizeBytes m else 0) (metas s)"

definition meta_media :: "string \<Rightarrow> quota_db \<Rightarrow> int" where
  "meta_media t s = sum_kv (\<lambda>(t', f) m. if t' = t \<and> fm_IsMedia m then 1 else 0) (metas s)"

definition sizes_agree :: "quota_db \<Rightarrow> bool" where
  "sizes_agree s \<longleftrightarrow> wf_map (metas s) \<and>
    (\<forall>t. StorageBytes (GetQuotaUsage t s) = meta_bytes t s \<and> MediaFileCount (GetQuotaUsage t s) = meta_media t s)"

lemma metas_after_sums:
  assumes "wf_map (metas s)" "in_order t d s"
  shows "sum_kv (\<lambda>(t', f) m. if t' = x then fm_SizeBytes m else 0) (metas_after t d (metas s)) =
      meta_bytes x s + (if x = t then storage_change t s d else 0)"
    "sum_kv (\<lambda>(t', f) m. if t' = x \<and> fm_IsMedia m then 1 else 0) (metas_after t d (metas s)) =
      meta_media x s + (if x = t then media_change t s d else 0)"
  using assms
  by (cases d; auto simp: meta_bytes_def meta_media_def sum_kv_update sum_kv_delete media_delta_def mem_key_def split: option.split_asm)+

lemma apply_sizes:
  assumes a: "sizes_agree s" and o: "in_order t d s" and r: "applyMutation month t d s = Inr s'"
  shows "sizes_agree s'"
proof -
  note e = apply_effect [OF r]
  have wf: "wf_map (metas s)" using a by (simp add: sizes_agree_def)
  have "wf_map (metas s')" using wf by (cases d) (simp_all add: e(3))
  moreover have "meta_bytes x s' = meta_bytes x s + (if x = t then storage_change t s d else 0)"
      "meta_media x s' = meta_media x s + (if x = t then media_change t s d else 0)" for x
    unfolding meta_bytes_def [of x s'] meta_media_def [of x s'] e(3) by (rule metas_after_sums [OF wf o])+
  ultimately show ?thesis using a e(5) by (simp add: sizes_agree_def charge_def)
qed

lemma gc_sizes:
  assumes a: "sizes_agree s" and r: "deleteCentralFileMetaForGCTask t fid s = Inr s'"
  shows "sizes_agree s'"
proof (cases "map_of (metas s) (t, fid)")
  case None
  then show ?thesis using a r by (auto simp: deleteCentralFileMetaForGCTask_def GetFileMeta_def split: if_split_asm)
next
  case (Some m)
  show ?thesis
  proof (cases "t = ''''")
    case False
    then have "applyMutation 0 t (FileDelete fid (fm_SizeBytes m) (fm_IsMedia m)) s = Inr s'"
      using r Some by (auto simp: deleteCentralFileMetaForGCTask_def GetFileMeta_def DeleteFileMetaIfExistsTx_def
        applyCentralFileDeleteCountersTx_def mem_key_def split: if_split_asm)
    from apply_sizes [OF a _ this] Some show ?thesis by simp
  qed (use a r in \<open>simp add: deleteCentralFileMetaForGCTask_def\<close>)
qed

text \<open>Replay, inline application and clean-up, when mutations arrive in order.\<close>

inductive sizes_step :: "quota_db \<Rightarrow> quota_db \<Rightarrow> bool" where
  replayed: "replayOne month i t d s = Inr s' \<Longrightarrow> in_order t d s \<Longrightarrow> sizes_step s s'"
| collected: "deleteCentralFileMetaForGCTask t fid s = Inr s' \<Longrightarrow> sizes_step s s'"
| other: "metas s' = metas s \<Longrightarrow> (\<And>t. StorageBytes (GetQuotaUsage t s') = StorageBytes (GetQuotaUsage t s) \<and>
    MediaFileCount (GetQuotaUsage t s') = MediaFileCount (GetQuotaUsage t s)) \<Longrightarrow> sizes_step s s'"

lemma sizes_step_agree: "sizes_step s s' \<Longrightarrow> sizes_agree s \<Longrightarrow> sizes_agree s'"
proof (induction rule: sizes_step.induct)
  case (replayed month i t d s s')
  then obtain s1 where s1: "applyMutation month t d s = Inr s1" "metas s' = metas s1" "\<And>t. GetQuotaUsage t s' = GetQuotaUsage t s1"
    by (auto simp: replayOne_def tx_bind_Inr mark_Inr)
  from apply_sizes [OF replayed.prems replayed.hyps(2) s1(1)] s1(2,3) show ?case
    by (simp add: sizes_agree_def meta_bytes_def meta_media_def)
next
  case (collected t fid s s')
  then show ?case using gc_sizes by blast
next
  case (other s' s)
  then show ?case by (simp add: sizes_agree_def meta_bytes_def meta_media_def)
qed

section \<open>Properties\<close>

definition empty_db :: quota_db where
  "empty_db = \<lparr>configs = [], usages = [], metas = [], reservations = [], ledger = [], monthly = [], mutations = []\<rparr>"

lemma books_empty: "books sz (\<lambda>t. zero_usage) empty_db"
  by (simp add: books_def log_ok_def once_ok_def res_ok_def empty_db_def GetQuotaUsage_def applied_sum_def active_bytes_def zero_usage_def)


definition sample_events :: "quota_event list" where
  "sample_events =
    [QUsageRow ''t'', QReserve True ''t'' ''u'' ''/a'' 50, QReserve True ''t'' ''v'' ''/b'' 50,
     QComplete True False 1 0 ''t'' ''u'' ''f'' 0 False False, QReplay 0 1, QReplay 0 1]"





text \<open>
  C35: the clean-up of a deleted file does not wait for its pending completion. The guard looks for
  pending creations and overwrites only. When the completion of an upload is still in the log, the
  clean-up finds nothing to delete and is done; the replay then charges the tenant for the deleted file.
\<close>
theorem cleanup_overtakes_completion:
  "let s = foldl (\<lambda>s e. quota_step (\<lambda>t u. 7) e s) empty_db
         [QUsageRow ''t'', QReserve True ''t'' ''u'' ''/a'' 50, QComplete True False 1 0 ''t'' ''u'' ''f'' 0 False False] in
   map_sum id (\<lambda>s2. let s3 = quota_step (\<lambda>t u. 7) (QReplay 0 1) s2 in
       (s2 = s, StorageBytes (GetQuotaUsage ''t'' s3), map_of (metas s3) (''t'', ''f'')))
     (deleteCentralFileMetaForGCTask ''t'' ''f'' s) =
   Inr (True, 7, Some \<lparr>fm_SizeBytes = 7, fm_IsMedia = False\<rparr>)"
proof -
  let ?s = "foldl (\<lambda>s e. quota_step (\<lambda>t u. 7) e s) empty_db
    [QUsageRow ''t'', QReserve True ''t'' ''u'' ''/a'' 50, QComplete True False 1 0 ''t'' ''u'' ''f'' 0 False False]"
  have "\<not> HasPendingFileMutation ''t'' ''f'' ?s" "map_of (metas ?s) (''t'', ''f'') = None" by code_simp+
  then have gc: "deleteCentralFileMetaForGCTask ''t'' ''f'' ?s = Inr ?s"
    by (simp add: deleteCentralFileMetaForGCTask_def GetFileMeta_def del: foldl_Cons)
  have "StorageBytes (GetQuotaUsage ''t'' (quota_step (\<lambda>t u. 7) (QReplay 0 1) ?s)) = 7"
    "map_of (metas (quota_step (\<lambda>t u. 7) (QReplay 0 1) ?s)) (''t'', ''f'') = Some \<lparr>fm_SizeBytes = 7, fm_IsMedia = False\<rparr>"
    by code_simp+
  with gc show ?thesis by (simp add: Let_def del: foldl_Cons quota_step.simps)
qed

text \<open>
  a late replay restores an old size. When the creation of a file waits in the log and an
  overwrite is applied inline, the replay of the creation writes the old size back: the size recorded
  for the file no longer matches the bytes charged for it.
\<close>
theorem late_replay_restores_size:
  "let s = foldl (\<lambda>s e. quota_step (\<lambda>t u. 0) e s) empty_db
         [QUsageRow ''t'', QMutation True False 1 0 ''t'' (FileCreate ''f'' 5 False),
          QMutation True True 2 0 ''t'' (FileOverwrite ''f'' 5 False 7 False), QReplay 0 1] in
   StorageBytes (GetQuotaUsage ''t'' s) = 7 \<and> map_of (metas s) (''t'', ''f'') = Some \<lparr>fm_SizeBytes = 5, fm_IsMedia = False\<rparr>"
  by code_simp

end
