(* ===== verification/Fork.thy ===== *)
theory Fork
  imports Object_Safety Node_Store Quota_Books "HOL-Library.Multiset"
begin

text \<open>
  Life cycle of forks (\<^verbatim>\<open>pkg/server/fork.go\<close> and the store operations it calls): provisioning a fork from a
  branch of the database, bringing its quota up to date, and deleting it again. The calls that can fail are
  named by \<^verbatim>\<open>fork_call\<close>; the provisioner of branches is outside this development, and only whether its
  calls succeed matters here.
\<close>

section \<open>State\<close>

record fork_sys =
  fk_world :: gc_world
  fk_quota :: quota_db
  fk_nodes :: "(string, node_store) gomap"

datatype fork_call = ForkDrain | ForkReservations | ForkOpen | ForkSanitize | ForkProvisioner | ForkDeleteBranch | ForkMark
  | ForkConnect | ForkSchema | ForkUploads | ForkCopyConfig | ForkVersion

datatype fork_error = ForkFatal string | ForkRetry string

definition UpdateTenantStatus :: "string \<Rightarrow> tenant_status \<Rightarrow> gc_world \<Rightarrow> gc_error + gc_world" where
  "UpdateTenantStatus t status w =
    (case map_of (g_tenants w) t of
      None \<Rightarrow> Inl GCNotFound
    | Some r \<Rightarrow> Inr (w\<lparr>g_tenants := AList.update t (r\<lparr>t_Status := status\<rparr>) (g_tenants w)\<rparr>))"

definition UpdateTenantStatusIf :: "string \<Rightarrow> tenant_status \<Rightarrow> tenant_status \<Rightarrow> gc_world \<Rightarrow> gc_world \<times> bool" where
  "UpdateTenantStatusIf t from to w =
    (case map_of (g_tenants w) t of
      None \<Rightarrow> (w, False)
    | Some r \<Rightarrow> if t_Status r \<noteq> from then (w, False)
        else (w\<lparr>g_tenants := AList.update t (r\<lparr>t_Status := to\<rparr>) (g_tenants w)\<rparr>, True))"

section \<open>A snapshot becomes a fork\<close>

text \<open>
  \<^verbatim>\<open>SanitizeForkRuntimeState\<close>: everything that belongs to an unconfirmed file goes. The remaining tables it
  empties (uploads, semantic tasks, usage and the vault) are not part of the node store.
\<close>

definition unconfirmed :: "file_tables \<Rightarrow> string \<Rightarrow> bool" where
  "unconfirmed st k = (case map_of (inodes st) k of None \<Rightarrow> False | Some i \<Rightarrow> i_status i \<noteq> CONFIRMED)"

definition clear_content :: "content_row \<Rightarrow> content_row" where
  "clear_content c = (clear_ref c)\<lparr>c_blob := None\<rparr>"

definition sanitize_tables :: "int \<Rightarrow> file_tables \<Rightarrow> file_tables" where
  "sanitize_tables now st =
    st\<lparr>contents := map (\<lambda>(k, c). (k, if unconfirmed st k then clear_content c else c)) (contents st),
       inodes := map (\<lambda>(k, i). (k, if i_status i \<noteq> CONFIRMED then i\<lparr>i_status := DELETED, i_expires := Some now\<rparr> else i)) (inodes st),
       files := (if useLegacyFiles st then
           map (\<lambda>(k, l). (k, if l_status l \<noteq> CONFIRMED
             then l\<lparr>l_status := DELETED, l_content := clear_content (l_content l), l_expires := Some now\<rparr> else l)) (files st)
         else files st)\<rparr>"

definition node_inode :: "file_node \<Rightarrow> string option" where
  "node_inode n = (case fn_inode_id n of None \<Rightarrow> fn_file_id n | Some i \<Rightarrow> Some i)"

definition SanitizeForkRuntimeState :: "int \<Rightarrow> node_store \<Rightarrow> node_store" where
  "SanitizeForkRuntimeState now s =
    s\<lparr>nodes := filter (\<lambda>n. case node_inode n of None \<Rightarrow> True | Some i \<Rightarrow> \<not> unconfirmed (tables s) i) (nodes s),
      tables := sanitize_tables now (tables s), gc := []\<rparr>"

definition forkQuotaMediaContentType :: "string \<Rightarrow> bool" where
  "forkQuotaMediaContentType contentType \<longleftrightarrow> HasPrefix contentType ''image/'' \<or> HasPrefix contentType ''audio/''"

text \<open>The rows behind \<^verbatim>\<open>ListConfirmedFileSummaries\<close>: file, size and content type.\<close>

definition confirmed_summaries :: "file_tables \<Rightarrow> (string \<times> int \<times> string) list" where
  "confirmed_summaries st = concat (map (\<lambda>(k, i). case map_of (contents st) k of None \<Rightarrow> []
    | Some c \<Rightarrow> if i_status i = CONFIRMED then [(k, i_size i, text_of (c_type c))] else []) (inodes st))"

definition ListConfirmedFileSummaries :: "string \<Rightarrow> int \<Rightarrow> file_tables \<Rightarrow> (string \<times> int \<times> string) list \<times> string" where
  "ListConfirmedFileSummaries cursor limit st =
    (let page = page_of fst (page_limit limit) cursor (confirmed_summaries st) in (page, next_cursor fst (page_limit limit) page))"

definition backfill_file :: "string \<Rightarrow> quota_db \<times> int \<times> int \<Rightarrow> string \<times> int \<times> string \<Rightarrow> quota_db \<times> int \<times> int" where
  "backfill_file t = (\<lambda>(q, bytes, media) (fid, sz, ct).
    (UpsertFileMeta t fid sz (forkQuotaMediaContentType ct) q, bytes + sz, if forkQuotaMediaContentType ct then media + 1 else media))"

definition backfillForkQuota :: "string \<Rightarrow> file_tables \<Rightarrow> quota_db \<Rightarrow> quota_db" where
  "backfillForkQuota t st q =
    (case foldl (backfill_file t) (q, 0, 0) (all_pages fst (page_limit 500) '''' (confirmed_summaries st)) of
      (q', bytes, media) \<Rightarrow> SetQuotaCounters t bytes media q')"

text \<open>\<^verbatim>\<open>sourceHasActiveUploadReservations\<close>: expired reservations are released first.\<close>

definition sourceHasActiveUploadReservations :: "int \<Rightarrow> string \<Rightarrow> quota_db \<Rightarrow> quota_db \<times> bool" where
  "sourceHasActiveUploadReservations now t q =
    (let q1 = or_keep q (map_sum id fst (ExpireActiveReservations now q)) in (q1, HasActiveUploadReservations t now q1))"

text \<open>
  \<^verbatim>\<open>provisionForkTenantOnce\<close> up to its last statement, and that statement, which sets the status whatever it has
  become in the meantime. \<^verbatim>\<open>active\<close> says whether the snapshot holds active uploads.
\<close>

definition provision_prepare ::
  "(fork_call \<Rightarrow> bool) \<Rightarrow> bool \<Rightarrow> int \<Rightarrow> string \<Rightarrow> fork_sys \<Rightarrow> fork_sys \<times> fork_error option \<times> bool" where
  "provision_prepare fails active now t s =
    (case map_of (g_tenants (fk_world s)) t of
      None \<Rightarrow> (s, Some (ForkRetry ''not found''), False)
    | Some r \<Rightarrow>
        if t_Kind r \<noteq> TenantKindFork then (s, Some (ForkFatal ''tenant is not a fork''), False)
        else if t_Status r \<in> {TenantActive, TenantDeleting, TenantDeleted} then (s, None, False)
        else if t_Status r \<noteq> TenantProvisioning then (s, Some (ForkFatal ''fork tenant is not provisioning''), False)
        else
          (case map_of (g_tenants (fk_world s)) (t_Parent r) of
            None \<Rightarrow> (s, Some (ForkRetry ''not found''), False)
          | Some src \<Rightarrow>
              if t_Status src \<noteq> TenantActive then (s, Some (ForkRetry ''source tenant is not active''), False)
              else if fails ForkReservations then (s, Some (ForkRetry ''reservations''), False)
              else
                let (q1, busy) = sourceHasActiveUploadReservations now (t_Parent r) (fk_quota s); s1 = s\<lparr>fk_quota := q1\<rparr> in
                if busy then (s1, Some (ForkRetry ''source tenant has active upload reservations''), False)
                else if fails ForkConnect \<or> fails ForkSchema \<or> fails ForkOpen then (s1, Some (ForkRetry ''branch''), False)
                else
                  (case map_of (fk_nodes s1) t of
                    None \<Rightarrow> (s1, Some (ForkRetry ''branch''), False)
                  | Some ns \<Rightarrow>
                      if fails ForkUploads then (s1, Some (ForkRetry ''uploads''), False)
                      else if active then (s1, Some (ForkFatal ''source snapshot contains active uploads''), False)
                      else if fails ForkSanitize then (s1, Some (ForkRetry ''sanitize''), False)
                      else
                        let ns' = SanitizeForkRuntimeState now ns; s2 = s1\<lparr>fk_nodes := AList.update t ns' (fk_nodes s1)\<rparr> in
                        if fails ForkCopyConfig then (s2, Some (ForkRetry ''quota config''), False)
                        else
                          let s3 = s2\<lparr>fk_quota := backfillForkQuota t (tables ns') (CopyQuotaConfig (t_Parent r) t (fk_quota s2))\<rparr> in
                          if fails ForkVersion then (s3, Some (ForkRetry ''schema version''), False)
                          else (s3, None, True))))"

definition provision_activate :: "(fork_call \<Rightarrow> bool) \<Rightarrow> string \<Rightarrow> fork_sys \<Rightarrow> fork_sys \<times> fork_error option" where
  "provision_activate fails t s =
    (if fails ForkMark then (s, Some (ForkRetry ''status''))
     else
       (case UpdateTenantStatus t TenantActive (fk_world s) of
         Inl e \<Rightarrow> (s, Some (ForkRetry ''not found''))
       | Inr w \<Rightarrow> (s\<lparr>fk_world := w\<rparr>, None)))"

definition provisionForkTenantOnce ::
  "(fork_call \<Rightarrow> bool) \<Rightarrow> bool \<Rightarrow> int \<Rightarrow> string \<Rightarrow> fork_sys \<Rightarrow> fork_sys \<times> fork_error option" where
  "provisionForkTenantOnce fails active now t s =
    (case provision_prepare fails active now t s of
      (s1, Some e, ready) \<Rightarrow> (s1, Some e)
    | (s1, None, False) \<Rightarrow> (s1, None)
    | (s1, None, True) \<Rightarrow> provision_activate fails t s1)"

section \<open>Deleting a fork\<close>

text \<open>The status part of \<^verbatim>\<open>handleForkDelete\<close>: the response code, and whether the clean-up is started.\<close>

definition handleForkDelete :: "string \<Rightarrow> gc_world \<Rightarrow> gc_world \<times> nat \<times> bool" where
  "handleForkDelete t w =
    (if t = '''' then (w, 401, False)
     else
       (case map_of (g_tenants w) t of
         None \<Rightarrow> (w, 404, False)
       | Some r \<Rightarrow>
           if t_Kind r \<noteq> TenantKindFork then (w, 409, False)
           else if t_Status r = TenantDeleted then (w, 404, False)
           else if t_Status r = TenantDeleting then (w, 202, False)
           else let (w', updated) = UpdateTenantStatusIf t (t_Status r) TenantDeleting w in (w', 202, updated)))"

definition drop_branch :: "string \<Rightarrow> fork_sys \<Rightarrow> fork_sys" where
  "drop_branch t s = s\<lparr>fk_nodes := AList.delete t (fk_nodes s)\<rparr>"

definition mark_fork_deleted :: "(fork_call \<Rightarrow> bool) \<Rightarrow> string \<Rightarrow> fork_sys \<Rightarrow> fork_sys" where
  "mark_fork_deleted fails t s =
    (if fails ForkMark then s else s\<lparr>fk_world := or_keep (fk_world s) (UpdateTenantStatus t TenantDeleted (fk_world s))\<rparr>)"

definition cleanupFailedForkBranch :: "(fork_call \<Rightarrow> bool) \<Rightarrow> string \<Rightarrow> fork_sys \<Rightarrow> fork_sys" where
  "cleanupFailedForkBranch fails t s =
    (if fails ForkProvisioner \<or> fails ForkDeleteBranch then s else mark_fork_deleted fails t (drop_branch t s))"

definition cleanupForkTenant ::
  "(string \<Rightarrow> string) \<Rightarrow> (fork_call \<Rightarrow> bool) \<Rightarrow> (string \<Rightarrow> bool) \<Rightarrow> int \<Rightarrow> string \<Rightarrow> fork_sys \<Rightarrow> fork_sys" where
  "cleanupForkTenant sha fails up now t s =
    (case map_of (g_tenants (fk_world s)) t of
      None \<Rightarrow> s
    | Some r \<Rightarrow>
        if t_Kind r \<noteq> TenantKindFork \<or> fails ForkDrain then s
        else
          let s1 = s\<lparr>fk_quota := (if fails ForkReservations then fk_quota s else or_keep (fk_quota s) (AbortActiveUploadReservations t (fk_quota s)))\<rparr> in
          if t_BranchID r = '''' then s1
          else if t_Status r \<noteq> TenantDeleting then cleanupFailedForkBranch fails t s1
          else if fails ForkOpen then s1
          else
            (case map_of (fk_nodes s1) t of
              None \<Rightarrow> s1
            | Some ns \<Rightarrow>
                (case enqueueForkConfirmedRefs sha up now (t_Namespace r) t (tables ns) (fk_world s1) of
                  (w1, Some e) \<Rightarrow> s1\<lparr>fk_world := w1\<rparr>
                | (w1, None) \<Rightarrow>
                    (case enqueueForkFileGCTaskRefs sha up now (t_Namespace r) t (gc ns) w1 of
                      (w2, Some e) \<Rightarrow> s1\<lparr>fk_world := w2\<rparr>
                    | (w2, None) \<Rightarrow>
                        let s2 = s1\<lparr>fk_world := w2\<rparr> in
                        if fails ForkSanitize then s2
                        else
                          let s3 = s2\<lparr>fk_nodes := AList.update t (SanitizeForkRuntimeState now ns) (fk_nodes s2)\<rparr> in
                          if fails ForkProvisioner \<or> fails ForkDeleteBranch then s3
                          else mark_fork_deleted fails t (drop_branch t s3)))))"

section \<open>Sanitizing\<close>

lemma sanitize_rows:
  "map_of (inodes (sanitize_tables now st)) k = map_option (\<lambda>i. if i_status i \<noteq> CONFIRMED
     then i\<lparr>i_status := DELETED, i_expires := Some now\<rparr> else i) (map_of (inodes st) k)"
  "map_of (contents (sanitize_tables now st)) k = map_option (\<lambda>c. if unconfirmed st k then clear_content c else c) (map_of (contents st) k)"
  "semantic (sanitize_tables now st) = semantic st"
  by (simp_all add: sanitize_tables_def map_of_map_val)

text \<open>Sanitizing keeps every confirmed file as it is, and leaves no name of another one.\<close>

lemma sanitize_keeps_confirmed:
  assumes "map_of (inodes (tables s)) k = Some i" "i_status i = CONFIRMED"
  shows "GetFile k (tables (SanitizeForkRuntimeState now s)) = GetFile k (tables s)"
  using assms by (auto simp: SanitizeForkRuntimeState_def GetFile_def sanitize_rows unconfirmed_def split: option.splits)

lemma sanitize_names:
  assumes "n \<in> set (nodes (SanitizeForkRuntimeState now s))" "node_inode n = Some k"
    "map_of (inodes (tables (SanitizeForkRuntimeState now s))) k = Some i"
  shows "i_status i = CONFIRMED"
  using assms by (auto simp: SanitizeForkRuntimeState_def unconfirmed_def sanitize_rows split: option.splits if_splits)

section \<open>Every object of a deleted fork becomes a candidate\<close>

lemma enqueue_mono:
  "EnqueueObjectGCCandidate now ns ref h reason src fid nb w = Inr w' \<Longrightarrow>
    mem_key (g_cands w') (ns, h) \<and> (mem_key (g_cands w) k \<longrightarrow> mem_key (g_cands w') k) \<and> g_tenants w' = g_tenants w"
  by (auto simp: EnqueueObjectGCCandidate_def Let_def split: if_splits)

lemma enqueue_refs_all:
  assumes "enqueue_refs up now ns t reason refs w = (w', eo)"
  shows "g_tenants w' = g_tenants w \<and> (mem_key (g_cands w) k \<longrightarrow> mem_key (g_cands w') k) \<and>
    (eo = None \<longrightarrow> (ref, h) \<in> set refs \<longrightarrow> mem_key (g_cands w') (ns, h))"
  using assms
proof (induction up now ns t reason refs w arbitrary: k rule: enqueue_refs.induct)
  case (2 up now ns t reason a b refs w)
  show ?case
  proof (cases "if up a then EnqueueObjectGCCandidate now ns a b reason t '''' None w else Inl (GCCall CallEnqueue)")
    case (Inl e)
    show ?thesis using "2.prems" unfolding enqueue_refs.simps Inl by auto
  next
    case (Inr w1)
    then have e: "EnqueueObjectGCCandidate now ns a b reason t '''' None w = Inr w1" by (simp split: if_splits)
    have "enqueue_refs up now ns t reason refs w1 = (w', eo)" using "2.prems" unfolding enqueue_refs.simps Inr by simp
    from "2.IH" [OF Inr this, of k] "2.IH" [OF Inr this, of "(ns, b)"] enqueue_mono [OF e, of k]
    show ?thesis by auto
  qed
qed simp

text \<open>
  C13: deleting a fork forgets none of its objects. When the clean-up of a fork ends with the fork marked as deleted,
  every object of a confirmed file and every object of a clean-up task of the fork is a candidate of the
  collector, also when they fill several pages.
\<close>
theorem fork_cleanup_complete:
  assumes r: "map_of (g_tenants (fk_world s)) t = Some r" "t_Status r = TenantDeleting"
    and s': "s' = cleanupForkTenant sha fails up now t s"
    and d: "map_of (g_tenants (fk_world s')) t = Some r'" "t_Status r' = TenantDeleted"
    and n: "map_of (fk_nodes s) t = Some ns" and h: "hashes_ok sha (tables ns)"
  shows "(confirmed_s3 (tables ns) ref \<longrightarrow> mem_key (g_cands (fk_world s')) (t_Namespace r, StorageRefHash sha ref)) \<and>
    (\<forall>task\<in>set (gc ns). StorageType task = ''s3'' \<longrightarrow> StorageRef task \<noteq> '''' \<longrightarrow>
      mem_key (g_cands (fk_world s')) (t_Namespace r, StorageRefHash sha (StorageRef task)))"
proof -
  let ?confirmed = "map (with_hash sha) (all_pages fst (page_limit 500) '''' (confirmed_rows (tables ns)))"
  let ?keys = "remdups (map StorageRef (filter (\<lambda>r. StorageType r = ''s3'' \<and> StorageRef r \<noteq> '''') (gc ns)))"
  let ?tasks = "map (\<lambda>ref. (ref, StorageRefHash sha ref)) (all_pages id (page_limit 500) '''' ?keys)"
  obtain w1 eo1 where w1: "enqueue_refs up now (t_Namespace r) t ReasonForkDelete ?confirmed (fk_world s) = (w1, eo1)" by (meson surj_pair)
  obtain w2 eo2 where w2: "enqueue_refs up now (t_Namespace r) t ReasonFileDelete ?tasks w1 = (w2, eo2)" by (meson surj_pair)
  note a1 = enqueue_refs_all [OF w1] and a2 = enqueue_refs_all [OF w2]
  have t1: "map_of (g_tenants w1) t = Some r" "map_of (g_tenants w2) t = Some r" using a1 a2 r(1) by auto
  have st: "t_Status r' = t_Status r" if "g_tenants (fk_world s') = g_tenants (fk_world s)" using that d(1) r(1) by simp
  have tn: "g_tenants w1 = g_tenants (fk_world s)" "g_tenants w2 = g_tenants (fk_world s)" using a1 a2 by auto
  have run: "s' = s \<or> g_tenants (fk_world s') = g_tenants (fk_world s) \<or>
      eo1 = None \<and> eo2 = None \<and> g_cands (fk_world s') = g_cands w2"
  proof (cases eo1)
    case (Some e)
    then show ?thesis using s' r n by (simp add: cleanupForkTenant_def enqueueForkConfirmedRefs_def w1 tn Let_def)
  next
    case None
    show ?thesis
    proof (cases eo2)
      case (Some e)
      then show ?thesis using s' r n None
        by (simp add: cleanupForkTenant_def enqueueForkConfirmedRefs_def enqueueForkFileGCTaskRefs_def w1 w2 tn Let_def)
    next
      case N2: None
      then show ?thesis using s' r n None
        by (simp add: cleanupForkTenant_def enqueueForkConfirmedRefs_def enqueueForkFileGCTaskRefs_def w1 w2 tn Let_def
            drop_branch_def mark_fork_deleted_def UpdateTenantStatus_def or_keep_def)
    qed
  qed
  then have ok: "eo1 = None" "eo2 = None" "g_cands (fk_world s') = g_cands w2" using st d(2) r(2) by auto
  have lim: "0 < page_limit 500" by (simp add: page_limit_def)
  have "mem_key (g_cands w2) (t_Namespace r, StorageRefHash sha ref)" if c: "confirmed_s3 (tables ns) ref"
  proof -
    have "ref \<in> fst ` set (all_pages fst (page_limit 500) '''' (confirmed_rows (tables ns)))"
      using c all_pages_keys [OF lim, of "confirmed_rows (tables ns)" fst "''''"]
      by (auto simp: confirmed_s3_def confirmed_rows_def)
    then obtain h0 where m: "(ref, h0) \<in> set (all_pages fst (page_limit 500) '''' (confirmed_rows (tables ns)))" by auto
    then have "h0 = StorageRefHash sha ref" using confirmed_hash [OF h] all_pages_subset by fastforce
    with m have "(ref, StorageRefHash sha ref) \<in> set ?confirmed" by (force simp: with_hash_def)
    then show ?thesis using a1 [of _ ref "StorageRefHash sha ref"] a2 ok by blast
  qed
  moreover have "mem_key (g_cands w2) (t_Namespace r, StorageRefHash sha (StorageRef task))"
    if "task \<in> set (gc ns)" "StorageType task = ''s3''" "StorageRef task \<noteq> ''''" for task
  proof -
    have "StorageRef task \<in> id ` set (all_pages id (page_limit 500) '''' ?keys)"
      using that by (subst all_pages_keys [OF lim]) auto
    then have "(StorageRef task, StorageRefHash sha (StorageRef task)) \<in> set ?tasks" by auto
    then show ?thesis using a2 [of _ "StorageRef task" "StorageRefHash sha (StorageRef task)"] ok by blast
  qed
  ultimately show ?thesis by (simp add: ok(3))
qed

definition sample_fork :: fork_sys where
  "sample_fork = \<lparr>fk_world = \<lparr>g_tenants = [(''t'', \<lparr>t_Status = TenantActive, t_Kind = TenantKindLive, t_Parent = '''', t_Namespace = ''n'', t_BranchID = ''''\<rparr>),
        (''u'', \<lparr>t_Status = TenantDeleting, t_Kind = TenantKindFork, t_Parent = ''t'', t_Namespace = ''n'', t_BranchID = ''b''\<rparr>)],
      g_namespaces = [(''n'', ''t'')], g_stores = [], g_cands = [], g_objects = []\<rparr>,
    fk_quota = empty_db,
    fk_nodes = [(''u'', \<lparr>tables = file_step (\<lambda>x. x) (FInsert 1 gc_file) (no_tables False), nodes = [], tags = [], gc = [sample_gc]\<rparr>)]\<rparr>"

theorem fork_cleanup_complete_witness:
  "map (cd_StorageRef \<circ> snd) (g_cands (fk_world (cleanupForkTenant (\<lambda>x. x) (\<lambda>_. False) (\<lambda>_. True) 9 ''u'' sample_fork))) = [''blobs/1'', ''blobs/f''] \<and>
   mem_key (g_cands (fk_world (cleanupForkTenant (\<lambda>x. x) (\<lambda>_. False) (\<lambda>_. True) 9 ''u'' sample_fork))) (''n'', ''blobs/1'')"
proof -
  let ?s = "cleanupForkTenant (\<lambda>x. x) (\<lambda>_. False) (\<lambda>_. True) 9 ''u'' sample_fork"
  let ?ns = "\<lparr>tables = file_step (\<lambda>x. x) (FInsert 1 gc_file) (no_tables False), nodes = [], tags = [], gc = [sample_gc]\<rparr>"
  have r: "map_of (g_tenants (fk_world sample_fork)) ''u'' = Some \<lparr>t_Status = TenantDeleting, t_Kind = TenantKindFork, t_Parent = ''t'', t_Namespace = ''n'', t_BranchID = ''b''\<rparr>"
    by code_simp
  have d: "map_of (g_tenants (fk_world ?s)) ''u'' = Some \<lparr>t_Status = TenantDeleted, t_Kind = TenantKindFork, t_Parent = ''t'', t_Namespace = ''n'', t_BranchID = ''b''\<rparr>"
    by code_simp
  have n: "map_of (fk_nodes sample_fork) ''u'' = Some ?ns" by code_simp
  have h: "hashes_ok (\<lambda>x. x) (tables ?ns)"
    by (simp add: hashes_ok_def file_eval gc_file_def wf_map_def)
  have c: "confirmed_s3 (tables ?ns) ''blobs/1''" by code_simp
  have l: "map (cd_StorageRef \<circ> snd) (g_cands (fk_world ?s)) = [''blobs/1'', ''blobs/f'']" by code_simp
  from fork_cleanup_complete [OF r _ refl d _ n h, of "''blobs/1''"] c l show ?thesis by (simp add: StorageRefHash_def)
qed

section \<open>Backfilling the quota of a fork\<close>

lemma all_pages_distinct:
  assumes "0 < limit" "\<forall>x\<in>set xs. key x \<noteq> ''''" "distinct (map key xs)"
  shows "distinct (map key (all_pages key limit cursor xs))"
  using assms
proof (induction key limit cursor xs rule: all_pages.induct)
  case (1 key limit cursor xs)
  define p where "p = page_of key limit cursor xs"
  let ?S = "sort_key key (filter (\<lambda>x. cursor = '''' \<or> cursor < key x) xs)"
  have "distinct (map key ?S)" using "1.prems"(3) by (auto simp: distinct_map intro: inj_on_subset)
  then have dp: "distinct (map key p)" by (simp add: p_def page_of_def take_map [symmetric])
  have "sorted (map key ?S)" by simp
  then have srt: "sorted (map key p)" by (simp only: p_def page_of_def take_map [symmetric] sorted_wrt_take)
  show ?case
  proof (cases "next_cursor key limit p = ''''")
    case True
    then show ?thesis using dp by (subst all_pages.simps) (simp add: p_def Let_def)
  next
    case False
    then have ne: "p \<noteq> []" and k: "next_cursor key limit p = key (last p)" by (auto simp: next_cursor_def split: if_splits)
    have ih: "distinct (map key (all_pages key limit (key (last p)) xs))"
      using "1.IH" [OF refl refl] False "1.prems" by (simp add: p_def [symmetric] k)
    have "key (last p) < key y" if "y \<in> set (all_pages key limit (key (last p)) xs)" for y
      using all_pages_keys [OF "1.prems"(1,2), of "key (last p)"] that False k by auto
    moreover have "key x \<le> key (last p)" if "x \<in> set p" for x
      using srt that ne by (induction p) (auto split: if_splits)
    ultimately have "key ` set p \<inter> key ` set (all_pages key limit (key (last p)) xs) = {}" by fastforce
    moreover have "all_pages key limit cursor xs = p @ all_pages key limit (key (last p)) xs"
      using False by (subst all_pages.simps) (simp add: p_def [symmetric] Let_def k)
    ultimately show ?thesis using dp ih by simp
  qed
qed

text \<open>With distinct keys, reading all pages is reading the whole table.\<close>

lemma all_pages_mset:
  assumes "0 < limit" "\<forall>x\<in>set xs. key x \<noteq> ''''" "distinct (map key xs)"
  shows "mset (all_pages key limit '''' xs) = mset xs"
proof -
  have d: "distinct (map key (all_pages key limit '''' xs))" by (rule all_pages_distinct [OF assms])
  have "set (all_pages key limit '''' xs) = set xs"
  proof (rule equalityI [OF all_pages_subset subsetI])
    fix x assume x: "x \<in> set xs"
    then have "key x \<in> key ` set (all_pages key limit '''' xs)" using all_pages_keys [OF assms(1,2), of "''''"] by simp
    then obtain y where y: "y \<in> set (all_pages key limit '''' xs)" "key y = key x" by auto
    then have "y \<in> set xs" using all_pages_subset by fast
    then have "y = x" using assms(3) x y(2) by (auto simp: distinct_map dest: inj_onD)
    with y show "x \<in> set (all_pages key limit '''' xs)" by simp
  qed
  then show ?thesis using d assms(3) by (simp add: distinct_map set_eq_iff_mset_eq_distinct)
qed

lemma backfill_fold:
  assumes "distinct (map fst xs)" "\<forall>x\<in>set xs. map_of (metas q) (t, fst x) = None" "wf_map (metas q)"
    "foldl (backfill_file t) (q, b, m) xs = (q', b', m')"
  shows "wf_map (metas q') \<and> usages q' = usages q \<and>
    b' = b + sum_list (map (\<lambda>x. fst (snd x)) xs) \<and> meta_bytes t q' = meta_bytes t q + sum_list (map (\<lambda>x. fst (snd x)) xs) \<and>
    m' - m = meta_media t q' - meta_media t q"
  using assms
proof (induction xs arbitrary: q b m)
  case (Cons x xs)
  obtain fid sz ct where x: "x = (fid, sz, ct)" by (cases x)
  let ?mt = "forkQuotaMediaContentType ct"
  let ?q = "UpsertFileMeta t fid sz ?mt q"
  have q: "metas ?q = AList.update (t, fid) \<lparr>fm_SizeBytes = sz, fm_IsMedia = ?mt\<rparr> (metas q)" "usages ?q = usages q"
    by (simp_all add: UpsertFileMeta_def UpsertFileMetaTx_def)
  have none: "map_of (metas q) (t, fid) = None" using Cons.prems(2) by (simp add: x)
  have ih: "wf_map (metas q') \<and> usages q' = usages ?q \<and> b' = b + sz + sum_list (map (\<lambda>x. fst (snd x)) xs) \<and>
      meta_bytes t q' = meta_bytes t ?q + sum_list (map (\<lambda>x. fst (snd x)) xs) \<and>
      m' - (if ?mt then m + 1 else m) = meta_media t q' - meta_media t ?q"
    by (rule Cons.IH) (use Cons.prems in \<open>auto simp: x q backfill_file_def\<close>)
  have "meta_bytes t ?q = meta_bytes t q + sz" "meta_media t ?q = meta_media t q + (if ?mt then 1 else 0)"
    using none Cons.prems(3) by (simp_all add: meta_bytes_def meta_media_def q sum_kv_update)
  with ih show ?case by (simp add: x q split: if_splits)
qed auto

lemma confirmed_summaries_keys:
  assumes "wf_map (inodes st)"
  shows "distinct (map fst (confirmed_summaries st))"
    and "x \<in> set (confirmed_summaries st) \<Longrightarrow> mem_key (inodes st) (fst x)"
proof -
  have eq: "map fst (concat (map (\<lambda>(k, i). case map_of (contents st) k of None \<Rightarrow> []
      | Some c \<Rightarrow> if i_status i = CONFIRMED then [(k, i_size i, text_of (c_type c))] else []) m)) =
    map fst (filter (\<lambda>(k, i). map_of (contents st) k \<noteq> None \<and> i_status i = CONFIRMED) m)" for m
    by (induction m) (auto split: option.splits if_splits)
  show "distinct (map fst (confirmed_summaries st))"
    using assms unfolding confirmed_summaries_def eq wf_map_def by (rule distinct_map_filter)
  show "mem_key (inodes st) (fst x)" if "x \<in> set (confirmed_summaries st)"
    using that by (force simp: confirmed_summaries_def mem_key_iff_set split: option.splits if_splits)
qed

text \<open>
  a new fork starts with a balanced quota. After the backfill, which reads the confirmed files in pages,
  the storage counter of the fork is the sum of the sizes of all its confirmed files, it equals the sum of the sizes
  recorded for the fork, and the media counter is the number of media files recorded.
\<close>
theorem fork_quota_backfilled:
  assumes "wf_map (inodes st)" and "\<not> mem_key (inodes st) ''''" and "wf_map (metas q)"
    and "\<forall>fid. map_of (metas q) (t, fid) = None" and "q' = backfillForkQuota t st q"
  shows "StorageBytes (GetQuotaUsage t q') = sum_list (map (\<lambda>x. fst (snd x)) (confirmed_summaries st)) \<and>
    StorageBytes (GetQuotaUsage t q') = meta_bytes t q' \<and> MediaFileCount (GetQuotaUsage t q') = meta_media t q'"
proof -
  let ?xs = "confirmed_summaries st" and ?ps = "all_pages fst (page_limit 500) '''' (confirmed_summaries st)"
  have lim: "0 < page_limit 500" by (simp add: page_limit_def)
  have ne: "\<forall>x\<in>set ?xs. fst x \<noteq> ''''" using confirmed_summaries_keys(2) [OF assms(1)] assms(2) by metis
  note k = lim ne confirmed_summaries_keys(1) [OF assms(1)]
  obtain q1 b m where f: "foldl (backfill_file t) (q, 0, 0) ?ps = (q1, b, m)" by (metis prod_cases3)
  have none: "meta_bytes t q = 0" "meta_media t q = 0"
  proof -
    have "fst e \<noteq> (t, fid)" if "e \<in> set (metas q)" for e fid
      using assms(4) that by (force simp: map_of_eq_None_iff)
    then have z: "fst k \<noteq> t" if "(k, v) \<in> set (metas q)" for k v using that by (metis fst_conv prod.collapse)
    have zero: "sum_kv (\<lambda>k v. 0) (metas q) = 0" by (simp add: sum_kv_def case_prod_unfold)
    have "meta_bytes t q = sum_kv (\<lambda>k v. 0) (metas q)" "meta_media t q = sum_kv (\<lambda>k v. 0) (metas q)"
      unfolding meta_bytes_def meta_media_def by (rule sum_kv_cong; use z in \<open>force split: prod.splits\<close>)+
    then show "meta_bytes t q = 0" "meta_media t q = 0" by (simp_all add: zero)
  qed
  have r: "wf_map (metas q1)" "b = sum_list (map (\<lambda>x. fst (snd x)) ?ps)" "meta_bytes t q1 = sum_list (map (\<lambda>x. fst (snd x)) ?ps)" "m = meta_media t q1"
    using backfill_fold [OF all_pages_distinct [OF k] _ assms(3) f] assms(4) none by auto
  have "sum_list (map (\<lambda>x. fst (snd x)) ?ps) = sum_list (map (\<lambda>x. fst (snd x)) ?xs)"
    by (rule arg_cong [where f = "\<lambda>x. sum_mset (image_mset (\<lambda>x. fst (snd x)) x)", OF all_pages_mset [OF k], simplified sum_mset_sum_list mset_map [symmetric]])
  moreover have "q' = SetQuotaCounters t b m q1" using assms(5) by (simp add: backfillForkQuota_def f)
  ultimately show ?thesis using r
    by (auto simp: SetQuotaCounters_def GetQuotaUsage_def meta_bytes_def meta_media_def split: option.splits)
qed

theorem fork_quota_backfilled_witness:
  "StorageBytes (GetQuotaUsage ''u'' (backfillForkQuota ''u'' (file_step (\<lambda>x. x) (FInsert 1 gc_file) (no_tables False)) empty_db)) = 3 \<and>
   meta_bytes ''u'' (backfillForkQuota ''u'' (file_step (\<lambda>x. x) (FInsert 1 gc_file) (no_tables False)) empty_db) = 3"
proof -
  let ?st = "file_step (\<lambda>x. x) (FInsert 1 gc_file) (no_tables False)"
  have st: "wf_map (inodes ?st)" "\<not> mem_key (inodes ?st) ''''" by (simp_all add: file_eval gc_file_def wf_map_def)
  have l: "sum_list (map (\<lambda>x. fst (snd x)) (confirmed_summaries ?st)) = 3" by code_simp
  from fork_quota_backfilled [OF st _ _ refl, of empty_db "''u''"] l show ?thesis by (simp add: empty_db_def)
qed

section \<open>A fork deleted while it is provisioned\<close>

definition provisioning_fork :: fork_sys where
  "provisioning_fork = (let w = fk_world sample_fork in sample_fork\<lparr>fk_world := w\<lparr>g_tenants := AList.update ''u''
     \<lparr>t_Status = TenantProvisioning, t_Kind = TenantKindFork, t_Parent = ''t'', t_Namespace = ''n'', t_BranchID = ''b''\<rparr> (g_tenants w)\<rparr>\<rparr>)"


end
