(* ===== verification/File_GC_Worker.thy ===== *)
theory File_GC_Worker
  imports Object_GC Quota
begin

text \<open>
  The worker that cleans up deleted files (\<^verbatim>\<open>pkg/backend/file_gc_worker.go\<close>): it claims a task of the queue,
  removes the file from the central quota tables, hands its object over to the object collector and then
  acknowledges the task or schedules a retry. Durations are in milliseconds.
\<close>

section \<open>Options and retry delay\<close>

definition defaultFileGCPollInterval :: int where "defaultFileGCPollInterval = 10000"
definition defaultFileGCLeaseDuration :: int where "defaultFileGCLeaseDuration = 300000"
definition defaultFileGCBatchSize :: int where "defaultFileGCBatchSize = 100"
definition defaultFileGCRecoverLimit :: int where "defaultFileGCRecoverLimit = 100"
definition defaultFileGCRetryBaseDelay :: int where "defaultFileGCRetryBaseDelay = 2000"
definition defaultFileGCRetryMaxDelay :: int where "defaultFileGCRetryMaxDelay = 120000"

record worker_options =
  PollInterval :: int
  LeaseDuration :: int
  BatchSize :: int
  RecoverLimit :: int
  RetryBase :: int
  RetryMax :: int

definition or_default :: "int \<Rightarrow> int \<Rightarrow> int" where
  "or_default v d = (if v \<le> 0 then d else v)"

definition normalize_options :: "worker_options \<Rightarrow> worker_options" where
  "normalize_options o1 =
    \<lparr>PollInterval = or_default (PollInterval o1) defaultFileGCPollInterval,
     LeaseDuration = or_default (LeaseDuration o1) defaultFileGCLeaseDuration,
     BatchSize = or_default (BatchSize o1) defaultFileGCBatchSize,
     RecoverLimit = or_default (RecoverLimit o1) defaultFileGCRecoverLimit,
     RetryBase = or_default (RetryBase o1) defaultFileGCRetryBaseDelay,
     RetryMax = or_default (RetryMax o1) defaultFileGCRetryMaxDelay\<rparr>"

text \<open>The loop \<^verbatim>\<open>for i := 1; i < attempt && delay < max; i++\<close>, with the number of rounds left.\<close>

fun double_until :: "nat \<Rightarrow> int \<Rightarrow> int \<Rightarrow> int" where
  "double_until 0 bound delay = delay"
| "double_until (Suc n) bound delay = (if delay < bound then double_until n bound (delay * 2) else delay)"

definition fileGCRetryDelay :: "int \<Rightarrow> int \<Rightarrow> int \<Rightarrow> int" where
  "fileGCRetryDelay attempt base0 max0 =
    (let base = or_default base0 defaultFileGCRetryBaseDelay; bound = or_default max0 defaultFileGCRetryMaxDelay in
     if attempt \<le> 1 then base
     else let delay = double_until (nat (attempt - 1)) bound base in if bound < delay then bound else delay)"

section \<open>Processing a task\<close>

record gc_backend =
  bk_tenant :: string
  bk_namespace :: string
  bk_meta :: bool
  bk_tasks :: "file_gc_task list"
  bk_quota :: quota_db
  bk_world :: gc_world

datatype gc_fail = FailQuota quota_error | FailEnqueue gc_error | FailNotConfigured | FailDatabase

text \<open>
  \<^verbatim>\<open>processFileGCTask\<close>; the two flags say whether the quota tables and the candidate table can be reached.
  Without a control plane nothing is charged and no candidate can be recorded.
\<close>

definition processFileGCTask ::
  "(string \<Rightarrow> string) \<Rightarrow> bool \<Rightarrow> bool \<Rightarrow> int \<Rightarrow> file_gc_task \<Rightarrow> gc_backend \<Rightarrow> gc_backend \<times> gc_fail option" where
  "processFileGCTask sha up_quota up_cands now task b =
    (case (if \<not> bk_meta b \<or> bk_tenant b = '''' then Inr (bk_quota b)
           else if \<not> up_quota then Inl FailDatabase
           else map_sum FailQuota id (deleteCentralFileMetaForGCTask (bk_tenant b) (FileID task) (bk_quota b))) of
      Inl e \<Rightarrow> (b, Some e)
    | Inr q \<Rightarrow>
        let b1 = b\<lparr>bk_quota := q\<rparr> in
        if StorageType task = ''s3'' \<and> StorageRef task \<noteq> '''' then
          (if \<not> bk_meta b then (b1, Some FailNotConfigured)
           else
             (case enqueueObjectGCCandidateCtx sha now (bk_namespace b) (bk_tenant b) (StorageRef task) ReasonFileDelete
                 (FileID task) (bk_world b) of
               (False, x) \<Rightarrow> (b1, Some FailNotConfigured)
             | (True, Inl e) \<Rightarrow> (b1, Some (FailEnqueue e))
             | (True, Inr w) \<Rightarrow> if up_cands then (b1\<lparr>bk_world := w\<rparr>, None) else (b1, Some FailDatabase)))
        else (b1, None))"

definition fail_text :: "gc_fail \<Rightarrow> string" where
  "fail_text e = (case e of FailQuota q \<Rightarrow> ''quota'' | FailEnqueue g \<Rightarrow> gc_error_text g
    | FailNotConfigured \<Rightarrow> ''object gc candidate enqueue is not configured'' | FailDatabase \<Rightarrow> ''database'')"

text \<open>What a worker does with a processed task: acknowledge it, or ask for a retry.\<close>

definition finishFileGCTask :: "worker_options \<Rightarrow> int \<Rightarrow> file_gc_task \<Rightarrow> gc_fail option \<Rightarrow> file_gc_task list \<Rightarrow> file_gc_task list" where
  "finishFileGCTask opts now task res rows =
    (case res of
      None \<Rightarrow> or_keep rows (AckFileGCTask now (TaskID task) (text_of (Receipt task)) rows)
    | Some e \<Rightarrow> or_keep rows (RetryFileGCTask now (TaskID task) (text_of (Receipt task))
        (now + fileGCRetryDelay (AttemptCount task) (RetryBase opts) (RetryMax opts)) (fail_text e) rows))"

definition processOneFileGCTask ::
  "(string \<Rightarrow> string) \<Rightarrow> worker_options \<Rightarrow> bool \<Rightarrow> bool \<Rightarrow> string list \<Rightarrow> string \<Rightarrow> int \<Rightarrow> gc_backend \<Rightarrow> gc_backend \<times> bool" where
  "processOneFileGCTask sha opts up_quota up_cands locked receipt now b =
    (case ClaimFileGCTask now locked receipt now (LeaseDuration opts) (bk_tasks b) of
      (rows, None) \<Rightarrow> (b\<lparr>bk_tasks := rows\<rparr>, False)
    | (rows, Some task) \<Rightarrow>
        let (b1, res) = processFileGCTask sha up_quota up_cands now task (b\<lparr>bk_tasks := rows\<rparr>)
        in (b1\<lparr>bk_tasks := finishFileGCTask opts now task res (bk_tasks b1)\<rparr>, True))"

text \<open>\<^verbatim>\<open>processAvailable\<close>: recovery, then tasks until none is left or the batch is used up. The list gives, for each round, what it meets.\<close>

fun process_batch ::
  "(string \<Rightarrow> string) \<Rightarrow> worker_options \<Rightarrow> (bool \<times> bool \<times> string list \<times> string \<times> int) list \<Rightarrow> gc_backend \<Rightarrow> gc_backend" where
  "process_batch sha opts [] b = b"
| "process_batch sha opts ((up_quota, up_cands, locked, receipt, now) # rounds) b =
    (case processOneFileGCTask sha opts up_quota up_cands locked receipt now b of
      (b1, True) \<Rightarrow> process_batch sha opts rounds b1
    | (b1, False) \<Rightarrow> b1)"

definition processAvailable ::
  "(string \<Rightarrow> string) \<Rightarrow> worker_options \<Rightarrow> string list \<Rightarrow> int \<Rightarrow> (bool \<times> bool \<times> string list \<times> string \<times> int) list \<Rightarrow> gc_backend \<Rightarrow> gc_backend" where
  "processAvailable sha opts locked now rounds b =
    process_batch sha opts (take (nat (BatchSize opts)) rounds)
      (b\<lparr>bk_tasks := fst (RecoverExpiredFileGCTasks now locked now (RecoverLimit opts) (bk_tasks b))\<rparr>)"

section \<open>The retry delay\<close>

lemma double_until_closed:
  assumes "0 < bound" "0 < delay"
  shows "min bound (double_until n bound delay) = min bound (delay * 2 ^ n)"
  using assms(2)
proof (induction n arbitrary: delay)
  case (Suc n)
  show ?case
  proof (cases "delay < bound")
    case True
    then show ?thesis using Suc.IH [of "delay * 2"] Suc.prems by (simp add: mult.assoc)
  next
    case False
    then have "bound \<le> delay * 2 ^ Suc n" using Suc.prems by (smt (verit) mult_le_cancel_left1 one_le_power)
    with False show ?thesis by simp
  qed
qed simp

text \<open>No intermediate value reaches twice the bound, so the multiplication cannot overflow for bounds below \<open>2 ^ 62\<close> ns.\<close>

lemma double_until_bounded: "delay < bound \<Longrightarrow> 0 < delay \<Longrightarrow> double_until n bound delay < 2 * bound"
proof (induction n arbitrary: delay)
  case (Suc n)
  show ?case
  proof (cases "delay * 2 < bound")
    case True
    then show ?thesis using Suc by simp
  next
    case False
    then have "double_until n bound (delay * 2) = delay * 2" by (cases n) simp_all
    with Suc.prems show ?thesis by simp
  qed
qed simp

text \<open>
  the delay before a retry doubles with every attempt, from the base delay up to the maximum, and
  never overshoots it: it is the minimum of the maximum and \<open>base * 2 ^ (attempt - 1)\<close>.
\<close>
theorem retry_delay_exponential:
  assumes "1 < attempt" and "0 < base" and "0 < bound"
  shows "fileGCRetryDelay attempt base bound = min bound (base * 2 ^ nat (attempt - 1))"
proof -
  have "fileGCRetryDelay attempt base bound = min bound (double_until (nat (attempt - 1)) bound base)"
    using assms by (simp add: fileGCRetryDelay_def or_default_def Let_def)
  with double_until_closed [OF assms(3,2)] show ?thesis by simp
qed

theorem retry_delay_exponential_witness:
  "fileGCRetryDelay 4 2000 120000 = 16000 \<and> fileGCRetryDelay 40 2000 120000 = 120000"
  using retry_delay_exponential [of 4 2000 120000] retry_delay_exponential [of 40 2000 120000] by simp

section \<open>A deleted object is never forgotten\<close>

text \<open>
  Several workers on one queue. A worker holds the copies of the tasks it claimed; it processes a task any
  number of times and finishes it with the outcome of a processing of that copy.
\<close>

record worker_sys =
  ws_backend :: gc_backend
  ws_claimed :: "file_gc_task list"
  ws_done :: "(file_gc_task \<times> gc_fail option) list"

datatype worker_event =
    WEnqueue int file_gc_task
  | WClaim int "string list" string int
  | WProcess bool bool int file_gc_task
  | WFinish worker_options int file_gc_task "gc_fail option"
  | WRecover int "string list" int

definition on_tasks :: "(file_gc_task list \<Rightarrow> file_gc_task list) \<Rightarrow> worker_sys \<Rightarrow> worker_sys" where
  "on_tasks f s = s\<lparr>ws_backend := (ws_backend s)\<lparr>bk_tasks := f (bk_tasks (ws_backend s))\<rparr>\<rparr>"

fun worker_step :: "(string \<Rightarrow> string) \<Rightarrow> worker_event \<Rightarrow> worker_sys \<Rightarrow> worker_sys" where
  "worker_step sha (WEnqueue clock task) s = on_tasks (gc_step (GEnqueue clock task)) s"
| "worker_step sha (WClaim now locked receipt dur) s =
    (let (rows, ot) = ClaimFileGCTask now locked receipt now dur (bk_tasks (ws_backend s)) in
     (on_tasks (\<lambda>_. rows) s)\<lparr>ws_claimed := (case ot of None \<Rightarrow> ws_claimed s | Some task \<Rightarrow> task # ws_claimed s)\<rparr>)"
| "worker_step sha (WProcess up_quota up_cands now task) s =
    (if task \<notin> set (ws_claimed s) then s
     else let (b, res) = processFileGCTask sha up_quota up_cands now task (ws_backend s) in
       s\<lparr>ws_backend := b, ws_done := (task, res) # ws_done s\<rparr>)"
| "worker_step sha (WFinish opts now task res) s =
    (if (task, res) \<notin> set (ws_done s) then s else on_tasks (finishFileGCTask opts now task res) s)"
| "worker_step sha (WRecover now locked limit) s = on_tasks (\<lambda>rows. fst (RecoverExpiredFileGCTasks now locked now limit rows)) s"

text \<open>One round of a worker is a sequence of these steps.\<close>

lemma processOne_steps:
  assumes "processOneFileGCTask sha opts up_quota up_cands locked receipt now (ws_backend s) = (b, True)"
  shows "\<exists>task res. ws_backend (foldl (\<lambda>s e. worker_step sha e s) s
    [WClaim now locked receipt (LeaseDuration opts), WProcess up_quota up_cands now task, WFinish opts now task res]) = b"
proof -
  obtain rows ot where c: "ClaimFileGCTask now locked receipt now (LeaseDuration opts) (bk_tasks (ws_backend s)) = (rows, ot)"
    by (meson surj_pair)
  then obtain task where ot: "ot = Some task" using assms by (auto simp: processOneFileGCTask_def split: option.splits)
  obtain b1 res where p: "processFileGCTask sha up_quota up_cands now task ((ws_backend s)\<lparr>bk_tasks := rows\<rparr>) = (b1, res)"
    by (meson surj_pair)
  have "ws_backend (foldl (\<lambda>s e. worker_step sha e s) s
    [WClaim now locked receipt (LeaseDuration opts), WProcess up_quota up_cands now task, WFinish opts now task res]) = b"
    using assms by (simp add: c ot p on_tasks_def processOneFileGCTask_def)
  then show ?thesis by blast
qed

definition worker_ok :: "worker_event \<Rightarrow> bool" where
  "worker_ok e = (case e of WEnqueue clock task \<Rightarrow> fresh_task task | _ \<Rightarrow> True)"

definition has_cand :: "(string \<Rightarrow> string) \<Rightarrow> string \<Rightarrow> worker_sys \<Rightarrow> bool" where
  "has_cand sha ref s = mem_key (g_cands (bk_world (ws_backend s))) (bk_namespace (ws_backend s), StorageRefHash sha ref)"

definition s3_task :: "string \<Rightarrow> file_gc_task \<Rightarrow> bool" where
  "s3_task ref t \<longleftrightarrow> StorageType t = ''s3'' \<and> StorageRef t = ref"

definition tracked :: "(string \<Rightarrow> string) \<Rightarrow> string \<Rightarrow> string \<Rightarrow> worker_sys \<Rightarrow> bool" where
  "tracked sha i ref s \<longleftrightarrow> table_ok (bk_tasks (ws_backend s)) \<and>
    (has_cand sha ref s \<or>
     (\<exists>r. row_of (bk_tasks (ws_backend s)) i = Some r \<and> pending r \<and> s3_task ref r) \<and>
     (\<forall>t\<in>set (ws_claimed s). TaskID t = i \<longrightarrow> s3_task ref t) \<and>
     (\<forall>(t, res)\<in>set (ws_done s). TaskID t = i \<longrightarrow> res \<noteq> None))"

lemma enqueue_has_cand:
  assumes "EnqueueObjectGCCandidate now ns ref h reason src fid nb w = Inr w'"
  shows "mem_key (g_cands w') (ns, h)" and "mem_key (g_cands w) k \<Longrightarrow> mem_key (g_cands w') k"
  using assms by (auto simp: EnqueueObjectGCCandidate_def Let_def split: if_splits)

lemma process_effects:
  assumes "processFileGCTask sha up_quota up_cands now task b = (b', res)"
  shows "bk_tasks b' = bk_tasks b" "bk_namespace b' = bk_namespace b"
    "mem_key (g_cands (bk_world b)) k \<Longrightarrow> mem_key (g_cands (bk_world b')) k"
    "res = None \<Longrightarrow> s3_task ref task \<Longrightarrow> ref \<noteq> '''' \<Longrightarrow> mem_key (g_cands (bk_world b')) (bk_namespace b, StorageRefHash sha ref)"
  using assms
  by (auto simp: processFileGCTask_def Let_def s3_task_def enqueueObjectGCCandidateCtx_def
      split: sum.splits if_splits prod.splits bool.splits dest: enqueue_has_cand)

lemma on_tasks_simps [simp]:
  "bk_tasks (ws_backend (on_tasks f s)) = f (bk_tasks (ws_backend s))" "has_cand sha ref (on_tasks f s) = has_cand sha ref s"
  "ws_claimed (on_tasks f s) = ws_claimed s" "ws_done (on_tasks f s) = ws_done s"
  by (simp_all add: on_tasks_def has_cand_def)

lemma tracked_queue:
  assumes t: "tracked sha i ref s" and v: "gc_valid e" and ack: "\<forall>clock c. e \<noteq> GAck clock i c \<or> has_cand sha ref s"
  shows "tracked sha i ref (on_tasks (gc_step e) s)"
proof -
  let ?q = "bk_tasks (ws_backend s)"
  have ok: "table_ok ?q" using t by (simp add: tracked_def)
  show ?thesis
  proof (cases "has_cand sha ref s")
    case True
    then show ?thesis using gc_step_ok [OF ok v] by (simp add: tracked_def)
  next
    case False
    then obtain r where r: "row_of ?q i = Some r" "pending r" "s3_task ref r" using t by (auto simp: tracked_def)
    have "\<exists>r'. row_of (gc_step e ?q) i = Some r' \<and> pending r' \<and> s3_task ref r'"
      using gc_pending_step [OF ok r(1,2), of e] ack False r(3) by (auto simp: s3_task_def)
    then show ?thesis using t False gc_step_ok [OF ok v] by (simp add: tracked_def)
  qed
qed

lemma finish_queue:
  "finishFileGCTask opts now task res rows = gc_step
    (case res of None \<Rightarrow> GAck now (TaskID task) (text_of (Receipt task))
     | Some e \<Rightarrow> GRetry now (TaskID task) (text_of (Receipt task))
         (now + fileGCRetryDelay (AttemptCount task) (RetryBase opts) (RetryMax opts)) (fail_text e)) rows"
  by (simp add: finishFileGCTask_def split: option.splits)

lemma claimed_row:
  assumes ok: "table_ok q" and c: "ClaimFileGCTask now locked receipt now dur q = (rows, Some task)"
  shows "\<exists>r. row_of q (TaskID task) = Some r \<and> StorageType task = StorageType r \<and> StorageRef task = StorageRef r"
proof -
  have c': "claim_task (\<lambda>_. True) locked receipt (or_clock now now) (lease_duration dur) q = (rows, Some task)"
    using c by (simp add: ClaimFileGCTask_def)
  show ?thesis
  proof (cases rule: claim_task_cases [OF ok c'])
    case (2 r)
    then have "row_of q (TaskID task) = Some r" using ok by (auto simp: table_ok_def intro: row_of_in_set)
    with 2 show ?thesis by (auto simp: lease_row_def)
  qed simp
qed

lemma worker_step_tracked:
  assumes t: "tracked sha i ref s" and v: "worker_ok e" and ref: "ref \<noteq> ''''"
  shows "tracked sha i ref (worker_step sha e s)"
proof (cases e)
  case (WEnqueue clock task)
  then show ?thesis using tracked_queue [OF t, of "GEnqueue clock task"] v by (simp add: worker_ok_def del: gc_step.simps)
next
  case (WRecover now locked limit)
  then show ?thesis using tracked_queue [OF t, of "GRecover now locked now limit"] by (simp add: gc_step.simps [abs_def])
next
  case (WFinish opts now task res)
  show ?thesis
  proof (cases "(task, res) \<in> set (ws_done s)")
    case True
    have "\<forall>clock c. (case res of None \<Rightarrow> GAck now (TaskID task) (text_of (Receipt task))
        | Some e \<Rightarrow> GRetry now (TaskID task) (text_of (Receipt task))
            (now + fileGCRetryDelay (AttemptCount task) (RetryBase opts) (RetryMax opts)) (fail_text e)) \<noteq> GAck clock i c \<or> has_cand sha ref s"
      using t True by (auto simp: tracked_def split: option.splits)
    from tracked_queue [OF t _ this] True show ?thesis
      by (simp add: WFinish finish_queue [abs_def] del: gc_step.simps split: option.splits)
  qed (simp add: WFinish t)
next
  case (WProcess up_quota up_cands now task)
  obtain b res where p: "processFileGCTask sha up_quota up_cands now task (ws_backend s) = (b, res)" by (meson surj_pair)
  note eff = process_effects [OF p]
  show ?thesis
  proof (cases "task \<in> set (ws_claimed s)")
    case True
    let ?s = "s\<lparr>ws_backend := b, ws_done := (task, res) # ws_done s\<rparr>"
    have keep: "has_cand sha ref s \<Longrightarrow> has_cand sha ref ?s" using eff(2,3) by (simp add: has_cand_def)
    have new: "has_cand sha ref ?s" if "res = None" "s3_task ref task" using eff(2,4) that ref by (simp add: has_cand_def)
    have "tracked sha i ref ?s"
      using t keep new True by (cases res) (auto simp: tracked_def eff(1))
    then show ?thesis by (simp add: WProcess True p)
  qed (simp add: WProcess t)
next
  case (WClaim now locked receipt dur)
  let ?q = "bk_tasks (ws_backend s)"
  obtain rows ot where c: "ClaimFileGCTask now locked receipt now dur ?q = (rows, ot)" by (meson surj_pair)
  have q: "tracked sha i ref (on_tasks (\<lambda>_. rows) s)"
    using tracked_queue [OF t, of "GClaim now locked receipt now dur"] c by (simp add: on_tasks_def)
  show ?thesis
  proof (cases ot)
    case None
    then show ?thesis using q by (simp add: WClaim c) (simp add: tracked_def on_tasks_def has_cand_def)
  next
    case (Some task)
    have "has_cand sha ref s \<or> (TaskID task = i \<longrightarrow> s3_task ref task)"
      using t claimed_row [of ?q now locked receipt dur rows task] c Some by (auto simp: tracked_def s3_task_def)
    then show ?thesis using q by (simp add: WClaim c Some) (auto simp: tracked_def on_tasks_def has_cand_def)
  qed
qed

text \<open>
  C12: the object of a deleted file is never forgotten. A clean-up task for an S3 object stays pending until the
  object is recorded as a candidate of the collector, whatever any number of workers claim, process, lose to
  an expired lease, retry or acknowledge, with the control plane failing at any point.
\<close>
theorem deleted_object_tracked:
  assumes "table_ok (bk_tasks b)" and "row_of (bk_tasks b) i = Some r" and "pending r"
    and "StorageType r = ''s3''" and "StorageRef r \<noteq> ''''" and "list_all worker_ok es"
    and "s = foldl (\<lambda>s e. worker_step sha e s) \<lparr>ws_backend = b, ws_claimed = [], ws_done = []\<rparr> es"
  shows "has_cand sha (StorageRef r) s \<or>
    (\<exists>r'. row_of (bk_tasks (ws_backend s)) i = Some r' \<and> pending r' \<and> StorageRef r' = StorageRef r)"
proof -
  have "tracked sha i (StorageRef r) (foldl (\<lambda>s e. worker_step sha e s) s0 es)" if "tracked sha i (StorageRef r) s0" for s0
    using that assms(6) by (induction es arbitrary: s0) (use assms(5) in \<open>auto intro: worker_step_tracked simp del: worker_step.simps\<close>)
  moreover have "tracked sha i (StorageRef r) \<lparr>ws_backend = b, ws_claimed = [], ws_done = []\<rparr>"
    using assms(1-4) by (simp add: tracked_def s3_task_def)
  ultimately have "tracked sha i (StorageRef r) s" using assms(7) by blast
  then show ?thesis by (auto simp: tracked_def s3_task_def)
qed

definition sample_backend :: gc_backend where
  "sample_backend = \<lparr>bk_tenant = ''t'', bk_namespace = ''n'', bk_meta = True, bk_tasks = [sample_gc],
     bk_quota = \<lparr>configs = [], usages = [], metas = [], reservations = [], ledger = [], monthly = [], mutations = []\<rparr>,
     bk_world = \<lparr>g_tenants = [], g_namespaces = [], g_stores = [], g_cands = [], g_objects = []\<rparr>\<rparr>"

definition claimed_gc :: file_gc_task where
  "claimed_gc = lease_row ''c'' 5 300000 sample_gc"

definition worker_events :: "worker_event list" where
  "worker_events = [WClaim 5 [] ''c'' 300000, WProcess True False 6 claimed_gc, WProcess True True 7 claimed_gc,
     WFinish (normalize_options \<lparr>PollInterval = 0, LeaseDuration = 0, BatchSize = 0, RecoverLimit = 0, RetryBase = 0, RetryMax = 0\<rparr>)
       8 claimed_gc None]"

theorem deleted_object_tracked_witness:
  "has_cand (\<lambda>x. x) ''blobs/f'' (foldl (\<lambda>s e. worker_step (\<lambda>x. x) e s) \<lparr>ws_backend = sample_backend, ws_claimed = [], ws_done = []\<rparr> worker_events)"
proof -
  let ?s = "foldl (\<lambda>s e. worker_step (\<lambda>x. x) e s) \<lparr>ws_backend = sample_backend, ws_claimed = [], ws_done = []\<rparr> worker_events"
  have ok: "table_ok (bk_tasks sample_backend)" "row_of (bk_tasks sample_backend) ''f'' = Some sample_gc" "list_all worker_ok worker_events"
      "pending sample_gc" "StorageType sample_gc = ''s3''" "StorageRef sample_gc \<noteq> ''''"
    by code_simp+
  have "map_option Status (row_of (bk_tasks (ws_backend ?s)) ''f'') = Some Succeeded" by code_simp
  then show ?thesis
    using deleted_object_tracked [OF ok(1,2,4,5,6,3) refl, of "\<lambda>x. x"] by (auto simp: pending_def) (simp add: sample_gc_def)
qed

end
