(* ===== verification/Go_Text.thy ===== *)
theory Go_Text
  imports Go_Strings "HOL-Library.Product_Lexorder" "HOL-Library.List_Lexorder" "HOL-Library.Char_ord"
begin

text \<open>
  More of Go's standard library on text: the runes of a byte string, \<^verbatim>\<open>strings.ToLower\<close>,
  \<^verbatim>\<open>strings.Cut\<close>, \<^verbatim>\<open>strconv.Itoa\<close>, the anchored character-class patterns that the sources compile with
  package \<^verbatim>\<open>regexp\<close>, and the loop that drops repeated strings before \<^verbatim>\<open>sort.Strings\<close>. Trimming white
  space is idempotent and leaves a text of printable ASCII characters alone.
\<close>

section \<open>Runes\<close>

text \<open>The bytes of the first rune, 0 if the string does not start with a well-formed one: the
  shortest well-formed prefix of at most four bytes.\<close>

definition rune_len :: "string \<Rightarrow> nat" where
  "rune_len s = (case filter (\<lambda>n. n \<le> length s \<and> utf8_valid (take n s)) [1, 2, 3, 4] of [] \<Rightarrow> 0 | n # _ \<Rightarrow> n)"

text \<open>The pieces a \<^verbatim>\<open>range\<close> loop over a string visits: its runes, and single bytes where it is
  ill-formed.\<close>

function runes :: "string \<Rightarrow> string list" where
  "runes [] = []"
| "runes (c # s) =
    (let n = max 1 (rune_len (c # s)) in take n (c # s) # runes (drop n (c # s)))"
  by pat_completeness auto
termination by (relation "measure length") (auto simp: max_def)

declare runes.simps(2) [simp del]

definition ascii :: "char \<Rightarrow> bool" where
  "ascii c \<longleftrightarrow> (of_char c :: nat) < 128"

definition lower_char :: "char \<Rightarrow> char" where
  "lower_char c = (if in_range c 65 90 then char_of ((of_char c :: nat) + 32) else c)"

text \<open>\<^verbatim>\<open>strings.ToLower\<close>. The case table of Unicode for the runes outside ASCII is an argument.\<close>

definition ToLower :: "(string \<Rightarrow> string) \<Rightarrow> string \<Rightarrow> string" where
  "ToLower table s =
    concat (map (\<lambda>r. case r of [c] \<Rightarrow> (if ascii c then [lower_char c] else table r) | _ \<Rightarrow> table r) (runes s))"

text \<open>What \<^verbatim>\<open>encoding/json\<close> makes of a string: a byte that is not part of a rune becomes U+FFFD.\<close>

definition replacement :: string where
  "replacement = [char_of (0xEF :: nat), char_of (0xBF :: nat), char_of (0xBD :: nat)]"

definition to_valid :: "string \<Rightarrow> string" where
  "to_valid s = concat (map (\<lambda>r. if utf8_valid r then r else replacement) (runes s))"

section \<open>Cutting, numbers, patterns\<close>

text \<open>\<^verbatim>\<open>strings.Cut\<close> at a one-character separator.\<close>

definition Cut :: "string \<Rightarrow> char \<Rightarrow> (string \<times> string) option" where
  "Cut s c = (if c \<in> set s then Some (takeWhile (\<lambda>x. x \<noteq> c) s, tl (dropWhile (\<lambda>x. x \<noteq> c) s)) else None)"

fun digits :: "nat \<Rightarrow> string" where
  "digits n = (if n < 10 then [char_of (48 + n)] else digits (n div 10) @ [char_of (48 + n mod 10)])"

declare digits.simps [simp del]

definition Itoa :: "int \<Rightarrow> string" where
  "Itoa i = (if i < 0 then CHR ''-'' # digits (nat (- i)) else digits (nat i))"

definition is_lower :: "char \<Rightarrow> bool" where
  "is_lower c \<longleftrightarrow> in_range c 97 122"

definition is_digit :: "char \<Rightarrow> bool" where
  "is_digit c \<longleftrightarrow> in_range c 48 57"

text \<open>The patterns \<^verbatim>\<open>^[a-z][a-z0-9_.-]{0,n}$\<close>, and \<^verbatim>\<open>^[A-Za-z0-9_.-]{1,128}$\<close> with further characters.\<close>

definition word_char :: "char \<Rightarrow> bool" where
  "word_char c \<longleftrightarrow> is_lower c \<or> is_digit c \<or> c \<in> {CHR ''_'', CHR ''.'', CHR ''-''}"

definition word_pattern :: "nat \<Rightarrow> string \<Rightarrow> bool" where
  "word_pattern n s \<longleftrightarrow> s \<noteq> [] \<and> is_lower (hd s) \<and> list_all word_char (tl s) \<and> length (tl s) \<le> n"

definition id_pattern :: "char list \<Rightarrow> string \<Rightarrow> bool" where
  "id_pattern more s \<longleftrightarrow> s \<noteq> [] \<and> length s \<le> 128 \<and>
    list_all (\<lambda>c. word_char c \<or> in_range c 65 90 \<or> c \<in> set more) s"

text \<open>The loop with a \<^verbatim>\<open>seen\<close> set that keeps the first of the elements with the same fingerprint,
  and a loop that returns at the first error.\<close>

fun keep_first :: "('a \<Rightarrow> 'b) \<Rightarrow> 'b list \<Rightarrow> 'a list \<Rightarrow> 'a list" where
  "keep_first f seen [] = []"
| "keep_first f seen (x # xs) =
    (if f x \<in> set seen then keep_first f seen xs else x # keep_first f (f x # seen) xs)"

definition sorted_set :: "('a::linorder \<Rightarrow> 'b) \<Rightarrow> 'a list \<Rightarrow> 'a list" where
  "sorted_set f xs = sort (keep_first f [] xs)"

primrec try_map :: "('a \<Rightarrow> 'e + 'b) \<Rightarrow> 'a list \<Rightarrow> 'e + 'b list" where
  "try_map f [] = Inr []"
| "try_map f (x # xs) = tx_bind (f x) (\<lambda>y. tx_bind (try_map f xs) (\<lambda>ys. Inr (y # ys)))"

section \<open>Algebra\<close>

lemma set_keep_first: "inj_on f (set xs) \<Longrightarrow> set (keep_first f seen xs) = {x \<in> set xs. f x \<notin> set seen}"
proof (induction f seen xs rule: keep_first.induct)
  case (2 f seen x xs)
  then show ?case by (auto simp: inj_on_def)
qed simp

lemma keep_first_subset: "x \<in> set (keep_first f seen xs) \<Longrightarrow> x \<in> set xs \<and> f x \<notin> set seen"
  by (induction f seen xs rule: keep_first.induct) (auto split: if_splits)

lemma distinct_keep_first: "distinct (map f (keep_first f seen xs))"
  by (induction f seen xs rule: keep_first.induct) (auto dest: keep_first_subset)

lemma keep_first_id: "distinct (map f xs) \<Longrightarrow> f ` set xs \<inter> set seen = {} \<Longrightarrow> keep_first f seen xs = xs"
  by (induction f seen xs rule: keep_first.induct) auto

lemma set_sorted_set: "inj_on f (set xs) \<Longrightarrow> set (sorted_set f xs) = set xs"
  by (simp add: sorted_set_def set_keep_first)

lemma sorted_set_subset: "x \<in> set (sorted_set f xs) \<Longrightarrow> x \<in> set xs"
  by (auto simp: sorted_set_def dest: keep_first_subset)

lemma sorted_sorted_set [simp]: "sorted (sorted_set f xs)"
  by (simp add: sorted_set_def)

lemma distinct_sorted_set [simp]: "distinct (sorted_set f xs)"
  using distinct_keep_first [of f "[]" xs] by (simp add: sorted_set_def distinct_map)

lemma sorted_set_id: "sorted xs \<Longrightarrow> distinct xs \<Longrightarrow> inj_on f (set xs) \<Longrightarrow> sorted_set f xs = xs"
  by (simp add: sorted_set_def keep_first_id distinct_map sorted_sort_id)

lemma sorted_set_cong: "set xs = set ys \<Longrightarrow> inj_on f (set xs) \<Longrightarrow> sorted_set f xs = sorted_set f ys"
  by (rule sorted_distinct_set_unique) (simp_all add: set_sorted_set)

lemma try_map_Inr: "try_map f xs = Inr ys \<longleftrightarrow> list_all2 (\<lambda>x y. f x = Inr y) xs ys"
proof (induction xs arbitrary: ys)
  case (Cons x xs)
  then show ?case by (cases "f x"; cases "try_map f xs") (auto simp: tx_bind_def list_all2_Cons1)
qed auto

lemma Cut_append: "c \<notin> set s \<Longrightarrow> Cut (s @ c # t) c = Some (s, t)"
  by (induction s) (auto simp: Cut_def split: if_splits)

lemma Cut_Some: "Cut s c = Some (a, b) \<Longrightarrow> s = a @ c # b \<and> c \<notin> set a"
proof -
  assume a: "Cut s c = Some (a, b)"
  then have m: "c \<in> set s" and ab: "a = takeWhile (\<lambda>x. x \<noteq> c) s" "b = tl (dropWhile (\<lambda>x. x \<noteq> c) s)"
    by (auto simp: Cut_def split: if_splits)
  then have ne: "dropWhile (\<lambda>x. x \<noteq> c) s \<noteq> []" by (simp add: dropWhile_eq_Nil_conv)
  have "hd (dropWhile (\<lambda>x. x \<noteq> c) s) = c" using hd_dropWhile [OF ne] by simp
  then have "dropWhile (\<lambda>x. x \<noteq> c) s = c # b" using ne ab by (metis list.collapse)
  then have "s = a @ c # b" using takeWhile_dropWhile_id [of "\<lambda>x. x \<noteq> c" s] ab(1) by simp
  moreover have "c \<notin> set a" using ab(1) by (auto dest: set_takeWhileD)
  ultimately show ?thesis by simp
qed

subsection \<open>White space\<close>

definition white1 :: "char \<Rightarrow> bool" where
  "white1 a \<longleftrightarrow> of_char a \<in> ({9..13} \<union> {32} :: nat set)"

definition white2 :: "char \<Rightarrow> char \<Rightarrow> bool" where
  "white2 a b \<longleftrightarrow> [of_char a, of_char b] \<in> {[194, 133], [194, 160 :: nat]}"

definition white3 :: "char \<Rightarrow> char \<Rightarrow> char \<Rightarrow> bool" where
  "white3 a b c \<longleftrightarrow> [of_char a, of_char b, of_char c] \<in>
    {[225, 154, 128], [226, 128, 168], [226, 128, 169], [226, 128, 175], [226, 129, 159], [227, 128, 128 :: nat]}
    \<or> [of_char a, of_char b] = [226, 128 :: nat] \<and> of_char c \<in> ({128..138} :: nat set)"

lemma white_rune_simps:
  "white_rune [] = 0"
  "white_rune [a] = (if white1 a then 1 else 0)"
  "white_rune [a, b] = (if white1 a then 1 else if white2 a b then 2 else 0)"
  "white_rune (a # b # c # s) = (if white1 a then 1 else if white2 a b then 2 else if white3 a b c then 3 else 0)"
  unfolding white_rune_def Let_def white1_def white2_def white3_def by (auto simp del: of_char_eq_iff)

lemma list_cases4: "(s = [] \<Longrightarrow> P) \<Longrightarrow> (\<And>a. s = [a] \<Longrightarrow> P) \<Longrightarrow> (\<And>a b. s = [a, b] \<Longrightarrow> P) \<Longrightarrow>
    (\<And>a b c r. s = a # b # c # r \<Longrightarrow> P) \<Longrightarrow> P"
  by (metis list.exhaust)

lemma white_rune_le: "white_rune s \<le> length s"
  by (rule list_cases4 [of s]) (simp_all add: white_rune_simps)

lemma white_rune_prefix: "white_rune s \<noteq> 0 \<Longrightarrow> white_rune (s @ t) = white_rune s"
  by (rule list_cases4 [of s]; rule list_cases4 [of t]; simp add: white_rune_simps split: if_splits)

lemma blank_Nil [simp]: "blank []"
  by (simp add: blank.simps)

lemma blank_append: "blank s \<Longrightarrow> blank t \<Longrightarrow> blank (s @ t)"
proof (induction s rule: blank.induct)
  case (1 s)
  show ?case
  proof (cases "s = []")
    case False
    then have w: "white_rune s \<noteq> 0" and b: "blank (drop (white_rune s) s)"
      using "1.prems"(1) by (simp_all add: blank.simps [of s] split: if_splits)
    have "blank (drop (white_rune s) s @ t)" using "1.IH" [OF False w b "1.prems"(2)] .
    then show ?thesis
      using w white_rune_prefix [OF w, of t] white_rune_le [of s]
      by (subst blank.simps) (simp add: False)
  qed (use "1.prems" in simp)
qed

lemma TrimLeftSpace_Nil [simp]: "TrimLeftSpace [] = []"
  by (subst TrimLeftSpace.simps) simp

lemma TrimLeftSpace_white: "TrimLeftSpace s = [] \<or> white_rune (TrimLeftSpace s) = 0"
  by (induction s rule: TrimLeftSpace.induct) (subst (1 2) TrimLeftSpace.simps, auto)

lemma TrimLeftSpace_id: "white_rune s = 0 \<Longrightarrow> TrimLeftSpace s = s"
  by (subst TrimLeftSpace.simps) simp

text \<open>The cut at the right end: the shortest prefix with a blank rest.\<close>

definition cut_right :: "string \<Rightarrow> nat" where
  "cut_right t = hd (filter (\<lambda>n. blank (drop n t)) [0..<Suc (length t)])"

lemma cut_right: "blank (drop (cut_right t) t)" "cut_right t \<le> length t" "m < cut_right t \<Longrightarrow> \<not> blank (drop m t)"
proof -
  let ?F = "filter (\<lambda>n. blank (drop n t)) [0..<Suc (length t)]"
  have "length t \<in> set ?F" by simp
  then have ne: "?F \<noteq> []" by (metis empty_iff list.set(1))
  have m: "cut_right t \<in> set ?F" unfolding cut_right_def using ne by (rule hd_in_set)
  then show "blank (drop (cut_right t) t)" "cut_right t \<le> length t" by auto
  assume less: "m < cut_right t"
  show "\<not> blank (drop m t)"
  proof
    assume "blank (drop m t)"
    then have "m \<in> set ?F" using less \<open>cut_right t \<le> length t\<close> by auto
    moreover have "sorted ?F" by (simp add: sorted_wrt_filter del: upt_Suc)
    ultimately have "hd ?F \<le> m" using ne by (cases ?F) (auto simp del: upt_Suc)
    with less show False by (simp add: cut_right_def del: upt_Suc)
  qed
qed

lemma TrimSpace_eq: "TrimSpace s = take (cut_right (TrimLeftSpace s)) (TrimLeftSpace s)"
  by (simp add: TrimSpace_def cut_right_def Let_def)

lemma TrimSpace_fixed:
  assumes "white_rune t = 0" and "cut_right t = length t"
  shows "TrimSpace t = t"
  by (simp add: TrimSpace_eq TrimLeftSpace_id assms)

lemma TrimSpace_trimmed: "white_rune (TrimSpace s) = 0" "cut_right (TrimSpace s) = length (TrimSpace s)"
proof -
  define t where "t = TrimLeftSpace s"
  define n where "n = cut_right t"
  have ts: "TrimSpace s = take n t" by (simp add: TrimSpace_eq t_def n_def)
  have n: "n \<le> length t" "blank (drop n t)" using cut_right(1,2) [of t] by (auto simp: n_def)
  show "white_rune (TrimSpace s) = 0"
  proof (rule ccontr)
    assume "white_rune (TrimSpace s) \<noteq> 0"
    then have "white_rune (take n t @ drop n t) \<noteq> 0" using white_rune_prefix ts by metis
    then have "white_rune t \<noteq> 0" by simp
    then have "t = []" using TrimLeftSpace_white [of s] by (auto simp: t_def)
    then show False using \<open>white_rune t \<noteq> 0\<close> by (simp add: white_rune_def)
  qed
  show "cut_right (TrimSpace s) = length (TrimSpace s)"
  proof (rule ccontr)
    let ?m = "cut_right (take n t)"
    assume "cut_right (TrimSpace s) \<noteq> length (TrimSpace s)"
    then have m: "?m < n" using cut_right(2) [of "take n t"] n(1) by (simp add: ts)
    have "blank (drop ?m (take n t) @ drop n t)" using blank_append [OF cut_right(1) n(2)] .
    moreover have "drop ?m (take n t) @ drop n t = drop ?m t"
      using m n(1) by (metis append_take_drop_id drop_append diff_is_0_eq' drop_0 length_take less_imp_le_nat min.absorb2)
    ultimately show False using cut_right(3) [of ?m t] m by (simp add: n_def)
  qed
qed

lemma TrimSpace_TrimSpace [simp]: "TrimSpace (TrimSpace s) = TrimSpace s"
  by (rule TrimSpace_fixed) (rule TrimSpace_trimmed)+

lemma TrimSpace_Nil [simp]: "TrimSpace [] = []"
  by (simp add: TrimSpace_eq)

subsection \<open>Well-formed text\<close>

text \<open>The four shapes of a rune.\<close>

definition rune2 :: "char \<Rightarrow> char \<Rightarrow> bool" where
  "rune2 a b \<longleftrightarrow> in_range a 0xC2 0xDF \<and> is_cont b"

definition rune3 :: "char \<Rightarrow> char \<Rightarrow> char \<Rightarrow> bool" where
  "rune3 a b c \<longleftrightarrow>
    ((in_range a 0xE0 0xE0 \<and> in_range b 0xA0 0xBF) \<or> (in_range a 0xED 0xED \<and> in_range b 0x80 0x9F) \<or>
     ((in_range a 0xE1 0xEC \<or> in_range a 0xEE 0xEF) \<and> is_cont b)) \<and> is_cont c"

definition rune4 :: "char \<Rightarrow> char \<Rightarrow> char \<Rightarrow> char \<Rightarrow> bool" where
  "rune4 a b c d \<longleftrightarrow>
    ((in_range a 0xF0 0xF0 \<and> in_range b 0x90 0xBF) \<or> (in_range a 0xF4 0xF4 \<and> in_range b 0x80 0x8F) \<or>
     (in_range a 0xF1 0xF3 \<and> is_cont b)) \<and> is_cont c \<and> is_cont d"

lemma ascii_in_range: "in_range a 0 0x7F \<longleftrightarrow> ascii a"
  by (auto simp: in_range_def ascii_def)

lemma utf8_valid_shapes:
  "utf8_valid [a] \<longleftrightarrow> ascii a"
  "utf8_valid [a, b] \<longleftrightarrow> ascii a \<and> ascii b \<or> rune2 a b"
  "utf8_valid [a, b, c] \<longleftrightarrow> ascii a \<and> utf8_valid [b, c] \<or> rune2 a b \<and> ascii c \<or> rune3 a b c"
  "utf8_valid (a # b # c # d # r) \<longleftrightarrow> ascii a \<and> utf8_valid (b # c # d # r) \<or> rune2 a b \<and> utf8_valid (c # d # r) \<or>
     rune3 a b c \<and> utf8_valid (d # r) \<or> rune4 a b c d \<and> utf8_valid r"
  by (simp_all add: ascii_in_range rune2_def rune3_def rune4_def conj_assoc)

declare utf8_valid.simps(2-5) [simp del]

text \<open>The first byte tells the shape.\<close>

lemma rune_shapes_disjoint:
  "rune2 a b \<Longrightarrow> \<not> ascii a" "rune3 a b c \<Longrightarrow> \<not> ascii a" "rune4 a b c d \<Longrightarrow> \<not> ascii a"
  "rune3 a b c \<Longrightarrow> \<not> rune2 a b'" "rune4 a b c d \<Longrightarrow> \<not> rune2 a b'" "rune4 a b c d \<Longrightarrow> \<not> rune3 a b' c'"
  by (auto simp: ascii_def rune2_def rune3_def rune4_def in_range_def)

lemma rune_not_ascii:
  "rune2 a b \<Longrightarrow> \<not> ascii b" "rune3 a b c \<Longrightarrow> \<not> ascii b" "rune3 a b c \<Longrightarrow> \<not> ascii c"
  "rune4 a b c d \<Longrightarrow> \<not> ascii b" "rune4 a b c d \<Longrightarrow> \<not> ascii c" "rune4 a b c d \<Longrightarrow> \<not> ascii d"
  by (auto simp: ascii_def rune2_def rune3_def rune4_def in_range_def is_cont_def Let_def)

lemma utf8_valid_Cons:
  assumes "utf8_valid s" and "s \<noteq> []"
  obtains (one) a r where "s = a # r" "ascii a" "utf8_valid r" "rune_len s = 1"
  | (two) a b r where "s = a # b # r" "rune2 a b" "utf8_valid r" "rune_len s = 2"
  | (three) a b c r where "s = a # b # c # r" "rune3 a b c" "utf8_valid r" "rune_len s = 3"
  | (four) a b c d r where "s = a # b # c # d # r" "rune4 a b c d" "utf8_valid r" "rune_len s = 4"
proof -
  consider a where "s = [a]" | a b where "s = [a, b]" | a b c where "s = [a, b, c]"
    | a b c d r where "s = a # b # c # d # r"
    using assms(2) by (metis list.exhaust)
  then show thesis
  proof cases
    case (1 a)
    then show thesis using assms(1) by (intro one [of a "[]"]) (auto simp: utf8_valid_shapes rune_len_def)
  next
    case (2 a b)
    show thesis
    proof (cases "ascii a")
      case True
      then show thesis using assms(1) 2 by (intro one [of a "[b]"]) (auto simp: utf8_valid_shapes rune_len_def dest: rune_shapes_disjoint)
    next
      case False
      then show thesis using assms(1) 2 by (intro two [of a b "[]"]) (auto simp: utf8_valid_shapes rune_len_def)
    qed
  next
    case (3 a b c)
    then consider "ascii a" "utf8_valid [b, c]" | "rune2 a b" "ascii c" | "rune3 a b c"
      using assms(1) by (auto simp: utf8_valid_shapes(3))
    then show thesis
    proof cases
      case a: 1
      then show thesis using 3 by (intro one [of a "[b, c]"]) (simp_all add: utf8_valid_shapes(1) rune_len_def)
    next
      case a: 2
      then show thesis using 3
        by (intro two [of a b "[c]"]) (simp_all add: utf8_valid_shapes(1,2) rune_len_def rune_shapes_disjoint)
    next
      case a: 3
      then show thesis using 3
        by (intro three [of a b c "[]"]) (simp_all add: utf8_valid_shapes(1,2,3) rune_len_def rune_shapes_disjoint)
    qed
  next
    case (4 a b c d r)
    then consider "ascii a" "utf8_valid (b # c # d # r)" | "rune2 a b" "utf8_valid (c # d # r)"
      | "rune3 a b c" "utf8_valid (d # r)" | "rune4 a b c d" "utf8_valid r"
      using assms(1) by (auto simp: utf8_valid_shapes(4))
    then show thesis
    proof cases
      case a: 1
      then show thesis using 4 by (intro one [of a "b # c # d # r"]) (simp_all add: utf8_valid_shapes(1) rune_len_def)
    next
      case a: 2
      then show thesis using 4
        by (intro two [of a b "c # d # r"]) (simp_all add: utf8_valid_shapes(1,2) rune_len_def rune_shapes_disjoint)
    next
      case a: 3
      then show thesis using 4
        by (intro three [of a b c "d # r"]) (simp_all add: utf8_valid_shapes(1,2,3) rune_len_def rune_shapes_disjoint)
    next
      case a: 4
      then show thesis using 4
        by (intro four [of a b c d r]) (simp_all add: utf8_valid_shapes rune_len_def rune_shapes_disjoint)
    qed
  qed
qed

lemma runes_step: "s \<noteq> [] \<Longrightarrow> rune_len s \<noteq> 0 \<Longrightarrow> runes s = take (rune_len s) s # runes (drop (rune_len s) s)"
  by (cases s) (simp_all add: runes.simps(2) Let_def max_def)

text \<open>Induction along the runes of a well-formed text.\<close>

lemma utf8_induct [consumes 1, case_names Nil one two three four]:
  assumes "utf8_valid s"
    and "P []"
    and "\<And>a r. ascii a \<Longrightarrow> utf8_valid r \<Longrightarrow> runes (a # r) = [a] # runes r \<Longrightarrow> P r \<Longrightarrow> P (a # r)"
    and "\<And>a b r. rune2 a b \<Longrightarrow> utf8_valid r \<Longrightarrow> runes (a # b # r) = [a, b] # runes r \<Longrightarrow> P r \<Longrightarrow> P (a # b # r)"
    and "\<And>a b c r. rune3 a b c \<Longrightarrow> utf8_valid r \<Longrightarrow> runes (a # b # c # r) = [a, b, c] # runes r \<Longrightarrow> P r \<Longrightarrow> P (a # b # c # r)"
    and "\<And>a b c d r. rune4 a b c d \<Longrightarrow> utf8_valid r \<Longrightarrow> runes (a # b # c # d # r) = [a, b, c, d] # runes r \<Longrightarrow> P r \<Longrightarrow>
      P (a # b # c # d # r)"
  shows "P s"
  using assms(1)
proof (induction s rule: length_induct)
  case (1 s)
  show ?case
  proof (cases "s = []")
    case False
    with "1.prems" show ?thesis
    proof (cases rule: utf8_valid_Cons)
      case (one a r)
      then show ?thesis using "1.IH" runes_step [OF False] by (intro assms(3) [of a r, folded one(1)]) auto
    next
      case (two a b r)
      then show ?thesis using "1.IH" runes_step [OF False] by (intro assms(4) [of a b r, folded two(1)]) auto
    next
      case (three a b c r)
      then show ?thesis using "1.IH" runes_step [OF False] by (intro assms(5) [of a b c r, folded three(1)]) (auto simp: numeral_3_eq_3)
    next
      case (four a b c d r)
      then show ?thesis using "1.IH" runes_step [OF False]
        by (intro assms(6) [of a b c d r, folded four(1)]) (auto simp: eval_nat_numeral)
    qed
  qed (simp add: assms(2))
qed

lemma to_valid_id: "utf8_valid s \<Longrightarrow> to_valid s = s"
  by (induction s rule: utf8_induct) (simp_all add: to_valid_def utf8_valid_shapes ascii_in_range rune_shapes_disjoint)

lemma utf8_valid_ascii: "list_all ascii s \<Longrightarrow> utf8_valid s"
proof (induction s rule: length_induct)
  case (1 s)
  show ?case
  proof (rule list_cases4 [of s])
    fix a b c r assume s: "s = a # b # c # r"
    then show ?thesis using 1
      by (cases r) (auto simp: utf8_valid_shapes(3,4) ascii_in_range)
  qed (use "1.prems" in \<open>auto simp: utf8_valid_shapes\<close>)
qed

lemma runes_ascii: "list_all ascii s \<Longrightarrow> runes s = map (\<lambda>c. [c]) s"
proof (induction s)
  case (Cons c s)
  then have "rune_len (c # s) = 1" by (simp add: rune_len_def utf8_valid_shapes)
  then show ?case using Cons by (simp add: runes.simps(2) Let_def)
qed simp

lemma word_char_ascii: "word_char c \<Longrightarrow> ascii c"
  by (auto simp: word_char_def is_lower_def is_digit_def in_range_def ascii_def)

lemma word_char_lower: "word_char c \<Longrightarrow> lower_char c = c"
  by (auto simp: word_char_def is_lower_def is_digit_def in_range_def lower_char_def)

lemma word_patternD:
  assumes "word_pattern n s"
  shows "s \<noteq> []" "list_all word_char s" "list_all ascii s"
proof -
  show ne: "s \<noteq> []" using assms by (simp add: word_pattern_def)
  show w: "list_all word_char s" using assms ne by (cases s) (auto simp: word_pattern_def word_char_def)
  show "list_all ascii s" using w word_char_ascii by (auto simp: list_all_iff)
qed

lemma ToLower_word: "list_all word_char s \<Longrightarrow> ToLower lc s = s"
proof -
  assume w: "list_all word_char s"
  then have "list_all ascii s" using word_char_ascii by (auto simp: list_all_iff)
  moreover have "map lower_char s = s" using w by (induction s) (auto simp: word_char_lower)
  ultimately show ?thesis
    by (simp add: ToLower_def runes_ascii o_def list_all_iff cong: map_cong)
qed

text \<open>A text of visible ASCII characters is its own trimmed form.\<close>

definition visible :: "char \<Rightarrow> bool" where
  "visible c \<longleftrightarrow> in_range c 33 126"

lemma white_rune_visible: "s \<noteq> [] \<Longrightarrow> visible (hd s) \<Longrightarrow> white_rune s = 0"
  by (rule list_cases4 [of s])
    (auto simp: white_rune_simps white1_def white2_def white3_def visible_def in_range_def simp del: of_char_eq_iff)

lemma white_rune_bytes: "c \<in> set (take (white_rune s) s) \<Longrightarrow> \<not> visible c"
  by (rule list_cases4 [of s])
    (auto simp: white_rune_simps white1_def white2_def white3_def visible_def in_range_def numeral_2_eq_2 numeral_3_eq_3
      simp del: of_char_eq_iff split: if_splits)

lemma blank_visible: "blank s \<Longrightarrow> c \<in> set s \<Longrightarrow> \<not> visible c"
proof (induction s rule: blank.induct)
  case (1 s)
  then have ne: "s \<noteq> []" by auto
  with "1.prems"(1) have w: "white_rune s \<noteq> 0" and b: "blank (drop (white_rune s) s)"
    by (simp_all add: blank.simps [of s] split: if_splits)
  have "c \<in> set (take (white_rune s) s) \<or> c \<in> set (drop (white_rune s) s)"
    using "1.prems"(2) by (metis Un_iff append_take_drop_id set_append)
  then show ?case using "1.IH" [OF ne w b] white_rune_bytes by blast
qed

lemma TrimSpace_visible:
  assumes "list_all visible s"
  shows "TrimSpace s = s"
proof (cases "s = []")
  case False
  have "cut_right s = length s"
  proof (rule ccontr)
    assume "cut_right s \<noteq> length s"
    then have l: "cut_right s < length s" using cut_right(2) [of s] by simp
    then have "last s \<in> set (drop (cut_right s) s)" using False
      by (metis drop_eq_Nil last_drop last_in_set linorder_not_le)
    moreover have "visible (last s)" using assms False by (simp add: list_all_iff)
    ultimately show False using blank_visible cut_right(1) by blast
  qed
  moreover have "white_rune s = 0" using assms False by (cases s) (auto intro: white_rune_visible)
  ultimately show ?thesis by (intro TrimSpace_fixed)
qed simp

lemma word_char_visible: "word_char c \<Longrightarrow> visible c"
  by (auto simp: word_char_def is_lower_def is_digit_def in_range_def visible_def)

subsection \<open>Decimal numbers\<close>

definition undigits :: "string \<Rightarrow> nat" where
  "undigits s = foldl (\<lambda>n c. n * 10 + (of_char c - 48)) 0 s"

lemma of_char_digit: "d < 10 \<Longrightarrow> of_char (char_of (48 + d) :: char) = 48 + (d :: nat)"
  by simp

lemma undigits_digits: "undigits (digits n) = n"
proof (induction n rule: digits.induct)
  case (1 n)
  then show ?case
    by (subst digits.simps) (auto simp: undigits_def of_char_digit simp del: of_char_of)
qed

lemma digits_set: "c \<in> set (digits n) \<Longrightarrow> is_digit c"
proof (induction n rule: digits.induct)
  case (1 n)
  then show ?case by (subst (asm) (2) digits.simps) (auto simp: is_digit_def in_range_def split: if_splits)
qed

lemma digits_ne: "digits n \<noteq> []"
  by (subst digits.simps) simp

lemma Itoa_inj: "Itoa i = Itoa j \<Longrightarrow> i = j"
proof -
  assume e: "Itoa i = Itoa j"
  have hd: "digits n \<noteq> CHR ''-'' # s" for n s using digits_set [of "CHR ''-''" n] by (auto simp: is_digit_def in_range_def)
  have "nat (- i) = nat (- j)" if "i < 0" "j < 0"
    using e that undigits_digits by (metis Itoa_def list.inject)
  moreover have "nat i = nat j" if "\<not> i < 0" "\<not> j < 0"
    using e that undigits_digits by (metis Itoa_def)
  ultimately show ?thesis using e hd by (cases "i < 0"; cases "j < 0") (auto simp: Itoa_def dest: sym)
qed

subsection \<open>Replacing ill-formed bytes\<close>

lemma utf8_valid_ConsI:
  "ascii a \<Longrightarrow> utf8_valid r \<Longrightarrow> utf8_valid (a # r)"
  "rune2 a b \<Longrightarrow> utf8_valid r \<Longrightarrow> utf8_valid (a # b # r)"
  "rune3 a b c \<Longrightarrow> utf8_valid r \<Longrightarrow> utf8_valid (a # b # c # r)"
  "rune4 a b c d \<Longrightarrow> utf8_valid r \<Longrightarrow> utf8_valid (a # b # c # d # r)"
  by (rule list_cases4 [of r]; simp add: utf8_valid_shapes)+

lemma utf8_valid_append: "utf8_valid s \<Longrightarrow> utf8_valid t \<Longrightarrow> utf8_valid (s @ t)"
  by (induction s rule: utf8_induct) (simp_all add: utf8_valid_ConsI)

lemma utf8_valid_concat: "(\<And>s. s \<in> set ss \<Longrightarrow> utf8_valid s) \<Longrightarrow> utf8_valid (concat ss)"
  by (induction ss) (auto intro: utf8_valid_append)

lemma replacement_valid: "utf8_valid replacement"
  by code_simp

lemma to_valid_valid: "utf8_valid (to_valid s)"
  unfolding to_valid_def by (rule utf8_valid_concat) (auto simp: replacement_valid)

lemma to_valid_to_valid [simp]: "to_valid (to_valid s) = to_valid s"
  by (rule to_valid_id) (rule to_valid_valid)

subsection \<open>More on trimming\<close>

lemma blank_TrimLeft: "TrimLeftSpace s = [] \<Longrightarrow> blank s"
proof (induction s rule: TrimLeftSpace.induct)
  case (1 s)
  then show ?case by (subst blank.simps) (simp add: TrimLeftSpace.simps [of s] split: if_splits)
qed

lemma TrimSpace_blank: "TrimSpace s = [] \<Longrightarrow> blank s"
proof -
  assume a: "TrimSpace s = []"
  let ?t = "TrimLeftSpace s"
  have "cut_right ?t = 0 \<or> ?t = []" using a cut_right(2) [of ?t] by (auto simp: TrimSpace_eq)
  then have "blank ?t" using cut_right(1) [of ?t] by auto
  then have "?t = []" using TrimLeftSpace_white [of s] by (subst (asm) blank.simps) (auto split: if_splits)
  then show ?thesis by (rule blank_TrimLeft)
qed

lemma trimmedD: "TrimSpace s = s \<Longrightarrow> white_rune s = 0 \<and> cut_right s = length s"
  using TrimSpace_trimmed [of s] by simp

lemma trimmed_suffix: "TrimSpace (s @ t) = s @ t \<Longrightarrow> t \<noteq> [] \<Longrightarrow> \<not> blank t"
proof
  assume a: "TrimSpace (s @ t) = s @ t" "t \<noteq> []" "blank t"
  then have "cut_right (s @ t) = length (s @ t)" using trimmedD by blast
  moreover have "blank (drop (length s) (s @ t))" using a by simp
  ultimately show False using cut_right(3) [of "length s" "s @ t"] a(2) by simp
qed

lemma trimmed_append:
  assumes "s \<noteq> []" "list_all visible s" "TrimSpace t = t" "t \<noteq> []"
  shows "TrimSpace (s @ t) = s @ t"
proof (rule TrimSpace_fixed)
  show "white_rune (s @ t) = 0" using assms(1,2) by (intro white_rune_visible) (auto simp: list_all_iff)
  show "cut_right (s @ t) = length (s @ t)"
  proof (rule ccontr)
    assume "cut_right (s @ t) \<noteq> length (s @ t)"
    then have l: "cut_right (s @ t) < length (s @ t)" using cut_right(2) [of "s @ t"] by simp
    have b: "blank (drop (cut_right (s @ t)) (s @ t))" by (rule cut_right)
    show False
    proof (cases "cut_right (s @ t) < length s")
      case True
      then have "last s \<in> set (drop (cut_right (s @ t)) (s @ t))" using assms(1)
        by (metis Un_iff drop_append drop_eq_Nil last_drop last_in_set linorder_not_le set_append)
      moreover have "visible (last s)" using assms(1,2) by (simp add: list_all_iff)
      ultimately show False using blank_visible b by blast
    next
      case False
      then have "blank (drop (cut_right (s @ t) - length s) t)" using b by simp
      moreover have "cut_right (s @ t) - length s < cut_right t" using l False trimmedD [OF assms(3)] by simp
      ultimately show False using cut_right(3) by blast
    qed
  qed
qed

end
