(* ===== verification/Canonical_JSON.thy ===== *)
theory Canonical_JSON
  imports Go_Text
begin

text \<open>
  The canonical JSON of package \<^verbatim>\<open>journal\<close> (\<^verbatim>\<open>src/pkg/journal/journal.go\<close>): values as the decoder of
  \<^verbatim>\<open>encoding/json\<close> gives them with \<^verbatim>\<open>UseNumber\<close>, the string encoder of \<^verbatim>\<open>json.Marshal\<close>, and
  \<^verbatim>\<open>writeCanonicalJSON\<close>, which writes the keys of an object in sorted order. The canonical text
  determines the value up to the order of keys, and a value written in another key order has the
  same canonical text.
\<close>

datatype json = JNull | JBool bool | JNum string | JStr string | JArr "json list" | JObj "(string \<times> json) list"

section \<open>Strings and numbers of encoding/json\<close>

definition quote :: char where
  "quote = CHR 0x22"

definition backslash :: char where
  "backslash = CHR 0x5C"

definition hex_digit :: "nat \<Rightarrow> char" where
  "hex_digit n = char_of (if n < 10 then 48 + n else 87 + n)"

definition line_separator :: "nat \<Rightarrow> string" where
  "line_separator n = [char_of (0xE2 :: nat), char_of (0x80 :: nat), char_of n]"

definition escape_char :: "char \<Rightarrow> string" where
  "escape_char c =
    (if c = quote \<or> c = backslash then [backslash, c]
     else if c = CHR 0x08 then [backslash, CHR ''b'']
     else if c = CHR 0x0C then [backslash, CHR ''f'']
     else if c = CHR 0x0A then [backslash, CHR ''n'']
     else if c = CHR 0x0D then [backslash, CHR ''r'']
     else if c = CHR 0x09 then [backslash, CHR ''t'']
     else if in_range c 0 31 \<or> c \<in> {CHR ''<'', CHR ''>'', CHR ''&''}
     then backslash # ''u00'' @ [hex_digit (of_char c div 16), hex_digit (of_char c mod 16)]
     else [c])"

text \<open>\<^verbatim>\<open>json.Marshal\<close> of a string, rune by rune: quotes, controls, HTML characters and the line
  separators U+2028 and U+2029 are escaped, an ill-formed byte is written as U+FFFD.\<close>

definition escape :: "string \<Rightarrow> string" where
  "escape r =
    (case r of
       [c] \<Rightarrow> if ascii c then escape_char c else backslash # ''ufffd''
     | _ \<Rightarrow> if r = line_separator 0xA8 then backslash # ''u2028''
            else if r = line_separator 0xA9 then backslash # ''u2029'' else r)"

definition marshal_string :: "string \<Rightarrow> string" where
  "marshal_string s = quote # concat (map escape (runes s)) @ [quote]"

text \<open>\<^verbatim>\<open>json.Valid\<close> on a number.\<close>

definition skip_digits :: "string \<Rightarrow> string option" where
  "skip_digits s = (case s of [] \<Rightarrow> None | c # r \<Rightarrow> if is_digit c then Some (dropWhile is_digit r) else None)"

definition skip_int :: "string \<Rightarrow> string option" where
  "skip_int s = (case s of [] \<Rightarrow> None | c # r \<Rightarrow> if c = CHR ''0'' then Some r else skip_digits s)"

definition skip_frac :: "string \<Rightarrow> string option" where
  "skip_frac s = (case s of [] \<Rightarrow> Some [] | c # r \<Rightarrow> if c = CHR ''.'' then skip_digits r else Some s)"

definition skip_exp :: "string \<Rightarrow> string option" where
  "skip_exp s =
    (case s of [] \<Rightarrow> Some []
     | c # r \<Rightarrow> if c \<in> {CHR ''e'', CHR ''E''}
         then skip_digits (case r of [] \<Rightarrow> [] | d # t \<Rightarrow> if d \<in> {CHR ''+'', CHR ''-''} then t else r)
         else Some s)"

definition json_number :: "string \<Rightarrow> bool" where
  "json_number s \<longleftrightarrow>
    Option.bind (Option.bind (skip_int (case s of [] \<Rightarrow> [] | c # r \<Rightarrow> if c = CHR ''-'' then r else s)) skip_frac) skip_exp = Some []"

section \<open>The canonical writer\<close>

primrec numbers_ok :: "json \<Rightarrow> bool" where
  "numbers_ok JNull = True"
| "numbers_ok (JBool b) = True"
| "numbers_ok (JNum s) = json_number s"
| "numbers_ok (JStr s) = True"
| "numbers_ok (JArr vs) = list_all (\<lambda>b. b) (map numbers_ok vs)"
| "numbers_ok (JObj kvs) = list_all snd (map (map_prod id numbers_ok) kvs)"

primrec canonical_text :: "json \<Rightarrow> string" where
  "canonical_text JNull = ''null''"
| "canonical_text (JBool b) = (if b then ''true'' else ''false'')"
| "canonical_text (JNum s) = s"
| "canonical_text (JStr s) = marshal_string s"
| "canonical_text (JArr vs) = ''['' @ join_with (CHR '','') (map canonical_text vs) @ '']''"
| "canonical_text (JObj kvs) =
    ''{'' @ join_with (CHR '','') (map (\<lambda>(k, t). marshal_string k @ '':'' @ t)
      (sort_key fst (map (map_prod id canonical_text) kvs))) @ ''}''"

datatype json_error = BadNumber | BadJSON

definition writeCanonicalJSON :: "json \<Rightarrow> json_error + string" where
  "writeCanonicalJSON v = (if numbers_ok v then Inr (canonical_text v) else Inl BadNumber)"

text \<open>A \<^verbatim>\<open>json.RawMessage\<close>, by what the decoder reads in it: no bytes, only white space, a value, or
  something that is not one JSON value.\<close>

datatype raw = RawEmpty | RawBlank | RawValue json | RawBad

text \<open>The order in which the writer leaves the keys, everywhere in a value.\<close>

primrec sort_keys :: "json \<Rightarrow> json" where
  "sort_keys JNull = JNull"
| "sort_keys (JBool b) = JBool b"
| "sort_keys (JNum s) = JNum s"
| "sort_keys (JStr s) = JStr s"
| "sort_keys (JArr vs) = JArr (map sort_keys vs)"
| "sort_keys (JObj kvs) = JObj (sort_key fst (map (map_prod id sort_keys) kvs))"

definition CanonicalJSONRaw :: "raw \<Rightarrow> json_error + raw" where
  "CanonicalJSONRaw r =
    (case r of
       RawEmpty \<Rightarrow> Inr RawEmpty
     | RawBlank \<Rightarrow> Inr RawEmpty
     | RawBad \<Rightarrow> Inl BadJSON
     | RawValue v \<Rightarrow> tx_bind (writeCanonicalJSON v) (\<lambda>_. Inr (RawValue (sort_keys v))))"

text \<open>\<^verbatim>\<open>json.Marshal\<close> followed by the decoder: ill-formed bytes of strings are replaced.\<close>

primrec decoded :: "json \<Rightarrow> json" where
  "decoded JNull = JNull"
| "decoded (JBool b) = JBool b"
| "decoded (JNum s) = JNum s"
| "decoded (JStr s) = JStr (to_valid s)"
| "decoded (JArr vs) = JArr (map decoded vs)"
| "decoded (JObj kvs) = JObj (map (map_prod to_valid decoded) kvs)"

definition MarshalCanonical :: "json \<Rightarrow> json_error + string" where
  "MarshalCanonical v = writeCanonicalJSON (decoded v)"

definition HashCanonical :: "(string \<Rightarrow> string) \<Rightarrow> json \<Rightarrow> json_error + string" where
  "HashCanonical sha v = tx_bind (MarshalCanonical v) (\<lambda>b. Inr (''sha256:'' @ sha b))"

definition nullIfEmpty :: "raw \<Rightarrow> raw" where
  "nullIfEmpty r = (if r = RawEmpty then RawValue JNull else r)"

text \<open>\<^verbatim>\<open>json.Marshal\<close> of a raw message inside a document.\<close>

definition marshal_raw :: "raw \<Rightarrow> json_error + json" where
  "marshal_raw r = (case r of RawValue v \<Rightarrow> Inr v | _ \<Rightarrow> Inl BadJSON)"

section \<open>The canonical text determines the value\<close>

text \<open>Reading a string literal after its opening quote: the text, and what follows the closing quote.\<close>

definition unhex :: "char \<Rightarrow> nat" where
  "unhex c = (if of_char c < (58 :: nat) then of_char c - 48 else of_char c - 87)"

definition unescape :: "char \<Rightarrow> char" where
  "unescape c =
    (if c = CHR ''b'' then CHR 0x08 else if c = CHR ''f'' then CHR 0x0C else if c = CHR ''n'' then CHR 0x0A
     else if c = CHR ''r'' then CHR 0x0D else if c = CHR ''t'' then CHR 0x09 else c)"

definition code_point :: "string \<Rightarrow> string" where
  "code_point h =
    (if h = ''2028'' then line_separator 0xA8 else if h = ''2029'' then line_separator 0xA9
     else [char_of (16 * unhex (h ! 2) + unhex (h ! 3))])"

fun unquote :: "string \<Rightarrow> (string \<times> string) option" where
  "unquote [] = None"
| "unquote (c # s) =
    (if c = quote then Some ([], s)
     else if c = backslash then
       (case s of
          [] \<Rightarrow> None
        | d # t \<Rightarrow>
            if d = CHR ''u'' then
              (case t of h1 # h2 # h3 # h4 # r \<Rightarrow> map_option (apfst ((@) (code_point [h1, h2, h3, h4]))) (unquote r)
               | _ \<Rightarrow> None)
            else map_option (apfst (Cons (unescape d))) (unquote t))
     else map_option (apfst (Cons c)) (unquote s))"

declare unquote.simps(2) [simp del]

lemma unhex_hex [simp]: "n < 16 \<Longrightarrow> unhex (hex_digit n) = n"
  by (auto simp: unhex_def hex_digit_def)

lemma char_distinct:
  "quote \<noteq> backslash" "backslash \<noteq> quote" "CHR ''u'' \<noteq> quote" "CHR ''u'' \<noteq> backslash"
  by (simp_all add: quote_def backslash_def)

lemma unquote_simps:
  "unquote (quote # s) = Some ([], s)"
  "d \<noteq> CHR ''u'' \<Longrightarrow> unquote (backslash # d # t) = map_option (apfst (Cons (unescape d))) (unquote t)"
  "unquote (backslash # CHR ''u'' # h1 # h2 # h3 # h4 # r) =
     map_option (apfst ((@) (code_point [h1, h2, h3, h4]))) (unquote r)"
  "c \<noteq> quote \<Longrightarrow> c \<noteq> backslash \<Longrightarrow> unquote (c # s) = map_option (apfst (Cons c)) (unquote s)"
  by (simp_all add: unquote.simps(2) char_distinct)

lemma unescape_special:
  "unescape quote = quote" "unescape backslash = backslash" "quote \<noteq> CHR ''u''" "backslash \<noteq> CHR ''u''"
  by (simp_all add: unescape_def quote_def backslash_def)

lemma code_point_hex:
  "code_point [CHR ''0'', CHR ''0'', hex_digit (of_char c div 16), hex_digit (of_char c mod 16)] = [c]"
proof -
  have "of_char c div 16 < (16 :: nat)" by (rule less_mult_imp_div_less) simp
  then show ?thesis by (simp add: code_point_def)
qed

lemma unquote_escape_char: "unquote (escape_char c @ s) = map_option (apfst (Cons c)) (unquote s)"
proof (cases "c = quote \<or> c = backslash")
  case True
  then have "escape_char c = [backslash, c]" by (simp add: escape_char_def)
  then show ?thesis using True by (elim disjE) (simp_all add: unquote_simps unescape_special)
next
  case plain: False
  show ?thesis
  proof (cases "c \<in> {CHR 0x08, CHR 0x0C, CHR 0x0A, CHR 0x0D, CHR 0x09}")
    case True
    then obtain d where "escape_char c = [backslash, d]" "d \<noteq> CHR ''u''" "unescape d = c"
      using plain unfolding escape_char_def by (elim insertE) (simp_all add: unescape_def)
    then show ?thesis by (simp add: unquote_simps)
  next
    case False
    have cp: "(@) [c] = Cons c" by (rule ext) simp
    show ?thesis
    proof (cases "in_range c 0 31 \<or> c \<in> {CHR ''<'', CHR ''>'', CHR ''&''}")
      case True
      then have "escape_char c = backslash # ''u00'' @ [hex_digit (of_char c div 16), hex_digit (of_char c mod 16)]"
        using plain False by (simp add: escape_char_def del: insert_iff) (simp add: escape_char_def)
      then show ?thesis by (simp add: unquote_simps code_point_hex cp)
    next
      case c: False
      then have "escape_char c = [c]" using plain False by (simp add: escape_char_def)
      then show ?thesis using plain by (simp add: unquote_simps)
    qed
  qed
qed

lemma not_ascii_plain: "\<not> ascii c \<Longrightarrow> c \<noteq> quote \<and> c \<noteq> backslash"
  by (auto simp: ascii_def quote_def backslash_def)

lemma code_point_separators: "code_point ''2028'' = line_separator 0xA8" "code_point ''2029'' = line_separator 0xA9"
  by (simp_all add: code_point_def)

lemma map_option_apfst: "map_option (apfst f) (map_option (apfst g) x) = map_option (apfst (f \<circ> g)) x"
  by (cases x) (auto simp: apfst_def map_prod_def split: prod.splits)

lemma unquote_escape_long:
  assumes "length r \<ge> 2" and "list_all (\<lambda>c. \<not> ascii c) r"
  shows "unquote (escape r @ s) = map_option (apfst ((@) r)) (unquote s)"
proof -
  have plain: "unquote (r @ s) = map_option (apfst ((@) r)) (unquote s)"
    using assms(2)
  proof (induction r)
    case Nil
    then show ?case by (cases "unquote s") auto
  next
    case (Cons c r)
    then show ?case using not_ascii_plain [of c] by (simp add: unquote_simps map_option_apfst o_def)
  qed
  obtain a b t where r: "r = a # b # t" using assms(1) by (cases r; cases "tl r") auto
  have "escape r = (if r = line_separator 0xA8 then backslash # ''u2028''
      else if r = line_separator 0xA9 then backslash # ''u2029'' else r)"
    unfolding escape_def r by (simp only: list.case)
  then consider "r = line_separator 0xA8" "escape r = backslash # ''u2028''"
    | "r = line_separator 0xA9" "escape r = backslash # ''u2029''" | "escape r = r"
    by presburger
  then show ?thesis
    by cases (simp_all only: append_Cons append_Nil unquote_simps(3) code_point_separators plain)
qed

lemma unquote_marshal: "utf8_valid s \<Longrightarrow> unquote (concat (map escape (runes s)) @ quote # r) = Some (s, r)"
proof (induction s rule: utf8_induct)
  case Nil
  then show ?case by (simp add: unquote_simps)
next
  case (one a t)
  then have "escape [a] = escape_char a" by (simp add: escape_def)
  then show ?case using one by (simp add: unquote_escape_char)
next
  case (two a b t)
  then have "list_all (\<lambda>c. \<not> ascii c) [a, b]" using rune_not_ascii rune_shapes_disjoint by auto
  then show ?case using two unquote_escape_long [of "[a, b]"] by simp
next
  case (three a b c t)
  then have "list_all (\<lambda>c. \<not> ascii c) [a, b, c]" using rune_not_ascii rune_shapes_disjoint by auto
  then show ?case using three unquote_escape_long [of "[a, b, c]"] by simp
next
  case (four a b c d t)
  then have "list_all (\<lambda>c. \<not> ascii c) [a, b, c, d]" using rune_not_ascii rune_shapes_disjoint by auto
  then show ?case using four unquote_escape_long [of "[a, b, c, d]"] by simp
qed

lemma marshal_string_prefix:
  assumes "utf8_valid s" and "utf8_valid t" and "marshal_string s @ r = marshal_string t @ r'"
  shows "s = t \<and> r = r'"
proof -
  have "concat (map escape (runes s)) @ quote # r = concat (map escape (runes t)) @ quote # r'"
    using assms(3) by (simp add: marshal_string_def)
  then have "Some (s, r) = Some (t, r')"
    by (simp only: unquote_marshal [OF assms(1), symmetric] unquote_marshal [OF assms(2), symmetric])
  then show ?thesis by simp
qed

text \<open>Where a number ends: at the end of the text or before a character no number has.\<close>

definition number_char :: "char \<Rightarrow> bool" where
  "number_char c \<longleftrightarrow> is_digit c \<or> c \<in> {CHR ''-'', CHR ''+'', CHR ''.'', CHR ''e'', CHR ''E''}"

definition ends_number :: "string \<Rightarrow> bool" where
  "ends_number r \<longleftrightarrow> r = [] \<or> \<not> number_char (hd r)"

text \<open>What a scanner step consumes are characters of numbers.\<close>

lemma dropWhile_digits: "\<exists>a. s = a @ dropWhile is_digit s \<and> list_all number_char a"
  by (rule exI [of _ "takeWhile is_digit s"]) (auto simp: list_all_iff number_char_def dest: set_takeWhileD)

lemma skip_digits_consumes: "skip_digits s = Some r \<Longrightarrow> \<exists>a. a \<noteq> [] \<and> s = a @ r \<and> list_all number_char a"
proof -
  assume "skip_digits s = Some r"
  then obtain c t where s: "s = c # t" "is_digit c" "r = dropWhile is_digit t"
    by (auto simp: skip_digits_def split: list.splits if_splits)
  obtain a where "t = a @ dropWhile is_digit t" "list_all number_char a" using dropWhile_digits by blast
  then show ?thesis using s by (intro exI [of _ "c # a"]) (auto simp: number_char_def)
qed

lemma skip_int_consumes: "skip_int s = Some r \<Longrightarrow> \<exists>a. a \<noteq> [] \<and> s = a @ r \<and> list_all number_char a"
  by (cases s) (auto simp: skip_int_def number_char_def is_digit_def in_range_def split: if_splits
      intro: exI [of _ "[CHR ''0'']"] dest: skip_digits_consumes)

lemma skip_frac_consumes: "skip_frac s = Some r \<Longrightarrow> \<exists>a. s = a @ r \<and> list_all number_char a"
proof (cases s)
  case (Cons c t)
  assume f: "skip_frac s = Some r"
  show ?thesis
  proof (cases "c = CHR ''.''")
    case True
    then obtain a where "t = a @ r" "list_all number_char a" using f Cons skip_digits_consumes by (auto simp: skip_frac_def)
    then show ?thesis using Cons True by (intro exI [of _ "c # a"]) (simp add: number_char_def)
  qed (use f Cons in \<open>simp add: skip_frac_def\<close>)
qed (simp add: skip_frac_def)

lemma skip_exp_consumes: "skip_exp s = Some [] \<Longrightarrow> list_all number_char s"
proof (cases s)
  case (Cons c t)
  assume f: "skip_exp s = Some []"
  then have c: "c = CHR ''e'' \<or> c = CHR ''E''" using Cons by (auto simp: skip_exp_def split: if_splits)
  let ?u = "case t of [] \<Rightarrow> [] | d # u \<Rightarrow> if d \<in> {CHR ''+'', CHR ''-''} then u else t"
  have "skip_digits ?u = Some []" using f Cons c by (auto simp: skip_exp_def)
  then have "list_all number_char ?u" using skip_digits_consumes by fastforce
  then have "list_all number_char t" by (cases t) (auto simp: number_char_def split: if_splits)
  then show ?thesis using Cons c by (auto simp: number_char_def)
qed simp

lemma json_number_chars: "json_number s \<Longrightarrow> s \<noteq> [] \<and> list_all number_char s"
proof -
  assume n: "json_number s"
  let ?t = "case s of [] \<Rightarrow> [] | c # r \<Rightarrow> if c = CHR ''-'' then r else s"
  obtain i f where i: "skip_int ?t = Some i" and f: "skip_frac i = Some f" and x: "skip_exp f = Some []"
    using n unfolding json_number_def by (auto simp: bind_eq_Some_conv)
  obtain a where a: "a \<noteq> []" "?t = a @ i" "list_all number_char a" using skip_int_consumes [OF i] by blast
  obtain b where b: "i = b @ f" "list_all number_char b" using skip_frac_consumes [OF f] by blast
  have "list_all number_char ?t" unfolding a(2) b(1) using a b skip_exp_consumes [OF x] by simp
  moreover have "?t \<noteq> []" using a by simp
  ultimately show ?thesis by (cases s) (auto simp: number_char_def split: if_splits)
qed

lemma number_prefix:
  assumes "list_all number_char s" "list_all number_char t" "ends_number r" "ends_number r'" and e: "s @ r = t @ r'"
  shows "s = t \<and> r = r'"
proof -
  have "takeWhile number_char (u @ v) = u" if "list_all number_char u" "ends_number v" for u v
    using that by (induction u) (cases v, auto simp: ends_number_def)
  then have "s = t" using assms by metis
  then show ?thesis using e by simp
qed

lemma digits_lead: "0 < n \<Longrightarrow> \<exists>c t. digits n = c # t \<and> is_digit c \<and> c \<noteq> CHR ''0'' \<and> list_all is_digit t"
proof (induction n rule: digits.induct)
  case (1 n)
  show ?case
  proof (cases "n < 10")
    case True
    then have "digits n = [char_of (48 + n)]" by (simp add: digits.simps)
    moreover have "is_digit (char_of (48 + n))" using True by (simp add: is_digit_def in_range_def)
    moreover have "char_of (48 + n) \<noteq> CHR ''0''"
    proof
      assume "char_of (48 + n) = CHR ''0''"
      then have "of_char (char_of (48 + n) :: char) = (of_char (CHR ''0'') :: nat)" by (rule arg_cong)
      then show False using True "1.prems" by simp
    qed
    ultimately show ?thesis by simp
  next
    case False
    then have "0 < n div 10" by (simp add: div_greater_zero_iff)
    then obtain c t where "digits (n div 10) = c # t" "is_digit c" "c \<noteq> CHR ''0''" "list_all is_digit t"
      using "1.IH" [OF False] by blast
    moreover have "is_digit (char_of (48 + n mod 10))" by (simp add: is_digit_def in_range_def)
    ultimately show ?thesis using False by (subst digits.simps) simp
  qed
qed

lemma digits_number: "skip_int (digits n) = Some []"
proof (cases "n = 0")
  case True
  then have "digits n = [char_of (48 :: nat)]" by (simp add: digits.simps)
  moreover have "(char_of (48 :: nat) :: char) = CHR ''0''" by code_simp
  ultimately show ?thesis by (simp add: skip_int_def)
next
  case False
  then obtain c t where d: "digits n = c # t" "is_digit c" "c \<noteq> CHR ''0''" "list_all is_digit t" using digits_lead by blast
  then have "dropWhile is_digit t = []" by (simp add: list_all_iff)
  then show ?thesis using d by (simp add: skip_int_def skip_digits_def)
qed

lemma json_number_Itoa: "json_number (Itoa i)"
proof -
  have "CHR ''-'' \<notin> set (digits n)" for n using digits_set [of "CHR ''-''" n] by (auto simp: is_digit_def in_range_def)
  then have "(case digits n of [] \<Rightarrow> [] | c # r \<Rightarrow> if c = CHR ''-'' then r else digits n) = digits n" for n
    using digits_ne [of n] by (simp add: neq_Nil_conv split: list.splits) (metis list.set_intros(1))
  then show ?thesis by (simp add: json_number_def Itoa_def digits_number skip_frac_def skip_exp_def)
qed

subsection \<open>Values\<close>

text \<open>The text of a value with its keys in the order given.\<close>

primrec text_of :: "json \<Rightarrow> string" where
  "text_of JNull = ''null''"
| "text_of (JBool b) = (if b then ''true'' else ''false'')"
| "text_of (JNum s) = s"
| "text_of (JStr s) = marshal_string s"
| "text_of (JArr vs) = ''['' @ join_with (CHR '','') (map text_of vs) @ '']''"
| "text_of (JObj kvs) =
    ''{'' @ join_with (CHR '','') (map (\<lambda>(k, t). marshal_string k @ '':'' @ t) (map (map_prod id text_of) kvs)) @ ''}''"

text \<open>A value as the decoder gives it: well-formed strings and numbers.\<close>

primrec decoded_ok :: "json \<Rightarrow> bool" where
  "decoded_ok JNull = True"
| "decoded_ok (JBool b) = True"
| "decoded_ok (JNum s) = json_number s"
| "decoded_ok (JStr s) = utf8_valid s"
| "decoded_ok (JArr vs) = list_all (\<lambda>b. b) (map decoded_ok vs)"
| "decoded_ok (JObj kvs) = list_all (\<lambda>(k, b). utf8_valid k \<and> b) (map (map_prod id decoded_ok) kvs)"

lemma sort_key_map_prod: "sort_key fst (map (map_prod id f) kvs) = map (map_prod id f) (sort_key fst kvs)"
proof (induction kvs)
  case (Cons p kvs)
  have "insort_key fst (map_prod id f p) (map (map_prod id f) qs) = map (map_prod id f) (insort_key fst p qs)" for qs
    by (induction qs) auto
  then show ?case using Cons by (simp only: list.map sort_key_simps)
qed simp

lemma canonical_text_sorted: "canonical_text v = text_of (sort_keys v)"
proof (induction v)
  case (JArr vs)
  then show ?case by (simp cong: map_cong)
next
  case (JObj kvs)
  then have e: "map (map_prod id canonical_text) kvs = map (map_prod id (text_of \<circ> sort_keys)) kvs"
    by (auto simp: snds.simps)
  show ?case unfolding canonical_text.simps e by (simp add: sort_key_map_prod o_def map_prod.comp prod.case_distrib case_prod_beta)
qed auto

lemma decoded_ok_sort: "decoded_ok v \<Longrightarrow> decoded_ok (sort_keys v)"
  by (induction v) (auto simp: list_all_iff sort_key_map_prod snds.simps)

lemma decoded_ok_numbers: "decoded_ok v \<Longrightarrow> numbers_ok v"
  by (induction v) (auto simp: list_all_iff snds.simps)

lemma decoded_id: "decoded_ok v \<Longrightarrow> decoded v = v"
  by (induction v) (auto simp: list_all_iff to_valid_id snds.simps intro!: map_idI)

text \<open>The first character of a text decides which kind of value follows, and is none of the closing
  characters.\<close>

lemma text_first:
  assumes "decoded_ok v"
  obtains c s where "text_of v = c # s" "c \<notin> {CHR '']'', CHR ''}'', CHR '','', CHR '':''}"
proof (cases v)
  case (JNum s)
  then have "s \<noteq> []" "list_all number_char s" using assms json_number_chars by auto
  then show thesis using JNum by (cases s) (auto simp: number_char_def is_digit_def in_range_def intro!: that)
next
  case (JBool b)
  then show thesis by (cases b) (auto intro!: that)
qed (auto simp: marshal_string_def quote_def intro!: that)

text \<open>A separated list of texts, closed by a bracket, can be taken apart if each text can.\<close>

definition separable :: "('a \<Rightarrow> string) \<Rightarrow> 'a \<Rightarrow> 'a \<Rightarrow> bool" where
  "separable f x y \<longleftrightarrow> (\<forall>r r'. ends_number r \<longrightarrow> ends_number r' \<longrightarrow> f x @ r = f y @ r' \<longrightarrow> x = y \<and> r = r')"

definition opens :: "char \<Rightarrow> string \<Rightarrow> bool" where
  "opens z s \<longleftrightarrow> s \<noteq> [] \<and> hd s \<noteq> z"

lemma separated_list:
  assumes "\<And>x y. x \<in> set xs \<Longrightarrow> y \<in> set ys \<Longrightarrow> separable f x y"
    and "\<And>x. x \<in> set xs \<union> set ys \<Longrightarrow> opens z (f x)"
    and z: "z \<noteq> CHR '',''" "\<not> number_char z"
    and "join_with (CHR '','') (map f xs) @ z # r = join_with (CHR '','') (map f ys) @ z # r'"
  shows "xs = ys \<and> r = r'"
  using assms(1,2,5)
proof (induction xs arbitrary: ys)
  case Nil
  show ?case
  proof (cases ys)
    case (Cons y ys')
    then obtain c u where "f y = c # u" "c \<noteq> z" using Nil.prems(2) [of y] by (auto simp: opens_def neq_Nil_conv)
    then show ?thesis using Nil.prems(3) Cons by (cases ys') auto
  qed (use Nil in simp)
next
  case (Cons x xs)
  have tail: "\<exists>t. join_with (CHR '','') (map f (u # us)) @ z # q = f u @ t \<and> ends_number t \<and>
      (if us = [] then t = z # q else t = CHR '','' # join_with (CHR '','') (map f us) @ z # q)" for u us q
    using z by (cases us) (auto simp: ends_number_def number_char_def is_digit_def in_range_def)
  obtain c u where "f x = c # u" "c \<noteq> z" using Cons.prems(2) [of x] by (auto simp: opens_def neq_Nil_conv)
  then obtain y ys' where ys: "ys = y # ys'"
    using Cons.prems(3) tail [of x xs r] by (cases ys) auto
  obtain t where t: "join_with (CHR '','') (map f (x # xs)) @ z # r = f x @ t" "ends_number t"
      "if xs = [] then t = z # r else t = CHR '','' # join_with (CHR '','') (map f xs) @ z # r" using tail by blast
  obtain t' where t': "join_with (CHR '','') (map f (y # ys')) @ z # r' = f y @ t'" "ends_number t'"
      "if ys' = [] then t' = z # r' else t' = CHR '','' # join_with (CHR '','') (map f ys') @ z # r'" using tail by blast
  have "f x @ t = f y @ t'" using Cons.prems(3) ys t(1) t'(1) by simp
  then have e: "x = y" "t = t'" using Cons.prems(1) [of x y] ys t(2) t'(2) by (auto simp: separable_def)
  show ?case
  proof (cases "xs = []")
    case True
    then show ?thesis using t(3) t'(3) e z(1) ys by (auto split: if_splits)
  next
    case False
    then have "join_with (CHR '','') (map f xs) @ z # r = join_with (CHR '','') (map f ys') @ z # r'"
      using t(3) t'(3) e z(1) by (auto split: if_splits)
    then show ?thesis using Cons.IH [of ys'] Cons.prems(1,2) e ys by auto
  qed
qed

lemma ends_number_simps: "ends_number (CHR '']'' # r)" "ends_number (CHR ''}'' # r)" "ends_number (CHR '','' # r)"
  by (simp_all add: ends_number_def number_char_def is_digit_def in_range_def)

text \<open>The first character of the text of a value, by its kind.\<close>

fun kind_char :: "json \<Rightarrow> char \<Rightarrow> bool" where
  "kind_char JNull c \<longleftrightarrow> c = CHR ''n''"
| "kind_char (JBool b) c \<longleftrightarrow> c = (if b then CHR ''t'' else CHR ''f'')"
| "kind_char (JNum s) c \<longleftrightarrow> number_char c"
| "kind_char (JStr s) c \<longleftrightarrow> c = quote"
| "kind_char (JArr vs) c \<longleftrightarrow> c = CHR ''[''"
| "kind_char (JObj kvs) c \<longleftrightarrow> c = CHR ''{''"

lemma text_kind:
  assumes "decoded_ok v"
  obtains c s where "text_of v = c # s" "kind_char v c"
proof (cases v)
  case (JNum s)
  then have "s \<noteq> []" "list_all number_char s" using assms json_number_chars by auto
  then show thesis using JNum by (cases s) (auto intro!: that)
next
  case (JBool b)
  then show thesis by (cases b) (auto intro!: that)
qed (auto simp: marshal_string_def intro!: that)

lemma kind_char_unique: "kind_char v c \<Longrightarrow> kind_char w c \<Longrightarrow>
    (\<exists>s t. v = JNum s \<and> w = JNum t) \<or> (\<exists>s t. v = JStr s \<and> w = JStr t) \<or> (\<exists>s t. v = JArr s \<and> w = JArr t) \<or>
    (\<exists>s t. v = JObj s \<and> w = JObj t) \<or> v = w"
  by (cases v; cases w)
    (auto simp: number_char_def quote_def is_digit_def in_range_def split: if_splits)

lemma separable_pair:
  assumes "separable text_of v w" "utf8_valid k" "utf8_valid l"
  shows "separable (\<lambda>(k, v). marshal_string k @ '':'' @ text_of v) (k, v) (l, w)"
  unfolding separable_def
proof (intro allI impI)
  fix r r' assume r: "ends_number r" "ends_number r'"
    and e: "(case (k, v) of (k, v) \<Rightarrow> marshal_string k @ '':'' @ text_of v) @ r =
      (case (l, w) of (k, v) \<Rightarrow> marshal_string k @ '':'' @ text_of v) @ r'"
  then have "marshal_string k @ ('':'' @ text_of v @ r) = marshal_string l @ ('':'' @ text_of w @ r')" by simp
  then have "k = l" "text_of v @ r = text_of w @ r'" using marshal_string_prefix [OF assms(2,3)] by fastforce+
  then show "(k, v) = (l, w) \<and> r = r'" using assms(1) r unfolding separable_def by blast
qed

lemma same_kind:
  assumes "decoded_ok v" "decoded_ok w" "text_of v @ r = text_of w @ r'"
  shows "(\<exists>s t. v = JNum s \<and> w = JNum t) \<or> (\<exists>s t. v = JStr s \<and> w = JStr t) \<or> (\<exists>s t. v = JArr s \<and> w = JArr t) \<or>
    (\<exists>s t. v = JObj s \<and> w = JObj t) \<or> v = w"
proof -
  obtain c s where "text_of v = c # s" "kind_char v c" using assms(1) by (rule text_kind)
  moreover obtain d t where "text_of w = d # t" "kind_char w d" using assms(2) by (rule text_kind)
  ultimately show ?thesis using assms(3) kind_char_unique [of v c w] by simp
qed

lemma opens_text: "decoded_ok v \<Longrightarrow> opens (CHR '']'') (text_of v)"
  by (erule text_first) (auto simp: opens_def)

lemma opens_pair: "opens (CHR ''}'') (marshal_string k @ t)"
  by (simp add: opens_def marshal_string_def quote_def)

lemma number_char_closing: "\<not> number_char (CHR '']'')" "\<not> number_char (CHR ''}'')"
  by (simp_all add: number_char_def is_digit_def in_range_def)

lemma text_separable: "decoded_ok v \<Longrightarrow> decoded_ok w \<Longrightarrow> separable text_of v w"
proof (induction v arbitrary: w)
  case (JNum s)
  show ?case unfolding separable_def
  proof (intro allI impI)
    fix r r' assume r: "ends_number r" "ends_number r'" and e: "text_of (JNum s) @ r = text_of w @ r'"
    then obtain t where w: "w = JNum t" using same_kind [OF JNum.prems e] by auto
    then show "JNum s = w \<and> r = r'"
      using number_prefix [of s t r r'] json_number_chars [of s] json_number_chars [of t] JNum.prems r e by simp
  qed
next
  case (JStr s)
  show ?case unfolding separable_def
  proof (intro allI impI)
    fix r r' assume e: "text_of (JStr s) @ r = text_of w @ r'"
    then obtain t where w: "w = JStr t" using same_kind [OF JStr.prems e] by auto
    then show "JStr s = w \<and> r = r'" using marshal_string_prefix [of s t r r'] JStr.prems e by simp
  qed
next
  case (JArr vs)
  show ?case unfolding separable_def
  proof (intro allI impI)
    fix r r' assume e: "text_of (JArr vs) @ r = text_of w @ r'"
    then obtain ws where w: "w = JArr ws" using same_kind [OF JArr.prems e] by auto
    have ok: "x \<in> set vs \<union> set ws \<Longrightarrow> decoded_ok x" for x using JArr.prems w by (auto simp: list_all_iff)
    have "vs = ws \<and> r = r'"
      by (rule separated_list [where f = text_of and z = "CHR '']''"])
        (use e w ok JArr.IH opens_text number_char_closing in auto)
    then show "JArr vs = w \<and> r = r'" using w by simp
  qed
next
  case (JObj kvs)
  let ?f = "\<lambda>(k, v). marshal_string k @ '':'' @ text_of v"
  have f: "map (\<lambda>(k, t). marshal_string k @ '':'' @ t) (map (map_prod id text_of) xs) = map ?f xs" for xs by auto
  show ?case unfolding separable_def
  proof (intro allI impI)
    fix r r' assume e: "text_of (JObj kvs) @ r = text_of w @ r'"
    then obtain ls where w: "w = JObj ls" using same_kind [OF JObj.prems e] by auto
    have ok: "utf8_valid (fst x) \<and> decoded_ok (snd x)" if "x \<in> set kvs \<union> set ls" for x
      using JObj.prems w that by (cases x) (auto simp: list_all_iff)
    have sep: "separable ?f x y" if "x \<in> set kvs" "y \<in> set ls" for x y
      using JObj.IH [of x "snd x" "snd y"] ok [of x] ok [of y] that separable_pair [of "snd x" "snd y" "fst x" "fst y"]
      by (auto simp: snds.simps)
    have "kvs = ls \<and> r = r'"
    proof (rule separated_list [where f = ?f and z = "CHR ''}''"])
      show "join_with (CHR '','') (map ?f kvs) @ CHR ''}'' # r = join_with (CHR '','') (map ?f ls) @ CHR ''}'' # r'"
        using e unfolding w text_of.simps f by simp
    qed (use sep opens_pair number_char_closing in auto)
    then show "JObj kvs = w \<and> r = r'" using w by simp
  qed
next
  case JNull
  then show ?case using same_kind [OF JNull.prems] unfolding separable_def by fastforce
next
  case (JBool b)
  then show ?case using same_kind [OF JBool.prems] unfolding separable_def by fastforce
qed

lemma canonical_text_inj:
  assumes "decoded_ok v" "decoded_ok w" "canonical_text v = canonical_text w"
  shows "sort_keys v = sort_keys w"
proof -
  have "separable text_of (sort_keys v) (sort_keys w)"
    using assms(1,2) by (intro text_separable decoded_ok_sort)
  moreover have "text_of (sort_keys v) @ [] = text_of (sort_keys w) @ []"
    using assms(3) by (simp add: canonical_text_sorted)
  ultimately show ?thesis unfolding separable_def ends_number_def by blast
qed

text \<open>The fields of two objects with the same canonical text agree.\<close>

lemma map_of_insort: "map_of (insort_key fst p xs) = (map_of xs)(fst p \<mapsto> snd p)"
  by (induction xs) (auto simp: fun_eq_iff)

lemma map_of_sort [simp]: "map_of (sort_key fst xs) = map_of xs"
proof (induction xs)
  case (Cons p xs)
  then show ?case by (cases p) (simp add: map_of_insort)
qed simp

lemma sort_keys_field: "map_of (case sort_keys (JObj kvs) of JObj xs \<Rightarrow> xs | _ \<Rightarrow> []) k = map_option sort_keys (map_of kvs k)"
proof -
  have "map_of (map (map_prod id sort_keys) kvs) k = map_option sort_keys (map_of kvs k)" by (induction kvs) auto
  then show ?thesis by simp
qed

lemma sorted_fields:
  assumes "sort_keys (JObj kvs) = sort_keys (JObj ls)"
  shows "map_option sort_keys (map_of kvs k) = map_option sort_keys (map_of ls k)"
  using assms sort_keys_field by metis

text \<open>The order in which an object lists its keys does not matter.\<close>

lemma canonical_text_perm:
  assumes "distinct (map fst kvs)" "distinct (map fst ls)" "set kvs = set ls"
  shows "canonical_text (JObj kvs) = canonical_text (JObj ls)"
proof -
  have "sort_key fst kvs = sort_key fst ls"
    by (rule map_sorted_distinct_set_unique [where f = fst])
      (use assms in \<open>auto simp: distinct_map\<close>)
  then show ?thesis unfolding canonical_text.simps sort_key_map_prod by (simp only:)
qed

section \<open>Hashes of documents\<close>

lemma sort_keys_idem [simp]: "sort_keys (sort_keys v) = sort_keys v"
proof (induction v)
  case (JArr vs)
  then show ?case by (simp cong: map_cong)
next
  case (JObj kvs)
  then have m: "map (map_prod id sort_keys) (map (map_prod id sort_keys) kvs) = map (map_prod id sort_keys) kvs"
    by (auto simp: snds.simps)
  have "sort_key fst (map (map_prod id sort_keys) (sort_key fst (map (map_prod id sort_keys) kvs))) =
      sort_key fst (sort_key fst (map (map_prod id sort_keys) kvs))"
    unfolding sort_key_map_prod [of sort_keys "sort_key fst _"] sort_key_map_prod [of sort_keys "map _ _", symmetric]
    by (simp only: m sort_key_map_prod [symmetric])
  also have "\<dots> = sort_key fst (map (map_prod id sort_keys) kvs)" by (rule sort_key_id_if_sorted) simp
  finally show ?case by (simp only: sort_keys.simps)
qed auto

lemma numbers_ok_sort: "numbers_ok (sort_keys v) = numbers_ok v"
  by (induction v) (auto simp: list_all_iff sort_key_map_prod snds.simps)

lemma decoded_decoded [simp]: "decoded (decoded v) = decoded v"
proof (induction v)
  case (JArr vs)
  then show ?case by (simp cong: map_cong)
next
  case (JObj kvs)
  then show ?case by (auto simp: snds.simps)
qed auto

lemma numbers_ok_decoded: "numbers_ok (decoded v) = numbers_ok v"
  by (induction v) (auto simp: list_all_iff snds.simps)

lemma decoded_ok_decoded: "numbers_ok v \<Longrightarrow> decoded_ok (decoded v)"
  by (induction v) (auto simp: list_all_iff snds.simps to_valid_valid)

text \<open>Values that the canonical text does not tell apart.\<close>

definition same_json :: "json \<Rightarrow> json \<Rightarrow> bool" where
  "same_json v w \<longleftrightarrow> sort_keys (decoded v) = sort_keys (decoded w)"

lemma same_json_refl [simp]: "same_json v v"
  by (simp add: same_json_def)

lemma MarshalCanonical_same:
  assumes "same_json v w"
  shows "MarshalCanonical v = MarshalCanonical w"
proof -
  have e: "sort_keys (decoded v) = sort_keys (decoded w)" using assms by (simp add: same_json_def)
  have "numbers_ok (decoded v) = numbers_ok (decoded w)"
    using arg_cong [OF e, of numbers_ok] by (simp only: numbers_ok_sort)
  then show ?thesis unfolding MarshalCanonical_def writeCanonicalJSON_def canonical_text_sorted e by (simp only:)
qed

lemma HashCanonical_same: "same_json v w \<Longrightarrow> HashCanonical sha v = HashCanonical sha w"
  unfolding HashCanonical_def by (drule MarshalCanonical_same) (simp only:)

lemma same_json_JObj:
  assumes "list_all2 (\<lambda>a b. fst a = fst b \<and> same_json (snd a) (snd b)) fs gs"
  shows "same_json (JObj fs) (JObj gs)"
proof -
  have "map (map_prod id sort_keys \<circ> map_prod to_valid decoded) fs = map (map_prod id sort_keys \<circ> map_prod to_valid decoded) gs"
    using assms by (induction rule: list_all2_induct) (auto simp: same_json_def)
  then show ?thesis by (simp add: same_json_def del: map_eq_conv)
qed

lemma HashCanonical_Inr: "numbers_ok v \<Longrightarrow> HashCanonical sha v = Inr (''sha256:'' @ sha (canonical_text (decoded v)))"
  by (simp add: HashCanonical_def MarshalCanonical_def writeCanonicalJSON_def numbers_ok_decoded)

lemma same_json_sorted: "decoded_ok v \<Longrightarrow> same_json (sort_keys v) v"
  by (simp add: same_json_def decoded_id decoded_ok_sort)

lemma same_json_decoded [simp]: "same_json (decoded v) v"
  by (simp add: same_json_def)

lemma same_json_trans: "same_json u v \<Longrightarrow> same_json v w \<Longrightarrow> same_json u w"
  by (simp add: same_json_def)

lemma CanonicalJSONRaw_Inr: "CanonicalJSONRaw r = Inr c \<longleftrightarrow>
    ((r = RawEmpty \<or> r = RawBlank) \<and> c = RawEmpty) \<or> (\<exists>v. r = RawValue v \<and> numbers_ok v \<and> c = RawValue (sort_keys v))"
  by (cases r) (auto simp: CanonicalJSONRaw_def writeCanonicalJSON_def split: if_splits)

section \<open>The length of a canonical text\<close>

text \<open>A bound on the length of a canonical text: escaping makes at most six bytes of one.\<close>

primrec json_weight :: "json \<Rightarrow> nat" where
  "json_weight JNull = 4"
| "json_weight (JBool b) = 5"
| "json_weight (JNum s) = length s"
| "json_weight (JStr s) = 6 * length s + 2"
| "json_weight (JArr vs) = sum_list (map (\<lambda>n. n + 1) (map json_weight vs)) + 2"
| "json_weight (JObj kvs) = sum_list (map (\<lambda>(k, n). 6 * length k + n + 4) (map (map_prod id json_weight) kvs)) + 2"

lemma length_escape: "r \<noteq> [] \<Longrightarrow> length (escape r) \<le> 6 * length r"
  by (cases r; cases "tl r") (auto simp: escape_def escape_char_def)

lemma runes_pieces: "concat (runes s) = s" "r \<in> set (runes s) \<Longrightarrow> r \<noteq> []"
proof (induction s rule: runes.induct)
  case (2 c s)
  {
    case 1
    then show ?case using "2.IH"(1) [OF refl] by (simp add: runes.simps(2) Let_def)
  next
    case 2
    then show ?case using "2.IH"(2) [OF refl] by (auto simp: runes.simps(2) Let_def split: if_splits)
  }
qed simp_all

lemma length_marshal: "length (marshal_string s) \<le> 6 * length s + 2"
proof -
  have "length (concat (map escape rs)) \<le> 6 * length (concat rs)" if "\<And>r. r \<in> set rs \<Longrightarrow> r \<noteq> []" for rs
    using that
  proof (induction rs)
    case (Cons r rs)
    then show ?case using length_escape [of r] by fastforce
  qed simp
  from this [of "runes s"] show ?thesis by (simp add: marshal_string_def runes_pieces)
qed

lemma length_join: "length (join_with c xs) \<le> sum_list (map (\<lambda>x. length x + 1) xs)"
  by (induction c xs rule: join_with.induct) auto

lemma sum_list_sort: "sum_list (map f (sort_key g xs)) = sum_list (map f xs)" for f :: "'a \<Rightarrow> nat"
proof (induction xs)
  case (Cons x xs)
  have "sum_list (map f (insort_key g x ys)) = f x + sum_list (map f ys)" for ys by (induction ys) auto
  then show ?case using Cons by simp
qed simp

lemma length_canonical: "length (canonical_text v) \<le> json_weight v"
proof (induction v)
  case (JArr vs)
  then have "sum_list (map (\<lambda>x. length x + 1) (map canonical_text vs)) \<le> sum_list (map (\<lambda>n. n + 1) (map json_weight vs))"
    by (simp add: o_def) (rule sum_list_mono, simp)
  then show ?case using length_join [of "CHR '',''" "map canonical_text vs"] by simp
next
  case (JObj kvs)
  let ?f = "\<lambda>(k, t). marshal_string k @ '':'' @ t" and ?m = "map (map_prod id canonical_text) kvs"
  have "length (?f (map_prod id canonical_text p)) + 1 \<le> (\<lambda>(k, n). 6 * length k + n + 4) (map_prod id json_weight p)"
    if "p \<in> set kvs" for p
    using JObj [OF that] length_marshal [of "fst p"] by (cases p) (auto simp: snds.simps)
  then have "sum_list (map (\<lambda>x. length x + 1) (map ?f ?m)) \<le> sum_list (map (\<lambda>(k, n). 6 * length k + n + 4) (map (map_prod id json_weight) kvs))"
    by (simp only: map_map) (rule sum_list_mono, simp)
  moreover have "sum_list (map (\<lambda>x. length x + 1) (map ?f (sort_key fst ?m))) = sum_list (map (\<lambda>x. length x + 1) (map ?f ?m))"
    using sum_list_sort [of "\<lambda>p. length (?f p) + 1" fst ?m] by (simp only: map_map o_def)
  ultimately have "length (join_with (CHR '','') (map ?f (sort_key fst ?m))) \<le> sum_list (map (\<lambda>(k, n). 6 * length k + n + 4) (map (map_prod id json_weight) kvs))"
    using length_join [of "CHR '',''" "map ?f (sort_key fst ?m)"] by linarith
  then show ?case unfolding canonical_text.simps json_weight.simps by simp
qed (use length_marshal in auto)

end
