(* ===== verification/Journal_Doc.thy ===== *)
theory Journal_Doc
  imports Canonical_JSON
begin

text \<open>
  The journal envelope of package \<^verbatim>\<open>journal\<close> (\<^verbatim>\<open>src/pkg/journal/journal.go\<close>): requests, journals and
  entries, their normalization and validation, and the documents whose canonical JSON is hashed.
  Normalizing what has been normalized changes nothing, and the hash of an entry determines its
  content when the digest has no collision on the texts at hand.

  The functions of other packages are arguments, gathered in a record: SHA-256 in hexadecimal, the
  Unicode normalization form C of \<^verbatim>\<open>golang.org/x/text\<close>, the case table of Unicode outside ASCII, the two
  layouts in which instants are written, what \<^verbatim>\<open>float64\<close> makes of the text of a number, and the value a
  JSON column gives back for the one stored in it.
\<close>

record lib =
  lib_sha :: "string \<Rightarrow> string"
  lib_nfc :: "string \<Rightarrow> string"
  lib_lower :: "string \<Rightarrow> string"
  lib_time :: "int \<Rightarrow> string"
  lib_rfc3339 :: "int \<Rightarrow> string"
  lib_float :: "string \<Rightarrow> string"
  lib_column :: "json \<Rightarrow> json"

section \<open>Types\<close>

datatype journal_error = PayloadTooLarge | InvalidInput

record actor =
  a_Type :: string
  a_ID :: string

type_synonym label = "string \<times> string"

record create_request =
  cr_JournalID :: string
  cr_Kind :: string
  cr_Title :: string
  cr_Actor :: actor
  cr_Source :: string
  cr_Meta :: "(string, string) gomap"
  cr_Labels :: "label list"
  cr_Retention :: raw

record artifact_ref =
  ar_Name :: string
  ar_Hash :: string
  ar_ContentType :: string
  ar_SizeBytes :: int

record entry_input =
  in_Type :: string
  in_SchemaVersion :: int
  in_Status :: string
  in_OccurredAt :: "int option"
  in_Actor :: actor
  in_Source :: string
  in_ParentEntryID :: string
  in_CorrelationID :: string
  in_Subjects :: "string list"
  in_Summary :: raw
  in_Artifacts :: "artifact_ref list"
  in_ArtifactRefs :: "artifact_ref list"

text \<open>An entry. A nil slice is \<^const>\<open>None\<close>: it is hashed as \<^verbatim>\<open>null\<close>, an empty one as \<^verbatim>\<open>[]\<close>.\<close>

record entry =
  e_TenantID :: string
  e_JournalID :: string
  e_Seq :: int
  e_EntryID :: string
  e_Type :: string
  e_SchemaVersion :: int
  e_Status :: string
  e_OccurredAt :: int
  e_ObservedAt :: int
  e_Actor :: actor
  e_Source :: string
  e_ParentEntryID :: string
  e_CorrelationID :: string
  e_Subjects :: "string list option"
  e_Summary :: raw
  e_ArtifactRefs :: "artifact_ref list option"
  e_PrevHash :: string
  e_EntryHash :: string

definition SourceGateway :: string where "SourceGateway = ''gateway_observed''"
definition SourceServer :: string where "SourceServer = ''server_observed''"
definition SourceSelf :: string where "SourceSelf = ''self_reported''"
definition SourceImported :: string where "SourceImported = ''imported''"

definition MaxEntriesPerBatch :: nat where "MaxEntriesPerBatch = 500"
definition MaxBatchBytes :: nat where "MaxBatchBytes = 4194304"
definition MaxInlineSummaryBytes :: nat where "MaxInlineSummaryBytes = 65536"
definition MaxSubjectsPerEntry :: nat where "MaxSubjectsPerEntry = 64"
definition MaxSubjectValueBytes :: nat where "MaxSubjectValueBytes = 8192"
definition MaxLabelsPerJournal :: nat where "MaxLabelsPerJournal = 64"
definition MaxLabelValueBytes :: nat where "MaxLabelValueBytes = 4096"
definition MaxLimit :: int where "MaxLimit = 1000"
definition DefaultLimit :: int where "DefaultLimit = 100"

section \<open>Normalization and validation\<close>

text \<open>Instants are nanoseconds; \<^verbatim>\<open>NormalizeTime\<close> truncates to milliseconds.\<close>

definition NormalizeTime :: "int \<Rightarrow> int" where
  "NormalizeTime t = t - t mod 1000000"

definition NormalizeOptionalTime :: "int option \<Rightarrow> int option" where
  "NormalizeOptionalTime = map_option NormalizeTime"

definition FormatTime :: "lib \<Rightarrow> int \<Rightarrow> string" where
  "FormatTime L t = lib_time L (NormalizeTime t)"

definition NormalizeLimit :: "int \<Rightarrow> int" where
  "NormalizeLimit limit = (if limit \<le> 0 then DefaultLimit else if limit > MaxLimit then MaxLimit else limit)"

definition lower :: "lib \<Rightarrow> string \<Rightarrow> string" where
  "lower L = ToLower (lib_lower L)"

definition normalizeDefault :: "lib \<Rightarrow> string \<Rightarrow> string \<Rightarrow> string" where
  "normalizeDefault L v dflt = (let v = TrimSpace v in if v = [] then dflt else lower L v)"

definition normalizeOptional :: "lib \<Rightarrow> string \<Rightarrow> string" where
  "normalizeOptional L v = (let v = TrimSpace v in if v = [] then [] else lower L v)"

definition ValidateKind :: "string \<Rightarrow> bool" where
  "ValidateKind s \<longleftrightarrow> word_pattern 63 s"

definition ValidateStatus :: "string \<Rightarrow> bool" where
  "ValidateStatus s \<longleftrightarrow> word_pattern 63 s"

definition ValidateEntryType :: "string \<Rightarrow> bool" where
  "ValidateEntryType s \<longleftrightarrow> word_pattern 127 s"

definition ValidateJournalID :: "string \<Rightarrow> bool" where
  "ValidateJournalID s \<longleftrightarrow> id_pattern [] s \<and> CHR ''/'' \<notin> set s"

definition ValidateAppendID :: "string \<Rightarrow> bool" where
  "ValidateAppendID s \<longleftrightarrow> id_pattern [CHR '':''] s \<and> CHR ''/'' \<notin> set s"

definition ValidateSource :: "string \<Rightarrow> bool" where
  "ValidateSource s \<longleftrightarrow> s \<in> {SourceSelf, SourceGateway, SourceServer, SourceImported}"

definition ParseSubject :: "lib \<Rightarrow> string \<Rightarrow> journal_error + string \<times> string" where
  "ParseSubject L raw =
    (case Cut (TrimSpace raw) (CHR '':'') of
       None \<Rightarrow> Inl InvalidInput
     | Some (subjectType, subjectID) \<Rightarrow>
         if subjectType = [] \<or> subjectID = [] then Inl InvalidInput
         else
           let subjectType = lower L (TrimSpace subjectType); subjectID = lib_nfc L (TrimSpace subjectID) in
           if \<not> word_pattern 63 subjectType then Inl InvalidInput
           else if \<not> utf8_valid subjectID then Inl InvalidInput
           else if length subjectID > MaxSubjectValueBytes then Inl PayloadTooLarge
           else Inr (subjectType, subjectID))"

definition subject_text :: "string \<times> string \<Rightarrow> string" where
  "subject_text = (\<lambda>(t, i). t @ '':'' @ i)"

definition NormalizeSubjects :: "lib \<Rightarrow> string list \<Rightarrow> journal_error + string list" where
  "NormalizeSubjects L subjects =
    tx_bind (try_map (ParseSubject L) subjects) (\<lambda>ps. Inr (sorted_set id (map subject_text ps)))"

definition hashString :: "lib \<Rightarrow> string \<Rightarrow> string" where
  "hashString L s = ''sha256:'' @ lib_sha L s"

definition zero_byte :: char where
  "zero_byte = char_of (0 :: nat)"

definition SubjectHash :: "lib \<Rightarrow> string \<Rightarrow> string \<Rightarrow> string" where
  "SubjectHash L t i = hashString L (t @ zero_byte # i)"

definition LabelHash :: "lib \<Rightarrow> string \<Rightarrow> string \<Rightarrow> string" where
  "LabelHash L k v = hashString L (k @ zero_byte # v)"

definition LabelsFromMap :: "(string, string) gomap \<Rightarrow> label list" where
  "LabelsFromMap m = m"

definition LabelsToMap :: "label list \<Rightarrow> (string, string) gomap" where
  "LabelsToMap labels = foldl (\<lambda>m (k, v). AList.update k v m) [] labels"

definition fingerprint :: "label \<Rightarrow> string" where
  "fingerprint = (\<lambda>(k, v). k @ zero_byte # v)"

definition NormalizeLabels :: "lib \<Rightarrow> label list \<Rightarrow> label list" where
  "NormalizeLabels L labels =
    sorted_set fingerprint (map (\<lambda>(k, v). (lower L (TrimSpace k), lib_nfc L (TrimSpace v))) labels)"

definition label_error :: "label \<Rightarrow> journal_error + unit" where
  "label_error = (\<lambda>(k, v).
    if \<not> word_pattern 127 k then Inl InvalidInput
    else if \<not> utf8_valid v then Inl InvalidInput
    else if length v > MaxLabelValueBytes then Inl PayloadTooLarge
    else Inr ())"

definition ValidateLabels :: "label list \<Rightarrow> journal_error + unit" where
  "ValidateLabels labels =
    (if length labels > MaxLabelsPerJournal then Inl PayloadTooLarge
     else tx_bind (try_map label_error labels) (\<lambda>_. Inr ()))"

text \<open>An error of the JSON functions is an error of its own kind, not \<^verbatim>\<open>ErrPayloadTooLarge\<close>.\<close>

definition json_input :: "json_error + 'a \<Rightarrow> journal_error + 'a" where
  "json_input x = (case x of Inl _ \<Rightarrow> Inl InvalidInput | Inr a \<Rightarrow> Inr a)"

definition NormalizeCreateRequest :: "lib \<Rightarrow> create_request \<Rightarrow> journal_error + create_request" where
  "NormalizeCreateRequest L req =
    (let jid = TrimSpace (cr_JournalID req);
         kind = normalizeDefault L (cr_Kind req) ''agent'';
         source = normalizeDefault L (cr_Source req) ''self_reported'';
         labels = NormalizeLabels L (LabelsFromMap (cr_Meta req) @ cr_Labels req) in
     if jid \<noteq> [] \<and> \<not> ValidateJournalID jid then Inl InvalidInput
     else if source \<noteq> SourceSelf then Inl InvalidInput
     else if \<not> ValidateKind kind then Inl InvalidInput
     else if \<not> ValidateSource source then Inl InvalidInput
     else
       tx_bind (if cr_Retention req = RawEmpty then Inr RawEmpty else json_input (CanonicalJSONRaw (cr_Retention req))) (\<lambda>ret.
       Inr \<lparr>cr_JournalID = jid, cr_Kind = kind, cr_Title = TrimSpace (cr_Title req),
         cr_Actor = \<lparr>a_Type = TrimSpace (a_Type (cr_Actor req)), a_ID = TrimSpace (a_ID (cr_Actor req))\<rparr>,
         cr_Source = source, cr_Meta = LabelsToMap labels, cr_Labels = labels, cr_Retention = ret\<rparr>))"

text \<open>The length of a raw message in canonical form.\<close>

definition raw_length :: "raw \<Rightarrow> nat" where
  "raw_length r = (case r of RawValue v \<Rightarrow> length (canonical_text v) | _ \<Rightarrow> 0)"

definition NormalizeSummary :: "raw \<Rightarrow> journal_error + raw" where
  "NormalizeSummary s =
    (if s = RawEmpty then Inr RawEmpty
     else tx_bind (json_input (CanonicalJSONRaw s)) (\<lambda>c.
       if raw_length c > MaxInlineSummaryBytes then Inl PayloadTooLarge else Inr c))"

definition NormalizeEntryInput :: "lib \<Rightarrow> entry_input \<Rightarrow> string \<Rightarrow> string list \<Rightarrow> journal_error + entry_input" where
  "NormalizeEntryInput L i defaultType defaultSubjects =
    (let type = normalizeDefault L (in_Type i) defaultType;
         status = (if in_Status i \<noteq> [] then TrimSpace (lower L (in_Status i)) else []);
         source = normalizeDefault L (in_Source i) SourceSelf in
     if type = [] then Inl InvalidInput
     else if \<not> ValidateEntryType type then Inl InvalidInput
     else if in_Status i \<noteq> [] \<and> \<not> ValidateStatus status then Inl InvalidInput
     else if \<not> ValidateSource source then Inl InvalidInput
     else if in_Artifacts i \<noteq> [] \<or> in_ArtifactRefs i \<noteq> [] then Inl InvalidInput
     else
       tx_bind (NormalizeSubjects L (defaultSubjects @ in_Subjects i)) (\<lambda>subjects.
       if length subjects > MaxSubjectsPerEntry then Inl PayloadTooLarge
       else tx_bind (NormalizeSummary (in_Summary i)) (\<lambda>summary.
       Inr \<lparr>in_Type = type, in_SchemaVersion = (if in_SchemaVersion i \<le> 0 then 1 else in_SchemaVersion i),
         in_Status = status, in_OccurredAt = NormalizeOptionalTime (in_OccurredAt i),
         in_Actor = \<lparr>a_Type = TrimSpace (a_Type (in_Actor i)), a_ID = TrimSpace (a_ID (in_Actor i))\<rparr>,
         in_Source = source, in_ParentEntryID = TrimSpace (in_ParentEntryID i),
         in_CorrelationID = TrimSpace (in_CorrelationID i), in_Subjects = subjects, in_Summary = summary,
         in_Artifacts = in_Artifacts i, in_ArtifactRefs = in_ArtifactRefs i\<rparr>)))"

section \<open>Hashed documents\<close>

definition omitempty :: "string \<Rightarrow> string \<Rightarrow> (string \<times> json) list" where
  "omitempty key v = (if v = [] then [] else [(key, JStr v)])"

definition actor_json :: "actor \<Rightarrow> json" where
  "actor_json a = JObj (omitempty ''type'' (a_Type a) @ omitempty ''id'' (a_ID a))"

definition label_json :: "label \<Rightarrow> json" where
  "label_json = (\<lambda>(k, v). JObj [(''key'', JStr k), (''value'', JStr v)])"

text \<open>A nil map or slice is written \<^verbatim>\<open>null\<close>; the normalized ones are nil when they are empty.\<close>

definition meta_json :: "(string, string) gomap \<Rightarrow> json" where
  "meta_json m = (if m = [] then JNull else JObj (map (\<lambda>(k, v). (k, JStr v)) m))"

definition labels_json :: "label list \<Rightarrow> json" where
  "labels_json ls = (if ls = [] then JNull else JArr (map label_json ls))"

definition strings_json :: "string list option \<Rightarrow> json" where
  "strings_json ss = (case ss of None \<Rightarrow> JNull | Some xs \<Rightarrow> JArr (map JStr xs))"

definition artifact_json :: "artifact_ref \<Rightarrow> json" where
  "artifact_json a = JObj ([(''name'', JStr (ar_Name a)), (''hash'', JStr (ar_Hash a))] @
    omitempty ''content_type'' (ar_ContentType a) @ [(''size_bytes'', JNum (Itoa (ar_SizeBytes a)))])"

definition artifacts_json :: "artifact_ref list option \<Rightarrow> json" where
  "artifacts_json as = (case as of None \<Rightarrow> JNull | Some xs \<Rightarrow> JArr (map artifact_json xs))"

definition create_fields :: "string \<Rightarrow> create_request \<Rightarrow> json \<Rightarrow> (string \<times> json) list" where
  "create_fields tenantID req ret =
    [(''tenant_id'', JStr tenantID), (''journal_id'', JStr (cr_JournalID req)), (''kind'', JStr (cr_Kind req)),
     (''title'', JStr (cr_Title req)), (''actor'', actor_json (cr_Actor req)), (''source'', JStr (cr_Source req)),
     (''meta'', meta_json (cr_Meta req)), (''labels'', labels_json (cr_Labels req)), (''retention'', ret)]"

definition CreateHash :: "lib \<Rightarrow> string \<Rightarrow> create_request \<Rightarrow> json_error + string" where
  "CreateHash L tenantID req =
    tx_bind (marshal_raw (nullIfEmpty (cr_Retention req))) (\<lambda>ret.
    HashCanonical (lib_sha L) (JObj (create_fields tenantID req ret)))"

definition GenesisDocument :: "lib \<Rightarrow> string \<Rightarrow> create_request \<Rightarrow> int \<Rightarrow> json_error + json" where
  "GenesisDocument L tenantID req createdAt =
    tx_bind (marshal_raw (nullIfEmpty (cr_Retention req))) (\<lambda>ret.
    Inr (JObj (create_fields tenantID req ret @ [(''created_at'', JStr (FormatTime L createdAt))])))"

definition input_json :: "lib \<Rightarrow> entry_input \<Rightarrow> json_error + json" where
  "input_json L i =
    tx_bind (if in_Summary i = RawEmpty then Inr [] else tx_bind (marshal_raw (in_Summary i)) (\<lambda>v. Inr [(''summary'', v)])) (\<lambda>summary.
    Inr (JObj (omitempty ''type'' (in_Type i) @
      (if in_SchemaVersion i = 0 then [] else [(''schema_version'', JNum (Itoa (in_SchemaVersion i)))]) @
      omitempty ''status'' (in_Status i) @
      (case in_OccurredAt i of None \<Rightarrow> [] | Some t \<Rightarrow> [(''occurred_at'', JStr (lib_rfc3339 L t))]) @
      [(''actor'', actor_json (in_Actor i))] @ omitempty ''source'' (in_Source i) @
      omitempty ''parent_entry_id'' (in_ParentEntryID i) @ omitempty ''correlation_id'' (in_CorrelationID i) @
      (if in_Subjects i = [] then [] else [(''subjects'', JArr (map JStr (in_Subjects i)))]) @ summary @
      (if in_Artifacts i = [] then [] else [(''artifacts'', JArr (map artifact_json (in_Artifacts i)))]) @
      (if in_ArtifactRefs i = [] then [] else [(''artifact_refs'', JArr (map artifact_json (in_ArtifactRefs i)))]))))"

definition batch_json :: "lib \<Rightarrow> entry_input list \<Rightarrow> json_error + json" where
  "batch_json L es = tx_bind (try_map (input_json L) es) (\<lambda>vs. Inr (JArr vs))"

definition RequestHash :: "lib \<Rightarrow> entry_input list \<Rightarrow> json_error + string" where
  "RequestHash L es = tx_bind (batch_json L es) (HashCanonical (lib_sha L))"

definition ValidateAppendBatch :: "lib \<Rightarrow> entry_input list \<Rightarrow> journal_error + unit" where
  "ValidateAppendBatch L es =
    (if length es > MaxEntriesPerBatch then Inl PayloadTooLarge
     else tx_bind (json_input (tx_bind (batch_json L es) MarshalCanonical)) (\<lambda>text.
       if length text > MaxBatchBytes then Inl PayloadTooLarge else Inr ()))"

definition entry_fields :: "lib \<Rightarrow> entry \<Rightarrow> json \<Rightarrow> (string \<times> json) list" where
  "entry_fields L e summary =
    [(''tenant_id'', JStr (e_TenantID e)), (''journal_id'', JStr (e_JournalID e)), (''seq'', JNum (Itoa (e_Seq e))),
     (''entry_id'', JStr (e_EntryID e)), (''type'', JStr (e_Type e)),
     (''schema_version'', JNum (Itoa (e_SchemaVersion e))), (''status'', JStr (e_Status e)),
     (''occurred_at'', JStr (FormatTime L (e_OccurredAt e))), (''observed_at'', JStr (FormatTime L (e_ObservedAt e))),
     (''actor_type'', JStr (a_Type (e_Actor e))), (''actor_id'', JStr (a_ID (e_Actor e))), (''source'', JStr (e_Source e)),
     (''parent_entry_id'', JStr (e_ParentEntryID e)), (''correlation_id'', JStr (e_CorrelationID e)),
     (''subjects'', strings_json (e_Subjects e)), (''summary'', summary),
     (''artifact_refs'', artifacts_json (e_ArtifactRefs e)), (''prev_hash'', JStr (e_PrevHash e))]"

definition EntryHash :: "lib \<Rightarrow> entry \<Rightarrow> json_error + string" where
  "EntryHash L e =
    tx_bind (marshal_raw (nullIfEmpty (e_Summary e))) (\<lambda>summary.
    HashCanonical (lib_sha L) (JObj (entry_fields L e summary)))"

text \<open>\<^verbatim>\<open>json.Unmarshal\<close> into a string, a map of strings and a list of labels.\<close>

definition unmarshal_string :: "json option \<Rightarrow> json_error + string" where
  "unmarshal_string v = (case v of None \<Rightarrow> Inr [] | Some JNull \<Rightarrow> Inr [] | Some (JStr s) \<Rightarrow> Inr s | _ \<Rightarrow> Inl BadJSON)"

definition unmarshal_meta :: "json option \<Rightarrow> json_error + (string, string) gomap" where
  "unmarshal_meta v =
    (case v of None \<Rightarrow> Inr [] | Some JNull \<Rightarrow> Inr []
     | Some (JObj kvs) \<Rightarrow> try_map (\<lambda>(k, x). tx_bind (unmarshal_string (Some x)) (\<lambda>s. Inr (k, s))) kvs
     | _ \<Rightarrow> Inl BadJSON)"

definition unmarshal_label :: "json \<Rightarrow> json_error + label" where
  "unmarshal_label v =
    (case v of JNull \<Rightarrow> Inr ([], [])
     | JObj kvs \<Rightarrow> tx_bind (unmarshal_string (map_of kvs ''key'')) (\<lambda>k. tx_bind (unmarshal_string (map_of kvs ''value'')) (\<lambda>x. Inr (k, x)))
     | _ \<Rightarrow> Inl BadJSON)"

definition unmarshal_labels :: "json option \<Rightarrow> json_error + label list" where
  "unmarshal_labels v =
    (case v of None \<Rightarrow> Inr [] | Some JNull \<Rightarrow> Inr [] | Some (JArr vs) \<Rightarrow> try_map unmarshal_label vs | _ \<Rightarrow> Inl BadJSON)"

definition LabelsFromGenesis :: "lib \<Rightarrow> json \<Rightarrow> journal_error + label list" where
  "LabelsFromGenesis L doc =
    tx_bind (json_input
      (case doc of
         JNull \<Rightarrow> Inr []
       | JObj kvs \<Rightarrow> tx_bind (unmarshal_meta (map_of kvs ''meta'')) (\<lambda>m.
           tx_bind (unmarshal_labels (map_of kvs ''labels'')) (\<lambda>ls. Inr (LabelsFromMap m @ ls)))
       | _ \<Rightarrow> Inl BadJSON)) (\<lambda>raw.
    let labels = NormalizeLabels L raw in tx_bind (ValidateLabels labels) (\<lambda>_. Inr labels))"

text \<open>A document read with \<^verbatim>\<open>json.Unmarshal\<close> into \<^verbatim>\<open>any\<close>, without \<^verbatim>\<open>UseNumber\<close>: its numbers become
  \<^verbatim>\<open>float64\<close> and are written back from it.\<close>

primrec through_float :: "lib \<Rightarrow> json \<Rightarrow> json" where
  "through_float L JNull = JNull"
| "through_float L (JBool b) = JBool b"
| "through_float L (JNum s) = JNum (lib_float L s)"
| "through_float L (JStr s) = JStr s"
| "through_float L (JArr vs) = JArr (map (through_float L) vs)"
| "through_float L (JObj kvs) = JObj (map (map_prod id (through_float L)) kvs)"

section \<open>What is relied on of the libraries\<close>

text \<open>The numbers of a value are integers that \<^verbatim>\<open>float64\<close> and a JSON column represent exactly.\<close>

definition plain_number :: "string \<Rightarrow> bool" where
  "plain_number s \<longleftrightarrow> (\<exists>i. \<bar>i\<bar> \<le> 2 ^ 53 \<and> s = Itoa i)"

primrec plain :: "json \<Rightarrow> bool" where
  "plain JNull = True"
| "plain (JBool b) = True"
| "plain (JNum s) = plain_number s"
| "plain (JStr s) = True"
| "plain (JArr vs) = list_all (\<lambda>b. b) (map plain vs)"
| "plain (JObj kvs) = list_all snd (map (map_prod id plain) kvs)"

text \<open>Normalization form C is idempotent, neither makes a text empty nor puts white space at its
  ends; such integers keep their text through \<^verbatim>\<open>float64\<close>; a JSON column gives back a value that differs at
  most in the order of keys.\<close>

definition nfc_text :: "(string \<Rightarrow> string) \<Rightarrow> bool" where
  "nfc_text nfc \<longleftrightarrow> (\<forall>s. nfc (nfc s) = nfc s) \<and> (\<forall>s. nfc s = [] \<longrightarrow> s = []) \<and>
    (\<forall>s. TrimSpace s = s \<longrightarrow> TrimSpace (nfc s) = nfc s)"

definition column_law :: "(json \<Rightarrow> json) \<Rightarrow> bool" where
  "column_law col \<longleftrightarrow> (\<forall>v. decoded_ok v \<longrightarrow> plain v \<longrightarrow> decoded_ok (col v) \<and> sort_keys (col v) = sort_keys v)"

definition float_law :: "(string \<Rightarrow> string) \<Rightarrow> bool" where
  "float_law f \<longleftrightarrow> (\<forall>i. \<bar>i\<bar> \<le> 2 ^ 53 \<longrightarrow> f (Itoa i) = Itoa i)"

definition lib_ok :: "lib \<Rightarrow> bool" where
  "lib_ok L \<longleftrightarrow> nfc_text (lib_nfc L) \<and> column_law (lib_column L) \<and> float_law (lib_float L)"

lemma plain_sort: "plain (sort_keys v) = plain v"
  by (induction v) (auto simp: list_all_iff sort_key_map_prod snds.simps)

lemma plain_decoded: "plain (decoded v) = plain v"
  by (induction v) (auto simp: list_all_iff snds.simps)

lemma plain_numbers: "plain v \<Longrightarrow> numbers_ok v"
  by (induction v) (auto simp: list_all_iff snds.simps plain_number_def json_number_Itoa)

lemma through_float_plain: "float_law (lib_float L) \<Longrightarrow> plain v \<Longrightarrow> through_float L v = v"
proof (induction v)
  case (JObj kvs)
  then show ?case by (auto simp: list_all_iff snds.simps intro!: map_idI)
qed (auto simp: list_all_iff float_law_def plain_number_def intro!: map_idI)

section \<open>Normal forms\<close>

lemma lower_word: "word_pattern n s \<Longrightarrow> lower L (TrimSpace s) = s"
proof -
  assume "word_pattern n s"
  then have w: "list_all word_char s" by (rule word_patternD)
  then have "list_all visible s" using word_char_visible by (auto simp: list_all_iff)
  then show ?thesis using w by (simp add: lower_def TrimSpace_visible ToLower_word)
qed

lemma colon_not_word: "word_pattern n s \<Longrightarrow> CHR '':'' \<notin> set s"
proof
  assume "word_pattern n s" "CHR '':'' \<in> set s"
  then have "word_char (CHR '':'')" using word_patternD(2) by (auto simp: list_all_iff)
  moreover have "\<not> word_char (CHR '':'')" by code_simp
  ultimately show False by simp
qed

lemma zero_not_word: "word_pattern n s \<Longrightarrow> zero_byte \<notin> set s"
proof
  assume "word_pattern n s" "zero_byte \<in> set s"
  then have "word_char zero_byte" using word_patternD(2) by (auto simp: list_all_iff)
  moreover have "\<not> word_char zero_byte" by code_simp
  ultimately show False by simp
qed

text \<open>The text of a parsed subject parses to the same pair.\<close>

lemma ParseSubject_Inr:
  assumes "ParseSubject L raw = Inr (t, i)"
  obtains s where "word_pattern 63 t" "i = lib_nfc L (TrimSpace s)" "TrimSpace s \<noteq> []" "utf8_valid i"
    "length i \<le> MaxSubjectValueBytes"
proof -
  obtain t0 i0 where c: "Cut (TrimSpace raw) (CHR '':'') = Some (t0, i0)" and ne: "i0 \<noteq> []"
    and r: "word_pattern 63 t" "i = lib_nfc L (TrimSpace i0)" "utf8_valid i" "length i \<le> MaxSubjectValueBytes"
    using assms by (auto simp: ParseSubject_def Let_def split: option.splits if_splits)
  have e: "TrimSpace raw = (t0 @ '':'') @ i0" using Cut_Some [OF c] by simp
  then have "TrimSpace ((t0 @ '':'') @ i0) = (t0 @ '':'') @ i0" by (metis TrimSpace_TrimSpace)
  then have "\<not> blank i0" using ne by (rule trimmed_suffix)
  then have "TrimSpace i0 \<noteq> []" using TrimSpace_blank by blast
  then show thesis using r that by blast
qed

lemma nfc_trimmed:
  assumes "nfc_text nfc" "i = nfc (TrimSpace s)" "TrimSpace s \<noteq> []"
  shows "i \<noteq> []" "TrimSpace i = i" "nfc i = i"
proof -
  have l: "nfc (nfc (TrimSpace s)) = nfc (TrimSpace s)" "nfc (TrimSpace s) = [] \<longrightarrow> TrimSpace s = []"
    "TrimSpace (TrimSpace s) = TrimSpace s \<longrightarrow> TrimSpace (nfc (TrimSpace s)) = nfc (TrimSpace s)"
    using assms(1) unfolding nfc_text_def by blast+
  then show "i \<noteq> []" "TrimSpace i = i" "nfc i = i" using assms(2,3) by auto
qed

lemma ParseSubject_fixed:
  assumes "nfc_text (lib_nfc L)" and p: "ParseSubject L raw = Inr (t, i)"
  shows "ParseSubject L (subject_text (t, i)) = Inr (t, i)"
proof -
  obtain s where s: "word_pattern 63 t" "i = lib_nfc L (TrimSpace s)" "TrimSpace s \<noteq> []" "utf8_valid i"
    "length i \<le> MaxSubjectValueBytes" using p by (rule ParseSubject_Inr)
  have i: "i \<noteq> []" "TrimSpace i = i" "lib_nfc L i = i" using nfc_trimmed [OF assms(1) s(2,3)] by auto
  have v: "list_all visible (t @ '':'')" using word_patternD(2) [OF s(1)] word_char_visible
    by (auto simp: list_all_iff visible_def in_range_def)
  have "TrimSpace ((t @ '':'') @ i) = (t @ '':'') @ i" using v i by (intro trimmed_append) auto
  moreover have "Cut (t @ CHR '':'' # i) (CHR '':'') = Some (t, i)" using colon_not_word [OF s(1)] by (rule Cut_append)
  ultimately show ?thesis
    using s i lower_word [OF s(1)] word_patternD(1) [OF s(1)]
    by (simp add: ParseSubject_def subject_text_def Let_def)
qed

lemma try_map_mem: "try_map f xs = Inr ys \<Longrightarrow> y \<in> set ys \<Longrightarrow> \<exists>x\<in>set xs. f x = Inr y"
  unfolding try_map_Inr by (induction rule: list_all2_induct) auto

lemma NormalizeSubjects_Inr:
  assumes "nfc_text (lib_nfc L)" "NormalizeSubjects L raw = Inr ss"
  shows "sorted ss" "distinct ss" "x \<in> set ss \<Longrightarrow> \<exists>p. ParseSubject L x = Inr p \<and> subject_text p = x"
proof -
  obtain ps where ps: "try_map (ParseSubject L) raw = Inr ps" "ss = sorted_set id (map subject_text ps)"
    using assms(2) by (auto simp: NormalizeSubjects_def tx_bind_def split: sum.splits)
  then show "sorted ss" "distinct ss" by simp_all
  assume "x \<in> set ss"
  then obtain p where p: "p \<in> set ps" "x = subject_text p" using ps(2) sorted_set_subset by fastforce
  then obtain r where "ParseSubject L r = Inr p" using try_map_mem [OF ps(1)] by blast
  then have "ParseSubject L (subject_text p) = Inr p" using assms(1) by (cases p) (auto intro: ParseSubject_fixed)
  then show "\<exists>p. ParseSubject L x = Inr p \<and> subject_text p = x" using p by auto
qed

lemma try_map_total: "(\<And>x. x \<in> set xs \<Longrightarrow> \<exists>y. f x = Inr y) \<Longrightarrow> try_map f xs = Inr (map (\<lambda>x. projr (f x)) xs)"
proof (induction xs)
  case (Cons x xs)
  obtain y where "f x = Inr y" using Cons.prems [of x] by auto
  then show ?case using Cons by simp
qed simp

lemma NormalizeSubjects_fixed:
  assumes "nfc_text (lib_nfc L)" "NormalizeSubjects L raw = Inr ss"
  shows "NormalizeSubjects L ss = Inr ss"
proof -
  have "try_map (ParseSubject L) ss = Inr (map (\<lambda>x. projr (ParseSubject L x)) ss)"
    using NormalizeSubjects_Inr(3) [OF assms] by (intro try_map_total) blast
  moreover have "map subject_text (map (\<lambda>x. projr (ParseSubject L x)) ss) = ss"
    using NormalizeSubjects_Inr(3) [OF assms] by (auto intro!: map_idI) force
  ultimately show ?thesis
    using NormalizeSubjects_Inr(1,2) [OF assms] by (simp add: NormalizeSubjects_def sorted_set_id del: map_map)
qed

subsection \<open>Labels\<close>

definition normal_label :: "lib \<Rightarrow> label \<Rightarrow> bool" where
  "normal_label L = (\<lambda>(k, v). word_pattern 127 k \<and> utf8_valid v \<and> lib_nfc L (TrimSpace v) = v)"

lemma nfc_trim_idem:
  assumes "nfc_text nfc"
  shows "nfc (TrimSpace (nfc (TrimSpace s))) = nfc (TrimSpace s)"
proof -
  have "TrimSpace (nfc (TrimSpace s)) = nfc (TrimSpace s)" using assms unfolding nfc_text_def by simp
  then show ?thesis using assms unfolding nfc_text_def by simp
qed

lemma inj_fingerprint: "(\<And>l. l \<in> A \<Longrightarrow> normal_label L l) \<Longrightarrow> inj_on fingerprint A"
proof (rule inj_onI)
  fix l m assume a: "\<And>l. l \<in> A \<Longrightarrow> normal_label L l" and l: "l \<in> A" and m: "m \<in> A" and e: "fingerprint l = fingerprint m"
  have c: "Cut (fingerprint x) zero_byte = Some x" if "normal_label L x" for x
    using that zero_not_word [of 127 "fst x"] Cut_append [of zero_byte "fst x" "snd x"]
    by (cases x) (simp add: fingerprint_def normal_label_def)
  then show "l = m" using a [OF l] a [OF m] e by (metis option.inject)
qed

lemma ValidateLabels_Inr: "ValidateLabels ls = Inr () \<longleftrightarrow>
    length ls \<le> MaxLabelsPerJournal \<and> (\<forall>(k, v)\<in>set ls. word_pattern 127 k \<and> utf8_valid v \<and> length v \<le> MaxLabelValueBytes)"
proof -
  have "(\<exists>us. try_map label_error ls = Inr us) \<longleftrightarrow> (\<forall>l\<in>set ls. label_error l = Inr ())"
  proof (induction ls)
    case (Cons l ls)
    then show ?case by (cases "label_error l"; cases "try_map label_error ls") auto
  qed simp
  moreover have "(\<forall>(k, v)\<in>set ls. word_pattern 127 k \<and> utf8_valid v \<and> length v \<le> MaxLabelValueBytes) \<longleftrightarrow>
      (\<forall>l\<in>set ls. label_error l = Inr ())"
    by (rule ball_cong) (auto simp: label_error_def split: if_splits)
  ultimately show ?thesis
    by (cases "try_map label_error ls") (simp_all add: ValidateLabels_def not_less)
qed

lemma NormalizeLabels_normal:
  assumes "nfc_text (lib_nfc L)" "ValidateLabels (NormalizeLabels L raw) = Inr ()" "l \<in> set (NormalizeLabels L raw)"
  shows "normal_label L l"
proof -
  obtain k v where l: "l = (k, v)" by (cases l)
  have "(k, v) \<in> set (map (\<lambda>(k, v). (lower L (TrimSpace k), lib_nfc L (TrimSpace v))) raw)"
    using assms(3) unfolding NormalizeLabels_def l by (rule sorted_set_subset)
  then obtain s where "v = lib_nfc L (TrimSpace s)" by auto
  then have "lib_nfc L (TrimSpace v) = v" using nfc_trim_idem [OF assms(1)] by simp
  then show ?thesis using assms(2,3) l by (auto simp: normal_label_def ValidateLabels_Inr)
qed

text \<open>Any listing of normal labels is normalized to their sorted list.\<close>

lemma NormalizeLabels_fixed:
  assumes "\<And>l. l \<in> set ls \<Longrightarrow> normal_label L l" "sorted ls" "distinct ls" "set xs = set ls"
  shows "NormalizeLabels L xs = ls"
proof -
  have "map (\<lambda>(k, v). (lower L (TrimSpace k), lib_nfc L (TrimSpace v))) xs = xs"
    using assms(1,4) lower_word [of 127 _ L] by (intro map_idI) (fastforce simp: normal_label_def)
  moreover have "inj_on fingerprint (set ls)" using assms(1) by (rule inj_fingerprint)
  ultimately show ?thesis unfolding NormalizeLabels_def
    using sorted_set_cong [of xs ls fingerprint] sorted_set_id [OF assms(2,3)] assms(4) by simp
qed

lemma NormalizeLabels_sorted: "sorted (NormalizeLabels L raw)" "distinct (NormalizeLabels L raw)"
  by (simp_all add: NormalizeLabels_def)

lemma LabelsToMap_subset: "set (LabelsToMap ls) \<subseteq> set ls"
proof -
  have "set (foldl (\<lambda>m (k, v). AList.update k v m) m0 ls) \<subseteq> set m0 \<union> set ls" for m0
  proof (induction ls arbitrary: m0)
    case (Cons l ls)
    have "set (AList.update (fst l) (snd l) m0) \<subseteq> insert l (set m0)"
      by (induction m0) auto
    then show ?case using Cons.IH [of "AList.update (fst l) (snd l) m0"] by (auto simp: case_prod_beta)
  qed simp
  then show ?thesis unfolding LabelsToMap_def by force
qed

lemma LabelsToMap_Nil: "LabelsToMap ls = [] \<longleftrightarrow> ls = []"
proof (cases ls rule: rev_cases)
  case (snoc xs l)
  have "AList.update k v m \<noteq> []" for k v and m :: "(string, string) gomap" by (cases m) (auto simp: case_prod_beta)
  then show ?thesis by (simp add: snoc LabelsToMap_def case_prod_beta)
qed (simp add: LabelsToMap_def)

subsection \<open>Reading a document back\<close>

lemma sort_keys_atoms:
  "sort_keys v = JNull \<longleftrightarrow> v = JNull" "sort_keys v = JStr s \<longleftrightarrow> v = JStr s" "sort_keys v = JNum s \<longleftrightarrow> v = JNum s"
  "sort_keys v = JArr vs \<longleftrightarrow> (\<exists>us. v = JArr us \<and> map sort_keys us = vs)"
  "sort_keys v = JObj fs \<longleftrightarrow> (\<exists>gs. v = JObj gs \<and> sort_key fst (map (map_prod id sort_keys) gs) = fs)"
  by (cases v; auto)+

lemma unmarshal_meta_same:
  assumes "sort_keys v = sort_keys (meta_json m)"
  shows "\<exists>m'. unmarshal_meta (Some v) = Inr m' \<and> set m' = set m"
proof (cases "m = []")
  case True
  then show ?thesis using assms by (simp add: meta_json_def sort_keys_atoms unmarshal_meta_def)
next
  case False
  let ?f = "\<lambda>(k, x). tx_bind (unmarshal_string (Some x)) (\<lambda>s. Inr (k, s))"
  obtain gs where v: "v = JObj gs"
    and e: "sort_key fst (map (map_prod id sort_keys) gs) = sort_key fst (map (map_prod id sort_keys) (map (\<lambda>(k, v). (k, JStr v)) m))"
    using assms False by (auto simp: meta_json_def sort_keys_atoms)
  have s: "map_prod id sort_keys ` set gs = (\<lambda>(k, v). (k, JStr v)) ` set m"
    using arg_cong [OF e, of set] by (force simp: image_image)
  have g: "snd p = JStr (snd (projr (?f p))) \<and> ?f p = Inr (projr (?f p)) \<and> fst (projr (?f p)) = fst p" if "p \<in> set gs" for p
  proof -
    have "map_prod id sort_keys p \<in> (\<lambda>(k, v). (k, JStr v)) ` set m" using s that by blast
    then obtain k x where "p = (k, JStr x)" by (cases p) (auto simp: sort_keys_atoms)
    then show ?thesis by (simp add: unmarshal_string_def)
  qed
  have t: "try_map ?f gs = Inr (map (\<lambda>p. projr (?f p)) gs)" using g by (intro try_map_total) metis
  have "q \<in> (\<lambda>p. projr (?f p)) ` set gs \<longleftrightarrow> q \<in> set m" for q
  proof
    assume "q \<in> (\<lambda>p. projr (?f p)) ` set gs"
    then obtain p where p: "p \<in> set gs" "q = projr (?f p)" by blast
    then have "p = (fst q, JStr (snd q))" using g [OF p(1)] by (metis prod.collapse)
    then have "(fst q, JStr (snd q)) \<in> (\<lambda>(k, v). (k, JStr v)) ` set m" using s p(1) by force
    then show "q \<in> set m" by auto
  next
    assume "q \<in> set m"
    then have "(fst q, JStr (snd q)) \<in> map_prod id sort_keys ` set gs" unfolding s by force
    then obtain p where p: "p \<in> set gs" "fst p = fst q" "sort_keys (snd p) = JStr (snd q)" by (auto simp: map_prod_def)
    then have "snd p = JStr (snd q)" by (simp add: sort_keys_atoms)
    then have "projr (?f p) = q" using p(2) by (cases p) (simp add: unmarshal_string_def)
    then show "q \<in> (\<lambda>p. projr (?f p)) ` set gs" using p(1) by blast
  qed
  then have "set (map (\<lambda>p. projr (?f p)) gs) = set m" unfolding set_map by (rule set_eqI)
  then show ?thesis using t v by (simp add: unmarshal_meta_def)
qed

lemma unmarshal_label_same:
  assumes "sort_keys y = sort_keys (label_json l)"
  shows "unmarshal_label y = Inr l"
proof -
  obtain k v where l: "l = (k, v)" by (cases l)
  obtain zs where y: "y = JObj zs" using assms by (auto simp: label_json_def l sort_keys_atoms)
  have "map_option sort_keys (map_of zs f) = map_option sort_keys (map_of [(''key'', JStr k), (''value'', JStr v)] f)" for f
    using assms unfolding y l label_json_def prod.case by (rule sorted_fields)
  from this [of "''key''"] this [of "''value''"]
  have "map_of zs ''key'' = Some (JStr k)" "map_of zs ''value'' = Some (JStr v)" by (auto simp: sort_keys_atoms)
  then show ?thesis by (simp add: unmarshal_label_def unmarshal_string_def y l)
qed

lemma unmarshal_labels_same:
  assumes "sort_keys v = sort_keys (labels_json ls)"
  shows "unmarshal_labels (Some v) = Inr ls"
proof (cases "ls = []")
  case True
  then show ?thesis using assms by (simp add: labels_json_def sort_keys_atoms unmarshal_labels_def)
next
  case False
  then obtain ys where v: "v = JArr ys" and e: "map sort_keys ys = map sort_keys (map label_json ls)"
    using assms by (auto simp: labels_json_def sort_keys_atoms)
  have "list_all2 (\<lambda>y l. unmarshal_label y = Inr l) ys ls"
    using e by (auto simp: list_all2_conv_all_nth unmarshal_label_same list_eq_iff_nth_eq)
  then show ?thesis by (simp add: v unmarshal_labels_def try_map_Inr)
qed

text \<open>The labels of a journal, read from any document with the canonical text of its genesis document.\<close>

lemma utf8_literal: "list_all ascii s \<Longrightarrow> to_valid s = s"
  by (rule to_valid_id) (rule utf8_valid_ascii)

lemma map_of_decoded:
  assumes "\<And>k. k \<in> fst ` set fs \<Longrightarrow> to_valid k = k" "decoded (JObj fs) = JObj gs"
  shows "map_of gs k = map_option decoded (map_of fs k)"
proof -
  have g: "gs = map (map_prod to_valid decoded) fs" using assms(2) by simp
  show ?thesis unfolding g using assms(1) by (induction fs) auto
qed

definition genesis_fields :: "lib \<Rightarrow> string \<Rightarrow> create_request \<Rightarrow> json \<Rightarrow> int \<Rightarrow> (string \<times> json) list" where
  "genesis_fields L tenantID req ret now = create_fields tenantID req ret @ [(''created_at'', JStr (FormatTime L now))]"

lemma genesis_keys: "k \<in> fst ` set (genesis_fields L tid req ret now) \<Longrightarrow> to_valid k = k"
  by (auto simp: genesis_fields_def create_fields_def ascii_def intro!: utf8_literal)

lemma decoded_meta: "(\<And>l. l \<in> set m \<Longrightarrow> normal_label L l) \<Longrightarrow> decoded (meta_json m) = meta_json m"
proof (rule decoded_id)
  assume a: "\<And>l. l \<in> set m \<Longrightarrow> normal_label L l"
  have "utf8_valid k \<and> utf8_valid v" if "(k, v) \<in> set m" for k v
    using a [OF that] word_patternD(3) utf8_valid_ascii by (auto simp: normal_label_def)
  then show "decoded_ok (meta_json m)" by (auto simp: meta_json_def list_all_iff)
qed

lemma decoded_labels: "(\<And>l. l \<in> set ls \<Longrightarrow> normal_label L l) \<Longrightarrow> decoded (labels_json ls) = labels_json ls"
proof (rule decoded_id)
  assume a: "\<And>l. l \<in> set ls \<Longrightarrow> normal_label L l"
  have "utf8_valid k \<and> utf8_valid v" if "(k, v) \<in> set ls" for k v
    using a [OF that] word_patternD(3) utf8_valid_ascii by (auto simp: normal_label_def)
  moreover have "utf8_valid ''key''" "utf8_valid ''value''" by (auto intro!: utf8_valid_ascii simp: ascii_def)
  ultimately show "decoded_ok (labels_json ls)" by (auto simp: labels_json_def label_json_def list_all_iff)
qed

lemma LabelsFromGenesis_same:
  assumes doc: "sort_keys doc = sort_keys (decoded (JObj (genesis_fields L tid req ret now)))"
    and ls: "cr_Labels req = ls" "cr_Meta req = LabelsToMap ls"
    and n: "\<And>l. l \<in> set ls \<Longrightarrow> normal_label L l" and s: "sorted ls" "distinct ls" and v: "ValidateLabels ls = Inr ()"
  shows "LabelsFromGenesis L doc = Inr ls"
proof -
  obtain gs where g: "decoded (JObj (genesis_fields L tid req ret now)) = JObj gs" by simp
  obtain kvs where d: "doc = JObj kvs" using doc unfolding g by (auto simp: sort_keys_atoms)
  have f: "map_option sort_keys (map_of kvs k) = map_option (sort_keys \<circ> decoded) (map_of (genesis_fields L tid req ret now) k)" for k
    using sorted_fields [OF doc [unfolded d g], of k] map_of_decoded [where k = k, OF genesis_keys g]
    by (simp add: option.map_comp)
  have nm: "\<And>l. l \<in> set (LabelsToMap ls) \<Longrightarrow> normal_label L l" using n LabelsToMap_subset by blast
  obtain mv where mv: "map_of kvs ''meta'' = Some mv" "sort_keys mv = sort_keys (meta_json (LabelsToMap ls))"
    using f [of "''meta''"] decoded_meta [OF nm] by (auto simp: genesis_fields_def create_fields_def ls)
  obtain lv where lv: "map_of kvs ''labels'' = Some lv" "sort_keys lv = sort_keys (labels_json ls)"
    using f [of "''labels''"] decoded_labels [OF n] by (auto simp: genesis_fields_def create_fields_def ls)
  obtain m' where m': "unmarshal_meta (Some mv) = Inr m'" "set m' = set (LabelsToMap ls)"
    using unmarshal_meta_same [OF mv(2)] by blast
  have "set (m' @ ls) = set ls" using m'(2) LabelsToMap_subset by auto
  with n s have "NormalizeLabels L (m' @ ls) = ls" by (rule NormalizeLabels_fixed)
  then show ?thesis
    using m'(1) unmarshal_labels_same [OF lv(2)] mv(1) lv(1) v
    by (simp add: LabelsFromGenesis_def d json_input_def LabelsFromMap_def Let_def)
qed

text \<open>The hash of an entry, with the summary read back from the store.\<close>

lemma same_entry_fields:
  assumes "same_json v w" "same_json (strings_json (e_Subjects e)) (strings_json (e_Subjects e'))"
    "e' = e\<lparr>e_Subjects := e_Subjects e', e_Summary := e_Summary e'\<rparr>"
  shows "same_json (JObj (entry_fields L e v)) (JObj (entry_fields L e' w))"
proof (rule same_json_JObj)
  show "list_all2 (\<lambda>a b. fst a = fst b \<and> same_json (snd a) (snd b)) (entry_fields L e v) (entry_fields L e' w)"
    using assms by (cases e; cases e') (simp add: entry_fields_def)
qed

end
