(* ===== verification/Journal_Store.thy ===== *)
theory Journal_Store
  imports Journal_Doc
begin

text \<open>
  The journal tables of a tenant and their operations (\<^verbatim>\<open>src/pkg/datastore/journal.go\<close>): creating a
  journal, appending a batch of entries under an idempotency key, listing entries, and verifying the
  hash chain and its projections. A transaction is one step; \<^verbatim>\<open>fault\<close> is the error the database
  raises for it, if any. The clock and the generated identifiers are arguments.
\<close>

datatype store_error =
  JNotFound | JValidation | JPayloadTooLarge | JConflict | JIdempotencyConflict | JClosed | JOther | JDatabase bool

section \<open>Tables\<close>

record journal_row =
  jr_Kind :: string
  jr_Title :: string
  jr_Actor :: actor
  jr_Source :: string
  jr_Meta :: "json option"
  jr_Retention :: "json option"
  jr_NextSeq :: int
  jr_Genesis :: json
  jr_CreateHash :: string
  jr_GenesisHash :: string
  jr_HeadHash :: string
  jr_CreatedAt :: int
  jr_UpdatedAt :: int
  jr_ClosedAt :: "int option"

record label_row =
  lr_Tenant :: string
  lr_Journal :: string
  lr_Key :: string
  lr_Hash :: string
  lr_Value :: string
  lr_CreatedAt :: int

record append_row =
  ap_RequestHash :: string
  ap_WriterType :: string
  ap_WriterID :: string
  ap_Source :: string
  ap_FirstSeq :: int
  ap_LastSeq :: int
  ap_Count :: int
  ap_HeadHash :: string

text \<open>A row of \<^verbatim>\<open>journal_entries\<close>: the scalar columns, and the three JSON columns.\<close>

record entry_row =
  er_Entry :: entry
  er_Subjects :: "json option"
  er_Summary :: "json option"
  er_ArtifactRefs :: "json option"

record subject_row =
  sr_Tenant :: string
  sr_Journal :: string
  sr_Seq :: int
  sr_EntryID :: string
  sr_Type :: string
  sr_Hash :: string
  sr_ID :: string
  sr_OccurredAt :: int
  sr_ObservedAt :: int

record journal_store =
  js_journals :: "(string \<times> string, journal_row) gomap"
  js_labels :: "label_row list"
  js_appends :: "(string \<times> string \<times> string, append_row) gomap"
  js_entries :: "entry_row list"
  js_subjects :: "subject_row list"

record journal =
  jn_TenantID :: string
  jn_JournalID :: string
  jn_Kind :: string
  jn_Title :: string
  jn_Actor :: actor
  jn_Source :: string
  jn_Meta :: "(string, string) gomap"
  jn_Labels :: "label list"
  jn_Retention :: raw
  jn_NextSeq :: int
  jn_GenesisHash :: string
  jn_HeadHash :: string
  jn_CreatedAt :: int
  jn_UpdatedAt :: int
  jn_ClosedAt :: "int option"

record append_response =
  rs_JournalID :: string
  rs_AppendID :: string
  rs_FirstSeq :: int
  rs_LastSeq :: int
  rs_Count :: int
  rs_HeadHash :: string
  rs_Idempotent :: bool

record journal_writer =
  w_Type :: string
  w_ID :: string
  w_Source :: string

record verify_result =
  v_OK :: bool
  v_JournalID :: string
  v_Entries :: int
  v_HeadHash :: string
  v_HashChainOK :: bool
  v_ProjectionOK :: bool

section \<open>Columns\<close>

definition wrapJournalInputError :: "journal_error \<Rightarrow> store_error" where
  "wrapJournalInputError e = (case e of PayloadTooLarge \<Rightarrow> JPayloadTooLarge | InvalidInput \<Rightarrow> JValidation)"

definition wrapped :: "journal_error + 'a \<Rightarrow> store_error + 'a" where
  "wrapped x = (case x of Inl e \<Rightarrow> Inl (wrapJournalInputError e) | Inr a \<Rightarrow> Inr a)"

text \<open>An error passed on as it is, which is none of the errors of package \<^verbatim>\<open>datastore\<close>.\<close>

definition failed :: "'e + 'a \<Rightarrow> store_error + 'a" where
  "failed x = (case x of Inl e \<Rightarrow> Inl JOther | Inr a \<Rightarrow> Inr a)"

text \<open>\<^verbatim>\<open>nullJSON\<close>: no bytes and the text \<^verbatim>\<open>null\<close> are stored as NULL; the database rejects a text that is
  not JSON, and gives back what its column type makes of the value.\<close>

definition nullJSON :: "lib \<Rightarrow> raw \<Rightarrow> store_error + json option" where
  "nullJSON L r =
    (case r of
       RawEmpty \<Rightarrow> Inr None
     | RawValue v \<Rightarrow> Inr (if v = JNull then None else Some (lib_column L v))
     | _ \<Rightarrow> Inl (JDatabase False))"

definition raw_column :: "json option \<Rightarrow> raw" where
  "raw_column c = (case c of None \<Rightarrow> RawEmpty | Some v \<Rightarrow> RawValue v)"

text \<open>\<^verbatim>\<open>json.Unmarshal\<close> with its error ignored: a value of the wrong type leaves the zero value.\<close>

definition text_value :: "json \<Rightarrow> string" where
  "text_value v = (case v of JStr s \<Rightarrow> s | _ \<Rightarrow> [])"

definition meta_column :: "json option \<Rightarrow> (string, string) gomap" where
  "meta_column c = (case c of Some (JObj kvs) \<Rightarrow> map (\<lambda>(k, v). (k, text_value v)) kvs | _ \<Rightarrow> [])"

definition strings_column :: "json option \<Rightarrow> string list option" where
  "strings_column c = (case c of Some (JArr vs) \<Rightarrow> Some (map text_value vs) | _ \<Rightarrow> None)"

definition artifact_value :: "json \<Rightarrow> artifact_ref" where
  "artifact_value v =
    (let kvs = (case v of JObj kvs \<Rightarrow> kvs | _ \<Rightarrow> []);
         text = (\<lambda>k. case map_of kvs k of Some x \<Rightarrow> text_value x | None \<Rightarrow> []);
         num = (\<lambda>k. case map_of kvs k of Some (JNum s) \<Rightarrow>
             (if \<exists>c\<in>set s. \<not> (is_digit c \<or> c = CHR ''-'') then 0
              else if s \<noteq> [] \<and> hd s = CHR ''-'' then - int (undigits (tl s)) else int (undigits s)) | _ \<Rightarrow> 0) in
     \<lparr>ar_Name = text ''name'', ar_Hash = text ''hash'', ar_ContentType = text ''content_type'', ar_SizeBytes = num ''size_bytes''\<rparr>)"

definition artifacts_column :: "json option \<Rightarrow> artifact_ref list option" where
  "artifacts_column c = (case c of Some (JArr vs) \<Rightarrow> Some (map artifact_value vs) | _ \<Rightarrow> None)"

section \<open>Reading\<close>

definition scanJournal :: "string \<Rightarrow> string \<Rightarrow> journal_row \<Rightarrow> journal" where
  "scanJournal tid jid r =
    \<lparr>jn_TenantID = tid, jn_JournalID = jid, jn_Kind = jr_Kind r, jn_Title = jr_Title r, jn_Actor = jr_Actor r,
     jn_Source = jr_Source r, jn_Meta = meta_column (jr_Meta r), jn_Labels = LabelsFromMap (meta_column (jr_Meta r)),
     jn_Retention = raw_column (jr_Retention r), jn_NextSeq = jr_NextSeq r, jn_GenesisHash = jr_GenesisHash r,
     jn_HeadHash = jr_HeadHash r, jn_CreatedAt = NormalizeTime (jr_CreatedAt r),
     jn_UpdatedAt = NormalizeTime (jr_UpdatedAt r), jn_ClosedAt = NormalizeOptionalTime (jr_ClosedAt r)\<rparr>"

definition label_rows :: "string \<Rightarrow> string \<Rightarrow> journal_store \<Rightarrow> label_row list" where
  "label_rows tid jid st =
    sort_key (\<lambda>r. (lr_Key r, lr_Value r)) (filter (\<lambda>r. lr_Tenant r = tid \<and> lr_Journal r = jid) (js_labels st))"

definition selectJournalLabelsTx :: "string \<Rightarrow> string \<Rightarrow> journal_store \<Rightarrow> label list" where
  "selectJournalLabelsTx tid jid st = map (\<lambda>r. (lr_Key r, lr_Value r)) (label_rows tid jid st)"

definition selectJournalTx :: "string \<Rightarrow> string \<Rightarrow> journal_store \<Rightarrow> store_error + journal \<times> string" where
  "selectJournalTx tid jid st =
    (case map_of (js_journals st) (tid, jid) of
       None \<Rightarrow> Inl JNotFound
     | Some r \<Rightarrow>
         let j = scanJournal tid jid r; labels = selectJournalLabelsTx tid jid st;
             j = j\<lparr>jn_Labels := labels\<rparr>;
             j = (if jn_Meta j = [] then j\<lparr>jn_Meta := LabelsToMap labels\<rparr> else j)
         in Inr (j, jr_CreateHash r))"

definition journalExists :: "string \<Rightarrow> string \<Rightarrow> journal_store \<Rightarrow> bool" where
  "journalExists tid jid st = mem_key (js_journals st) (tid, jid)"

definition selectAppendRequestTx :: "string \<Rightarrow> string \<Rightarrow> string \<Rightarrow> journal_store \<Rightarrow> store_error + append_row" where
  "selectAppendRequestTx tid jid aid st =
    (case map_of (js_appends st) (tid, jid, aid) of None \<Rightarrow> Inl JNotFound | Some r \<Rightarrow> Inr r)"

definition append_row_response :: "append_row \<Rightarrow> string \<Rightarrow> string \<Rightarrow> append_response" where
  "append_row_response r jid aid =
    \<lparr>rs_JournalID = jid, rs_AppendID = aid, rs_FirstSeq = ap_FirstSeq r, rs_LastSeq = ap_LastSeq r,
     rs_Count = ap_Count r, rs_HeadHash = ap_HeadHash r, rs_Idempotent = True\<rparr>"

definition scanEntry :: "entry_row \<Rightarrow> entry" where
  "scanEntry r = (er_Entry r)\<lparr>
     e_OccurredAt := NormalizeTime (e_OccurredAt (er_Entry r)), e_ObservedAt := NormalizeTime (e_ObservedAt (er_Entry r)),
     e_Subjects := strings_column (er_Subjects r), e_Summary := raw_column (er_Summary r),
     e_ArtifactRefs := artifacts_column (er_ArtifactRefs r)\<rparr>"

definition row_seq :: "entry_row \<Rightarrow> int" where
  "row_seq r = e_Seq (er_Entry r)"

definition in_journal :: "string \<Rightarrow> string \<Rightarrow> entry_row \<Rightarrow> bool" where
  "in_journal tid jid r \<longleftrightarrow> e_TenantID (er_Entry r) = tid \<and> e_JournalID (er_Entry r) = jid"

definition ListJournalEntries :: "string \<Rightarrow> string \<Rightarrow> int \<Rightarrow> int \<Rightarrow> journal_store \<Rightarrow> store_error + entry list" where
  "ListJournalEntries tid jid afterSeq limit st =
    (if tid = [] \<or> jid = [] then Inl JValidation
     else if \<not> ValidateJournalID jid then Inl JValidation
     else
       let out = map scanEntry (take (nat (NormalizeLimit limit))
             (sort_key row_seq (filter (\<lambda>r. in_journal tid jid r \<and> row_seq r > afterSeq) (js_entries st))))
       in if out = [] \<and> \<not> journalExists tid jid st then Inl JNotFound else Inr out)"

section \<open>Creating a journal\<close>

definition insertLabel :: "lib \<Rightarrow> string \<Rightarrow> string \<Rightarrow> int \<Rightarrow> label \<Rightarrow> journal_store \<Rightarrow> store_error + journal_store" where
  "insertLabel L tid jid now l st =
    (let row = \<lparr>lr_Tenant = tid, lr_Journal = jid, lr_Key = fst l, lr_Hash = LabelHash L (fst l) (snd l),
           lr_Value = snd l, lr_CreatedAt = now\<rparr> in
     if \<exists>r\<in>set (js_labels st). lr_Tenant r = tid \<and> lr_Journal r = jid \<and> lr_Key r = fst l \<and> lr_Hash r = lr_Hash row
     then Inl (JDatabase False)
     else Inr (st\<lparr>js_labels := js_labels st @ [row]\<rparr>))"

primrec insertLabels :: "lib \<Rightarrow> string \<Rightarrow> string \<Rightarrow> int \<Rightarrow> label list \<Rightarrow> journal_store \<Rightarrow> store_error + journal_store" where
  "insertLabels L tid jid now [] st = Inr st"
| "insertLabels L tid jid now (l # ls) st = tx_bind (insertLabel L tid jid now l st) (insertLabels L tid jid now ls)"

text \<open>The body of the transaction of \<^verbatim>\<open>CreateJournal\<close>, with the values computed before it.\<close>

record create_values =
  cv_CreateHash :: string
  cv_Genesis :: json
  cv_GenesisHash :: string

definition create_tx :: "lib \<Rightarrow> int \<Rightarrow> string \<Rightarrow> create_request \<Rightarrow> create_values \<Rightarrow> journal_store \<Rightarrow> store_error + journal \<times> journal_store" where
  "create_tx L now tid req cv st =
    (case selectJournalTx tid (cr_JournalID req) st of
       Inr (existing, existingCreateHash) \<Rightarrow>
         if existingCreateHash \<noteq> cv_CreateHash cv then Inl JConflict else Inr (existing, st)
     | Inl _ \<Rightarrow>
         tx_bind (nullJSON L (if cr_Meta req = [] then RawEmpty else RawValue (meta_json (cr_Meta req)))) (\<lambda>meta.
         tx_bind (nullJSON L (cr_Retention req)) (\<lambda>retention.
         let row = \<lparr>jr_Kind = cr_Kind req, jr_Title = cr_Title req, jr_Actor = cr_Actor req, jr_Source = cr_Source req,
               jr_Meta = meta, jr_Retention = retention, jr_NextSeq = 1, jr_Genesis = lib_column L (cv_Genesis cv),
               jr_CreateHash = cv_CreateHash cv, jr_GenesisHash = cv_GenesisHash cv, jr_HeadHash = cv_GenesisHash cv,
               jr_CreatedAt = now, jr_UpdatedAt = now, jr_ClosedAt = None\<rparr>;
             st' = st\<lparr>js_journals := AList.update (tid, cr_JournalID req) row (js_journals st)\<rparr> in
         tx_bind (insertLabels L tid (cr_JournalID req) now (cr_Labels req) st') (\<lambda>st''.
         Inr (\<lparr>jn_TenantID = tid, jn_JournalID = cr_JournalID req, jn_Kind = cr_Kind req, jn_Title = cr_Title req,
             jn_Actor = cr_Actor req, jn_Source = cr_Source req, jn_Meta = cr_Meta req, jn_Labels = cr_Labels req,
             jn_Retention = cr_Retention req, jn_NextSeq = 1, jn_GenesisHash = cv_GenesisHash cv,
             jn_HeadHash = cv_GenesisHash cv, jn_CreatedAt = now, jn_UpdatedAt = now, jn_ClosedAt = None\<rparr>, st'')))))"

definition isRetryableJournalCreateConflict :: "store_error + 'a \<Rightarrow> bool" where
  "isRetryableJournalCreateConflict r \<longleftrightarrow> (case r of Inl (JDatabase b) \<Rightarrow> b | _ \<Rightarrow> False)"

text \<open>The three attempts: \<^verbatim>\<open>faults n\<close> is the error of the database for the attempt that \<^verbatim>\<open>n\<close> more may follow.\<close>

definition in_tx :: "store_error option \<Rightarrow> store_error + 'a \<Rightarrow> store_error + 'a" where
  "in_tx fault r = (case fault of Some e \<Rightarrow> Inl e | None \<Rightarrow> r)"

primrec create_attempts :: "nat \<Rightarrow> (nat \<Rightarrow> store_error option) \<Rightarrow> store_error + 'a \<Rightarrow> store_error + 'a" where
  "create_attempts 0 faults r = in_tx (faults 0) r"
| "create_attempts (Suc n) faults r =
    (let out = in_tx (faults (Suc n)) r in if isRetryableJournalCreateConflict out then create_attempts n faults r else out)"

definition CreateJournal :: "lib \<Rightarrow> int \<Rightarrow> string \<Rightarrow> (nat \<Rightarrow> store_error option) \<Rightarrow> string \<Rightarrow> create_request \<Rightarrow> journal_store \<Rightarrow>
    store_error + journal \<times> journal_store" where
  "CreateJournal L clock newID faults tid req st =
    (if tid = [] then Inl JValidation
     else
       let req = (if cr_JournalID req = [] then req\<lparr>cr_JournalID := newID\<rparr> else req) in
       tx_bind (wrapped (NormalizeCreateRequest L req)) (\<lambda>req.
       tx_bind (wrapped (ValidateLabels (cr_Labels req))) (\<lambda>_.
       tx_bind (failed (CreateHash L tid req)) (\<lambda>createHash.
       let now = NormalizeTime clock in
       tx_bind (failed (GenesisDocument L tid req now)) (\<lambda>doc.
       tx_bind (failed (MarshalCanonical doc)) (\<lambda>_.
       tx_bind (failed (HashCanonical (lib_sha L) doc)) (\<lambda>genesisHash.
       create_attempts 2 faults
         (create_tx L now tid req
           \<lparr>cv_CreateHash = createHash, cv_Genesis = sort_keys (decoded doc), cv_GenesisHash = genesisHash\<rparr> st))))))))"

section \<open>Appending entries\<close>

definition insertSubject :: "lib \<Rightarrow> entry \<Rightarrow> string \<Rightarrow> journal_store \<Rightarrow> store_error + journal_store" where
  "insertSubject L e rawSubject st =
    tx_bind (failed (ParseSubject L rawSubject)) (\<lambda>(t, i).
      let row = \<lparr>sr_Tenant = e_TenantID e, sr_Journal = e_JournalID e, sr_Seq = e_Seq e, sr_EntryID = e_EntryID e,
            sr_Type = t, sr_Hash = SubjectHash L t i, sr_ID = i, sr_OccurredAt = e_OccurredAt e, sr_ObservedAt = e_ObservedAt e\<rparr> in
      if \<exists>r\<in>set (js_subjects st). sr_Tenant r = e_TenantID e \<and> sr_Type r = t \<and> sr_Hash r = sr_Hash row \<and>
           sr_ObservedAt r = e_ObservedAt e \<and> sr_Journal r = e_JournalID e \<and> sr_Seq r = e_Seq e
      then Inl (JDatabase False)
      else Inr (st\<lparr>js_subjects := js_subjects st @ [row]\<rparr>))"

primrec insertSubjects :: "lib \<Rightarrow> entry \<Rightarrow> string list \<Rightarrow> journal_store \<Rightarrow> store_error + journal_store" where
  "insertSubjects L e [] st = Inr st"
| "insertSubjects L e (s # ss) st = tx_bind (insertSubject L e s st) (insertSubjects L e ss)"

definition the_list :: "'a list option \<Rightarrow> 'a list" where
  "the_list x = (case x of None \<Rightarrow> [] | Some xs \<Rightarrow> xs)"

definition insertJournalEntryTx :: "lib \<Rightarrow> entry \<Rightarrow> journal_store \<Rightarrow> store_error + journal_store" where
  "insertJournalEntryTx L e st =
    tx_bind (nullJSON L (RawValue (strings_json (e_Subjects e)))) (\<lambda>subjects.
    tx_bind (nullJSON L (e_Summary e)) (\<lambda>summary.
    tx_bind (nullJSON L (RawValue (artifacts_json (e_ArtifactRefs e)))) (\<lambda>artifacts.
    if \<exists>r\<in>set (js_entries st). in_journal (e_TenantID e) (e_JournalID e) r \<and> row_seq r = e_Seq e \<or>
         e_TenantID (er_Entry r) = e_TenantID e \<and> e_EntryID (er_Entry r) = e_EntryID e
    then Inl (JDatabase False)
    else insertSubjects L e (the_list (e_Subjects e))
      (st\<lparr>js_entries := js_entries st @
        [\<lparr>er_Entry = e, er_Subjects = subjects, er_Summary = summary, er_ArtifactRefs = artifacts\<rparr>]\<rparr>))))"

primrec insertEntries :: "lib \<Rightarrow> entry list \<Rightarrow> journal_store \<Rightarrow> store_error + journal_store" where
  "insertEntries L [] st = Inr st"
| "insertEntries L (e # es) st = tx_bind (insertJournalEntryTx L e st) (insertEntries L es)"

text \<open>The entry of an input: its actor is the one given, else the journal's, else the writer.\<close>

definition no_actor :: "actor \<Rightarrow> bool" where
  "no_actor a \<longleftrightarrow> a_Type a = [] \<and> a_ID a = []"

definition build_entry :: "journal \<Rightarrow> journal_writer \<Rightarrow> string \<Rightarrow> int \<Rightarrow> int \<Rightarrow> string \<Rightarrow> string \<Rightarrow> entry_input \<Rightarrow> entry" where
  "build_entry cur w src observedAt seq eid prevHash i =
    \<lparr>e_TenantID = jn_TenantID cur, e_JournalID = jn_JournalID cur, e_Seq = seq, e_EntryID = eid, e_Type = in_Type i,
     e_SchemaVersion = in_SchemaVersion i, e_Status = in_Status i,
     e_OccurredAt = (case in_OccurredAt i of None \<Rightarrow> observedAt | Some t \<Rightarrow> t), e_ObservedAt = observedAt,
     e_Actor = (if no_actor (in_Actor i) then
        (if no_actor (jn_Actor cur) then \<lparr>a_Type = w_Type w, a_ID = w_ID w\<rparr> else jn_Actor cur) else in_Actor i),
     e_Source = src, e_ParentEntryID = in_ParentEntryID i, e_CorrelationID = in_CorrelationID i,
     e_Subjects = Some (in_Subjects i), e_Summary = in_Summary i, e_ArtifactRefs = None, e_PrevHash = prevHash,
     e_EntryHash = []\<rparr>"

primrec new_entries :: "lib \<Rightarrow> journal \<Rightarrow> journal_writer \<Rightarrow> string \<Rightarrow> int \<Rightarrow> (nat \<Rightarrow> string) \<Rightarrow> int \<Rightarrow> nat \<Rightarrow> string \<Rightarrow>
    entry_input list \<Rightarrow> store_error + entry list" where
  "new_entries L cur w src observedAt ids next i prevHash [] = Inr []"
| "new_entries L cur w src observedAt ids next i prevHash (x # xs) =
    (let e = build_entry cur w src observedAt (next + int i) (ids i) prevHash x in
     tx_bind (failed (EntryHash L e)) (\<lambda>h.
     tx_bind (new_entries L cur w src observedAt ids next (Suc i) h xs) (\<lambda>es. Inr (e\<lparr>e_EntryHash := h\<rparr> # es))))"

definition append_tx :: "lib \<Rightarrow> int \<Rightarrow> (nat \<Rightarrow> string) \<Rightarrow> string \<Rightarrow> string \<Rightarrow> string \<Rightarrow> journal_writer \<Rightarrow> string \<Rightarrow> entry_input list \<Rightarrow>
    string \<Rightarrow> journal_store \<Rightarrow> store_error + append_response \<times> journal_store" where
  "append_tx L clock ids tid jid aid w src inputs requestHash st =
    tx_bind (selectJournalTx tid jid st) (\<lambda>(cur, _).
    if jn_ClosedAt cur \<noteq> None then Inl JClosed
    else
      (case selectAppendRequestTx tid jid aid st of
         Inr existing \<Rightarrow>
           if ap_RequestHash existing \<noteq> requestHash \<or> ap_WriterType existing \<noteq> w_Type w \<or>
              ap_WriterID existing \<noteq> w_ID w \<or> ap_Source existing \<noteq> src
           then Inl JIdempotencyConflict
           else Inr (append_row_response existing jid aid, st)
       | Inl _ \<Rightarrow>
           let observedAt = NormalizeTime clock in
           tx_bind (new_entries L cur w src observedAt ids (jn_NextSeq cur) 0 (jn_HeadHash cur) inputs) (\<lambda>inserted.
           let firstSeq = e_Seq (hd inserted); lastSeq = e_Seq (last inserted); headHash = e_EntryHash (last inserted);
               row = \<lparr>ap_RequestHash = requestHash, ap_WriterType = w_Type w, ap_WriterID = w_ID w, ap_Source = src,
                 ap_FirstSeq = firstSeq, ap_LastSeq = lastSeq, ap_Count = int (length inserted), ap_HeadHash = headHash\<rparr>;
               st1 = st\<lparr>js_appends := AList.update (tid, jid, aid) row (js_appends st)\<rparr> in
           tx_bind (insertEntries L inserted st1) (\<lambda>st2.
           let upd = (\<lambda>r. r\<lparr>jr_NextSeq := lastSeq + 1, jr_HeadHash := headHash, jr_UpdatedAt := observedAt\<rparr>);
               st3 = st2\<lparr>js_journals := AList.map_entry (tid, jid) upd (js_journals st2)\<rparr> in
           Inr (\<lparr>rs_JournalID = jid, rs_AppendID = aid, rs_FirstSeq = firstSeq, rs_LastSeq = lastSeq,
               rs_Count = int (length inserted), rs_HeadHash = headHash, rs_Idempotent = False\<rparr>, st3)))))"

text \<open>Normalizing the inputs and checking the source each of them claims.\<close>

definition normalize_input :: "lib \<Rightarrow> string \<Rightarrow> entry_input \<Rightarrow> store_error + entry_input" where
  "normalize_input L src x =
    tx_bind (wrapped (NormalizeEntryInput L x [] [])) (\<lambda>n.
    if src = SourceSelf \<and> in_Source n \<noteq> SourceSelf then Inl JValidation
    else if in_Source n \<noteq> SourceSelf \<and> in_Source n \<noteq> src then Inl JValidation
    else Inr n)"

definition AppendJournalEntries :: "lib \<Rightarrow> int \<Rightarrow> (nat \<Rightarrow> string) \<Rightarrow> store_error option \<Rightarrow> string \<Rightarrow> string \<Rightarrow> string \<Rightarrow>
    journal_writer \<Rightarrow> entry_input list \<Rightarrow> journal_store \<Rightarrow> store_error + append_response \<times> journal_store" where
  "AppendJournalEntries L clock ids fault tid jid aid w entries st =
    (let w = w\<lparr>w_Type := (if w_Type w = [] then ''api_key'' else w_Type w), w_ID := (if w_ID w = [] then ''unknown'' else w_ID w)\<rparr>;
         src = (let s = TrimSpace (w_Source w) in if s = [] then SourceSelf else s) in
     if tid = [] \<or> jid = [] then Inl JValidation
     else if \<not> ValidateJournalID jid then Inl JValidation
     else if aid = [] then Inl JValidation
     else if \<not> ValidateAppendID aid then Inl JValidation
     else if entries = [] then Inl JValidation
     else if length entries > MaxEntriesPerBatch then Inl JPayloadTooLarge
     else if \<not> ValidateSource src then Inl JValidation
     else
       tx_bind (try_map (normalize_input L src) entries) (\<lambda>normalized.
       tx_bind (wrapped (ValidateAppendBatch L normalized)) (\<lambda>_.
       tx_bind (failed (RequestHash L normalized)) (\<lambda>requestHash.
       in_tx fault (append_tx L clock ids tid jid aid w src normalized requestHash st)))))"

section \<open>Verifying a journal\<close>

text \<open>The subjects of the entries of a sequence range, read from the projection: each row must be
  canonical and carry its hash.\<close>

definition subject_row_ok :: "lib \<Rightarrow> subject_row \<Rightarrow> bool" where
  "subject_row_ok L r =
    (case ParseSubject L (sr_Type r @ '':'' @ sr_ID r) of
       Inl _ \<Rightarrow> False
     | Inr (t, i) \<Rightarrow> t = sr_Type r \<and> i = sr_ID r \<and> sr_Hash r = SubjectHash L t i)"

definition subject_row_text :: "lib \<Rightarrow> subject_row \<Rightarrow> (int \<times> string) list" where
  "subject_row_text L r =
    (case ParseSubject L (sr_Type r @ '':'' @ sr_ID r) of Inl _ \<Rightarrow> [] | Inr p \<Rightarrow> [(sr_Seq r, subject_text p)])"

definition loadJournalEntrySubjects :: "lib \<Rightarrow> string \<Rightarrow> string \<Rightarrow> int \<Rightarrow> int \<Rightarrow> journal_store \<Rightarrow>
    journal_error + (int, string list) gomap \<times> bool" where
  "loadJournalEntrySubjects L tid jid firstSeq lastSeq st =
    (let rows = sort_key sr_Seq (filter (\<lambda>r. sr_Tenant r = tid \<and> sr_Journal r = jid \<and> firstSeq \<le> sr_Seq r \<and> sr_Seq r \<le> lastSeq)
            (js_subjects st));
         texts = concat (map (subject_row_text L) rows);
         seqs = remdups (map fst texts) in
     tx_bind (try_map (\<lambda>seq. tx_bind (NormalizeSubjects L (map snd (filter (\<lambda>p. fst p = seq) texts))) (\<lambda>ss. Inr (seq, ss))) seqs)
       (\<lambda>out. Inr (out, list_all (subject_row_ok L) rows)))"

definition label_row_ok :: "lib \<Rightarrow> label_row \<Rightarrow> bool" where
  "label_row_ok L r =
    (case NormalizeLabels L [(lr_Key r, lr_Value r)] of
       [c] \<Rightarrow> c = (lr_Key r, lr_Value r) \<and> ValidateLabels [c] = Inr () \<and> lr_Hash r = LabelHash L (fst c) (snd c)
     | _ \<Rightarrow> False)"

definition label_row_label :: "lib \<Rightarrow> label_row \<Rightarrow> label list" where
  "label_row_label L r =
    (case NormalizeLabels L [(lr_Key r, lr_Value r)] of
       [c] \<Rightarrow> if ValidateLabels [c] = Inr () then [c] else []
     | _ \<Rightarrow> [])"

definition loadJournalLabels :: "lib \<Rightarrow> string \<Rightarrow> string \<Rightarrow> journal_store \<Rightarrow> label list \<times> bool" where
  "loadJournalLabels L tid jid st =
    (let rows = label_rows tid jid st;
         labels = NormalizeLabels L (concat (map (label_row_label L) rows)) in
     if ValidateLabels labels \<noteq> Inr () then ([], False)
     else (labels, list_all (label_row_ok L) rows))"

record verify_state =
  vs_prev :: string
  vs_chain :: bool
  vs_projection :: bool
  vs_count :: int

definition verify_entry :: "lib \<Rightarrow> (int, string list) gomap \<Rightarrow> entry \<Rightarrow> verify_state \<Rightarrow> store_error + verify_state" where
  "verify_entry L subjectsBySeq e s =
    tx_bind (failed (EntryHash L (e\<lparr>e_EntryHash := []\<rparr>))) (\<lambda>recomputed.
    Inr \<lparr>vs_prev = recomputed,
      vs_chain = (vs_chain s \<and> e_PrevHash e = vs_prev s \<and> recomputed = e_EntryHash e),
      vs_projection = (vs_projection s \<and> the_list (e_Subjects e) = the_list (map_of subjectsBySeq (e_Seq e))),
      vs_count = vs_count s + 1\<rparr>)"

primrec verify_entries :: "lib \<Rightarrow> (int, string list) gomap \<Rightarrow> entry list \<Rightarrow> verify_state \<Rightarrow> store_error + verify_state" where
  "verify_entries L m [] s = Inr s"
| "verify_entries L m (e # es) s = tx_bind (verify_entry L m e s) (verify_entries L m es)"

definition verify_page :: "lib \<Rightarrow> string \<Rightarrow> string \<Rightarrow> journal_store \<Rightarrow> entry list \<Rightarrow> verify_state \<Rightarrow> store_error + verify_state" where
  "verify_page L tid jid st page s =
    tx_bind (failed (loadJournalEntrySubjects L tid jid (e_Seq (hd page)) (e_Seq (last page)) st)) (\<lambda>(m, ok).
    verify_entries L m page (s\<lparr>vs_projection := vs_projection s \<and> ok\<rparr>))"

lemma filter_length_less:
  assumes "\<And>x. Q x \<Longrightarrow> P x" "y \<in> set xs" "P y" "\<not> Q y"
  shows "length (filter Q xs) < length (filter P xs)"
proof -
  have "filter Q xs = filter Q (filter P xs)" using assms(1) by (induction xs) auto
  also have "length \<dots> < length (filter P xs)" using assms(2-4) by (intro length_filter_less [of y]) auto
  finally show ?thesis .
qed

lemma scanEntry_fields [simp]:
  "e_Seq (scanEntry r) = row_seq r" "e_TenantID (scanEntry r) = e_TenantID (er_Entry r)"
  "e_JournalID (scanEntry r) = e_JournalID (er_Entry r)" "e_PrevHash (scanEntry r) = e_PrevHash (er_Entry r)"
  "e_EntryHash (scanEntry r) = e_EntryHash (er_Entry r)" "e_EntryID (scanEntry r) = e_EntryID (er_Entry r)"
  by (simp_all add: scanEntry_def row_seq_def)

lemma ListJournalEntries_last:
  assumes "ListJournalEntries tid jid after limit st = Inr page" "page \<noteq> []"
  obtains r where "r \<in> set (js_entries st)" "in_journal tid jid r" "row_seq r > after" "last page = scanEntry r"
proof -
  let ?F = "filter (\<lambda>r. in_journal tid jid r \<and> row_seq r > after) (js_entries st)"
  have p: "page = map scanEntry (take (nat (NormalizeLimit limit)) (sort_key row_seq ?F))"
    using assms(1) by (auto simp: ListJournalEntries_def Let_def split: if_splits)
  let ?t = "take (nat (NormalizeLimit limit)) (sort_key row_seq ?F)"
  have "last ?t \<in> set ?t" using assms(2) p by (intro last_in_set) simp
  then have "last ?t \<in> set ?F" using set_take_subset [of _ "sort_key row_seq ?F"] by fastforce
  moreover have "last page = scanEntry (last ?t)" using p assms(2) by (simp add: last_map)
  ultimately show thesis using that [of "last ?t"] by simp
qed

text \<open>The loop over pages: each page starts after the last entry of the one before.\<close>

function verify_loop :: "lib \<Rightarrow> string \<Rightarrow> string \<Rightarrow> journal_store \<Rightarrow> int \<Rightarrow> verify_state \<Rightarrow> store_error + verify_state" where
  "verify_loop L tid jid st after s =
    (case ListJournalEntries tid jid after MaxLimit st of
       Inl e \<Rightarrow> Inl e
     | Inr page \<Rightarrow>
         if page = [] then Inr s
         else (case verify_page L tid jid st page s of
             Inl e \<Rightarrow> Inl e
           | Inr s' \<Rightarrow> verify_loop L tid jid st (e_Seq (last page)) s'))"
  by pat_completeness auto
termination
proof (relation "measure (\<lambda>(L, tid, jid, st, after, s). length (filter (\<lambda>r. row_seq r > after) (js_entries st)))")
  fix L tid jid st after s page s'
  assume l: "ListJournalEntries tid jid after MaxLimit st = Inr page" and ne: "page \<noteq> []"
  obtain r where r: "r \<in> set (js_entries st)" "row_seq r > after" "last page = scanEntry r"
    using ListJournalEntries_last [OF l ne] by blast
  have "length (filter (\<lambda>x. row_seq x > row_seq r) (js_entries st)) < length (filter (\<lambda>x. row_seq x > after) (js_entries st))"
    by (rule filter_length_less [of _ _ r]) (use r in auto)
  then show "((L, tid, jid, st, e_Seq (last page), s'), (L, tid, jid, st, after, s))
      \<in> measure (\<lambda>(L, tid, jid, st, after, s). length (filter (\<lambda>r. row_seq r > after) (js_entries st)))"
    using r(3) by simp
qed simp

declare verify_loop.simps [simp del]

definition VerifyJournal :: "lib \<Rightarrow> string \<Rightarrow> string \<Rightarrow> journal_store \<Rightarrow> store_error + verify_result" where
  "VerifyJournal L tid jid st =
    (case map_of (js_journals st) (tid, jid) of
       None \<Rightarrow> Inl JNotFound
     | Some row \<Rightarrow>
         tx_bind (failed (HashCanonical (lib_sha L) (through_float L (jr_Genesis row)))) (\<lambda>genesisHash.
         tx_bind (failed (LabelsFromGenesis L (jr_Genesis row))) (\<lambda>expectedLabels.
         let (storedLabels, labelsOK) = loadJournalLabels L tid jid st;
             s0 = \<lparr>vs_prev = genesisHash, vs_chain = (genesisHash = jr_GenesisHash row),
               vs_projection = (labelsOK \<and> expectedLabels = storedLabels), vs_count = 0\<rparr> in
         tx_bind (verify_loop L tid jid st 0 s0) (\<lambda>s.
         let chain = (vs_chain s \<and> vs_prev s = jr_HeadHash row) in
         Inr \<lparr>v_OK = (chain \<and> vs_projection s), v_JournalID = jid, v_Entries = vs_count s, v_HeadHash = jr_HeadHash row,
           v_HashChainOK = chain, v_ProjectionOK = vs_projection s\<rparr>))))"

end
