(* ===== verification/Journal_Chain.thy ===== *)
theory Journal_Chain
  imports Journal_Store
begin

text \<open>
  What the journal tables keep: the entries of a journal are numbered from 1 without gaps and form a
  hash chain from the genesis document to the head, and the label and subject rows are the projections
  of the genesis document and of the entries. Creating journals and appending entries preserve it,
  and a journal that satisfies it passes verification.
\<close>

section \<open>The stream of a journal\<close>

definition stream :: "string \<Rightarrow> string \<Rightarrow> journal_store \<Rightarrow> entry_row list" where
  "stream tid jid st = sort_key row_seq (filter (in_journal tid jid) (js_entries st))"

text \<open>A chain of entries from one hash to another.\<close>

fun chain :: "lib \<Rightarrow> string \<Rightarrow> entry list \<Rightarrow> string \<Rightarrow> bool" where
  "chain L p [] h \<longleftrightarrow> p = h"
| "chain L p (e # es) h \<longleftrightarrow> e_PrevHash e = p \<and> EntryHash L e = Inr (e_EntryHash e) \<and> chain L (e_EntryHash e) es h"

lemma chain_append: "chain L p (xs @ ys) h \<longleftrightarrow> (\<exists>m. chain L p xs m \<and> chain L m ys h)"
  by (induction xs arbitrary: p) auto

lemma EntryHash_hash [simp]: "EntryHash L (e\<lparr>e_EntryHash := x\<rparr>) = EntryHash L e"
  by (simp add: EntryHash_def entry_fields_def)

lemma sort_key_append_ge:
  assumes "sorted (map f ys)" "\<And>x y. x \<in> set xs \<Longrightarrow> y \<in> set ys \<Longrightarrow> f x \<le> f y"
  shows "sort_key f (xs @ ys) = sort_key f xs @ ys"
  using assms(2)
proof (induction xs)
  case Nil
  then show ?case using assms(1) by (simp add: sort_key_id_if_sorted)
next
  case (Cons x xs)
  have "insort_key f x (zs @ ys) = insort_key f x zs @ ys" for zs
  proof (induction zs)
    case Nil
    then show ?case using Cons.prems by (cases ys) auto
  qed auto
  then show ?case using Cons by simp
qed

section \<open>Projections\<close>

definition normal_subjects :: "lib \<Rightarrow> string list \<Rightarrow> bool" where
  "normal_subjects L ss \<longleftrightarrow> sorted ss \<and> distinct ss \<and> (\<forall>x\<in>set ss. \<exists>p. ParseSubject L x = Inr p \<and> subject_text p = x)"

definition subject_rows :: "string \<Rightarrow> string \<Rightarrow> int \<Rightarrow> journal_store \<Rightarrow> subject_row list" where
  "subject_rows tid jid seq st = filter (\<lambda>r. sr_Tenant r = tid \<and> sr_Journal r = jid \<and> sr_Seq r = seq) (js_subjects st)"

definition row_text :: "subject_row \<Rightarrow> string" where
  "row_text r = subject_text (sr_Type r, sr_ID r)"

definition subjects_ok :: "lib \<Rightarrow> journal_store \<Rightarrow> entry \<Rightarrow> bool" where
  "subjects_ok L st e \<longleftrightarrow>
    normal_subjects L (the_list (e_Subjects e)) \<and>
    (\<forall>r\<in>set (subject_rows (e_TenantID e) (e_JournalID e) (e_Seq e) st). subject_row_ok L r) \<and>
    row_text ` set (subject_rows (e_TenantID e) (e_JournalID e) (e_Seq e) st) = set (the_list (e_Subjects e))"

definition labels_ok :: "lib \<Rightarrow> string \<Rightarrow> string \<Rightarrow> json \<Rightarrow> journal_store \<Rightarrow> bool" where
  "labels_ok L tid jid genesis st \<longleftrightarrow>
    (\<exists>ls. LabelsFromGenesis L genesis = Inr ls \<and> ValidateLabels ls = Inr () \<and> (\<forall>l\<in>set ls. normal_label L l) \<and>
      selectJournalLabelsTx tid jid st = ls \<and> sorted ls \<and> distinct ls \<and>
      (\<forall>r\<in>set (label_rows tid jid st). lr_Hash r = LabelHash L (lr_Key r) (lr_Value r)))"

definition journal_ok :: "lib \<Rightarrow> journal_store \<Rightarrow> string \<Rightarrow> string \<Rightarrow> journal_row \<Rightarrow> bool" where
  "journal_ok L st tid jid row \<longleftrightarrow>
    HashCanonical (lib_sha L) (through_float L (jr_Genesis row)) = Inr (jr_GenesisHash row) \<and>
    labels_ok L tid jid (jr_Genesis row) st \<and>
    map row_seq (stream tid jid st) = [1..jr_NextSeq row - 1] \<and> 1 \<le> jr_NextSeq row \<and>
    chain L (jr_GenesisHash row) (map scanEntry (stream tid jid st)) (jr_HeadHash row) \<and>
    (\<forall>r\<in>set (stream tid jid st). subjects_ok L st (scanEntry r))"

definition store_ok :: "lib \<Rightarrow> journal_store \<Rightarrow> bool" where
  "store_ok L st \<longleftrightarrow>
    (\<forall>tid jid row. map_of (js_journals st) (tid, jid) = Some row \<longrightarrow>
      journal_ok L st tid jid row \<and> tid \<noteq> [] \<and> (jid = [] \<or> ValidateJournalID jid)) \<and>
    (\<forall>r\<in>set (js_entries st). mem_key (js_journals st) (e_TenantID (er_Entry r), e_JournalID (er_Entry r))) \<and>
    (\<forall>r\<in>set (js_labels st). mem_key (js_journals st) (lr_Tenant r, lr_Journal r)) \<and>
    (\<forall>r\<in>set (js_subjects st). \<exists>x\<in>set (js_entries st). in_journal (sr_Tenant r) (sr_Journal r) x \<and> row_seq x = sr_Seq r)"

lemma store_okD:
  assumes "store_ok L st" "map_of (js_journals st) (tid, jid) = Some row"
  shows "journal_ok L st tid jid row" "tid \<noteq> []" "jid = [] \<or> ValidateJournalID jid"
  using assms unfolding store_ok_def by blast+

section \<open>A journal in this state passes verification\<close>

lemma set_stream: "set (stream tid jid st) = {r \<in> set (js_entries st). in_journal tid jid r}"
  by (auto simp: stream_def)

lemma subject_row_ok_parse: "subject_row_ok L r \<Longrightarrow> ParseSubject L (row_text r) = Inr (sr_Type r, sr_ID r)"
  by (auto simp: subject_row_ok_def row_text_def subject_text_def split: sum.splits)

lemma subject_row_ok_text: "subject_row_ok L r \<Longrightarrow> subject_row_text L r = [(sr_Seq r, row_text r)]"
  using subject_row_ok_parse [of L r] by (simp add: subject_row_text_def row_text_def subject_text_def)

lemma NormalizeSubjects_listing:
  assumes "normal_subjects L ss" "set xs = set ss"
  shows "NormalizeSubjects L xs = Inr ss"
proof -
  have p: "\<exists>p. ParseSubject L x = Inr p \<and> subject_text p = x" if "x \<in> set xs" for x
    using assms that by (auto simp: normal_subjects_def)
  then have "try_map (ParseSubject L) xs = Inr (map (\<lambda>x. projr (ParseSubject L x)) xs)"
    by (intro try_map_total) blast
  moreover have "map subject_text (map (\<lambda>x. projr (ParseSubject L x)) xs) = xs"
    using p by (auto intro!: map_idI) force
  moreover have "sorted_set id xs = ss"
    using sorted_set_cong [of xs ss id] sorted_set_id [of ss id] assms by (simp add: normal_subjects_def)
  ultimately show ?thesis by (simp add: NormalizeSubjects_def del: map_map)
qed

lemma map_of_tabulate: "map_of (map (\<lambda>k. (k, f k)) ks) k = (if k \<in> set ks then Some (f k) else None)"
  by (induction ks) auto

lemma load_subjects:
  assumes sub: "\<And>x. x \<in> set (stream tid jid st) \<Longrightarrow> subjects_ok L st (scanEntry x)"
    and own: "\<And>r. r \<in> set (js_subjects st) \<Longrightarrow> sr_Tenant r = tid \<Longrightarrow> sr_Journal r = jid \<Longrightarrow>
      \<exists>x\<in>set (stream tid jid st). row_seq x = sr_Seq r"
  obtains m where "loadJournalEntrySubjects L tid jid lo hi st = Inr (m, True)"
    "\<And>x. x \<in> set (stream tid jid st) \<Longrightarrow> lo \<le> row_seq x \<Longrightarrow> row_seq x \<le> hi \<Longrightarrow>
      the_list (map_of m (row_seq x)) = the_list (e_Subjects (scanEntry x))"
proof -
  let ?F = "filter (\<lambda>r. sr_Tenant r = tid \<and> sr_Journal r = jid \<and> lo \<le> sr_Seq r \<and> sr_Seq r \<le> hi) (js_subjects st)"
  define rows where "rows = sort_key sr_Seq ?F"
  define texts where "texts = concat (map (subject_row_text L) rows)"
  define seqs where "seqs = remdups (map fst texts)"
  have rows: "set rows = set ?F" by (simp add: rows_def)
  have owner: "\<exists>x\<in>set (stream tid jid st). row_seq x = sr_Seq r \<and> r \<in> set (subject_rows tid jid (row_seq x) st)"
    if "r \<in> set rows" for r using own that rows by (force simp: subject_rows_def)
  have key: "in_journal tid jid x" if "x \<in> set (stream tid jid st)" for x using that by (simp add: set_stream)
  have ok: "subject_row_ok L r" if "r \<in> set rows" for r
    using owner [OF that] sub key by (fastforce simp: subjects_ok_def in_journal_def)
  have texts: "texts = map (\<lambda>r. (sr_Seq r, row_text r)) rows"
    using ok subject_row_ok_text unfolding texts_def by (induction rows) auto
  have at: "set (map snd (filter (\<lambda>p. fst p = row_seq x) texts)) = set (the_list (e_Subjects (scanEntry x)))"
    if x: "x \<in> set (stream tid jid st)" "lo \<le> row_seq x" "row_seq x \<le> hi" for x
  proof -
    have "set (map snd (filter (\<lambda>p. fst p = row_seq x) texts)) = row_text ` set (subject_rows tid jid (row_seq x) st)"
      using x(2,3) rows unfolding texts by (force simp: subject_rows_def)
    then show ?thesis using sub [OF x(1)] key [OF x(1)] by (simp add: subjects_ok_def in_journal_def)
  qed
  have norm: "NormalizeSubjects L (map snd (filter (\<lambda>p. fst p = row_seq x) texts)) = Inr (the_list (e_Subjects (scanEntry x)))"
    if x: "x \<in> set (stream tid jid st)" "lo \<le> row_seq x" "row_seq x \<le> hi" for x
    using sub [OF x(1)] at [OF x] by (intro NormalizeSubjects_listing) (simp_all add: subjects_ok_def)
  let ?g = "\<lambda>seq. tx_bind (NormalizeSubjects L (map snd (filter (\<lambda>p. fst p = seq) texts))) (\<lambda>ss. Inr (seq, ss))"
  have "\<exists>y. ?g seq = Inr y" if q: "seq \<in> set seqs" for seq
  proof -
    obtain r where "r \<in> set rows" "seq = sr_Seq r" using q by (auto simp: seqs_def texts)
    then obtain x where "x \<in> set (stream tid jid st)" "row_seq x = seq" "lo \<le> seq" "seq \<le> hi" using owner rows by fastforce
    then show ?thesis using norm [of x] by simp
  qed
  then have out: "try_map ?g seqs = Inr (map (\<lambda>seq. projr (?g seq)) seqs)" by (rule try_map_total)
  define m where "m = map (\<lambda>seq. projr (?g seq)) seqs"
  show thesis
  proof (rule that [of m])
    show "loadJournalEntrySubjects L tid jid lo hi st = Inr (m, True)"
      using out ok unfolding loadJournalEntrySubjects_def Let_def rows_def [symmetric] texts_def [symmetric] seqs_def [symmetric] m_def
      by (simp add: list_all_iff)
    fix x assume x: "x \<in> set (stream tid jid st)" "lo \<le> row_seq x" "row_seq x \<le> hi"
    have fst: "fst (projr (?g seq)) = seq" if "seq \<in> set seqs" for seq
      using \<open>\<And>seq. seq \<in> set seqs \<Longrightarrow> \<exists>y. ?g seq = Inr y\<close> [OF that]
      by (cases "NormalizeSubjects L (map snd (filter (\<lambda>p. fst p = seq) texts))") auto
    then have "m = map (\<lambda>seq. (seq, snd (projr (?g seq)))) seqs" unfolding m_def by (intro map_cong) (auto simp: prod_eq_iff)
    then have mo: "map_of m (row_seq x) = (if row_seq x \<in> set seqs then Some (the_list (e_Subjects (scanEntry x))) else None)"
      using norm [OF x] by (simp add: map_of_tabulate)
    show "the_list (map_of m (row_seq x)) = the_list (e_Subjects (scanEntry x))"
    proof (cases "row_seq x \<in> set seqs")
      case False
      then have "filter (\<lambda>p. fst p = row_seq x) texts = []" by (force simp: seqs_def filter_empty_conv)
      then have "the_list (e_Subjects (scanEntry x)) = []" using at [OF x] by simp
      then show ?thesis using False mo by (simp add: the_list_def)
    qed (use mo in \<open>simp add: the_list_def\<close>)
  qed
qed

lemma verify_entries_ok:
  assumes "chain L (vs_prev s) es h" "\<And>e. e \<in> set es \<Longrightarrow> the_list (map_of m (e_Seq e)) = the_list (e_Subjects e)"
  shows "verify_entries L m es s = Inr (s\<lparr>vs_prev := h, vs_count := vs_count s + int (length es)\<rparr>)"
  using assms
proof (induction es arbitrary: s)
  case (Cons e es)
  let ?s = "s\<lparr>vs_prev := e_EntryHash e, vs_count := vs_count s + 1\<rparr>"
  have "verify_entry L m e s = Inr ?s" using Cons.prems by (simp add: verify_entry_def failed_def)
  moreover have "verify_entries L m es ?s = Inr (?s\<lparr>vs_prev := h, vs_count := vs_count ?s + int (length es)\<rparr>)"
    by (rule Cons.IH) (use Cons.prems in auto)
  ultimately show ?case by (simp add: add.assoc)
qed simp

text \<open>A strictly sorted list lies between its ends, and its rest after a page is the list without it.\<close>

lemma strict_bounds:
  fixes f :: "'a \<Rightarrow> 'k::linorder"
  assumes "sorted_wrt (<) (map f xs)" "x \<in> set xs"
  shows "f (hd xs) \<le> f x" "f x \<le> f (last xs)"
proof -
  show "f (hd xs) \<le> f x" using assms by (cases xs) auto
  show "f x \<le> f (last xs)" using assms by (cases xs rule: rev_cases) (auto simp: sorted_wrt_append)
qed

lemma rest_after_page:
  fixes f :: "'a \<Rightarrow> 'k::linorder"
  assumes "sorted_wrt (<) (map f xs)" "take n xs \<noteq> []"
  shows "filter (\<lambda>x. f (last (take n xs)) < f x) xs = drop n xs"
proof -
  let ?a = "take n xs" and ?b = "drop n xs"
  have s: "sorted_wrt (<) (map f ?a @ map f ?b)" using assms(1) by (metis append_take_drop_id map_append)
  have a: "f x \<le> f (last ?a)" if "x \<in> set ?a" for x
    using s that by (intro strict_bounds(2)) (simp_all add: sorted_wrt_append)
  have l: "last ?a \<in> set ?a" using assms(2) by (rule last_in_set)
  have b: "f (last ?a) < f y" if "y \<in> set ?b" for y
    using s that l unfolding sorted_wrt_append by auto
  have "filter (\<lambda>x. f (last ?a) < f x) (?a @ ?b) = ?b"
    using a b by (auto simp: filter_empty_conv not_less filter_id_conv simp del: append_take_drop_id)
  then show ?thesis by simp
qed

definition rest_of :: "string \<Rightarrow> string \<Rightarrow> int \<Rightarrow> journal_store \<Rightarrow> entry_row list" where
  "rest_of tid jid after st = filter (\<lambda>r. after < row_seq r) (stream tid jid st)"

lemma ListJournalEntries_rest:
  assumes "tid \<noteq> []" "ValidateJournalID jid" "mem_key (js_journals st) (tid, jid)"
  shows "ListJournalEntries tid jid after MaxLimit st = Inr (map scanEntry (take 1000 (rest_of tid jid after st)))"
proof -
  have "jid \<noteq> []" using assms(2) by (auto simp: ValidateJournalID_def id_pattern_def)
  moreover have "sort_key row_seq (filter (\<lambda>r. in_journal tid jid r \<and> after < row_seq r) (js_entries st)) = rest_of tid jid after st"
    unfolding rest_of_def stream_def by (subst filter_sort) (simp add: conj_commute)
  ultimately show ?thesis
    using assms by (simp add: ListJournalEntries_def journalExists_def NormalizeLimit_def MaxLimit_def)
qed

lemma verify_loop_ok:
  assumes id: "tid \<noteq> []" "ValidateJournalID jid" "mem_key (js_journals st) (tid, jid)"
    and strict: "sorted_wrt (<) (map row_seq (stream tid jid st))"
    and sub: "\<And>x. x \<in> set (stream tid jid st) \<Longrightarrow> subjects_ok L st (scanEntry x)"
    and own: "\<And>r. r \<in> set (js_subjects st) \<Longrightarrow> sr_Tenant r = tid \<Longrightarrow> sr_Journal r = jid \<Longrightarrow>
      \<exists>x\<in>set (stream tid jid st). row_seq x = sr_Seq r"
    and ch: "chain L (vs_prev s) (map scanEntry (rest_of tid jid after st)) h" and p: "vs_projection s"
  shows "verify_loop L tid jid st after s =
    Inr (s\<lparr>vs_prev := h, vs_count := vs_count s + int (length (rest_of tid jid after st))\<rparr>)"
  using ch p
proof (induction "length (rest_of tid jid after st)" arbitrary: after s rule: less_induct)
  case less
  let ?R = "rest_of tid jid after st"
  let ?P = "take 1000 ?R"
  note list = ListJournalEntries_rest [OF id]
  show ?case
  proof (cases "?R = []")
    case True
    then show ?thesis using less.prems list by (subst verify_loop.simps) simp
  next
    case False
    have ne: "?P \<noteq> []" using False by simp
    have strictR: "sorted_wrt (<) (map row_seq ?R)"
      using strict unfolding rest_of_def by (simp add: sorted_wrt_map sorted_wrt_filter)
    have inP: "x \<in> set (stream tid jid st)" if "x \<in> set ?P" for x
      using that set_take_subset [of 1000 ?R] by (auto simp: rest_of_def)
    have range: "row_seq (hd ?P) \<le> row_seq x \<and> row_seq x \<le> row_seq (last ?P)" if "x \<in> set ?P" for x
      using strict_bounds [of row_seq ?P x] strictR that
      by (metis append_take_drop_id map_append sorted_wrt_append)
    obtain k where k: "chain L (vs_prev s) (map scanEntry ?P) k" "chain L k (map scanEntry (drop 1000 ?R)) h"
      using less.prems(1) chain_append [of L "vs_prev s" "map scanEntry ?P" "map scanEntry (drop 1000 ?R)" h]
      by (auto simp flip: map_append)
    obtain m where m: "loadJournalEntrySubjects L tid jid (row_seq (hd ?P)) (row_seq (last ?P)) st = Inr (m, True)"
        "\<And>x. x \<in> set (stream tid jid st) \<Longrightarrow> row_seq (hd ?P) \<le> row_seq x \<Longrightarrow> row_seq x \<le> row_seq (last ?P) \<Longrightarrow>
          the_list (map_of m (row_seq x)) = the_list (e_Subjects (scanEntry x))"
      using load_subjects [OF sub own] by blast
    let ?s = "s\<lparr>vs_prev := k, vs_count := vs_count s + int (length ?P)\<rparr>"
    have sp: "s\<lparr>vs_projection := True\<rparr> = s" using less.prems(2) by (cases s) simp
    have page: "verify_page L tid jid st (map scanEntry ?P) s = Inr ?s"
    proof -
      have "verify_entries L m (map scanEntry ?P) s = Inr (s\<lparr>vs_prev := k, vs_count := vs_count s + int (length (map scanEntry ?P))\<rparr>)"
        using k(1) by (rule verify_entries_ok) (use m(2) inP range in auto)
      then show ?thesis using m(1) ne less.prems(2) by (simp add: verify_page_def failed_def hd_map last_map sp)
    qed
    have rest: "rest_of tid jid (row_seq (last ?P)) st = drop 1000 ?R"
    proof -
      have "last ?P \<in> set ?R" using ne set_take_subset [of 1000 ?R] last_in_set by blast
      then have "after < row_seq (last ?P)" by (simp add: rest_of_def)
      then have "rest_of tid jid (row_seq (last ?P)) st = filter (\<lambda>x. row_seq (last ?P) < row_seq x) ?R"
        unfolding rest_of_def by (auto intro!: filter_cong)
      then show ?thesis using rest_after_page [OF strictR ne] by simp
    qed
    have "verify_loop L tid jid st (row_seq (last ?P)) ?s =
        Inr (?s\<lparr>vs_prev := h, vs_count := vs_count ?s + int (length (drop 1000 ?R))\<rparr>)"
      using less.hyps [of "row_seq (last ?P)" ?s] k(2) less.prems(2) False unfolding rest by simp
    then show ?thesis
      using page ne list by (subst verify_loop.simps) (simp add: last_map)
  qed
qed

lemma normal_label_row:
  assumes "normal_label L (k, v)"
  shows "NormalizeLabels L [(k, v)] = [(k, v)]"
  by (rule NormalizeLabels_fixed) (use assms in auto)

lemma loadJournalLabels_ok:
  assumes "labels_ok L tid jid genesis st" "LabelsFromGenesis L genesis = Inr ls"
  shows "loadJournalLabels L tid jid st = (ls, True)"
proof -
  have v: "ValidateLabels ls = Inr ()" and n: "\<forall>l\<in>set ls. normal_label L l" and s: "sorted ls" "distinct ls"
    and sel: "map (\<lambda>r. (lr_Key r, lr_Value r)) (label_rows tid jid st) = ls"
    and h: "\<forall>r\<in>set (label_rows tid jid st). lr_Hash r = LabelHash L (lr_Key r) (lr_Value r)"
    using assms by (auto simp: labels_ok_def selectJournalLabelsTx_def)
  have mem: "(lr_Key r, lr_Value r) \<in> set ls" if "r \<in> set (label_rows tid jid st)" for r using that sel by force
  have one: "NormalizeLabels L [(lr_Key r, lr_Value r)] = [(lr_Key r, lr_Value r)]" if "r \<in> set (label_rows tid jid st)" for r
    using mem [OF that] n by (intro normal_label_row) auto
  have v1: "ValidateLabels [(lr_Key r, lr_Value r)] = Inr ()" if "r \<in> set (label_rows tid jid st)" for r
    using mem [OF that] v by (auto simp: ValidateLabels_Inr MaxLabelsPerJournal_def)
  have "list_all (label_row_ok L) (label_rows tid jid st)"
    using one v1 h by (simp add: list_all_iff label_row_ok_def)
  moreover have m: "map (label_row_label L) (label_rows tid jid st) = map (\<lambda>r. [(lr_Key r, lr_Value r)]) (label_rows tid jid st)"
    using one v1 by (simp add: label_row_label_def)
  have "concat (map (label_row_label L) (label_rows tid jid st)) = ls" unfolding m using sel by simp
  moreover have "NormalizeLabels L ls = ls" by (rule NormalizeLabels_fixed) (use n s in auto)
  ultimately show ?thesis using v by (simp add: loadJournalLabels_def)
qed

lemma VerifyJournal_ok:
  assumes ok: "store_ok L st" and row: "map_of (js_journals st) (tid, jid) = Some row" and ne: "jid \<noteq> []"
  shows "VerifyJournal L tid jid st = Inr \<lparr>v_OK = True, v_JournalID = jid, v_Entries = jr_NextSeq row - 1,
    v_HeadHash = jr_HeadHash row, v_HashChainOK = True, v_ProjectionOK = True\<rparr>"
proof -
  have j: "journal_ok L st tid jid row" and id: "tid \<noteq> []" "ValidateJournalID jid"
    using store_okD [OF ok row] ne by simp_all
  have own: "\<exists>x\<in>set (stream tid jid st). row_seq x = sr_Seq r"
    if "r \<in> set (js_subjects st)" "sr_Tenant r = tid" "sr_Journal r = jid" for r
    using ok that by (fastforce simp: store_ok_def set_stream)
  obtain ls where ls: "LabelsFromGenesis L (jr_Genesis row) = Inr ls" using j by (auto simp: journal_ok_def labels_ok_def)
  have lab: "loadJournalLabels L tid jid st = (ls, True)" using j ls by (intro loadJournalLabels_ok) (auto simp: journal_ok_def)
  let ?s = "\<lparr>vs_prev = jr_GenesisHash row, vs_chain = True, vs_projection = True, vs_count = 0\<rparr>"
  have seqs: "map row_seq (stream tid jid st) = [1..jr_NextSeq row - 1]" using j by (simp add: journal_ok_def)
  then have strict: "sorted_wrt (<) (map row_seq (stream tid jid st))" by simp
  have "row_seq r \<in> set [1..jr_NextSeq row - 1]" if "r \<in> set (stream tid jid st)" for r
    using that seqs by (metis image_eqI set_map)
  then have rest: "rest_of tid jid 0 st = stream tid jid st" unfolding rest_of_def by (intro filter_True) force
  have len: "int (length (stream tid jid st)) = jr_NextSeq row - 1"
    using arg_cong [OF seqs, of length] j by (simp add: journal_ok_def)
  have "verify_loop L tid jid st 0 ?s = Inr (?s\<lparr>vs_prev := jr_HeadHash row, vs_count := vs_count ?s + int (length (rest_of tid jid 0 st))\<rparr>)"
    using id _ strict _ own by (rule verify_loop_ok) (use j row rest in \<open>auto simp: journal_ok_def mem_key_def\<close>)
  then show ?thesis
    using row ls lab j len rest by (simp add: VerifyJournal_def failed_def journal_ok_def)
qed

section \<open>Steps\<close>

text \<open>A raw message as the decoder gives it, with integers a JSON column and \<^verbatim>\<open>float64\<close> keep.\<close>

definition raw_ok :: "raw \<Rightarrow> bool" where
  "raw_ok r = (case r of RawValue v \<Rightarrow> decoded_ok v \<and> plain v | _ \<Rightarrow> True)"

inductive journal_step :: "lib \<Rightarrow> journal_store \<Rightarrow> journal_store \<Rightarrow> bool" for L where
  create: "CreateJournal L clock newID faults tid req st = Inr (j, st') \<Longrightarrow> raw_ok (cr_Retention req) \<Longrightarrow> journal_step L st st'"
| append: "AppendJournalEntries L clock ids fault tid jid aid w es st = Inr (r, st') \<Longrightarrow>
    (\<And>e. e \<in> set es \<Longrightarrow> raw_ok (in_Summary e)) \<Longrightarrow> journal_step L st st'"

inductive journal_reach :: "lib \<Rightarrow> journal_store \<Rightarrow> journal_store \<Rightarrow> bool" for L where
  journal_none: "journal_reach L st st"
| journal_more: "journal_reach L st st' \<Longrightarrow> journal_step L st' st'' \<Longrightarrow> journal_reach L st st''"

lemma CanonicalJSONRaw_ok:
  assumes "CanonicalJSONRaw r = Inr c" "raw_ok r"
  shows "raw_ok c" "c = RawEmpty \<or> (\<exists>v. c = RawValue v)"
  using assms by (auto simp: CanonicalJSONRaw_Inr raw_ok_def decoded_ok_sort plain_sort)

lemma journal_ok_cong:
  assumes "stream tid jid st' = stream tid jid st" "label_rows tid jid st' = label_rows tid jid st"
    "\<And>seq. subject_rows tid jid seq st' = subject_rows tid jid seq st"
  shows "journal_ok L st' tid jid row = journal_ok L st tid jid row"
proof -
  have "subjects_ok L st' (scanEntry r) = subjects_ok L st (scanEntry r)" if "r \<in> set (stream tid jid st)" for r
    using that assms(3) by (simp add: subjects_ok_def set_stream in_journal_def)
  then show ?thesis unfolding journal_ok_def labels_ok_def selectJournalLabelsTx_def assms(1,2) by auto
qed

subsection \<open>Creating a journal\<close>

lemma create_attempts_Inr: "create_attempts n faults r = Inr x \<Longrightarrow> r = Inr x"
  by (induction n) (auto simp: in_tx_def Let_def split: option.splits if_splits)

lemma tx_bind_InrE:
  assumes "tx_bind x f = Inr y"
  obtains a where "x = Inr a" "f a = Inr y"
  using assms by (cases x) auto

lemma wrapped_Inr [simp]: "wrapped x = Inr a \<longleftrightarrow> x = Inr a"
  by (cases x) (auto simp: wrapped_def)

lemma failed_Inr [simp]: "failed x = Inr a \<longleftrightarrow> x = Inr a"
  by (cases x) (auto simp: failed_def)

lemma json_input_Inr [simp]: "json_input x = Inr a \<longleftrightarrow> x = Inr a"
  by (cases x) (auto simp: json_input_def)

lemma NormalizeCreateRequest_Inr:
  assumes "NormalizeCreateRequest L req = Inr r" "raw_ok (cr_Retention req)"
  shows "cr_Meta r = LabelsToMap (cr_Labels r)" "\<exists>raw. cr_Labels r = NormalizeLabels L raw" "raw_ok (cr_Retention r)"
    "cr_Retention r = RawEmpty \<or> (\<exists>v. cr_Retention r = RawValue v)" "cr_JournalID r = [] \<or> ValidateJournalID (cr_JournalID r)"
  using assms
  by (auto simp: NormalizeCreateRequest_def Let_def CanonicalJSONRaw_Inr raw_ok_def decoded_ok_sort plain_sort
      split: if_splits elim!: tx_bind_InrE)

definition label_of :: "lib \<Rightarrow> string \<Rightarrow> string \<Rightarrow> int \<Rightarrow> label \<Rightarrow> label_row" where
  "label_of L tid jid now l = \<lparr>lr_Tenant = tid, lr_Journal = jid, lr_Key = fst l, lr_Hash = LabelHash L (fst l) (snd l),
    lr_Value = snd l, lr_CreatedAt = now\<rparr>"

lemma insertLabels_Inr:
  "insertLabels L tid jid now ls st = Inr st' \<Longrightarrow> st' = st\<lparr>js_labels := js_labels st @ map (label_of L tid jid now) ls\<rparr>"
proof (induction ls arbitrary: st)
  case (Cons l ls)
  then have "insertLabels L tid jid now ls (st\<lparr>js_labels := js_labels st @ [label_of L tid jid now l]\<rparr>) = Inr st'"
    by (auto simp: insertLabel_def label_of_def Let_def split: if_splits elim!: tx_bind_InrE)
  from Cons.IH [OF this] show ?case by simp
qed simp

lemma plain_fields: "plain (JObj kvs) \<longleftrightarrow> list_all (plain \<circ> snd) kvs"
  by (simp add: list_all_iff)

lemma genesis_plain: "plain ret \<Longrightarrow> plain (JObj (genesis_fields L tid req ret now))"
  by (auto simp: plain_fields genesis_fields_def create_fields_def actor_json_def omitempty_def meta_json_def
      labels_json_def label_json_def list_all_iff)

lemma marshal_retention:
  assumes "r = RawEmpty \<or> (\<exists>v. r = RawValue v)" "raw_ok r"
  obtains ret where "marshal_raw (nullIfEmpty r) = Inr ret" "plain ret"
  using assms by (auto simp: nullIfEmpty_def marshal_raw_def raw_ok_def)

lemma column_same:
  assumes "column_law (lib_column L)" "float_law (lib_float L)" "plain doc"
  defines "v \<equiv> lib_column L (sort_keys (decoded doc))"
  shows "sort_keys v = sort_keys (decoded doc)" "HashCanonical (lib_sha L) (through_float L v) = HashCanonical (lib_sha L) doc"
proof -
  have d: "decoded_ok (sort_keys (decoded doc))" "plain (sort_keys (decoded doc))"
    using assms(3) by (auto simp: plain_sort plain_decoded intro!: decoded_ok_sort decoded_ok_decoded plain_numbers)
  then have c: "decoded_ok v" "sort_keys v = sort_keys (sort_keys (decoded doc))" using assms(1) unfolding column_law_def v_def by blast+
  then show s: "sort_keys v = sort_keys (decoded doc)" by simp
  then have "plain v" using plain_sort [of v] plain_sort [of "decoded doc"] assms(3) by (simp add: plain_decoded)
  then have "through_float L v = v" by (rule through_float_plain [OF assms(2)])
  moreover have "same_json v doc" using c(1) s by (simp add: same_json_def decoded_id)
  ultimately show "HashCanonical (lib_sha L) (through_float L v) = HashCanonical (lib_sha L) doc"
    by (simp add: HashCanonical_same)
qed

text \<open>What a successful creation does: nothing, when the journal is there, or one new journal with the
  rows of its labels.\<close>

lemma CreateJournal_Inr:
  assumes "CreateJournal L clock newID faults tid req st = Inr (j, st')" "raw_ok (cr_Retention req)"
  obtains (same) "st' = st"
  | (new) r ret row where "map_of (js_journals st) (tid, cr_JournalID r) = None" "tid \<noteq> []"
    "cr_JournalID r = [] \<or> ValidateJournalID (cr_JournalID r)"
    "cr_Meta r = LabelsToMap (cr_Labels r)" "\<exists>raw. cr_Labels r = NormalizeLabels L raw" "ValidateLabels (cr_Labels r) = Inr ()"
    "plain ret" "jr_Genesis row = lib_column L (sort_keys (decoded (JObj (genesis_fields L tid r ret (NormalizeTime clock)))))"
    "HashCanonical (lib_sha L) (JObj (genesis_fields L tid r ret (NormalizeTime clock))) = Inr (jr_GenesisHash row)"
    "jr_HeadHash row = jr_GenesisHash row" "jr_NextSeq row = 1"
    "st' = st\<lparr>js_journals := AList.update (tid, cr_JournalID r) row (js_journals st),
      js_labels := js_labels st @ map (label_of L tid (cr_JournalID r) (NormalizeTime clock)) (cr_Labels r)\<rparr>"
proof -
  let ?q = "if cr_JournalID req = [] then req\<lparr>cr_JournalID := newID\<rparr> else req" and ?now = "NormalizeTime clock"
  obtain r ch doc gh where n: "NormalizeCreateRequest L ?q = Inr r" and v: "ValidateLabels (cr_Labels r) = Inr ()"
    and doc: "GenesisDocument L tid r ?now = Inr doc" and gh: "HashCanonical (lib_sha L) doc = Inr gh" and t: "tid \<noteq> []"
    and tx: "create_tx L ?now tid r \<lparr>cv_CreateHash = ch, cv_Genesis = sort_keys (decoded doc), cv_GenesisHash = gh\<rparr> st = Inr (j, st')"
    using assms(1) unfolding CreateJournal_def Let_def
    by (auto split: if_splits elim!: tx_bind_InrE dest!: create_attempts_Inr)
  have "raw_ok (cr_Retention ?q)" using assms(2) by simp
  note r = NormalizeCreateRequest_Inr [OF n this]
  obtain ret where ret: "marshal_raw (nullIfEmpty (cr_Retention r)) = Inr ret" "plain ret"
    using marshal_retention [OF r(4) r(3)] .
  have d: "doc = JObj (genesis_fields L tid r ret ?now)" using doc ret(1) by (simp add: GenesisDocument_def genesis_fields_def)
  show thesis
  proof (cases "map_of (js_journals st) (tid, cr_JournalID r)")
    case (Some x)
    then show thesis using tx same by (auto simp: create_tx_def selectJournalTx_def Let_def split: if_splits)
  next
    case None
    then obtain meta retention where
      ins: "insertLabels L tid (cr_JournalID r) ?now (cr_Labels r) (st\<lparr>js_journals := AList.update (tid, cr_JournalID r)
          \<lparr>jr_Kind = cr_Kind r, jr_Title = cr_Title r, jr_Actor = cr_Actor r, jr_Source = cr_Source r,
               jr_Meta = meta, jr_Retention = retention, jr_NextSeq = 1, jr_Genesis = lib_column L (sort_keys (decoded doc)),
               jr_CreateHash = ch, jr_GenesisHash = gh, jr_HeadHash = gh,
               jr_CreatedAt = ?now, jr_UpdatedAt = ?now, jr_ClosedAt = None\<rparr> (js_journals st)\<rparr>) = Inr st'"
      using tx by (auto simp: create_tx_def selectJournalTx_def Let_def elim!: tx_bind_InrE)
    show thesis
      by (rule new [OF None t r(5) r(1,2) v ret(2)], insert insertLabels_Inr [OF ins] gh d) simp_all
  qed
qed

lemma label_rows_append:
  "label_rows tid jid (st\<lparr>js_journals := m, js_labels := js_labels st @ rs\<rparr>) =
    sort_key (\<lambda>r. (lr_Key r, lr_Value r)) (filter (\<lambda>r. lr_Tenant r = tid \<and> lr_Journal r = jid) (js_labels st) @
      filter (\<lambda>r. lr_Tenant r = tid \<and> lr_Journal r = jid) rs)"
  by (simp add: label_rows_def)

lemma new_journal_ok:
  assumes lib: "lib_ok L" and ok: "store_ok L st" and none: "map_of (js_journals st) (tid, cr_JournalID r) = None"
    and lab: "cr_Meta r = LabelsToMap (cr_Labels r)" "\<exists>raw. cr_Labels r = NormalizeLabels L raw" "ValidateLabels (cr_Labels r) = Inr ()"
    and ret: "plain ret" and gen: "jr_Genesis row = lib_column L (sort_keys (decoded (JObj (genesis_fields L tid r ret now))))"
    and hash: "HashCanonical (lib_sha L) (JObj (genesis_fields L tid r ret now)) = Inr (jr_GenesisHash row)"
      "jr_HeadHash row = jr_GenesisHash row" "jr_NextSeq row = 1"
    and st': "st' = st\<lparr>js_journals := AList.update (tid, cr_JournalID r) row (js_journals st),
      js_labels := js_labels st @ map (label_of L tid (cr_JournalID r) now) (cr_Labels r)\<rparr>"
  shows "journal_ok L st' tid (cr_JournalID r) row"
proof -
  let ?jid = "cr_JournalID r" and ?ls = "cr_Labels r"
  have nfc: "nfc_text (lib_nfc L)" and col: "column_law (lib_column L)" and fl: "float_law (lib_float L)"
    using lib by (simp_all add: lib_ok_def)
  have n: "\<And>l. l \<in> set ?ls \<Longrightarrow> normal_label L l" using lab(2,3) NormalizeLabels_normal [OF nfc] by metis
  have s: "sorted ?ls" "distinct ?ls" using lab(2) NormalizeLabels_sorted by metis+
  note same = column_same [OF col fl genesis_plain [OF ret], of L tid r now, folded gen]
  have "filter (in_journal tid ?jid) (js_entries st) = []"
    using ok none by (fastforce simp: store_ok_def in_journal_def mem_key_def filter_empty_conv)
  then have "stream tid ?jid st' = []" by (simp add: stream_def st')
  moreover have lr: "label_rows tid ?jid st' = map (label_of L tid ?jid now) ?ls"
  proof -
    have "filter (\<lambda>r. lr_Tenant r = tid \<and> lr_Journal r = ?jid) (js_labels st) = []"
      using ok none by (auto simp: store_ok_def mem_key_def filter_empty_conv)
    moreover have "sorted (map (\<lambda>r. (lr_Key r, lr_Value r)) (map (label_of L tid ?jid now) ?ls))"
      using s(1) by (simp add: label_of_def o_def)
    moreover have "filter (\<lambda>r. lr_Tenant r = tid \<and> lr_Journal r = ?jid) (map (label_of L tid ?jid now) ?ls) = map (label_of L tid ?jid now) ?ls"
      by (intro filter_True) (auto simp: label_of_def)
    ultimately show ?thesis unfolding st' label_rows_append by (simp add: sort_key_id_if_sorted del: map_map)
  qed
  moreover have "LabelsFromGenesis L (jr_Genesis row) = Inr ?ls"
    using same(1) refl lab(1) n s lab(3) by (rule LabelsFromGenesis_same)
  then have "labels_ok L tid ?jid (jr_Genesis row) st'"
    using n s lab(3) unfolding labels_ok_def selectJournalLabelsTx_def lr
    by (intro exI [of _ ?ls]) (auto simp: label_of_def o_def)
  ultimately show ?thesis using same(2) hash by (simp add: journal_ok_def)
qed

lemma create_store_ok:
  assumes "lib_ok L" "store_ok L st" "CreateJournal L clock newID faults tid req st = Inr (j, st')" "raw_ok (cr_Retention req)"
  shows "store_ok L st'"
  using assms(3,4)
proof (cases rule: CreateJournal_Inr)
  case same
  then show ?thesis using assms(2) by simp
next
  case (new r ret row)
  have created: "journal_ok L st' tid (cr_JournalID r) row"
    by (rule new_journal_ok [OF assms(1,2) new(1,4-12)])
  have other: "journal_ok L st' t k x = journal_ok L st t k x" if "(t, k) \<noteq> (tid, cr_JournalID r)" for t k x
  proof (rule journal_ok_cong)
    have "filter (\<lambda>x. lr_Tenant x = t \<and> lr_Journal x = k) (map (label_of L tid (cr_JournalID r) (NormalizeTime clock)) (cr_Labels r)) = []"
      using that by (auto simp: filter_empty_conv label_of_def)
    then show "label_rows t k st' = label_rows t k st"
      unfolding new(12) label_rows_append by (simp add: label_rows_def)
  qed (simp_all add: new(12) stream_def subject_rows_def)
  have "journal_ok L st' t k x \<and> t \<noteq> [] \<and> (k = [] \<or> ValidateJournalID k)" if "map_of (js_journals st') (t, k) = Some x" for t k x
    using that created other [of t k x] store_okD [OF assms(2), of t k x] new(2,3)
    by (cases "(t, k) = (tid, cr_JournalID r)") (auto simp: new(12))
  moreover have "mem_key (js_journals st') y" if "mem_key (js_journals st) y" for y
    using that by (simp add: new(12))
  ultimately show ?thesis
    using assms(2) by (auto simp: store_ok_def new(12) label_of_def)
qed

end
