(* ===== verification/Journal_Append.thy ===== *)
theory Journal_Append
  imports Journal_Chain
begin

text \<open>
  Appending a batch of entries preserves the state of the journal tables that verification checks, so
  every journal reached by creating and appending verifies; a retry under the same idempotency key
  returns the first response and changes nothing.
\<close>

section \<open>Normalized inputs and the entries made of them\<close>

definition input_ok :: "lib \<Rightarrow> entry_input \<Rightarrow> bool" where
  "input_ok L x \<longleftrightarrow> normal_subjects L (in_Subjects x) \<and> raw_ok (in_Summary x) \<and>
    (in_Summary x = RawEmpty \<or> (\<exists>v. in_Summary x = RawValue v)) \<and> NormalizeOptionalTime (in_OccurredAt x) = in_OccurredAt x"

lemma NormalizeTime_idem [simp]: "NormalizeTime (NormalizeTime t) = NormalizeTime t"
  by (simp add: NormalizeTime_def mod_diff_left_eq [symmetric])

lemma NormalizeEntryInput_ok:
  assumes "nfc_text (lib_nfc L)" "NormalizeEntryInput L x d ds = Inr n" "raw_ok (in_Summary x)"
  shows "input_ok L n"
proof -
  obtain ss sm where ss: "NormalizeSubjects L (ds @ in_Subjects x) = Inr ss" and sm: "NormalizeSummary (in_Summary x) = Inr sm"
    and n: "in_Subjects n = ss" "in_Summary n = sm" "in_OccurredAt n = NormalizeOptionalTime (in_OccurredAt x)"
    using assms(2) by (auto simp: NormalizeEntryInput_def Let_def split: if_splits elim!: tx_bind_InrE)
  have "normal_subjects L ss" using NormalizeSubjects_Inr [OF assms(1) ss] by (simp add: normal_subjects_def)
  moreover have "raw_ok sm \<and> (sm = RawEmpty \<or> (\<exists>v. sm = RawValue v))"
    using sm assms(3)
    by (auto simp: NormalizeSummary_def CanonicalJSONRaw_Inr raw_ok_def decoded_ok_sort plain_sort split: if_splits elim!: tx_bind_InrE)
  moreover have "NormalizeOptionalTime (in_OccurredAt n) = in_OccurredAt n"
    by (simp add: n NormalizeOptionalTime_def option.map_comp o_def)
  ultimately show ?thesis by (simp add: input_ok_def n)
qed

lemma subject_valid: "ParseSubject L x = Inr p \<Longrightarrow> subject_text p = x \<Longrightarrow> utf8_valid x"
proof -
  assume a: "ParseSubject L x = Inr p" "subject_text p = x"
  obtain t i where p: "p = (t, i)" by (cases p)
  obtain s where "word_pattern 63 t" "utf8_valid i" using a(1) [unfolded p] by (rule ParseSubject_Inr)
  moreover from this(1) have "utf8_valid t" using word_patternD(3) utf8_valid_ascii by blast
  moreover have "utf8_valid '':''" by (simp add: utf8_valid_ascii ascii_def)
  ultimately have "utf8_valid (t @ '':'' @ i)" by (intro utf8_valid_append)
  then show ?thesis using a(2) p by (simp add: subject_text_def)
qed

text \<open>The entries of a batch: numbered one after the other, and chained from the head.\<close>

definition made :: "journal \<Rightarrow> int \<Rightarrow> entry_input \<Rightarrow> entry \<Rightarrow> bool" where
  "made cur obs x e \<longleftrightarrow> e_TenantID e = jn_TenantID cur \<and> e_JournalID e = jn_JournalID cur \<and>
    e_Subjects e = Some (in_Subjects x) \<and> e_Summary e = in_Summary x \<and> e_ArtifactRefs e = None \<and>
    e_ObservedAt e = obs \<and> e_OccurredAt e = (case in_OccurredAt x of None \<Rightarrow> obs | Some t \<Rightarrow> t)"

lemma build_entry_fields:
  "made cur obs x ((build_entry cur w src obs seq eid p x)\<lparr>e_EntryHash := h\<rparr>)"
  "e_Seq (build_entry cur w src obs seq eid p x) = seq" "e_PrevHash (build_entry cur w src obs seq eid p x) = p"
  by (simp_all add: made_def build_entry_def)

lemma new_entries_Inr:
  assumes "new_entries L cur w src obs ids next i p xs = Inr es"
  shows "list_all2 (made cur obs) xs es" "map e_Seq es = [next + int i..next + int i + int (length xs) - 1]"
    "chain L p es (if es = [] then p else e_EntryHash (last es))"
proof -
  have "list_all2 (made cur obs) xs es \<and> map e_Seq es = [next + int i..next + int i + int (length xs) - 1] \<and>
    chain L p es (if es = [] then p else e_EntryHash (last es))"
    using assms
  proof (induction xs arbitrary: i p es)
    case (Cons x xs)
    let ?e = "build_entry cur w src obs (next + int i) (ids i) p x"
    obtain h fs where h: "EntryHash L ?e = Inr h" and fs: "new_entries L cur w src obs ids next (Suc i) h xs = Inr fs"
      and es: "es = ?e\<lparr>e_EntryHash := h\<rparr> # fs"
      using Cons.prems by (auto simp: Let_def elim!: tx_bind_InrE)
    have ih: "list_all2 (made cur obs) xs fs" "map e_Seq fs = [next + int (Suc i)..next + int (Suc i) + int (length xs) - 1]"
        "chain L h fs (if fs = [] then h else e_EntryHash (last fs))" using Cons.IH [OF fs] by blast+
    have "[next + int i..next + int i + int (length (x # xs)) - 1] =
        (next + int i) # [next + int (Suc i)..next + int (Suc i) + int (length xs) - 1]"
      by (subst upto.simps) (simp add: algebra_simps)
    then show ?case using ih h by (auto simp: es build_entry_fields)
  qed simp
  then show "list_all2 (made cur obs) xs es" "map e_Seq es = [next + int i..next + int i + int (length xs) - 1]"
    "chain L p es (if es = [] then p else e_EntryHash (last es))" by blast+
qed

section \<open>Rows\<close>

definition entry_of :: "lib \<Rightarrow> entry \<Rightarrow> entry_row" where
  "entry_of L e = \<lparr>er_Entry = e,
    er_Subjects = projr (nullJSON L (RawValue (strings_json (e_Subjects e)))), er_Summary = projr (nullJSON L (e_Summary e)),
    er_ArtifactRefs = projr (nullJSON L (RawValue (artifacts_json (e_ArtifactRefs e))))\<rparr>"

lemma er_Entry_of [simp]: "er_Entry (entry_of L e) = e"
  by (simp add: entry_of_def)

definition subject_of :: "lib \<Rightarrow> entry \<Rightarrow> string \<Rightarrow> subject_row" where
  "subject_of L e s = (let (t, i) = projr (ParseSubject L s) in
    \<lparr>sr_Tenant = e_TenantID e, sr_Journal = e_JournalID e, sr_Seq = e_Seq e, sr_EntryID = e_EntryID e,
     sr_Type = t, sr_Hash = SubjectHash L t i, sr_ID = i, sr_OccurredAt = e_OccurredAt e, sr_ObservedAt = e_ObservedAt e\<rparr>)"

lemma insertSubjects_Inr:
  "insertSubjects L e ss st = Inr st' \<Longrightarrow> st' = st\<lparr>js_subjects := js_subjects st @ map (subject_of L e) ss\<rparr>"
proof (induction ss arbitrary: st)
  case (Cons s ss)
  then have "insertSubjects L e ss (st\<lparr>js_subjects := js_subjects st @ [subject_of L e s]\<rparr>) = Inr st'"
    by (auto simp: insertSubject_def subject_of_def Let_def split: if_splits elim!: tx_bind_InrE)
  from Cons.IH [OF this] show ?case by simp
qed simp

lemma insertEntries_Inr:
  "insertEntries L es st = Inr st' \<Longrightarrow> st' = st\<lparr>js_entries := js_entries st @ map (entry_of L) es,
    js_subjects := js_subjects st @ concat (map (\<lambda>e. map (subject_of L e) (the_list (e_Subjects e))) es)\<rparr>"
proof (induction es arbitrary: st)
  case (Cons e es)
  then obtain st1 where i: "insertJournalEntryTx L e st = Inr st1" and r: "insertEntries L es st1 = Inr st'"
    by (auto elim!: tx_bind_InrE)
  have "insertSubjects L e (the_list (e_Subjects e)) (st\<lparr>js_entries := js_entries st @ [entry_of L e]\<rparr>) = Inr st1"
    using i by (auto simp: insertJournalEntryTx_def entry_of_def split: if_splits elim!: tx_bind_InrE)
  from insertSubjects_Inr [OF this] Cons.IH [OF r] show ?case by simp
qed simp

text \<open>A row gives the entry back up to what its canonical text does not tell apart.\<close>

lemma strings_column_same:
  assumes "column_law col" "\<And>s. s \<in> set ss \<Longrightarrow> utf8_valid s"
  shows "strings_column (Some (col (JArr (map JStr ss)))) = Some ss"
proof -
  have "decoded_ok (JArr (map JStr ss))" "plain (JArr (map JStr ss))" using assms(2) by (auto simp: list_all_iff)
  then have "sort_keys (col (JArr (map JStr ss))) = sort_keys (JArr (map JStr ss))" using assms(1) unfolding column_law_def by blast
  then obtain us where "col (JArr (map JStr ss)) = JArr us" "map sort_keys us = map JStr ss"
    by (auto simp: sort_keys_atoms o_def)
  moreover from this(2) have "us = map JStr ss"
    by (induction us arbitrary: ss) (auto simp: sort_keys_atoms map_eq_Cons_conv Cons_eq_map_conv)
  ultimately show ?thesis by (simp add: strings_column_def text_value_def o_def)
qed

lemma scan_entry_of:
  assumes lib: "lib_ok L" and m: "made cur (NormalizeTime t) x e" and x: "input_ok L x"
  shows "EntryHash L (scanEntry (entry_of L e)) = EntryHash L e" "e_Subjects (scanEntry (entry_of L e)) = Some (in_Subjects x)"
    "row_seq (entry_of L e) = e_Seq e" "in_journal (jn_TenantID cur) (jn_JournalID cur) (entry_of L e)"
proof -
  have col: "column_law (lib_column L)" using lib by (simp add: lib_ok_def)
  have v: "\<And>s. s \<in> set (in_Subjects x) \<Longrightarrow> utf8_valid s" using x subject_valid by (auto simp: input_ok_def normal_subjects_def)
  let ?s = "scanEntry (entry_of L e)"
  show sub: "e_Subjects ?s = Some (in_Subjects x)"
    using strings_column_same [OF col v] m by (simp add: scanEntry_def entry_of_def made_def nullJSON_def strings_json_def)
  show "row_seq (entry_of L e) = e_Seq e" "in_journal (jn_TenantID cur) (jn_JournalID cur) (entry_of L e)"
    using m by (simp_all add: row_seq_def entry_of_def in_journal_def made_def)
  have times: "NormalizeTime (e_OccurredAt e) = e_OccurredAt e" "NormalizeTime (e_ObservedAt e) = e_ObservedAt e"
    using m x by (auto simp: made_def input_ok_def NormalizeOptionalTime_def split: option.splits)
  have art: "artifacts_column (er_ArtifactRefs (entry_of L e)) = e_ArtifactRefs e"
    using m by (simp add: entry_of_def made_def artifacts_json_def nullJSON_def artifacts_column_def)
  have e: "?s = e\<lparr>e_Subjects := e_Subjects ?s, e_Summary := e_Summary ?s\<rparr>"
    by (rule entry.equality) (simp_all add: scanEntry_def art times)
  obtain a b where ab: "marshal_raw (nullIfEmpty (e_Summary e)) = Inr a" "marshal_raw (nullIfEmpty (e_Summary ?s)) = Inr b" "same_json a b"
  proof (cases "in_Summary x")
    case (RawValue u)
    then have u: "decoded_ok u" "plain u" using x by (auto simp: input_ok_def raw_ok_def)
    then have "decoded_ok (lib_column L u)" "sort_keys (lib_column L u) = sort_keys u" using col unfolding column_law_def by blast+
    then have "same_json u (lib_column L u)" using u by (simp add: same_json_def decoded_id)
    then show thesis using m RawValue that
      by (cases "u = JNull") (auto simp: made_def scanEntry_def entry_of_def nullJSON_def raw_column_def nullIfEmpty_def marshal_raw_def)
  qed (use x m that in \<open>auto simp: input_ok_def made_def scanEntry_def entry_of_def nullJSON_def raw_column_def nullIfEmpty_def marshal_raw_def\<close>)
  have "same_json (JObj (entry_fields L e a)) (JObj (entry_fields L ?s b))"
    using ab(3) _ e by (rule same_entry_fields) (use sub m in \<open>simp add: made_def\<close>)
  then show "EntryHash L ?s = EntryHash L e" using ab by (simp add: EntryHash_def HashCanonical_same)
qed

section \<open>What an append does\<close>

lemma selectJournalTx_Inr:
  assumes "selectJournalTx tid jid st = Inr (cur, ch)"
  obtains row where "map_of (js_journals st) (tid, jid) = Some row" "jn_TenantID cur = tid" "jn_JournalID cur = jid"
    "jn_NextSeq cur = jr_NextSeq row" "jn_HeadHash cur = jr_HeadHash row" "jn_ClosedAt cur = NormalizeOptionalTime (jr_ClosedAt row)"
  using assms by (auto simp: selectJournalTx_def scanJournal_def Let_def split: option.splits)

lemma normalize_inputs_ok:
  assumes "nfc_text (lib_nfc L)" "try_map (normalize_input L src) es = Inr xs" "\<And>e. e \<in> set es \<Longrightarrow> raw_ok (in_Summary e)" "x \<in> set xs"
  shows "input_ok L x"
proof -
  obtain e where e: "e \<in> set es" "normalize_input L src e = Inr x" using try_map_mem [OF assms(2,4)] by blast
  then have "NormalizeEntryInput L e [] [] = Inr x" by (auto simp: normalize_input_def split: if_splits elim!: tx_bind_InrE)
  then show ?thesis using assms(1,3) e(1) by (intro NormalizeEntryInput_ok) auto
qed

lemma AppendJournalEntries_Inr:
  assumes nfc: "nfc_text (lib_nfc L)" and a: "AppendJournalEntries L clock ids fault tid jid aid w es st = Inr (r, st')"
    and sm: "\<And>e. e \<in> set es \<Longrightarrow> raw_ok (in_Summary e)"
  obtains (same) "st' = st"
  | (new) cur row xs fs arow where "map_of (js_journals st) (tid, jid) = Some row" "xs \<noteq> []" "\<And>x. x \<in> set xs \<Longrightarrow> input_ok L x"
    "jn_TenantID cur = tid" "jn_JournalID cur = jid" "list_all2 (made cur (NormalizeTime clock)) xs fs"
    "map e_Seq fs = [jr_NextSeq row..jr_NextSeq row + int (length xs) - 1]"
    "chain L (jr_HeadHash row) fs (e_EntryHash (last fs))"
    "st' = st\<lparr>js_appends := AList.update (tid, jid, aid) arow (js_appends st),
      js_entries := js_entries st @ map (entry_of L) fs,
      js_subjects := js_subjects st @ concat (map (\<lambda>e. map (subject_of L e) (the_list (e_Subjects e))) fs),
      js_journals := AList.map_entry (tid, jid) (\<lambda>x. x\<lparr>jr_NextSeq := e_Seq (last fs) + 1, jr_HeadHash := e_EntryHash (last fs),
        jr_UpdatedAt := NormalizeTime clock\<rparr>) (js_journals st)\<rparr>"
    "map_of (js_appends st) (tid, jid, aid) = None"
proof -
  let ?w = "w\<lparr>w_Type := (if w_Type w = [] then ''api_key'' else w_Type w), w_ID := (if w_ID w = [] then ''unknown'' else w_ID w)\<rparr>"
  let ?src = "if TrimSpace (w_Source w) = [] then SourceSelf else TrimSpace (w_Source w)" and ?now = "NormalizeTime clock"
  obtain xs rh where xs: "try_map (normalize_input L ?src) es = Inr xs" and ne: "es \<noteq> []"
    and tx: "append_tx L clock ids tid jid aid ?w ?src xs rh st = Inr (r, st')"
    using a unfolding AppendJournalEntries_def Let_def
    by (auto simp: in_tx_def split: if_splits option.splits elim!: tx_bind_InrE)
  obtain cur ch where cur: "selectJournalTx tid jid st = Inr (cur, ch)" using tx by (auto simp: append_tx_def elim!: tx_bind_InrE)
  then obtain row where row: "map_of (js_journals st) (tid, jid) = Some row" "jn_TenantID cur = tid" "jn_JournalID cur = jid"
    "jn_NextSeq cur = jr_NextSeq row" "jn_HeadHash cur = jr_HeadHash row" by (rule selectJournalTx_Inr)
  have xne: "xs \<noteq> []" using xs ne by (auto simp: try_map_Inr)
  show thesis
  proof (cases "map_of (js_appends st) (tid, jid, aid)")
    case (Some x)
    then show thesis using tx cur same
      by (auto simp: append_tx_def selectAppendRequestTx_def split: if_splits)
  next
    case None
    obtain fs st2 where fs: "new_entries L cur ?w ?src ?now ids (jr_NextSeq row) 0 (jr_HeadHash row) xs = Inr fs"
      and ins: "insertEntries L fs (st\<lparr>js_appends := AList.update (tid, jid, aid) \<lparr>ap_RequestHash = rh, ap_WriterType = w_Type ?w,
          ap_WriterID = w_ID ?w, ap_Source = ?src, ap_FirstSeq = e_Seq (hd fs), ap_LastSeq = e_Seq (last fs),
          ap_Count = int (length fs), ap_HeadHash = e_EntryHash (last fs)\<rparr> (js_appends st)\<rparr>) = Inr st2"
      and st': "st' = st2\<lparr>js_journals := AList.map_entry (tid, jid) (\<lambda>x. x\<lparr>jr_NextSeq := e_Seq (last fs) + 1,
          jr_HeadHash := e_EntryHash (last fs), jr_UpdatedAt := ?now\<rparr>) (js_journals st2)\<rparr>"
      using tx cur None row(4,5)
      by (auto simp: append_tx_def selectAppendRequestTx_def Let_def split: if_splits elim!: tx_bind_InrE)
    note n = new_entries_Inr [OF fs]
    have "fs \<noteq> []" using n(1) xne by auto
    show thesis
      by (rule new [OF row(1) xne normalize_inputs_ok [OF nfc xs sm] row(2,3) n(1)])
        (use n(2,3) \<open>fs \<noteq> []\<close> st' insertEntries_Inr [OF ins] None in simp_all)
  qed
qed

section \<open>Appending preserves the state\<close>

lemma subject_of_fields [simp]:
  "sr_Tenant (subject_of L e s) = e_TenantID e" "sr_Journal (subject_of L e s) = e_JournalID e" "sr_Seq (subject_of L e s) = e_Seq e"
  by (simp_all add: subject_of_def case_prod_beta)

lemma subject_of_ok:
  assumes "ParseSubject L s = Inr p" "subject_text p = s"
  shows "subject_row_ok L (subject_of L e s)" "row_text (subject_of L e s) = s"
  using assms by (cases p; auto simp: subject_of_def subject_row_ok_def row_text_def subject_text_def)+

lemma chain_scan:
  assumes "\<And>e. e \<in> set fs \<Longrightarrow> EntryHash L (scanEntry (entry_of L e)) = EntryHash L e"
  shows "chain L p (map scanEntry (map (entry_of L) fs)) h = chain L p fs h"
  using assms by (induction fs arbitrary: p) simp_all

lemma list_all2_set2: "list_all2 P xs ys \<Longrightarrow> y \<in> set ys \<Longrightarrow> \<exists>x\<in>set xs. P x y"
  by (induction rule: list_all2_induct) auto

definition appended :: "lib \<Rightarrow> entry list \<Rightarrow> journal_store \<Rightarrow> journal_store \<Rightarrow> bool" where
  "appended L fs st st' \<longleftrightarrow> js_entries st' = js_entries st @ map (entry_of L) fs \<and> js_labels st' = js_labels st \<and>
    js_subjects st' = js_subjects st @ concat (map (\<lambda>e. map (subject_of L e) (the_list (e_Subjects e))) fs)"

lemma appended_subject_rows:
  assumes "appended L fs st st'"
  shows "set (subject_rows tid jid seq st') = set (subject_rows tid jid seq st) \<union>
    (\<Union>e\<in>{e \<in> set fs. e_TenantID e = tid \<and> e_JournalID e = jid \<and> e_Seq e = seq}. subject_of L e ` set (the_list (e_Subjects e)))"
  using assms by (auto simp: appended_def subject_rows_def)

lemma appended_other:
  assumes "appended L fs st st'" "\<And>e. e \<in> set fs \<Longrightarrow> (e_TenantID e, e_JournalID e) \<noteq> (t, k)"
  shows "journal_ok L st' t k x = journal_ok L st t k x"
proof (rule journal_ok_cong)
  have "filter (in_journal t k) (map (entry_of L) fs) = []" using assms(2) by (auto simp: filter_empty_conv in_journal_def)
  then show "stream t k st' = stream t k st" using assms(1) by (simp add: stream_def appended_def)
  show "label_rows t k st' = label_rows t k st" using assms(1) by (simp add: label_rows_def appended_def)
  fix seq
  have "filter (\<lambda>r. sr_Tenant r = t \<and> sr_Journal r = k \<and> sr_Seq r = seq)
      (concat (map (\<lambda>e. map (subject_of L e) (the_list (e_Subjects e))) fs)) = []"
    using assms(2) by (auto simp: filter_empty_conv)
  then show "subject_rows t k seq st' = subject_rows t k seq st" using assms(1) by (simp add: subject_rows_def appended_def)
qed

text \<open>A batch appended to a journal: its entries, with the inputs they are made of.\<close>

definition batch :: "lib \<Rightarrow> journal \<Rightarrow> int \<Rightarrow> int \<Rightarrow> entry_input list \<Rightarrow> entry list \<Rightarrow> bool" where
  "batch L cur now next xs fs \<longleftrightarrow> xs \<noteq> [] \<and> (\<forall>x\<in>set xs. input_ok L x) \<and> list_all2 (made cur (NormalizeTime now)) xs fs \<and>
    map e_Seq fs = [next..next + int (length xs) - 1]"

lemma batch_entry:
  assumes "batch L cur now next xs fs" "e \<in> set fs"
  obtains x where "made cur (NormalizeTime now) x e" "input_ok L x" "next \<le> e_Seq e"
proof -
  have seqs: "map e_Seq fs = [next..next + int (length xs) - 1]" and m: "list_all2 (made cur (NormalizeTime now)) xs fs"
    and ok: "\<forall>x\<in>set xs. input_ok L x" using assms(1) by (simp_all add: batch_def)
  have "e_Seq e \<in> set (map e_Seq fs)" using assms(2) by simp
  then have "next \<le> e_Seq e" unfolding seqs by simp
  moreover obtain x where "x \<in> set xs" "made cur (NormalizeTime now) x e" using list_all2_set2 [OF m assms(2)] by blast
  ultimately show thesis using ok that by blast
qed

lemma batch_last:
  assumes "batch L cur now next xs fs"
  shows "fs \<noteq> []" "e_Seq (last fs) = next + int (length xs) - 1"
proof -
  show ne: "fs \<noteq> []" using assms by (auto simp: batch_def)
  have "last (map e_Seq fs) = next + int (length xs) - 1"
    using assms by (simp add: batch_def) (subst upto_rec2, auto simp: Suc_le_eq)
  then show "e_Seq (last fs) = next + int (length xs) - 1" using ne by (simp add: last_map)
qed

lemma journal_ok_seq: "journal_ok L st tid jid row \<Longrightarrow> r \<in> set (stream tid jid st) \<Longrightarrow> 1 \<le> row_seq r \<and> row_seq r < jr_NextSeq row"
proof -
  assume j: "journal_ok L st tid jid row" and r: "r \<in> set (stream tid jid st)"
  have seqs: "map row_seq (stream tid jid st) = [1..jr_NextSeq row - 1]" using j by (simp add: journal_ok_def)
  have "row_seq r \<in> set (map row_seq (stream tid jid st))" using r by simp
  then show ?thesis unfolding seqs by simp
qed

lemma appended_stream:
  assumes lib: "lib_ok L" and J: "journal_ok L st tid jid row" and ap: "appended L fs st st'"
    and cur: "jn_TenantID cur = tid" "jn_JournalID cur = jid" and b: "batch L cur clock (jr_NextSeq row) xs fs"
  shows "stream tid jid st' = stream tid jid st @ map (entry_of L) fs"
    "map row_seq (stream tid jid st') = [1..e_Seq (last fs)]"
proof -
  have rseq: "map row_seq (map (entry_of L) fs) = [jr_NextSeq row..jr_NextSeq row + int (length xs) - 1]"
    using b by (simp add: row_seq_def o_def batch_def)
  have "in_journal tid jid (entry_of L e)" if "e \<in> set fs" for e
    using b that by (rule batch_entry) (use cur in \<open>simp add: made_def in_journal_def\<close>)
  then have "filter (in_journal tid jid) (map (entry_of L) fs) = map (entry_of L) fs" by (intro filter_True) auto
  moreover have "sort_key row_seq (filter (in_journal tid jid) (js_entries st) @ map (entry_of L) fs) =
      sort_key row_seq (filter (in_journal tid jid) (js_entries st)) @ map (entry_of L) fs"
  proof (rule sort_key_append_ge)
    show "sorted (map row_seq (map (entry_of L) fs))" unfolding rseq by simp
    fix r q assume "r \<in> set (filter (in_journal tid jid) (js_entries st))" "q \<in> set (map (entry_of L) fs)"
    then obtain e where e: "e \<in> set fs" "q = entry_of L e" and r: "r \<in> set (stream tid jid st)" by (auto simp: set_stream)
    have "jr_NextSeq row \<le> e_Seq e" using b e(1) by (rule batch_entry)
    then show "row_seq r \<le> row_seq q" using journal_ok_seq [OF J r] e(2) by (simp add: row_seq_def)
  qed
  ultimately show str: "stream tid jid st' = stream tid jid st @ map (entry_of L) fs"
    using ap by (simp add: stream_def appended_def)
  have "[1..jr_NextSeq row + int (length xs) - 1] = [1..jr_NextSeq row - 1] @ [jr_NextSeq row..jr_NextSeq row + int (length xs) - 1]"
    using J b by (intro upto_split1) (auto simp: journal_ok_def batch_def Suc_le_eq)
  then show "map row_seq (stream tid jid st') = [1..e_Seq (last fs)]"
    using J rseq batch_last(2) [OF b] by (simp add: str journal_ok_def)
qed

lemma appended_subjects_ok:
  assumes lib: "lib_ok L" and ok: "store_ok L st" and J: "journal_ok L st tid jid row" and ap: "appended L fs st st'"
    and cur: "jn_TenantID cur = tid" "jn_JournalID cur = jid" and b: "batch L cur clock (jr_NextSeq row) xs fs" and e: "e \<in> set fs"
  shows "subjects_ok L st' (scanEntry (entry_of L e))"
proof -
  obtain x where x: "made cur (NormalizeTime clock) x e" "input_ok L x" "jr_NextSeq row \<le> e_Seq e" using b e by (rule batch_entry)
  have "\<exists>q\<in>set (stream tid jid st). row_seq q = sr_Seq s" if "s \<in> set (js_subjects st)" "sr_Tenant s = tid" "sr_Journal s = jid" for s
    using ok that by (fastforce simp: store_ok_def set_stream)
  then have "subject_rows tid jid (e_Seq e) st = []"
    using journal_ok_seq [OF J] x(3) by (fastforce simp: subject_rows_def filter_empty_conv)
  moreover have "f = e" if "f \<in> set fs" "e_Seq f = e_Seq e" for f
  proof -
    have "distinct (map e_Seq fs)" using b by (simp add: batch_def)
    then show ?thesis using that e by (auto simp: distinct_map dest: inj_onD)
  qed
  then have "{f \<in> set fs. e_TenantID f = tid \<and> e_JournalID f = jid \<and> e_Seq f = e_Seq e} = {e}"
    using e x(1) cur by (auto simp: made_def)
  ultimately have rows: "set (subject_rows tid jid (e_Seq e) st') = subject_of L e ` set (in_Subjects x)"
    using appended_subject_rows [OF ap, of tid jid "e_Seq e"] x(1) by (simp add: made_def the_list_def)
  have ns: "normal_subjects L (in_Subjects x)" using x(2) by (simp add: input_ok_def)
  have p: "subject_row_ok L (subject_of L e s) \<and> row_text (subject_of L e s) = s" if "s \<in> set (in_Subjects x)" for s
    using ns that subject_of_ok by (fastforce simp: normal_subjects_def)
  have k: "e_TenantID e = tid" "e_JournalID e = jid" using x(1) cur by (simp_all add: made_def)
  show ?thesis
    using ns p k rows scan_entry_of(2) [OF lib x(1,2)] scan_entry_of(3) [OF lib x(1,2)]
    by (auto simp: subjects_ok_def the_list_def image_image)
qed

lemma appended_journal_ok:
  assumes lib: "lib_ok L" and ok: "store_ok L st" and ap: "appended L fs st st'"
    and row: "map_of (js_journals st) (tid, jid) = Some row" and cur: "jn_TenantID cur = tid" "jn_JournalID cur = jid"
    and b: "batch L cur clock (jr_NextSeq row) xs fs" and ch: "chain L (jr_HeadHash row) fs (e_EntryHash (last fs))"
  shows "journal_ok L st' tid jid (row\<lparr>jr_NextSeq := e_Seq (last fs) + 1, jr_HeadHash := e_EntryHash (last fs), jr_UpdatedAt := now\<rparr>)"
proof -
  have J: "journal_ok L st tid jid row" using ok row by (rule store_okD)
  note str = appended_stream [OF lib J ap cur b]
  have "EntryHash L (scanEntry (entry_of L e)) = EntryHash L e" if "e \<in> set fs" for e
    using b that by (rule batch_entry) (rule scan_entry_of(1) [OF lib])
  then have "chain L (jr_GenesisHash row) (map scanEntry (stream tid jid st')) (e_EntryHash (last fs))"
    using J ch chain_scan [of fs L] unfolding str(1) map_append chain_append by (auto simp: journal_ok_def)
  moreover have "labels_ok L tid jid (jr_Genesis row) st'"
    using J ap by (simp add: journal_ok_def labels_ok_def selectJournalLabelsTx_def label_rows_def appended_def)
  moreover have "subjects_ok L st' (scanEntry r)" if r: "r \<in> set (stream tid jid st')" for r
  proof (cases "r \<in> set (stream tid jid st)")
    case True
    then have "row_seq r < jr_NextSeq row" using journal_ok_seq [OF J] by blast
    moreover have "jr_NextSeq row \<le> e_Seq e" if "e \<in> set fs" for e using b that by (rule batch_entry)
    ultimately have none: "{e \<in> set fs. e_TenantID e = tid \<and> e_JournalID e = jid \<and> e_Seq e = row_seq r} = {}" by force
    have "set (subject_rows tid jid (row_seq r) st') = set (subject_rows tid jid (row_seq r) st)"
      unfolding appended_subject_rows [OF ap] none by simp
    then show ?thesis using J True by (simp add: journal_ok_def subjects_ok_def set_stream in_journal_def)
  next
    case False
    then obtain e where "e \<in> set fs" "r = entry_of L e" using r str(1) by auto
    then show ?thesis using appended_subjects_ok [OF lib ok J ap cur b] by blast
  qed
  moreover have "1 \<le> e_Seq (last fs) + 1" using batch_last(2) [OF b] J b by (auto simp: journal_ok_def batch_def Suc_le_eq)
  ultimately show ?thesis using J str(2) by (simp add: journal_ok_def)
qed

lemma append_store_ok:
  assumes lib: "lib_ok L" and ok: "store_ok L st"
    and a: "AppendJournalEntries L clock ids fault tid jid aid w es st = Inr (r, st')" and sm: "\<And>e. e \<in> set es \<Longrightarrow> raw_ok (in_Summary e)"
  shows "store_ok L st'"
proof -
  have nfc: "nfc_text (lib_nfc L)" using lib by (simp add: lib_ok_def)
  show ?thesis
  proof (cases rule: AppendJournalEntries_Inr [OF nfc a sm])
    case 2
    then show ?thesis using ok by simp
  next
    case new: (3 cur row xs fs arow)
    let ?row = "row\<lparr>jr_NextSeq := e_Seq (last fs) + 1, jr_HeadHash := e_EntryHash (last fs), jr_UpdatedAt := NormalizeTime clock\<rparr>"
    have ap: "appended L fs st st'" by (simp add: appended_def new(9))
    have b: "batch L cur clock (jr_NextSeq row) xs fs" using new by (simp add: batch_def)
    have key: "e_TenantID e = tid \<and> e_JournalID e = jid" if "e \<in> set fs" for e
      using b that by (rule batch_entry) (use new(4,5) in \<open>simp add: made_def\<close>)
    have this_ok: "journal_ok L st' tid jid ?row" by (rule appended_journal_ok [OF lib ok ap new(1,4,5) b new(8)])
    have other: "journal_ok L st' t k x = journal_ok L st t k x" if "(t, k) \<noteq> (tid, jid)" for t k x
      using ap by (rule appended_other) (use key that in auto)
    have js: "map_of (js_journals st') p = (if p = (tid, jid) then Some ?row else map_of (js_journals st) p)" for p
      using new(1) by (simp add: new(9) map_of_map_entry)
    have "journal_ok L st' t k x \<and> t \<noteq> [] \<and> (k = [] \<or> ValidateJournalID k)" if "map_of (js_journals st') (t, k) = Some x" for t k x
      using that this_ok other [of t k x] store_okD [OF ok, of t k] new(1) by (cases "(t, k) = (tid, jid)") (auto simp: js)
    moreover have mem: "mem_key (js_journals st') p" if "mem_key (js_journals st) p" for p
      using that by (simp add: mem_key_def js)
    moreover have "mem_key (js_journals st') (tid, jid)" by (simp add: mem_key_def js)
    moreover have "\<forall>x\<in>set (js_entries st'). mem_key (js_journals st') (e_TenantID (er_Entry x), e_JournalID (er_Entry x))"
      using ok ap key mem \<open>mem_key (js_journals st') (tid, jid)\<close> by (auto simp: store_ok_def appended_def)
    moreover have "\<forall>x\<in>set (js_labels st'). mem_key (js_journals st') (lr_Tenant x, lr_Journal x)"
      using ok ap mem by (auto simp: store_ok_def appended_def)
    moreover have "\<exists>x\<in>set (js_entries st'). in_journal (sr_Tenant s) (sr_Journal s) x \<and> row_seq x = sr_Seq s"
      if s: "s \<in> set (js_subjects st')" for s
    proof (cases "s \<in> set (js_subjects st)")
      case True
      then show ?thesis using ok ap by (auto simp: store_ok_def appended_def)
    next
      case False
      then obtain e where "e \<in> set fs" "sr_Tenant s = e_TenantID e" "sr_Journal s = e_JournalID e" "sr_Seq s = e_Seq e"
        using s ap by (auto simp: appended_def)
      then show ?thesis using ap by (auto simp: appended_def in_journal_def row_seq_def intro!: bexI [of _ "entry_of L e"])
    qed
    ultimately show ?thesis unfolding store_ok_def by blast
  qed
qed

definition empty_journals :: journal_store where
  "empty_journals = \<lparr>js_journals = [], js_labels = [], js_appends = [], js_entries = [], js_subjects = []\<rparr>"

lemma reach_store_ok:
  assumes "journal_reach L st st'" "lib_ok L" "store_ok L st"
  shows "store_ok L st'"
  using assms(1,3)
proof (induction rule: journal_reach.induct)
  case (journal_more st st' st'')
  then have ok: "store_ok L st'" by blast
  from journal_more.hyps(2) show ?case
  proof cases
    case create
    then show ?thesis by (intro create_store_ok [OF assms(2) ok])
  next
    case append
    then show ?thesis by (intro append_store_ok [OF assms(2) ok])
  qed
qed

lemma store_ok_empty: "store_ok L empty_journals"
  by (simp add: store_ok_def empty_journals_def)

end
