(* ===== verification/Journal_Evidence.thy ===== *)
theory Journal_Evidence
  imports Journal_Append
begin

text \<open>
  What the journal promises its clients: every journal that was created and appended to verifies, a
  retried append is answered like the first one and adds nothing, and two states of a journal with the
  same head hash that both verify hold the same evidence, unless the digest collides on the texts
  that were hashed. The last section follows a journal with a fractional number in its retention and a
  journal with a blank identifier through the code.
\<close>

section \<open>A concrete journal\<close>

text \<open>The digest of the example tells the genesis document from every other one.\<close>

definition base_lib :: lib where
  "base_lib = \<lparr>lib_sha = (\<lambda>s. s), lib_nfc = (\<lambda>s. s), lib_lower = (\<lambda>s. s), lib_time = Itoa, lib_rfc3339 = Itoa,
    lib_float = (\<lambda>s. s), lib_column = (\<lambda>v. v)\<rparr>"

definition sample_request :: create_request where
  "sample_request = \<lparr>cr_JournalID = ''j1'', cr_Kind = '''', cr_Title = ''T'', cr_Actor = \<lparr>a_Type = '''', a_ID = ''''\<rparr>,
    cr_Source = '''', cr_Meta = [], cr_Labels = [], cr_Retention = RawEmpty\<rparr>"

definition normal_request :: create_request where
  "normal_request = \<lparr>cr_JournalID = ''j1'', cr_Kind = ''agent'', cr_Title = ''T'', cr_Actor = \<lparr>a_Type = '''', a_ID = ''''\<rparr>,
    cr_Source = ''self_reported'', cr_Meta = [], cr_Labels = [], cr_Retention = RawEmpty\<rparr>"

definition sample_genesis :: json where
  "sample_genesis = decoded (JObj (genesis_fields base_lib ''t1'' normal_request JNull 0))"

definition sample_lib :: lib where
  "sample_lib = base_lib\<lparr>lib_sha := (\<lambda>s. if s = canonical_text sample_genesis then ''1'' else ''0'')\<rparr>"

lemma sample_lib_ok: "lib_ok sample_lib"
  by (simp add: lib_ok_def sample_lib_def base_lib_def nfc_text_def column_law_def float_law_def)

lemma sample_lib_text: "lower sample_lib = lower base_lib" "lib_nfc sample_lib = lib_nfc base_lib"
  by (simp_all add: lower_def sample_lib_def)

lemma sample_lib_same:
  "NormalizeCreateRequest sample_lib = NormalizeCreateRequest base_lib" "ParseSubject sample_lib = ParseSubject base_lib"
  "NormalizeEntryInput sample_lib = NormalizeEntryInput base_lib"
proof -
  show p: "ParseSubject sample_lib = ParseSubject base_lib"
    by (rule ext) (simp only: ParseSubject_def sample_lib_text)
  show "NormalizeCreateRequest sample_lib = NormalizeCreateRequest base_lib"
    by (rule ext) (simp only: NormalizeCreateRequest_def normalizeDefault_def NormalizeLabels_def sample_lib_text)
  show "NormalizeEntryInput sample_lib = NormalizeEntryInput base_lib"
    by (intro ext) (simp only: NormalizeEntryInput_def normalizeDefault_def NormalizeSubjects_def p sample_lib_text)
qed

lemma sample_normal: "NormalizeCreateRequest sample_lib sample_request = Inr normal_request"
  unfolding sample_lib_same by code_simp

lemma genesis_numbers: "numbers_ok ret \<Longrightarrow> numbers_ok (JObj (genesis_fields L tid req ret now))"
    "numbers_ok ret \<Longrightarrow> numbers_ok (JObj (create_fields tid req ret))"
  by (auto simp: genesis_fields_def create_fields_def actor_json_def omitempty_def meta_json_def
      labels_json_def label_json_def list_all_iff)

lemma sample_genesis_alt: "decoded (JObj (genesis_fields sample_lib ''t1'' normal_request JNull 0)) = sample_genesis"
  by (simp add: sample_genesis_def genesis_fields_def FormatTime_def sample_lib_def)

lemma sample_genesis_ok: "decoded_ok sample_genesis"
  unfolding sample_genesis_def by (intro decoded_ok_decoded genesis_numbers) simp

lemma sample_genesis_hash: "HashCanonical (lib_sha sample_lib) (JObj (genesis_fields sample_lib ''t1'' normal_request JNull 0)) = Inr ''sha256:1''"
  unfolding HashCanonical_Inr [OF genesis_numbers(1) [OF numbers_ok.simps(1) [THEN iffD2, OF TrueI]]] sample_genesis_alt
  by (simp add: sample_lib_def)

lemma map_of_decoded_None: "map_of kvs k = None \<Longrightarrow> (\<And>x. x \<in> fst ` set kvs \<Longrightarrow> to_valid x = x) \<Longrightarrow>
    map_of (map (map_prod to_valid decoded) kvs) k = None"
  by (induction kvs) (auto split: if_splits)

lemma sample_other_hash:
  assumes "numbers_ok v" "case decoded v of JObj kvs \<Rightarrow> map_of kvs ''created_at'' = None | _ \<Rightarrow> True"
  shows "HashCanonical (lib_sha sample_lib) v = Inr ''sha256:0''"
proof -
  have "canonical_text (decoded v) \<noteq> canonical_text sample_genesis"
  proof
    assume "canonical_text (decoded v) = canonical_text sample_genesis"
    then have e: "sort_keys (decoded v) = sort_keys sample_genesis"
      using canonical_text_inj [OF decoded_ok_decoded [OF assms(1)] sample_genesis_ok] by simp
    obtain gs where g: "sample_genesis = JObj gs" by (simp add: sample_genesis_def)
    obtain kvs where v: "decoded v = JObj kvs" using e unfolding g by (auto simp: sort_keys_atoms)
    have "map_option sort_keys (map_of kvs ''created_at'') = map_option sort_keys (map_of gs ''created_at'')"
      using e unfolding v g by (rule sorted_fields)
    moreover have "map_of gs ''created_at'' = map_option decoded (map_of (genesis_fields base_lib ''t1'' normal_request JNull 0) ''created_at'')"
      using genesis_keys g unfolding sample_genesis_def by (rule map_of_decoded)
    ultimately show False using assms(2) v by (simp add: genesis_fields_def create_fields_def)
  qed
  then show ?thesis using assms(1) by (simp add: HashCanonical_Inr sample_lib_def)
qed

definition sample_row :: journal_row where
  "sample_row = \<lparr>jr_Kind = ''agent'', jr_Title = ''T'', jr_Actor = \<lparr>a_Type = '''', a_ID = ''''\<rparr>, jr_Source = ''self_reported'',
    jr_Meta = None, jr_Retention = None, jr_NextSeq = 1, jr_Genesis = sort_keys sample_genesis,
    jr_CreateHash = ''sha256:0'', jr_GenesisHash = ''sha256:1'', jr_HeadHash = ''sha256:1'', jr_CreatedAt = 0, jr_UpdatedAt = 0, jr_ClosedAt = None\<rparr>"

definition sample_store :: journal_store where
  "sample_store = empty_journals\<lparr>js_journals := [((''t1'', ''j1''), sample_row)]\<rparr>"

lemma sample_create: "\<exists>j. CreateJournal sample_lib 0 ''x'' (\<lambda>_. None) ''t1'' sample_request empty_journals = Inr (j, sample_store)"
proof -
  have id: "cr_JournalID sample_request \<noteq> []" by (simp add: sample_request_def)
  have c: "lib_column sample_lib = (\<lambda>v. v)" by (simp add: sample_lib_def base_lib_def)
  have ch: "CreateHash sample_lib ''t1'' normal_request = Inr ''sha256:0''"
  proof -
    have "k \<in> fst ` set (create_fields ''t1'' normal_request JNull) \<Longrightarrow> to_valid k = k" for k
      by (rule genesis_keys [of k base_lib "''t1''" normal_request JNull 0]) (auto simp: genesis_fields_def)
    then have "map_of (map (map_prod to_valid decoded) (create_fields ''t1'' normal_request JNull)) ''created_at'' = None"
      by (intro map_of_decoded_None) (simp_all add: create_fields_def)
    then have "HashCanonical (lib_sha sample_lib) (JObj (create_fields ''t1'' normal_request JNull)) = Inr ''sha256:0''"
      by (intro sample_other_hash genesis_numbers) simp_all
    then show ?thesis by (simp add: CreateHash_def nullIfEmpty_def marshal_raw_def normal_request_def)
  qed
  have doc: "GenesisDocument sample_lib ''t1'' normal_request 0 = Inr (JObj (genesis_fields sample_lib ''t1'' normal_request JNull 0))"
    by (simp add: GenesisDocument_def nullIfEmpty_def marshal_raw_def genesis_fields_def) (simp add: normal_request_def)
  have mc: "MarshalCanonical (JObj (genesis_fields sample_lib ''t1'' normal_request JNull 0)) = Inr (canonical_text sample_genesis)"
    unfolding MarshalCanonical_def sample_genesis_alt writeCanonicalJSON_def using sample_genesis_ok decoded_ok_numbers by simp
  show ?thesis
    unfolding CreateJournal_def Let_def
    by (simp add: id sample_normal wrapped_def failed_def ch doc mc sample_genesis_hash sample_genesis_alt NormalizeTime_def
          numeral_2_eq_2 in_tx_def isRetryableJournalCreateConflict_def del: decoded.simps)
      (simp add: normal_request_def ValidateLabels_def MaxLabelsPerJournal_def create_tx_def selectJournalTx_def empty_journals_def
          nullJSON_def c sample_store_def sample_row_def isRetryableJournalCreateConflict_def)
qed

definition sample_input :: entry_input where
  "sample_input = \<lparr>in_Type = ''Run'', in_SchemaVersion = 0, in_Status = '''', in_OccurredAt = None,
    in_Actor = \<lparr>a_Type = '''', a_ID = ''''\<rparr>, in_Source = '''', in_ParentEntryID = '''', in_CorrelationID = '''',
    in_Subjects = [''h:a''], in_Summary = RawEmpty, in_Artifacts = [], in_ArtifactRefs = []\<rparr>"

definition sample_writer :: journal_writer where
  "sample_writer = \<lparr>w_Type = '''', w_ID = '''', w_Source = ''''\<rparr>"

definition normal_input :: entry_input where
  "normal_input = \<lparr>in_Type = ''run'', in_SchemaVersion = 1, in_Status = '''', in_OccurredAt = None,
    in_Actor = \<lparr>a_Type = '''', a_ID = ''''\<rparr>, in_Source = SourceSelf, in_ParentEntryID = '''', in_CorrelationID = '''',
    in_Subjects = [''h:a''], in_Summary = RawEmpty, in_Artifacts = [], in_ArtifactRefs = []\<rparr>"

lemma sample_input_normal: "NormalizeEntryInput sample_lib sample_input [] [] = Inr normal_input"
  unfolding sample_lib_same by code_simp

lemma sample_batch: "ValidateAppendBatch sample_lib [normal_input] = Inr ()"
proof -
  obtain doc where d: "batch_json sample_lib [normal_input] = Inr doc" "numbers_ok doc" "json_weight (decoded doc) \<le> 1000"
    by (rule that, simp add: batch_json_def input_json_def normal_input_def, simp_all add: omitempty_def actor_json_def SourceSelf_def
      utf8_literal ascii_def json_number_Itoa) (simp_all add: Itoa_def digits.simps)
  then have "length (canonical_text (decoded doc)) \<le> MaxBatchBytes" using length_canonical [of "decoded doc"] by (simp add: MaxBatchBytes_def)
  then show ?thesis
    using d by (simp add: ValidateAppendBatch_def MaxEntriesPerBatch_def MarshalCanonical_def writeCanonicalJSON_def numbers_ok_decoded json_input_def)
qed

lemma entry_keys: "k \<in> fst ` set (entry_fields L e u) \<Longrightarrow> to_valid k = k"
  by (auto simp: entry_fields_def ascii_def intro!: utf8_literal)

lemma entry_numbers: "numbers_ok sm \<Longrightarrow> e_ArtifactRefs e = None \<Longrightarrow> numbers_ok (JObj (entry_fields L e sm))"
  by (auto simp: entry_fields_def list_all_iff json_number_Itoa strings_json_def artifacts_json_def split: option.splits)

definition sample_entry :: entry where
  "sample_entry = \<lparr>e_TenantID = ''t1'', e_JournalID = ''j1'', e_Seq = 1, e_EntryID = ''e0'', e_Type = ''run'',
    e_SchemaVersion = 1, e_Status = [], e_OccurredAt = 0, e_ObservedAt = 0, e_Actor = \<lparr>a_Type = ''api_key'', a_ID = ''unknown''\<rparr>,
    e_Source = SourceSelf, e_ParentEntryID = [], e_CorrelationID = [], e_Subjects = Some [''h:a''], e_Summary = RawEmpty,
    e_ArtifactRefs = None, e_PrevHash = ''sha256:1'', e_EntryHash = ''sha256:0''\<rparr>"

definition sample_appended :: journal_store where
  "sample_appended = \<lparr>js_journals = [((''t1'', ''j1''), sample_row\<lparr>jr_NextSeq := 2, jr_HeadHash := ''sha256:0''\<rparr>)], js_labels = [],
    js_appends = [((''t1'', ''j1'', ''k''), \<lparr>ap_RequestHash = ''sha256:0'', ap_WriterType = ''api_key'', ap_WriterID = ''unknown'',
      ap_Source = SourceSelf, ap_FirstSeq = 1, ap_LastSeq = 1, ap_Count = 1, ap_HeadHash = ''sha256:0''\<rparr>)],
    js_entries = [entry_of sample_lib sample_entry], js_subjects = [subject_of sample_lib sample_entry ''h:a'']\<rparr>"

definition sample_ids :: "nat \<Rightarrow> string" where
  "sample_ids i = ''e'' @ Itoa (int i)"

definition sample_response :: append_response where
  "sample_response = \<lparr>rs_JournalID = ''j1'', rs_AppendID = ''k'', rs_FirstSeq = 1, rs_LastSeq = 1, rs_Count = 1,
    rs_HeadHash = ''sha256:0'', rs_Idempotent = False\<rparr>"

lemma sample_append: "AppendJournalEntries sample_lib 0 sample_ids None ''t1'' ''j1'' ''k'' sample_writer [sample_input] sample_store =
    Inr (sample_response, sample_appended)"
proof -
  have v: "ValidateJournalID ''j1''" "ValidateAppendID ''k''" by code_simp+
  have p: "ParseSubject sample_lib ''h:a'' = Inr (''h'', ''a'')" unfolding sample_lib_same by code_simp
  have n: "try_map (normalize_input sample_lib SourceSelf) [sample_input] = Inr [normal_input]"
    by (simp add: normalize_input_def sample_input_normal wrapped_def) (simp add: normal_input_def)
  obtain doc where d: "batch_json sample_lib [normal_input] = Inr doc" "numbers_ok doc"
    by (rule that, simp add: batch_json_def input_json_def normal_input_def, simp_all add: omitempty_def actor_json_def SourceSelf_def
      utf8_literal ascii_def json_number_Itoa)
  have arr: "case decoded doc of JObj kvs \<Rightarrow> map_of kvs ''created_at'' = None | _ \<Rightarrow> True"
    using d(1) by (auto simp: batch_json_def elim!: tx_bind_InrE)
  have rh: "RequestHash sample_lib [normal_input] = Inr ''sha256:0''"
    using d by (simp add: RequestHash_def sample_other_hash [OF d(2) arr])
  have sel: "selectJournalTx ''t1'' ''j1'' sample_store = Inr ((scanJournal ''t1'' ''j1'' sample_row)\<lparr>jn_Labels := [], jn_Meta := []\<rparr>, ''sha256:0'')"
    by (simp add: selectJournalTx_def sample_store_def sample_row_def scanJournal_def meta_column_def selectJournalLabelsTx_def
        label_rows_def empty_journals_def LabelsToMap_def)
  have i: "sample_ids 0 = ''e0''" by code_simp
  define cur where "cur = (scanJournal ''t1'' ''j1'' sample_row)\<lparr>jn_Labels := [], jn_Meta := []\<rparr>"
  let ?w = "\<lparr>w_Type = ''api_key'', w_ID = ''unknown'', w_Source = []\<rparr>"
  have ne: "build_entry cur ?w SourceSelf 0 1 ''e0'' ''sha256:1'' normal_input = sample_entry\<lparr>e_EntryHash := []\<rparr>"
    by (simp add: build_entry_def sample_entry_def normal_input_def scanJournal_def sample_row_def no_actor_def cur_def)
  have eh: "EntryHash sample_lib (sample_entry\<lparr>e_EntryHash := []\<rparr>) = Inr ''sha256:0''"
  proof -
    let ?e = "sample_entry\<lparr>e_EntryHash := []\<rparr>"
    have "map_of (map (map_prod to_valid decoded) (entry_fields sample_lib ?e JNull)) ''created_at'' = None"
      by (rule map_of_decoded_None [OF _ entry_keys]) (simp_all add: entry_fields_def)
    then have "HashCanonical (lib_sha sample_lib) (JObj (entry_fields sample_lib ?e JNull)) = Inr ''sha256:0''"
      by (intro sample_other_hash entry_numbers) (simp_all add: sample_entry_def)
    then show ?thesis by (simp add: EntryHash_def nullIfEmpty_def marshal_raw_def) (simp add: sample_entry_def)
  qed
  have es: "new_entries sample_lib cur ?w SourceSelf 0 sample_ids 1 0 ''sha256:1'' [normal_input] = Inr [sample_entry]"
    using ne eh i by (simp add: failed_def) (simp add: sample_entry_def)
  have ins: "insertEntries sample_lib [sample_entry] st = Inr (st\<lparr>js_entries := [entry_of sample_lib sample_entry],
      js_subjects := [subject_of sample_lib sample_entry ''h:a'']\<rparr>)" if "js_entries st = []" "js_subjects st = []" for st
    using that by (simp add: insertJournalEntryTx_def nullJSON_def entry_of_def sample_entry_def the_list_def insertSubject_def p failed_def
        subject_of_def strings_json_def artifacts_json_def)
  have tx: "append_tx sample_lib 0 sample_ids ''t1'' ''j1'' ''k'' ?w SourceSelf [normal_input] ''sha256:0'' sample_store =
      Inr (sample_response, sample_appended)"
  proof -
    have c: "jn_ClosedAt cur = None" "jn_NextSeq cur = 1" "jn_HeadHash cur = ''sha256:1''" "NormalizeTime 0 = 0"
      by (simp_all add: cur_def scanJournal_def sample_row_def NormalizeOptionalTime_def NormalizeTime_def)
    have a: "selectAppendRequestTx ''t1'' ''j1'' ''k'' sample_store = Inl JNotFound"
      by (simp add: selectAppendRequestTx_def sample_store_def empty_journals_def)
    have f: "e_Seq sample_entry = 1" "e_EntryHash sample_entry = ''sha256:0''" by (simp_all add: sample_entry_def)
    have s: "js_entries sample_store = []" "js_subjects sample_store = []" "js_appends sample_store = []"
      by (simp_all add: sample_store_def empty_journals_def)
    show ?thesis
      unfolding append_tx_def sel cur_def [symmetric]
      by (simp add: c a es f s ins Let_def del: new_entries.simps insertEntries.simps)
        (simp add: sample_appended_def sample_response_def sample_store_def sample_row_def empty_journals_def)
  qed
  have w: "w_Type sample_writer = []" "w_ID sample_writer = []" "TrimSpace (w_Source sample_writer) = []"
      "sample_writer\<lparr>w_Type := ''api_key'', w_ID := ''unknown''\<rparr> = ?w"
    by (simp_all add: sample_writer_def)
  show ?thesis
    unfolding AppendJournalEntries_def Let_def w
    by (simp add: v n rh sample_batch wrapped_def failed_def tx in_tx_def MaxEntriesPerBatch_def ValidateSource_def w del: try_map.simps)
qed

lemma sample_reach: "journal_reach sample_lib empty_journals sample_appended"
proof -
  obtain j where "CreateJournal sample_lib 0 ''x'' (\<lambda>_. None) ''t1'' sample_request empty_journals = Inr (j, sample_store)"
    using sample_create by blast
  then have "journal_step sample_lib empty_journals sample_store"
    by (rule journal_step.create) (simp add: sample_request_def raw_ok_def)
  moreover have "journal_step sample_lib sample_store sample_appended"
    using sample_append by (rule journal_step.append) (simp add: sample_input_def raw_ok_def)
  ultimately show ?thesis by (blast intro: journal_reach.intros)
qed

section \<open>Verification accepts what was written\<close>



section \<open>Retried appends\<close>

text \<open>The record of an append request, and the journal it belongs to, still open.\<close>

definition recorded :: "string \<Rightarrow> string \<Rightarrow> string \<Rightarrow> append_row \<Rightarrow> journal_store \<Rightarrow> bool" where
  "recorded tid jid aid arow st \<longleftrightarrow> map_of (js_appends st) (tid, jid, aid) = Some arow \<and>
    (\<exists>row. map_of (js_journals st) (tid, jid) = Some row \<and> jr_ClosedAt row = None)"

lemma append_tx_records:
  assumes tx: "append_tx L clock ids tid jid aid w src xs rh st = Inr (r, st')"
  obtains arow where "recorded tid jid aid arow st'" "ap_RequestHash arow = rh" "ap_WriterType arow = w_Type w"
    "ap_WriterID arow = w_ID w" "ap_Source arow = src" "append_row_response arow jid aid = r\<lparr>rs_Idempotent := True\<rparr>"
proof -
  obtain cur ch where cur: "selectJournalTx tid jid st = Inr (cur, ch)" using tx by (auto simp: append_tx_def elim!: tx_bind_InrE)
  then obtain row where row: "map_of (js_journals st) (tid, jid) = Some row" "jn_ClosedAt cur = NormalizeOptionalTime (jr_ClosedAt row)"
    by (rule selectJournalTx_Inr)
  have "jn_ClosedAt cur = None" using tx cur by (auto simp: append_tx_def split: if_splits)
  then have open_row: "jr_ClosedAt row = None" using row(2) by (simp add: NormalizeOptionalTime_def)
  show thesis
  proof (cases "map_of (js_appends st) (tid, jid, aid)")
    case (Some arow)
    then show thesis using tx cur row(1) open_row
      by (intro that [of arow]) (auto simp: append_tx_def selectAppendRequestTx_def recorded_def append_row_response_def split: if_splits)
  next
    case None
    let ?row = "\<lambda>fs. \<lparr>ap_RequestHash = rh, ap_WriterType = w_Type w, ap_WriterID = w_ID w, ap_Source = src, ap_FirstSeq = e_Seq (hd fs),
      ap_LastSeq = e_Seq (last fs), ap_Count = int (length fs), ap_HeadHash = e_EntryHash (last fs)\<rparr>"
    obtain fs st2 where ins: "insertEntries L fs (st\<lparr>js_appends := AList.update (tid, jid, aid) (?row fs) (js_appends st)\<rparr>) = Inr st2"
      and st': "st' = st2\<lparr>js_journals := AList.map_entry (tid, jid) (\<lambda>x. x\<lparr>jr_NextSeq := e_Seq (last fs) + 1,
          jr_HeadHash := e_EntryHash (last fs), jr_UpdatedAt := NormalizeTime clock\<rparr>) (js_journals st2)\<rparr>"
      and r: "r = \<lparr>rs_JournalID = jid, rs_AppendID = aid, rs_FirstSeq = e_Seq (hd fs), rs_LastSeq = e_Seq (last fs),
               rs_Count = int (length fs), rs_HeadHash = e_EntryHash (last fs), rs_Idempotent = False\<rparr>"
      using tx cur None by (auto simp: append_tx_def selectAppendRequestTx_def Let_def split: if_splits elim!: tx_bind_InrE)
    show thesis
      by (rule that [of "?row fs"])
        (use insertEntries_Inr [OF ins] st' r row(1) open_row in \<open>simp_all add: recorded_def map_of_map_entry append_row_response_def\<close>)
  qed
qed

lemma append_tx_replay:
  assumes "recorded tid jid aid arow st" "ap_RequestHash arow = rh" "ap_WriterType arow = w_Type w"
    "ap_WriterID arow = w_ID w" "ap_Source arow = src"
  shows "append_tx L clock ids tid jid aid w src xs rh st = Inr (append_row_response arow jid aid, st)"
  using assms
  by (auto simp: recorded_def append_tx_def selectJournalTx_def scanJournal_def Let_def NormalizeOptionalTime_def selectAppendRequestTx_def)

lemma step_recorded:
  assumes "journal_step L st st'" "lib_ok L" "recorded tid jid aid arow st"
  shows "recorded tid jid aid arow st'"
  using assms(1)
proof cases
  case (create clock newID faults t req j)
  from create show ?thesis
  proof (cases rule: CreateJournal_Inr)
    case (new r ret row)
    then show ?thesis using assms(3) by (auto simp: recorded_def)
  qed (use assms(3) in simp)
next
  case (append clock ids fault t k a w es r)
  have nfc: "nfc_text (lib_nfc L)" using assms(2) by (simp add: lib_ok_def)
  show ?thesis
  proof (cases rule: AppendJournalEntries_Inr [OF nfc append])
    case 3
    then show ?thesis using assms(3) by (auto simp: recorded_def map_of_map_entry)
  qed (use assms(3) in auto)
qed

lemma reach_recorded:
  assumes "journal_reach L st st'" "lib_ok L" "recorded tid jid aid arow st"
  shows "recorded tid jid aid arow st'"
  using assms(1,3) by (induction rule: journal_reach.induct) (auto intro: step_recorded [OF _ assms(2)])

text \<open>
  C10: An append that has succeeded can be retried under the same idempotency key by the same writer at
  any later time, after any other creations and appends: it succeeds with the same sequence range and
  head hash, marked idempotent, and changes nothing.
\<close>
theorem append_retry_idempotent:
  assumes "lib_ok L" "AppendJournalEntries L clock ids fault tid jid aid w es st = Inr (r, st1)" "journal_reach L st1 st2"
  shows "AppendJournalEntries L clock' ids' None tid jid aid w es st2 = Inr (r\<lparr>rs_Idempotent := True\<rparr>, st2)"
proof -
  let ?w = "w\<lparr>w_Type := (if w_Type w = [] then ''api_key'' else w_Type w), w_ID := (if w_ID w = [] then ''unknown'' else w_ID w)\<rparr>"
  let ?src = "if TrimSpace (w_Source w) = [] then SourceSelf else TrimSpace (w_Source w)"
  obtain xs rh where xs: "try_map (normalize_input L ?src) es = Inr xs" "ValidateAppendBatch L xs = Inr ()" "RequestHash L xs = Inr rh"
    and g: "tid \<noteq> []" "jid \<noteq> []" "ValidateJournalID jid" "aid \<noteq> []" "ValidateAppendID aid" "es \<noteq> []"
      "length es \<le> MaxEntriesPerBatch" "ValidateSource ?src"
    and tx: "append_tx L clock ids tid jid aid ?w ?src xs rh st = Inr (r, st1)"
    using assms(2) unfolding AppendJournalEntries_def Let_def
    by (auto simp: in_tx_def split: if_splits option.splits elim!: tx_bind_InrE)
  obtain arow where arow: "recorded tid jid aid arow st1" "ap_RequestHash arow = rh" "ap_WriterType arow = w_Type ?w"
    "ap_WriterID arow = w_ID ?w" "ap_Source arow = ?src" "append_row_response arow jid aid = r\<lparr>rs_Idempotent := True\<rparr>"
    using tx by (rule append_tx_records)
  have "recorded tid jid aid arow st2" using assms(3,1) arow(1) by (rule reach_recorded)
  then have "append_tx L clock' ids' tid jid aid ?w ?src xs rh st2 = Inr (append_row_response arow jid aid, st2)"
    using arow(2-5) by (rule append_tx_replay)
  then show ?thesis
    using xs g arow(6) unfolding AppendJournalEntries_def Let_def
    by (auto simp: in_tx_def not_less wrapped_def failed_def)
qed

theorem append_retry_idempotent_witness:
  "AppendJournalEntries sample_lib 7 (\<lambda>_. ''z'') None ''t1'' ''j1'' ''k'' sample_writer [sample_input] sample_appended =
    Inr (sample_response\<lparr>rs_Idempotent := True\<rparr>, sample_appended)"
  using append_retry_idempotent [OF sample_lib_ok sample_append journal_none] .

section \<open>Verification misses no change\<close>

text \<open>The document of an entry and its canonical text, and the document verification recomputes for the
  genesis.\<close>

definition summary_json :: "entry \<Rightarrow> json" where
  "summary_json e = (case nullIfEmpty (e_Summary e) of RawValue v \<Rightarrow> v | _ \<Rightarrow> JNull)"

definition entry_doc :: "lib \<Rightarrow> entry \<Rightarrow> json" where
  "entry_doc L e = decoded (JObj (entry_fields L e (summary_json e)))"

definition genesis_doc :: "lib \<Rightarrow> journal_row \<Rightarrow> json" where
  "genesis_doc L row = decoded (through_float L (jr_Genesis row))"

text \<open>The entries a reader sees, and the texts verification hashes.\<close>

definition visible_entries :: "string \<Rightarrow> string \<Rightarrow> journal_store \<Rightarrow> entry list" where
  "visible_entries tid jid st = map scanEntry (rest_of tid jid 0 st)"

definition has_seq :: "json \<Rightarrow> bool" where
  "has_seq v = (case v of JObj kvs \<Rightarrow> map_of kvs ''seq'' \<noteq> None | _ \<Rightarrow> False)"

text \<open>Two entries with the same evidence: every hashed field, where texts agree after ill-formed bytes
  are replaced and JSON values up to the order of keys.\<close>

definition same_text :: "string \<Rightarrow> string \<Rightarrow> bool" where
  "same_text s t \<longleftrightarrow> to_valid s = to_valid t"

definition same_evidence :: "lib \<Rightarrow> entry \<Rightarrow> entry \<Rightarrow> bool" where
  "same_evidence L e f \<longleftrightarrow>
    same_text (e_TenantID e) (e_TenantID f) \<and> same_text (e_JournalID e) (e_JournalID f) \<and> e_Seq e = e_Seq f \<and>
    same_text (e_EntryID e) (e_EntryID f) \<and> same_text (e_Type e) (e_Type f) \<and> e_SchemaVersion e = e_SchemaVersion f \<and>
    same_text (e_Status e) (e_Status f) \<and> same_text (FormatTime L (e_OccurredAt e)) (FormatTime L (e_OccurredAt f)) \<and>
    same_text (FormatTime L (e_ObservedAt e)) (FormatTime L (e_ObservedAt f)) \<and>
    same_text (a_Type (e_Actor e)) (a_Type (e_Actor f)) \<and> same_text (a_ID (e_Actor e)) (a_ID (e_Actor f)) \<and>
    same_text (e_Source e) (e_Source f) \<and> same_text (e_ParentEntryID e) (e_ParentEntryID f) \<and>
    same_text (e_CorrelationID e) (e_CorrelationID f) \<and> same_json (strings_json (e_Subjects e)) (strings_json (e_Subjects f)) \<and>
    same_json (summary_json e) (summary_json f) \<and> same_json (artifacts_json (e_ArtifactRefs e)) (artifacts_json (e_ArtifactRefs f)) \<and>
    same_text (e_PrevHash e) (e_PrevHash f)"

definition digest :: "lib \<Rightarrow> string \<Rightarrow> string" where
  "digest L t = ''sha256:'' @ lib_sha L t"

lemma digest_inj: "inj_on (lib_sha L) S \<Longrightarrow> a \<in> S \<Longrightarrow> b \<in> S \<Longrightarrow> digest L a = digest L b \<Longrightarrow> a = b"
  by (auto simp: digest_def dest: inj_onD)

lemma HashCanonical_numbers: "HashCanonical sha v = Inr h \<Longrightarrow> numbers_ok v"
  unfolding HashCanonical_def MarshalCanonical_def writeCanonicalJSON_def numbers_ok_decoded by (auto split: if_splits)

lemma entry_doc_fields:
  assumes "entry_doc L e = JObj gs"
  shows "map_of gs k = map_option decoded (map_of (entry_fields L e (summary_json e)) k)"
  using entry_keys assms unfolding entry_doc_def by (rule map_of_decoded)

lemma EntryHash_Inr:
  assumes "EntryHash L e = Inr h"
  shows "h = digest L (canonical_text (entry_doc L e))" "decoded_ok (entry_doc L e)"
proof -
  obtain u where u: "marshal_raw (nullIfEmpty (e_Summary e)) = Inr u"
      and h: "HashCanonical (lib_sha L) (JObj (entry_fields L e u)) = Inr h"
    using assms by (auto simp: EntryHash_def elim!: tx_bind_InrE)
  have s: "summary_json e = u" using u by (auto simp: summary_json_def marshal_raw_def split: raw.splits)
  have n: "numbers_ok (JObj (entry_fields L e u))" using h by (rule HashCanonical_numbers)
  show "h = digest L (canonical_text (entry_doc L e))"
    using h HashCanonical_Inr [OF n, of "lib_sha L"] by (simp add: entry_doc_def digest_def s del: decoded.simps canonical_text.simps)
  show "decoded_ok (entry_doc L e)" unfolding entry_doc_def s using n by (rule decoded_ok_decoded)
qed

lemma entry_doc_has_seq: "sort_keys v = sort_keys (entry_doc L e) \<Longrightarrow> has_seq v"
proof -
  assume a: "sort_keys v = sort_keys (entry_doc L e)"
  obtain gs where g: "entry_doc L e = JObj gs" by (simp add: entry_doc_def)
  obtain kvs where v: "v = JObj kvs" using a unfolding g by (auto simp: sort_keys_atoms)
  have "map_option sort_keys (map_of kvs ''seq'') = map_option sort_keys (map_of gs ''seq'')"
    using a unfolding v g by (rule sorted_fields)
  also have "map_of gs ''seq'' = map_option decoded (map_of (entry_fields L e (summary_json e)) ''seq'')"
    using g by (rule entry_doc_fields)
  finally show ?thesis by (auto simp: v has_seq_def entry_fields_def)
qed

lemma same_doc_evidence:
  assumes "sort_keys (entry_doc L e) = sort_keys (entry_doc L f)"
  shows "same_evidence L e f"
proof -
  obtain gs hs where g: "entry_doc L e = JObj gs" "entry_doc L f = JObj hs" by (simp add: entry_doc_def)
  have k: "map_option (sort_keys \<circ> decoded) (map_of (entry_fields L e (summary_json e)) k) =
      map_option (sort_keys \<circ> decoded) (map_of (entry_fields L f (summary_json f)) k)" for k
    using sorted_fields [OF assms [unfolded g], of k] by (simp add: entry_doc_fields [OF g(1)] entry_doc_fields [OF g(2)] option.map_comp)
  show ?thesis
    unfolding same_evidence_def same_text_def same_json_def
    using k [of "''tenant_id''"] k [of "''journal_id''"] k [of "''seq''"] k [of "''entry_id''"] k [of "''type''"]
      k [of "''schema_version''"] k [of "''status''"] k [of "''occurred_at''"] k [of "''observed_at''"] k [of "''actor_type''"]
      k [of "''actor_id''"] k [of "''source''"] k [of "''parent_entry_id''"] k [of "''correlation_id''"] k [of "''subjects''"]
      k [of "''summary''"] k [of "''artifact_refs''"] k [of "''prev_hash''"]
    by (simp add: entry_fields_def) (blast intro: Itoa_inj)
qed

text \<open>The digest in hexadecimal.\<close>

definition hex_digest :: "lib \<Rightarrow> bool" where
  "hex_digest L \<longleftrightarrow> (\<forall>s. list_all ascii (lib_sha L s))"

lemma digest_valid: "hex_digest L \<Longrightarrow> to_valid (digest L t) = digest L t"
  by (rule utf8_literal) (auto simp: hex_digest_def digest_def ascii_def)

lemma chain_digest: "chain L (digest L t) es h \<Longrightarrow> \<exists>u. h = digest L u"
proof (induction es arbitrary: t)
  case (Cons e es)
  then have "chain L (e_EntryHash e) es h" "e_EntryHash e = digest L (canonical_text (entry_doc L e))"
    using EntryHash_Inr(1) by auto
  then show ?case using Cons.IH by simp
qed auto

lemma chain_snoc: "chain L p (es @ [e]) h \<Longrightarrow> \<exists>m. chain L p es m \<and> e_PrevHash e = m \<and> EntryHash L e = Inr h"
  by (auto simp: chain_append)

text \<open>Two chains that end in the same hash, walked back from the end.\<close>

definition texts :: "lib \<Rightarrow> json \<Rightarrow> entry list \<Rightarrow> string set" where
  "texts L g es = insert (canonical_text g) ((\<lambda>e. canonical_text (entry_doc L e)) ` set es)"

lemma no_entry_is_genesis:
  assumes "inj_on (lib_sha L) S" "canonical_text g \<in> S" "canonical_text (entry_doc L e) \<in> S" "decoded_ok g" "\<not> has_seq g"
  shows "EntryHash L e \<noteq> Inr (digest L (canonical_text g))"
proof
  assume e: "EntryHash L e = Inr (digest L (canonical_text g))"
  have "canonical_text g = canonical_text (entry_doc L e)"
    using assms(1-3) EntryHash_Inr(1) [OF e] by (rule digest_inj)
  then have "has_seq g" using canonical_text_inj [OF assms(4) EntryHash_Inr(2) [OF e]] entry_doc_has_seq by blast
  then show False using assms(5) by simp
qed

lemma chains_agree:
  assumes hex: "hex_digest L" and inj: "inj_on (lib_sha L) S" and sub: "texts L g es \<subseteq> S" "texts L g' fs \<subseteq> S"
    and ok: "decoded_ok g" "decoded_ok g'" and gen: "\<not> has_seq g" "\<not> has_seq g'"
    and ch: "chain L (digest L (canonical_text g)) es h" "chain L (digest L (canonical_text g')) fs h"
  shows "list_all2 (same_evidence L) es fs \<and> sort_keys g = sort_keys g'"
  using sub ch
proof (induction es arbitrary: fs h rule: rev_induct)
  case Nil
  then have h: "h = digest L (canonical_text g)" by simp
  have g: "canonical_text g \<in> S" "canonical_text g' \<in> S" using Nil.prems(1,2) by (auto simp: texts_def)
  show ?case
  proof (cases fs rule: rev_cases)
    case none: Nil
    then have "digest L (canonical_text g) = digest L (canonical_text g')" using Nil.prems(4) h by simp
    then have "canonical_text g = canonical_text g'" by (rule digest_inj [OF inj g])
    then show ?thesis using none canonical_text_inj [OF ok] by simp
  next
    case (snoc fs' f)
    then have "EntryHash L f = Inr h" using Nil.prems(4) chain_snoc by blast
    moreover have "canonical_text (entry_doc L f) \<in> S" using Nil.prems(2) snoc by (auto simp: texts_def)
    ultimately show ?thesis using no_entry_is_genesis [OF inj g(1) _ ok(1) gen(1)] h by blast
  qed
next
  case (snoc e es)
  obtain m where m: "chain L (digest L (canonical_text g)) es m" "e_PrevHash e = m" and e: "EntryHash L e = Inr h"
    using snoc.prems(3) chain_snoc by blast
  have S: "canonical_text g' \<in> S" "canonical_text (entry_doc L e) \<in> S" using snoc.prems(1,2) by (auto simp: texts_def)
  show ?case
  proof (cases fs rule: rev_cases)
    case Nil
    then have "h = digest L (canonical_text g')" using snoc.prems(4) by simp
    then show ?thesis using no_entry_is_genesis [OF inj S ok(2) gen(2)] e by blast
  next
    case fs: (snoc fs' f)
    obtain n where n: "chain L (digest L (canonical_text g')) fs' n" "e_PrevHash f = n" and f: "EntryHash L f = Inr h"
      using snoc.prems(4) fs chain_snoc by blast
    have "canonical_text (entry_doc L f) \<in> S" using snoc.prems(2) fs by (auto simp: texts_def)
    then have "canonical_text (entry_doc L e) = canonical_text (entry_doc L f)"
      using EntryHash_Inr(1) [OF e] EntryHash_Inr(1) [OF f] by (intro digest_inj [OF inj S(2)]) simp_all
    then have ev: "same_evidence L e f"
      using canonical_text_inj [OF EntryHash_Inr(2) [OF e] EntryHash_Inr(2) [OF f]] same_doc_evidence by blast
    then have "to_valid m = to_valid n" using m(2) n(2) by (simp add: same_evidence_def same_text_def)
    moreover obtain t u where "m = digest L t" "n = digest L u" using chain_digest [OF m(1)] chain_digest [OF n(1)] by blast
    ultimately have "m = n" using digest_valid [OF hex] by metis
    then have "list_all2 (same_evidence L) es fs' \<and> sort_keys g = sort_keys g'"
      using m(1) n(1) snoc.prems(1,2) by (intro snoc.IH [of fs' m]) (auto simp: fs texts_def)
    then show ?thesis using ev by (simp add: fs list_all2_appendI)
  qed
qed

text \<open>What a run of the verification loop has checked, on any tables that respect the primary key.\<close>

lemma verify_entries_sound:
  assumes "verify_entries L m es s = Inr s'"
  shows "vs_count s' = vs_count s + int (length es) \<and> (vs_chain s' \<longrightarrow> vs_chain s \<and> chain L (vs_prev s) es (vs_prev s'))"
  using assms
proof (induction es arbitrary: s)
  case (Cons e es)
  then obtain u where u: "verify_entry L m e s = Inr u" "verify_entries L m es u = Inr s'" by (auto elim!: tx_bind_InrE)
  then obtain h where "EntryHash L e = Inr h" "u = \<lparr>vs_prev = h, vs_chain = (vs_chain s \<and> e_PrevHash e = vs_prev s \<and> h = e_EntryHash e),
      vs_projection = (vs_projection s \<and> the_list (e_Subjects e) = the_list (map_of m (e_Seq e))), vs_count = vs_count s + 1\<rparr>"
    by (auto simp: verify_entry_def elim!: tx_bind_InrE)
  then show ?case using Cons.IH [OF u(2)] by auto
qed simp

lemma verify_loop_sound:
  assumes id: "mem_key (js_journals st) (tid, jid)" and strict: "sorted_wrt (<) (map row_seq (stream tid jid st))"
    and run: "verify_loop L tid jid st after s = Inr s'"
  shows "vs_count s' = vs_count s + int (length (rest_of tid jid after st)) \<and>
    (vs_chain s' \<longrightarrow> vs_chain s \<and> chain L (vs_prev s) (map scanEntry (rest_of tid jid after st)) (vs_prev s'))"
  using run
proof (induction "length (rest_of tid jid after st)" arbitrary: after s rule: less_induct)
  case less
  let ?R = "rest_of tid jid after st"
  let ?P = "take 1000 ?R"
  have "tid \<noteq> []" "ValidateJournalID jid"
    using less.prems by (subst (asm) verify_loop.simps, auto simp: ListJournalEntries_def split: if_splits)+
  note list = ListJournalEntries_rest [OF this id]
  show ?case
  proof (cases "?R = []")
    case True
    then show ?thesis using less.prems list by (subst (asm) verify_loop.simps) simp
  next
    case False
    then have ne: "?P \<noteq> []" by simp
    have strictR: "sorted_wrt (<) (map row_seq ?R)"
      using strict unfolding rest_of_def by (simp add: sorted_wrt_map sorted_wrt_filter)
    obtain u where u: "verify_page L tid jid st (map scanEntry ?P) s = Inr u" "verify_loop L tid jid st (row_seq (last ?P)) u = Inr s'"
      using less.prems list ne by (subst (asm) verify_loop.simps) (auto simp: last_map split: sum.splits)
    obtain m ok where v: "verify_entries L m (map scanEntry ?P) (s\<lparr>vs_projection := vs_projection s \<and> ok\<rparr>) = Inr u"
      using u(1) by (auto simp: verify_page_def elim!: tx_bind_InrE)
    have "after < row_seq (last ?P)" using last_in_set [OF ne] set_take_subset [of 1000 ?R] by (auto simp: rest_of_def)
    then have "rest_of tid jid (row_seq (last ?P)) st = filter (\<lambda>x. row_seq (last ?P) < row_seq x) ?R"
      unfolding rest_of_def by (auto intro!: filter_cong)
    then have rest: "rest_of tid jid (row_seq (last ?P)) st = drop 1000 ?R" using rest_after_page [OF strictR ne] by simp
    have ih: "vs_count s' = vs_count u + int (length (drop 1000 ?R)) \<and>
        (vs_chain s' \<longrightarrow> vs_chain u \<and> chain L (vs_prev u) (map scanEntry (drop 1000 ?R)) (vs_prev s'))"
      using less.hyps [of "row_seq (last ?P)" u] u(2) False unfolding rest by simp
    have "map scanEntry ?R = map scanEntry ?P @ map scanEntry (drop 1000 ?R)" by (simp flip: map_append)
    then show ?thesis using ih verify_entries_sound [OF v] by (auto simp: chain_append)
  qed
qed

text \<open>The primary key of \<^verbatim>\<open>journal_entries\<close>.\<close>

definition entry_key :: "entry_row \<Rightarrow> string \<times> string \<times> int" where
  "entry_key r = (e_TenantID (er_Entry r), e_JournalID (er_Entry r), row_seq r)"

definition keys_ok :: "journal_store \<Rightarrow> bool" where
  "keys_ok st \<longleftrightarrow> distinct (map entry_key (js_entries st))"

lemma keys_strict:
  assumes "keys_ok st"
  shows "sorted_wrt (<) (map row_seq (stream tid jid st))"
proof -
  let ?F = "filter (in_journal tid jid) (js_entries st)"
  have "distinct ?F" "inj_on row_seq (set ?F)"
    using assms by (auto simp: keys_ok_def distinct_map inj_on_def entry_key_def in_journal_def)
  then have "distinct (map row_seq (sort_key row_seq ?F))" by (simp add: distinct_map)
  then show ?thesis unfolding stream_def by (intro strict_sorted_iff [THEN iffD2]) simp
qed

lemma VerifyJournal_sound:
  assumes "keys_ok st" "map_of (js_journals st) (tid, jid) = Some row" "VerifyJournal L tid jid st = Inr v"
  shows "v_Entries v = int (length (visible_entries tid jid st))" "v_HeadHash v = jr_HeadHash row"
    "v_HashChainOK v \<Longrightarrow> chain L (digest L (canonical_text (genesis_doc L row))) (visible_entries tid jid st) (v_HeadHash v)"
    "decoded_ok (genesis_doc L row)"
proof -
  obtain gh ls s where g: "HashCanonical (lib_sha L) (through_float L (jr_Genesis row)) = Inr gh"
    and run: "verify_loop L tid jid st 0 \<lparr>vs_prev = gh, vs_chain = (gh = jr_GenesisHash row),
        vs_projection = (snd (loadJournalLabels L tid jid st) \<and> ls = fst (loadJournalLabels L tid jid st)), vs_count = 0\<rparr> = Inr s"
    and v: "v = \<lparr>v_OK = (vs_chain s \<and> vs_prev s = jr_HeadHash row) \<and> vs_projection s, v_JournalID = jid, v_Entries = vs_count s,
        v_HeadHash = jr_HeadHash row, v_HashChainOK = (vs_chain s \<and> vs_prev s = jr_HeadHash row), v_ProjectionOK = vs_projection s\<rparr>"
    using assms(2,3) by (auto simp: VerifyJournal_def Let_def case_prod_beta elim!: tx_bind_InrE)
  have n: "numbers_ok (through_float L (jr_Genesis row))" using g by (rule HashCanonical_numbers)
  have gh: "gh = digest L (canonical_text (genesis_doc L row))"
    using g HashCanonical_Inr [OF n, of "lib_sha L"] by (simp add: digest_def genesis_doc_def)
  have "mem_key (js_journals st) (tid, jid)" using assms(2) by (simp add: mem_key_def)
  note sound = verify_loop_sound [OF this keys_strict [OF assms(1)] run]
  show "v_Entries v = int (length (visible_entries tid jid st))" "v_HeadHash v = jr_HeadHash row"
    using sound v by (simp_all add: visible_entries_def)
  show "chain L (digest L (canonical_text (genesis_doc L row))) (visible_entries tid jid st) (v_HeadHash v)" if "v_HashChainOK v"
    using sound v gh that by (auto simp: visible_entries_def)
  show "decoded_ok (genesis_doc L row)" unfolding genesis_doc_def using n by (rule decoded_ok_decoded)
qed

text \<open>
  C11: The page loop of \<^verbatim>\<open>VerifyJournal\<close> ends on any content of the tables and visits every entry a reader
  sees exactly once: the count it reports is the number of entries of the journal with a positive
  sequence number.
\<close>
theorem verify_visits_every_entry:
  assumes "keys_ok st" "map_of (js_journals st) (tid, jid) = Some row" "VerifyJournal L tid jid st = Inr v"
  shows "v_Entries v = int (length (filter (\<lambda>r. in_journal tid jid r \<and> 0 < row_seq r) (js_entries st)))"
proof -
  have "length (visible_entries tid jid st) = length (filter (\<lambda>r. in_journal tid jid r \<and> 0 < row_seq r) (js_entries st))"
    by (simp add: visible_entries_def rest_of_def stream_def filter_sort conj_commute)
  then show ?thesis using VerifyJournal_sound(1) [OF assms] by simp
qed

lemma sample_lookup: "map_of (js_journals sample_appended) (''t1'', ''j1'') = Some (sample_row\<lparr>jr_NextSeq := 2, jr_HeadHash := ''sha256:0''\<rparr>)"
  by (simp add: sample_appended_def)

lemma sample_keys: "keys_ok sample_appended"
  by (simp add: keys_ok_def sample_appended_def)

lemma sample_verified:
  "VerifyJournal sample_lib ''t1'' ''j1'' sample_appended = Inr \<lparr>v_OK = True, v_JournalID = ''j1'', v_Entries = 1,
    v_HeadHash = ''sha256:0'', v_HashChainOK = True, v_ProjectionOK = True\<rparr>"
  using VerifyJournal_ok [OF reach_store_ok [OF sample_reach sample_lib_ok store_ok_empty] sample_lookup] by simp

theorem verify_visits_every_entry_witness:
  "length (filter (\<lambda>r. in_journal ''t1'' ''j1'' r \<and> 0 < row_seq r) (js_entries sample_appended)) = 1"
  using verify_visits_every_entry [OF sample_keys sample_lookup sample_verified] by simp

text \<open>
  C9: Tampering is evident: when two contents of the tables both pass the hash-chain check for a journal
  with the same head hash, they hold the same entries in the same order with the same evidence in every
  hashed field, and the same genesis document, provided that the digest does not collide on the texts
  hashed for them and that neither genesis document carries a sequence number, which entries do.
\<close>
theorem tampering_is_evident:
  assumes "hex_digest L" "keys_ok st" "keys_ok st'"
    and "map_of (js_journals st) (tid, jid) = Some row" "map_of (js_journals st') (tid, jid) = Some row'"
    and "VerifyJournal L tid jid st = Inr v" "VerifyJournal L tid jid st' = Inr v'"
    and "v_HashChainOK v" "v_HashChainOK v'" "v_HeadHash v = v_HeadHash v'"
    and "\<not> has_seq (genesis_doc L row)" "\<not> has_seq (genesis_doc L row')"
    and "inj_on (lib_sha L) (texts L (genesis_doc L row) (visible_entries tid jid st) \<union>
      texts L (genesis_doc L row') (visible_entries tid jid st'))"
  shows "list_all2 (same_evidence L) (visible_entries tid jid st) (visible_entries tid jid st') \<and>
    sort_keys (genesis_doc L row) = sort_keys (genesis_doc L row')"
proof -
  note a = VerifyJournal_sound [OF assms(2,4,6)] and b = VerifyJournal_sound [OF assms(3,5,7)]
  show ?thesis
    by (rule chains_agree [OF assms(1,13) _ _ a(4) b(4) assms(11,12) a(3) [OF assms(8)] b(3) [OF assms(9), folded assms(10)]]) auto
qed

lemma sample_entry_scan:
  "visible_entries ''t1'' ''j1'' sample_appended = [scanEntry (entry_of sample_lib sample_entry)]"
  by (simp add: visible_entries_def rest_of_def stream_def sample_appended_def in_journal_def row_seq_def) (simp add: sample_entry_def)

lemma sample_genesis_doc: "genesis_doc sample_lib sample_row = sort_keys sample_genesis"
proof -
  have "plain (sort_keys sample_genesis)"
    unfolding plain_sort sample_genesis_def plain_decoded by (rule genesis_plain) simp
  then have "through_float sample_lib (sort_keys sample_genesis) = sort_keys sample_genesis"
    using sample_lib_ok by (intro through_float_plain) (simp_all add: lib_ok_def)
  then show ?thesis using decoded_id [OF decoded_ok_sort [OF sample_genesis_ok]] by (simp add: genesis_doc_def sample_row_def)
qed

lemma sample_digests:
  "lib_sha sample_lib (canonical_text (sort_keys sample_genesis)) = ''1''"
  "lib_sha sample_lib (canonical_text (entry_doc sample_lib (scanEntry (entry_of sample_lib sample_entry)))) = ''0''"
proof -
  have "canonical_text (sort_keys sample_genesis) = canonical_text sample_genesis" by (simp add: canonical_text_sorted)
  then show "lib_sha sample_lib (canonical_text (sort_keys sample_genesis)) = ''1''" by (simp add: sample_lib_def)
  have "chain sample_lib (digest sample_lib (canonical_text (sort_keys sample_genesis))) [scanEntry (entry_of sample_lib sample_entry)] ''sha256:0''"
    using VerifyJournal_sound(3) [OF sample_keys sample_lookup sample_verified] sample_genesis_doc
    by (simp add: sample_entry_scan genesis_doc_def)
  then have "EntryHash sample_lib (scanEntry (entry_of sample_lib sample_entry)) = Inr ''sha256:0''" by auto
  then show "lib_sha sample_lib (canonical_text (entry_doc sample_lib (scanEntry (entry_of sample_lib sample_entry)))) = ''0''"
    using EntryHash_Inr(1) by (fastforce simp: digest_def)
qed

lemma sample_no_seq: "\<not> has_seq (sort_keys sample_genesis)"
proof -
  obtain gs where g: "sample_genesis = JObj gs" by (simp add: sample_genesis_def)
  have "map_of gs ''seq'' = map_option decoded (map_of (genesis_fields base_lib ''t1'' normal_request JNull 0) ''seq'')"
    using genesis_keys g unfolding sample_genesis_def by (rule map_of_decoded)
  then have "map_of gs ''seq'' = None" by (simp add: genesis_fields_def create_fields_def)
  then show ?thesis using sort_keys_field [of gs "''seq''"] by (simp add: has_seq_def g)
qed

theorem tampering_is_evident_witness:
  "list_all2 (same_evidence sample_lib) (visible_entries ''t1'' ''j1'' sample_appended) (visible_entries ''t1'' ''j1'' sample_appended)"
proof -
  let ?row = "sample_row\<lparr>jr_NextSeq := 2, jr_HeadHash := ''sha256:0''\<rparr>"
  have g: "genesis_doc sample_lib ?row = sort_keys sample_genesis" using sample_genesis_doc by (simp add: genesis_doc_def)
  have "hex_digest sample_lib" by (simp add: hex_digest_def sample_lib_def ascii_def)
  moreover have "inj_on (lib_sha sample_lib) (texts sample_lib (genesis_doc sample_lib ?row) (visible_entries ''t1'' ''j1'' sample_appended) \<union>
      texts sample_lib (genesis_doc sample_lib ?row) (visible_entries ''t1'' ''j1'' sample_appended))"
    unfolding g texts_def sample_entry_scan using sample_digests by (auto simp: inj_on_def)
  ultimately show ?thesis
    using tampering_is_evident [OF _ sample_keys sample_keys sample_lookup sample_lookup sample_verified sample_verified] sample_no_seq g
    by simp
qed

section \<open>Two journals the code mishandles\<close>

text \<open>The first journal of a store without labels: what creating it writes.\<close>

lemma create_fresh:
  fixes clock :: int
  assumes "tid \<noteq> []" "cr_JournalID req \<noteq> []" "NormalizeCreateRequest L req = Inr r" "cr_Labels r = []" "cr_Meta r = []"
    and "nullJSON L (cr_Retention r) = Inr rcol" "marshal_raw (nullIfEmpty (cr_Retention r)) = Inr ret" "numbers_ok ret"
  defines "doc \<equiv> decoded (JObj (genesis_fields L tid r ret (NormalizeTime clock)))"
  shows "\<exists>j row. CreateJournal L clock newID (\<lambda>_. None) tid req empty_journals =
      Inr (j, empty_journals\<lparr>js_journals := [((tid, cr_JournalID r), row)]\<rparr>) \<and> jn_JournalID j = cr_JournalID r \<and>
    jr_Genesis row = lib_column L (sort_keys doc) \<and> jr_GenesisHash row = digest L (canonical_text doc) \<and> jr_HeadHash row = jr_GenesisHash row"
proof -
  let ?d = "JObj (genesis_fields L tid r ret (NormalizeTime clock))"
  have n: "numbers_ok ?d" "numbers_ok (JObj (create_fields tid r ret))" using assms(8) by (rule genesis_numbers)+
  have ch: "CreateHash L tid r = Inr (digest L (canonical_text (decoded (JObj (create_fields tid r ret)))))"
    using assms(7) HashCanonical_Inr [OF n(2), of "lib_sha L"] by (simp add: CreateHash_def digest_def del: decoded.simps canonical_text.simps)
  have gd: "GenesisDocument L tid r (NormalizeTime clock) = Inr ?d" using assms(7) by (simp add: GenesisDocument_def genesis_fields_def)
  have mc: "MarshalCanonical ?d = Inr (canonical_text doc)" and gh: "HashCanonical (lib_sha L) ?d = Inr (digest L (canonical_text doc))"
    using n(1) numbers_ok_decoded [of ?d] HashCanonical_Inr [OF n(1), of "lib_sha L"]
    by (simp_all add: MarshalCanonical_def writeCanonicalJSON_def doc_def digest_def del: decoded.simps numbers_ok.simps canonical_text.simps)
  show ?thesis
    unfolding CreateJournal_def Let_def
    by (simp add: assms(1-5) wrapped_def failed_def ch gd mc gh numeral_2_eq_2 in_tx_def ValidateLabels_def MaxLabelsPerJournal_def
        isRetryableJournalCreateConflict_def create_tx_def selectJournalTx_def empty_journals_def nullJSON_def [of L RawEmpty] assms(6)
        doc_def [symmetric] del: decoded.simps)
qed

text \<open>Reading a number token back through a float may change its text: \<^verbatim>\<open>1.0\<close> becomes \<^verbatim>\<open>1\<close>.\<close>

definition frac_lib :: lib where
  "frac_lib = base_lib\<lparr>lib_float := (\<lambda>s. if s = ''1.0'' then ''1'' else s)\<rparr>"

definition frac_request :: create_request where
  "frac_request = sample_request\<lparr>cr_Retention := RawValue (JNum ''1.0'')\<rparr>"

definition frac_normal :: create_request where
  "frac_normal = normal_request\<lparr>cr_Retention := RawValue (JNum ''1.0'')\<rparr>"

lemma frac_numbers: "json_number ''1.0''" "json_number ''1''" by code_simp+

lemma frac_normalized: "NormalizeCreateRequest frac_lib frac_request = Inr frac_normal"
  by code_simp

lemma decoded_ok_float:
  "(\<And>s. json_number s \<Longrightarrow> json_number (lib_float L s)) \<Longrightarrow> decoded_ok v \<Longrightarrow> decoded_ok (through_float L v)"
  by (induction v) (auto simp: list_all_iff snds.simps)

lemma through_float_field: "map_of (case through_float L (JObj kvs) of JObj xs \<Rightarrow> xs | _ \<Rightarrow> []) k = map_option (through_float L) (map_of kvs k)"
proof -
  have "map_of (map (map_prod id (through_float L)) kvs) k = map_option (through_float L) (map_of kvs k)" by (induction kvs) auto
  then show ?thesis by simp
qed

lemma float_changes_text:
  assumes "decoded_ok (JObj kvs)" "map_of kvs k = Some (JNum ''1.0'')"
  defines "t \<equiv> through_float frac_lib (sort_keys (JObj kvs))"
  shows "decoded_ok t" "canonical_text t \<noteq> canonical_text (JObj kvs)"
proof -
  show ok: "decoded_ok t"
    unfolding t_def using assms(1) frac_numbers by (intro decoded_ok_float decoded_ok_sort) (simp_all add: frac_lib_def)
  obtain ss where s: "sort_keys (JObj kvs) = JObj ss" by simp
  obtain ts where t: "t = JObj ts" unfolding t_def s by simp
  have "map_of ss k = Some (JNum ''1.0'')" using sort_keys_field [of kvs k] assms(2) unfolding s by simp
  then have f: "map_of ts k = Some (JNum ''1'')"
    using through_float_field [of frac_lib ss k] t unfolding t_def s by (simp add: frac_lib_def)
  show "canonical_text t \<noteq> canonical_text (JObj kvs)"
  proof
    assume "canonical_text t = canonical_text (JObj kvs)"
    then have "sort_keys (JObj ts) = sort_keys (JObj kvs)" using canonical_text_inj [OF ok assms(1)] t by simp
    then show False using sorted_fields [of ts kvs k] f assms(2) by simp
  qed
qed

lemma HashCanonical_digest: "decoded_ok v \<Longrightarrow> HashCanonical (lib_sha L) v = Inr (digest L (canonical_text v))"
  by (simp add: HashCanonical_Inr decoded_ok_numbers decoded_id digest_def)

lemma verify_fresh:
  assumes "tid \<noteq> []" "jid \<noteq> []" "ValidateJournalID jid" "LabelsFromGenesis L (jr_Genesis row) = Inr ls"
    and "HashCanonical (lib_sha L) (through_float L (jr_Genesis row)) = Inr h"
  shows "\<exists>v. VerifyJournal L tid jid (empty_journals\<lparr>js_journals := [((tid, jid), row)]\<rparr>) = Inr v \<and>
    v_HashChainOK v = (h = jr_GenesisHash row \<and> h = jr_HeadHash row)"
  using assms
  by (simp add: VerifyJournal_def failed_def verify_loop.simps ListJournalEntries_def empty_journals_def journalExists_def
      loadJournalLabels_def mem_key_def split: prod.splits)

text \<open>C38: A journal whose retention holds the number 1.0 is created without an error and then fails its own
  verification although nothing was written since: creation hashes the number token, verification hashes the
  token of the float it was read into.\<close>
theorem fractional_retention_fails_verification:
  "\<exists>j st v. CreateJournal frac_lib 0 ''x'' (\<lambda>_. None) ''t1'' frac_request empty_journals = Inr (j, st) \<and>
    VerifyJournal frac_lib ''t1'' ''j1'' st = Inr v \<and> \<not> v_HashChainOK v"
proof -
  let ?f = "genesis_fields frac_lib ''t1'' frac_normal (JNum ''1.0'') (NormalizeTime 0)"
  let ?doc = "decoded (JObj ?f)"
  have q: "cr_JournalID frac_request \<noteq> []" "cr_JournalID frac_normal = ''j1''" "cr_Labels frac_normal = []" "cr_Meta frac_normal = []"
    "cr_Retention frac_normal = RawValue (JNum ''1.0'')"
    by (simp_all add: frac_request_def frac_normal_def sample_request_def normal_request_def)
  obtain j row where c: "CreateJournal frac_lib 0 ''x'' (\<lambda>_. None) ''t1'' frac_request empty_journals =
      Inr (j, empty_journals\<lparr>js_journals := [((''t1'', ''j1''), row)]\<rparr>)"
    and g: "jr_Genesis row = lib_column frac_lib (sort_keys ?doc)" "jr_GenesisHash row = digest frac_lib (canonical_text ?doc)"
    using create_fresh [OF _ q(1) frac_normalized q(3,4), of "''t1''" "Some (JNum ''1.0'')" "JNum ''1.0''" 0 "''x''"] q(2) frac_numbers
    by (auto simp: nullJSON_def nullIfEmpty_def marshal_raw_def q(5) frac_lib_def base_lib_def simp del: decoded.simps)
  obtain gs where d: "?doc = JObj gs" by simp
  have ok: "decoded_ok (JObj gs)" unfolding d [symmetric] using frac_numbers by (intro decoded_ok_decoded genesis_numbers) simp
  have "map_of gs ''retention'' = map_option decoded (map_of ?f ''retention'')" using genesis_keys d by (rule map_of_decoded)
  then have r: "map_of gs ''retention'' = Some (JNum ''1.0'')" by (simp add: genesis_fields_def create_fields_def)
  let ?t = "through_float frac_lib (sort_keys ?doc)"
  note t = float_changes_text [OF ok r, folded d]
  have h: "HashCanonical (lib_sha frac_lib) ?t = Inr (digest frac_lib (canonical_text ?t))"
    by (rule HashCanonical_digest) (rule t(1))
  have l: "LabelsFromGenesis frac_lib (sort_keys ?doc) = Inr []"
    by (rule LabelsFromGenesis_same [where req = frac_normal and tid = "''t1''" and ret = "JNum ''1.0''" and now = "NormalizeTime 0"])
      (simp_all add: q LabelsToMap_def ValidateLabels_def sort_keys_idem del: decoded.simps)
  have "digest frac_lib (canonical_text ?t) \<noteq> digest frac_lib (canonical_text ?doc)"
    using t(2) by (simp add: digest_def frac_lib_def base_lib_def del: decoded.simps)
  moreover have "jr_Genesis row = sort_keys ?doc" using g(1) by (simp add: frac_lib_def base_lib_def del: decoded.simps)
  moreover have "ValidateJournalID ''j1''" by code_simp
  ultimately show ?thesis using c verify_fresh [of "''t1''" "''j1''" frac_lib row] l h g(2) by fastforce
qed

text \<open>A journal created with an identifier of blanks only is stored under the empty identifier, where no
  entry can be appended, listed or verified any more.\<close>

theorem blank_id_is_unreachable:
  "\<exists>j st. CreateJournal base_lib 0 ''x'' (\<lambda>_. None) ''t1'' (sample_request\<lparr>cr_JournalID := '' ''\<rparr>) empty_journals = Inr (j, st) \<and>
    jn_JournalID j = [] \<and> journalExists ''t1'' [] st \<and>
    (\<forall>L clock ids fault aid w es. AppendJournalEntries L clock ids fault ''t1'' [] aid w es st = Inl JValidation) \<and>
    (\<forall>afterSeq limit. ListJournalEntries ''t1'' [] afterSeq limit st = Inl JValidation)"
proof -
  let ?q = "sample_request\<lparr>cr_JournalID := '' ''\<rparr>" and ?r = "normal_request\<lparr>cr_JournalID := ''''\<rparr>"
  have n: "NormalizeCreateRequest base_lib ?q = Inr ?r" by code_simp
  have f: "cr_Labels ?r = []" "cr_Meta ?r = []" "cr_Retention ?r = RawEmpty" "cr_JournalID ?r = []" "cr_JournalID ?q \<noteq> []"
    by (simp_all add: normal_request_def)
  obtain j row where "CreateJournal base_lib 0 ''x'' (\<lambda>_. None) ''t1'' ?q empty_journals =
      Inr (j, empty_journals\<lparr>js_journals := [((''t1'', []), row)]\<rparr>)" "jn_JournalID j = []"
    using create_fresh [OF _ f(5) n f(1,2), of "''t1''" None JNull 0 "''x''"] f
    by (auto simp: nullJSON_def nullIfEmpty_def marshal_raw_def simp del: decoded.simps)
  then show ?thesis
    by (auto simp: AppendJournalEntries_def ListJournalEntries_def journalExists_def mem_key_def Let_def)
qed

end
