(* ===== verification/Node_Safety.thy ===== *)
theory Node_Safety
  imports Node_Store
begin

text \<open>
  Safety of the clean-up of deleted files, over the whole store of \<^verbatim>\<open>Node_Store\<close>: the transactions on
  names, the operations on file rows and the steps of the clean-up workers, in any order. A worker
  deletes the stored object of the file a task names, so no task may name a file that a path reaches.
\<close>

section \<open>Batches and marks\<close>

lemma concat_batches: "0 < n \<Longrightarrow> concat (batches n xs) = xs"
  by (induction n xs rule: batches.induct) (subst batches.simps, auto)

lemma batches_one [simp]: "0 < n \<Longrightarrow> batches n [x] = [[x]]"
  by (simp add: batches.simps [of n "[x]"] batches.simps [of n "[]"])

lemma batch_size [simp]: "0 < deleteFileIDBatchSize"
  by (simp add: deleteFileIDBatchSize_def)

lemma map_of_marked: "map_of (map (\<lambda>(k, v). (k, if k \<in> A then f v else v)) m) j =
    (if j \<in> A then map_option f (map_of m j) else map_of m j)"
  by (induction m) auto

lemma mark_rows:
  defines "m bs st \<equiv> foldl mark_batch st bs"
  shows "useLegacyFiles (m bs st) = useLegacyFiles st" "contents (m bs st) = contents st" "semantic (m bs st) = semantic st"
    "map_of (inodes (m bs st)) k =
      (if k \<in> set (concat bs) then map_option (\<lambda>i. i\<lparr>i_status := DELETED\<rparr>) (map_of (inodes st) k) else map_of (inodes st) k)"
    "map_of (files (m bs st)) k = (if useLegacyFiles st \<and> k \<in> set (concat bs)
      then map_option (\<lambda>l. l\<lparr>l_status := DELETED\<rparr>) (map_of (files st) k) else map_of (files st) k)"
  unfolding m_def
  by (induction bs arbitrary: st)
    (auto simp: mark_batch_def map_of_marked option.map_comp comp_def)

lemma markFilesDeleted_rows:
  "useLegacyFiles (tables (markFilesDeletedTx ids s)) = useLegacyFiles (tables s)"
  "contents (tables (markFilesDeletedTx ids s)) = contents (tables s)"
  "semantic (tables (markFilesDeletedTx ids s)) = semantic (tables s)"
  "map_of (inodes (tables (markFilesDeletedTx ids s))) k =
    (if k \<in> set ids then map_option (\<lambda>i. i\<lparr>i_status := DELETED\<rparr>) (map_of (inodes (tables s)) k)
     else map_of (inodes (tables s)) k)"
  "map_of (files (tables (markFilesDeletedTx ids s))) k = (if useLegacyFiles (tables s) \<and> k \<in> set ids
    then map_option (\<lambda>l. l\<lparr>l_status := DELETED\<rparr>) (map_of (files (tables s)) k) else map_of (files (tables s)) k)"
  by (simp_all add: markFilesDeletedTx_def mark_rows concat_batches del: set_concat)

lemma markFilesDeleted_other [simp]:
  "nodes (markFilesDeletedTx ids s) = nodes s" "tags (markFilesDeletedTx ids s) = tags s" "gc (markFilesDeletedTx ids s) = gc s"
  by (simp_all add: markFilesDeletedTx_def)

lemma deleteFileTags_other [simp]:
  "nodes (deleteFileTagsByIDsTx ids s) = nodes s" "tables (deleteFileTagsByIDsTx ids s) = tables s"
  "gc (deleteFileTagsByIDsTx ids s) = gc s"
  by (simp_all add: deleteFileTagsByIDsTx_def)

lemma deleteFileTags_tags: "tags (deleteFileTagsByIDsTx ids s) = filter (\<lambda>(f, k, v). f \<notin> set ids) (tags s)"
proof -
  have "foldl (\<lambda>ts batch. filter (\<lambda>(f, k, v). f \<notin> set batch) ts) ts bs =
      filter (\<lambda>(f, k, v). f \<notin> set (concat bs)) ts" for ts :: "(string \<times> string \<times> string) list" and bs
    by (induction bs arbitrary: ts) (auto simp: filter_filter case_prod_beta intro!: filter_cong)
  then show ?thesis by (simp add: deleteFileTagsByIDsTx_def concat_batches del: set_concat)
qed

lemma markFilesDeleted_ok:
  assumes "tables_ok (tables s)"
  shows "tables_ok (tables (markFilesDeletedTx ids s))"
  unfolding tables_ok_def
proof
  fix k
  have "rows_at (tables s) k" using assms by (simp add: tables_ok_def)
  then show "rows_at (tables (markFilesDeletedTx ids s)) k"
    by (auto simp: rows_at_def rows_ok_def markFilesDeleted_rows agree_def fresh_pending_def split: option.splits)
qed

section \<open>The clean-up queue\<close>

definition task_files :: "file_gc_task list \<Rightarrow> (string \<times> string) set" where
  "task_files q = (\<lambda>r. (TaskID r, FileID r)) ` set q"

lemma update_where_files:
  "(\<And>r. TaskID (f r) = TaskID r \<and> FileID (f r) = FileID r) \<Longrightarrow> task_files (update_where P f q) = task_files q"
  by (induction q) (simp_all add: task_files_def update_where_def)

lemma row_update_files:
  "TaskID (lease_row c now dur r) = TaskID r \<and> FileID (lease_row c now dur r) = FileID r"
  "TaskID (succeed_row now r) = TaskID r \<and> FileID (succeed_row now r) = FileID r"
  "TaskID (dead_row now err r) = TaskID r \<and> FileID (dead_row now err r) = FileID r"
  "TaskID (requeue_row now t err r) = TaskID r \<and> FileID (requeue_row now t err r) = FileID r"
  "TaskID (recover_row now r) = TaskID r \<and> FileID (recover_row now r) = FileID r"
  by (simp_all add: lease_row_def succeed_row_def dead_row_def requeue_row_def recover_row_def unlease_def)

lemma claim_files: "task_files (fst (claim_task el locked c now dur q)) = task_files q"
  by (auto simp: claim_task_def Let_def update_where_files row_update_files split: list.split)

lemma held_files: "update_held (succeed_row now) i c clock q = Inr q' \<Longrightarrow> task_files q' = task_files q"
  by (auto simp: update_held_def Let_def update_where_files row_update_files split: if_split_asm)

lemma retry_files: "retry_task ex i c now at err q = Inr q' \<Longrightarrow> task_files q' = task_files q"
  by (auto simp: retry_task_def update_where_files row_update_files split: if_split_asm option.split_asm)

lemma recover_files: "task_files (fst (recover_expired locked now lim q)) = task_files q"
proof -
  have "task_files (fst (foldl (recover_one now) (q, k) is)) = task_files q" for q :: "file_gc_task list" and k "is"
    by (induction "is" arbitrary: q k) (simp_all add: recover_one_def Let_def update_where_files row_update_files)
  then show ?thesis by (simp add: recover_expired_def)
qed

fun worker_event :: "gc_event \<Rightarrow> bool" where
  "worker_event (GEnqueue clock task) = False"
| "worker_event _ = True"

lemma worker_files: "worker_event e \<Longrightarrow> task_files (gc_step e q) = task_files q"
  by (cases e) (auto simp: ClaimFileGCTask_def AckFileGCTask_def RetryFileGCTask_def RecoverExpiredFileGCTasks_def
    or_keep_def claim_files recover_files split: sum.split dest: held_files retry_files)

lemma new_task_row:
  assumes "NewFileGCTaskFromFile now (Some f) now = Inr task"
  shows "TaskID (gc_insert_row now task) = f_FileID f" "FileID (gc_insert_row now task) = f_FileID f"
    "StorageRef (gc_insert_row now task) = f_StorageRef f" "StorageType (gc_insert_row now task) = f_StorageType f"
    "pending (gc_insert_row now task)"
  using assms
  by (auto simp: NewFileGCTaskFromFile_def Let_def gc_insert_row_def pending_def defaultFileGCMaxAttempts_def split: if_splits)

lemma enqueue_gc_Inr:
  assumes "enqueue_gc now f s = Inr s'"
  shows "nodes s' = nodes s" "tables s' = tables s" "tags s' = tags s"
    "gc s' = gc s \<and> (\<exists>r\<in>set (gc s). TaskID r = f_FileID f \<or> FileID r = f_FileID f) \<or>
     (\<exists>r. gc s' = gc s @ [r] \<and> TaskID r = f_FileID f \<and> FileID r = f_FileID f \<and> StorageRef r = f_StorageRef f \<and>
       StorageType r = f_StorageType f \<and> pending r)"
proof -
  obtain task where t: "NewFileGCTaskFromFile now (Some f) now = Inr task"
    using assms by (auto simp: enqueue_gc_def split: sum.splits)
  then obtain rows b where e: "enqueueFileGCTask now (Some task) (gc s) = Inr (rows, b)" and s': "s' = s\<lparr>gc := rows\<rparr>"
    using assms by (auto simp: enqueue_gc_def split: sum.splits)
  from s' show "nodes s' = nodes s" "tables s' = tables s" "tags s' = tags s" by simp_all
  from e s' show "gc s' = gc s \<and> (\<exists>r\<in>set (gc s). TaskID r = f_FileID f \<or> FileID r = f_FileID f) \<or>
     (\<exists>r. gc s' = gc s @ [r] \<and> TaskID r = f_FileID f \<and> FileID r = f_FileID f \<and> StorageRef r = f_StorageRef f \<and>
       StorageType r = f_StorageType f \<and> pending r)"
    by (auto simp: enqueueFileGCTask_def Let_def new_task_row [OF t] list_ex_iff split: if_split_asm)
qed

lemma enqueue_gc_files:
  assumes "enqueue_gc now f s = Inr s'"
  shows "task_files (gc s') \<subseteq> insert (f_FileID f, f_FileID f) (task_files (gc s))"
  using enqueue_gc_Inr(4) [OF assms] by (auto simp: task_files_def)

lemma enqueue_all:
  assumes "foldl (\<lambda>x f. case x of Inl e \<Rightarrow> Inl e | Inr s \<Rightarrow> enqueue_gc now f s) (Inr s) fs = Inr s'"
  shows "nodes s' = nodes s \<and> tables s' = tables s \<and> tags s' = tags s \<and>
    task_files (gc s') \<subseteq> (\<lambda>f. (f_FileID f, f_FileID f)) ` set fs \<union> task_files (gc s)"
  using assms
proof (induction fs arbitrary: s)
  case (Cons f fs)
  have err: "foldl (\<lambda>x f. case x of Inl e \<Rightarrow> Inl e | Inr s \<Rightarrow> enqueue_gc now f s) (Inl e) fs = Inl e" for e
    by (induction fs) simp_all
  from Cons.prems obtain s1 where s1: "enqueue_gc now f s = Inr s1"
      "foldl (\<lambda>x f. case x of Inl e \<Rightarrow> Inl e | Inr s \<Rightarrow> enqueue_gc now f s) (Inr s1) fs = Inr s'"
    by (cases "enqueue_gc now f s") (auto simp: err)
  from Cons.IH [OF s1(2)] enqueue_gc_Inr(1-3) [OF s1(1)] enqueue_gc_files [OF s1(1)] show ?case by auto
qed simp

lemma release_Inr:
  assumes "release_orphans now fs s = Inr s'"
  shows "nodes s' = nodes s" "tables s' = tables (markFilesDeletedTx (map f_FileID fs) s)"
    "tags s' = filter (\<lambda>(f, k, v). f \<notin> set (map f_FileID fs)) (tags s)"
    "task_files (gc s') \<subseteq> (\<lambda>f. (f_FileID f, f_FileID f)) ` set fs \<union> task_files (gc s)"
  using enqueue_all [OF assms [unfolded release_orphans_def]] by (simp_all add: deleteFileTags_tags)

section \<open>The invariant\<close>

definition named :: "node_store \<Rightarrow> string \<Rightarrow> bool" where
  "named s fid \<longleftrightarrow> list_ex (\<lambda>n. fn_file_id n = Some fid) (nodes s)"

definition deleted :: "file_tables \<Rightarrow> string \<Rightarrow> bool" where
  "deleted st k \<longleftrightarrow> (case map_of (inodes st) k of None \<Rightarrow> False | Some i \<Rightarrow> i_status i = DELETED)"

definition gc_safe :: "node_store \<Rightarrow> bool" where
  "gc_safe s \<longleftrightarrow> tables_ok (tables s) \<and> (\<forall>(t, f)\<in>task_files (gc s). t = f \<and> deleted (tables s) f \<and> \<not> named s f)"

lemma ref_count_zero: "ref_count s fid = 0 \<longleftrightarrow> \<not> named s fid"
  by (auto simp: ref_count_def named_def list_ex_iff filter_empty_conv)

lemma gc_safe_step:
  assumes "gc_safe s" "tables_ok (tables s')" "\<And>k. deleted (tables s) k \<Longrightarrow> deleted (tables s') k"
    "\<And>k. named s' k \<Longrightarrow> named s k \<or> \<not> deleted (tables s) k"
    "\<And>t f. (t, f) \<in> task_files (gc s') \<Longrightarrow> (t, f) \<in> task_files (gc s) \<or> t = f \<and> deleted (tables s') f \<and> \<not> named s' f"
  shows "gc_safe s'"
  unfolding gc_safe_def
proof (intro conjI ballI, rule assms(2))
  fix x assume "x \<in> task_files (gc s')"
  then obtain t f where x: "x = (t, f)" "(t, f) \<in> task_files (gc s')" by (cases x) auto
  have "t = f \<and> deleted (tables s) f \<and> \<not> named s f" if "(t, f) \<in> task_files (gc s)"
    using assms(1) that by (auto simp: gc_safe_def)
  then have "t = f \<and> deleted (tables s') f \<and> \<not> named s' f" using assms(3-5) x(2) by blast
  then show "case x of (t, f) \<Rightarrow> t = f \<and> deleted (tables s') f \<and> \<not> named s' f" using x(1) by simp
qed

lemma nodes_safe: "gc_safe s \<Longrightarrow> (\<And>k. named (s\<lparr>nodes := ns\<rparr>) k \<Longrightarrow> named s k) \<Longrightarrow> gc_safe (s\<lparr>nodes := ns\<rparr>)"
  by (rule gc_safe_step [of s]) (auto simp: gc_safe_def)

lemma filter_safe: "gc_safe s \<Longrightarrow> gc_safe (s\<lparr>nodes := filter P (nodes s)\<rparr>)"
  by (erule nodes_safe) (auto simp: named_def list_ex_iff)

lemma move_node_files: "move_node p q r P ns = Some ns' \<Longrightarrow> map fn_file_id ns' = map fn_file_id ns"
  by (auto simp: move_node_def update_where_def set_name_def split: if_split_asm)

lemma named_files: "named s k \<longleftrightarrow> Some k \<in> set (map fn_file_id (nodes s))"
  by (force simp: named_def list_ex_iff)

lemma moved_safe: "gc_safe s \<Longrightarrow> map fn_file_id ns = map fn_file_id (nodes s) \<Longrightarrow> gc_safe (s\<lparr>nodes := ns\<rparr>)"
  by (erule nodes_safe) (simp add: named_files del: set_map)

lemma release_safe:
  assumes g: "gc_safe s" and r: "release_orphans now fs s = Inr s'"
    and f: "\<And>f. f \<in> set fs \<Longrightarrow> \<not> named s (f_FileID f) \<and> map_of (inodes (tables s)) (f_FileID f) \<noteq> None"
  shows "gc_safe s'"
proof (rule gc_safe_step [OF g])
  show "tables_ok (tables s')" using g by (simp add: gc_safe_def release_Inr(2) [OF r] markFilesDeleted_ok)
  show "deleted (tables s) k \<Longrightarrow> deleted (tables s') k" for k
    by (auto simp: deleted_def release_Inr(2) [OF r] markFilesDeleted_rows split: option.splits)
  show "named s' k \<Longrightarrow> named s k \<or> \<not> deleted (tables s) k" for k by (simp add: named_def release_Inr(1) [OF r])
  fix t x assume "(t, x) \<in> task_files (gc s')"
  with release_Inr(4) [OF r] have "(t, x) \<in> task_files (gc s) \<or> (\<exists>f\<in>set fs. t = f_FileID f \<and> x = f_FileID f)" by auto
  then show "(t, x) \<in> task_files (gc s) \<or> t = x \<and> deleted (tables s') x \<and> \<not> named s' x"
  proof (elim disjE bexE)
    fix f0 assume f0: "f0 \<in> set fs" "t = f_FileID f0 \<and> x = f_FileID f0"
    from f [OF f0(1)] f0 show ?thesis
      by (auto simp: deleted_def named_def release_Inr(1,2) [OF r] markFilesDeleted_rows)
  qed simp
qed

lemma files_have_inode:
  assumes "tables_ok st" "map_of (contents st) k \<noteq> None \<or> useLegacyFiles st \<and> map_of (files st) k \<noteq> None"
  shows "map_of (inodes st) k \<noteq> None"
  using assms by (auto simp: tables_ok_def rows_at_def rows_ok_def dest!: spec [of _ k] split: option.splits)

lemma scanFileForGC_Some:
  assumes "scanFileForGCTx fid st = Some f"
  shows "f_FileID f = fid" "tables_ok st \<Longrightarrow> map_of (inodes st) fid \<noteq> None"
  using assms files_have_inode [of st fid]
  by (auto simp: scanFileForGCTx_def split: if_split_asm option.split_asm)

lemma scanDeleteCandidate_Some:
  assumes "scanDeleteCandidateTx path s = Some (fid, d, file)"
  shows "\<exists>n. node_at s path = Some n \<and> fid = text_of (fn_file_id n) \<and> d = fn_is_dir n"
    "file = Some f \<Longrightarrow> f_FileID f = fid \<and> (tables_ok (tables s) \<longrightarrow> map_of (inodes (tables s)) fid \<noteq> None)"
proof -
  from assms obtain n where n: "node_at s path = Some n" "fid = text_of (fn_file_id n)" "d = fn_is_dir n"
      "file = (case fn_file_id n of None \<Rightarrow> None
       | Some fid \<Rightarrow>
           if useLegacyFiles (tables s) then scanFileForGCTx fid (tables s)
           else map_option (\<lambda>c. \<lparr>f_FileID = fid, f_StorageType = c_storage_type c, f_StorageRef = c_storage_ref c,
                  f_SizeBytes = (case map_of (inodes (tables s)) fid of None \<Rightarrow> 0 | Some i \<Rightarrow> i_size i),
                  f_ContentType = text_of (c_type c)\<rparr>) (map_of (contents (tables s)) fid))"
    unfolding scanDeleteCandidateTx_def by auto
  then show "\<exists>n. node_at s path = Some n \<and> fid = text_of (fn_file_id n) \<and> d = fn_is_dir n" by blast
  assume "file = Some f"
  with n obtain k where k: "fn_file_id n = Some k" "fid = k" by (auto simp: text_of_def split: option.split_asm)
  show "f_FileID f = fid \<and> (tables_ok (tables s) \<longrightarrow> map_of (inodes (tables s)) fid \<noteq> None)"
  proof (cases "useLegacyFiles (tables s)")
    case True
    then show ?thesis using \<open>file = Some f\<close> n(4) k scanFileForGC_Some [of k "tables s" f] by simp
  next
    case False
    then obtain c where "map_of (contents (tables s)) k = Some c" "f_FileID f = k" using \<open>file = Some f\<close> n(4) k by auto
    then show ?thesis using files_have_inode [of "tables s" k] k by simp
  qed
qed

section \<open>The transactions\<close>

lemma delete_file_safe:
  assumes g: "gc_safe s" and d: "DeleteFileWithRefCheck now path s = Inr (s', out)"
  shows "gc_safe s'"
proof -
  obtain fid fo where c: "scanDeleteCandidateTx path s = Some (fid, False, fo)"
    using d by (auto simp: DeleteFileWithRefCheck_def split: option.split_asm prod.split_asm if_split_asm)
  let ?s1 = "s\<lparr>nodes := filter (\<lambda>n. fn_path n \<noteq> path) (nodes s)\<rparr>"
  have g1: "gc_safe ?s1" by (rule filter_safe [OF g])
  show ?thesis
  proof (cases "fid = '''' \<or> 0 < ref_count ?s1 fid")
    case True
    then show ?thesis using d c g1 by (simp add: DeleteFileWithRefCheck_def Let_def)
  next
    case False
    then obtain f where f: "fo = Some f" "release_orphans now [f] ?s1 = Inr s'"
      using d c by (auto simp: DeleteFileWithRefCheck_def Let_def split: option.split_asm)
    from scanDeleteCandidate_Some(2) [OF c f(1)] g False show ?thesis
      by (intro release_safe [OF g1 f(2)]) (auto simp: gc_safe_def ref_count_zero [symmetric])
  qed
qed

lemma scanOrphaned_in:
  assumes "f \<in> set (scanOrphanedFilesByIDTx ids s)" "tables_ok (tables s)"
  shows "\<not> named s (f_FileID f) \<and> map_of (inodes (tables s)) (f_FileID f) \<noteq> None"
proof -
  from assms(1) obtain k where k: "ref_count s k = 0" "scanFileForGCTx k (tables s) = Some f"
    by (auto simp: scanOrphanedFilesByIDTx_def scan_orphans_def split: option.split_asm)
  with scanFileForGC_Some [OF k(2)] assms(2) show ?thesis by (simp add: ref_count_zero)
qed

lemma delete_dir_safe:
  assumes g: "gc_safe s" and d: "DeleteDirRecursive now dir s = Inr (s', out)"
  shows "gc_safe s'"
proof -
  let ?s1 = "s\<lparr>nodes := filter (\<lambda>n. \<not> below_clause dir (fn_path n)) (nodes s)\<rparr>"
  obtain ids where r: "release_orphans now (scanOrphanedFilesByIDTx ids ?s1) ?s1 = Inr s'"
    using d by (auto simp: DeleteDirRecursive_def Let_def)
  have g1: "gc_safe ?s1" by (rule filter_safe [OF g])
  show ?thesis
    by (rule release_safe [OF g1 r], rule scanOrphaned_in) (use g1 in \<open>auto simp: gc_safe_def\<close>)
qed

lemma release_replaced_safe:
  assumes g: "gc_safe s" and r: "release_replaced now dst s = Inr (s', out)"
  shows "gc_safe s'"
proof (cases "case dst of None \<Rightarrow> None | Some d \<Rightarrow> fn_file_id d")
  case None
  then show ?thesis using g r by (simp add: release_replaced_def)
next
  case (Some fid)
  show ?thesis
  proof (cases "fid = '''' \<or> 0 < ref_count s fid")
    case True
    then show ?thesis using g r Some by (simp add: release_replaced_def)
  next
    case False
    then obtain f where f: "scanFileForGCTx fid (tables s) = Some f" "release_orphans now [f] s = Inr s'"
      using r Some by (auto simp: release_replaced_def split: option.split_asm)
    show ?thesis
      by (rule release_safe [OF g f(2)])
        (use False scanFileForGC_Some [OF f(1)] g in \<open>auto simp: gc_safe_def ref_count_zero [symmetric]\<close>)
  qed
qed

lemma rename_file_cases:
  assumes "RenameFileReplacingTarget now op np npp nn s = Inr (s', out)"
  obtains "s' = s"
  | ns1 ns2 old where "node_at s op = Some old" "\<not> fn_is_dir old"
      "ns1 = (case node_at s np of None \<Rightarrow> nodes s | Some d \<Rightarrow> filter (\<lambda>n. fn_node_id n \<noteq> fn_node_id d) (nodes s))"
      "move_node np npp nn (\<lambda>n. fn_node_id n = fn_node_id old) ns1 = Some ns2"
      "release_replaced now (node_at s np) (s\<lparr>nodes := ns2\<rparr>) = Inr (s', out)"
  using assms
  by (simp add: RenameFileReplacingTarget_def Let_def split: option.split_asm [where option = "node_at s op"]
      option.split_asm [where option = "move_node np npp nn f x" for f x] if_split_asm)

lemma rename_file_safe:
  assumes g: "gc_safe s" and r: "RenameFileReplacingTarget now op np npp nn s = Inr (s', out)"
  shows "gc_safe s'"
  using r
proof (cases rule: rename_file_cases)
  case (2 ns1 ns2 old)
  have "set ns1 \<subseteq> set (nodes s)" by (auto simp: 2(3) split: option.split)
  then have "set (map fn_file_id ns2) \<subseteq> set (map fn_file_id (nodes s))"
    unfolding move_node_files [OF 2(4)] by auto
  then have "gc_safe (s\<lparr>nodes := ns2\<rparr>)" by (intro nodes_safe [OF g]) (auto simp: named_files)
  from release_replaced_safe [OF this 2(5)] show ?thesis .
qed (use g in simp)

lemma insert_node_Inr:
  "insert_node n s = Inr s' \<longleftrightarrow> s' = s\<lparr>nodes := nodes s @ [n]\<rparr> \<and>
    \<not> list_ex (\<lambda>m. fn_node_id m = fn_node_id n \<or> fn_path m = fn_path n) (nodes s)"
  by (auto simp: insert_node_def)

lemma insert_node_safe:
  assumes g: "gc_safe s" and d: "fn_is_dir n \<longrightarrow> fn_file_id n = None" and i: "InsertNodeTx n s = Inr s'"
  shows "gc_safe s'"
proof -
  have s': "s' = s\<lparr>nodes := nodes s @ [n]\<rparr>"
    and fid: "\<And>k. fn_file_id n = Some k \<Longrightarrow> \<not> deleted (tables s) k"
    using i d by (auto simp: InsertNodeTx_def insert_node_Inr lockConfirmedFileForAttachTx_def deleted_def
        split: option.split_asm if_split_asm)
  show ?thesis
    by (rule gc_safe_step [OF g]) (use g fid in \<open>auto simp: s' gc_safe_def named_def\<close>)
qed

lemma new_inode_ok:
  assumes "tables_ok st" "map_of (inodes st) k = None"
  shows "tables_ok (st\<lparr>inodes := AList.update k i (inodes st)\<rparr>)"
  unfolding tables_ok_def
proof
  fix j
  have "rows_at st j" using assms(1) by (simp add: tables_ok_def)
  then show "rows_at (st\<lparr>inodes := AList.update k i (inodes st)\<rparr>) j"
    using assms(2) by (auto simp: rows_at_def rows_ok_def split: option.splits)
qed

lemma or_keep_safe: "gc_safe s \<Longrightarrow> (\<And>s'. x = Inr s' \<Longrightarrow> gc_safe s') \<Longrightarrow> gc_safe (or_keep s x)"
  by (auto simp: or_keep_def split: sum.split)

lemma or_keep_fst_safe:
  "gc_safe s \<Longrightarrow> (\<And>s' r. x = Inr (s', r) \<Longrightarrow> gc_safe s') \<Longrightarrow> gc_safe (or_keep s (map_sum id fst x))"
  by (cases x) (auto simp: or_keep_def)

lemma ensure_inode_safe:
  assumes g: "gc_safe s"
  shows "gc_safe (ensure_inode iid now s)"
proof (cases "mem_key (inodes (tables s)) iid")
  case False
  have ok: "tables_ok (tables s)" using g by (simp add: gc_safe_def)
  from False show ?thesis
    by (intro gc_safe_step [OF g]) (use ok in \<open>auto simp: ensure_inode_def mem_key_def new_inode_ok deleted_def named_def\<close>)
qed (use g in \<open>simp add: ensure_inode_def\<close>)

lemma ensure_dir_safe:
  assumes g: "gc_safe s"
  shows "gc_safe (ensure_dir nid now dir s)"
proof (cases "find (\<lambda>n. fn_path n = dir \<and> fn_is_dir n) (nodes s)")
  case None
  have "gc_safe (or_keep s1 (insert_node r s1))" if "gc_safe s1" "fn_file_id r = None" for s1 r
    by (rule or_keep_safe [OF that(1)]) (use that in \<open>auto simp: insert_node_Inr named_def intro!: nodes_safe\<close>)
  with None ensure_inode_safe [OF g] show ?thesis by (simp add: ensure_dir_def Let_def)
next
  case (Some n)
  have "map fn_file_id (update_where P (\<lambda>n. n\<lparr>fn_inode_id := x\<rparr>) ns) = map fn_file_id ns" for P x ns
    by (simp add: update_where_def)
  from moved_safe [OF ensure_inode_safe [OF g] this] Some g show ?thesis by (simp add: ensure_dir_def Let_def)
qed

lemma ensure_parents_safe: "gc_safe s \<Longrightarrow> gc_safe (ensureParentDirsWithExecer nid now path s)"
proof -
  have "gc_safe s \<Longrightarrow> gc_safe (foldl (\<lambda>s d. ensure_dir nid now d s) s ds)" for ds
    by (induction ds arbitrary: s) (simp_all add: ensure_dir_safe)
  then show "gc_safe s \<Longrightarrow> ?thesis" by (simp add: ensureParentDirsWithExecer_def)
qed

lemma rename_dir_safe:
  assumes g: "gc_safe s" and r: "RenameDir o1 n1 s = Inr (s', k)"
  shows "gc_safe s'"
proof -
  define mv where "mv = (\<lambda>ns (nid, path, parent, name). case ns of None \<Rightarrow> None
    | Some ns \<Rightarrow> move_node path parent name (\<lambda>n. fn_node_id n = nid) ns)"
  have none: "foldl mv None us = None" for us by (induction us) (auto simp: mv_def split: prod.split)
  have "foldl mv (Some ns) us = Some ns' \<Longrightarrow> map fn_file_id ns' = map fn_file_id ns" for us ns ns'
  proof (induction us arbitrary: ns)
    case (Cons u us)
    obtain nid pa pp nm where u: "u = (nid, pa, pp, nm)" by (cases u) auto
    show ?case
    proof (cases "move_node pa pp nm (\<lambda>n. fn_node_id n = nid) ns")
      case None
      then show ?thesis using Cons.prems none by (simp add: u mv_def)
    next
      case (Some ns1)
      then show ?thesis using Cons.prems Cons.IH [of ns1] move_node_files [OF Some] by (simp add: u mv_def)
    qed
  qed simp
  then show ?thesis
    using r moved_safe [OF g] by (auto simp: RenameDir_def Let_def mv_def [symmetric] split: option.split_asm)
qed

lemma chmod_row:
  assumes "Chmod path mode s = Inr s'"
  obtains iid i m where "map_of (inodes (tables s)) iid = Some i" "i_status i = CONFIRMED"
    "s' = s\<lparr>tables := (tables s)\<lparr>inodes := AList.update iid (i\<lparr>i_mode := m\<rparr>) (inodes (tables s))\<rparr>\<rparr>"
  using assms by (auto simp: Chmod_def Let_def split: option.split_asm if_split_asm)

lemma chmod_ok:
  assumes ok: "tables_ok (tables s)" and c: "Chmod path mode s = Inr s'"
  shows "tables_ok (tables s')"
  using c
proof (cases rule: chmod_row)
  case (1 iid i m)
  show ?thesis
    unfolding tables_ok_def
  proof
    fix k
    have "rows_at (tables s) k" using ok by (simp add: tables_ok_def)
    then show "rows_at (tables s') k"
      using 1 by (auto simp: rows_at_def rows_ok_def agree_def fresh_pending_def split: option.splits)
  qed
qed

lemma chmod_safe:
  assumes g: "gc_safe s" and c: "Chmod path mode s = Inr s'"
  shows "gc_safe s'"
proof -
  have "tables_ok (tables s')" using chmod_ok [OF _ c] g by (simp add: gc_safe_def)
  then show ?thesis
    by (rule gc_safe_step [OF g]) (use c in \<open>auto elim!: chmod_row simp: deleted_def named_def\<close>)
qed

section \<open>Operations on file rows\<close>

text \<open>A deleted file stays deleted. In a store with the legacy table this needs content updates that
  state the revision they replace.\<close>

fun revision_stated :: "file_event \<Rightarrow> bool" where
  "revision_stated (FUpdate now fid er pe a) \<longleftrightarrow> 0 < er"
| "revision_stated _ \<longleftrightarrow> True"

lemma same_but_deleted:
  "same_but fid st st' \<Longrightarrow> (deleted st fid \<Longrightarrow> deleted st' fid) \<Longrightarrow> deleted st k \<Longrightarrow> deleted st' k"
  by (cases "k = fid") (auto simp: same_but_def deleted_def)

lemma update_deleted:
  assumes "tables_ok st" "updateFileContentTx sha now fid er pe a st = Inr (st', rv)" "\<not> useLegacyFiles st \<or> 0 < er"
    "deleted st k"
  shows "deleted st' k"
proof (cases rule: update_content_cases [OF assms(1,2)])
  case (1 i c s)
  then have "\<not> deleted st fid" using assms(3) by (auto simp: deleted_def)
  with update_content_ok [OF assms(1,2)] assms(4) show ?thesis using same_but_deleted by blast
qed

lemma confirm_deleted:
  assumes ok: "tables_ok st" and c: "confirm_pending ae sha now fid a st = Inr st'" and d: "deleted st k"
  shows "deleted st' k"
proof -
  have i: "\<exists>i. map_of (inodes st) fid = Some i \<and> i_status i = PENDING"
  proof (cases "useLegacyFiles st")
    case True
    then obtain l where l: "map_of (files st) fid = Some l" "l_status l = PENDING"
      using c by (auto simp: confirm_pending_def split: option.split_asm if_split_asm)
    obtain cr where "map_of (contents st) fid = Some cr"
      using rows_none(2) [OF ok _ True, of fid] l by (cases "map_of (contents st) fid") auto
    from rows_of [OF ok this] True l show ?thesis by (metis agree_def option.inject)
  qed (use c in \<open>auto simp: confirm_pending_def split: option.split_asm if_split_asm\<close>)
  obtain st1 where st1: "st' = confirm_split sha now ae fid a st1" "inodes st1 = inodes st"
    using c by (auto simp: confirm_pending_def split: option.split_asm if_split_asm)
  have "k \<noteq> fid" using d i by (auto simp: deleted_def)
  then have "map_of (inodes st') k = map_of (inodes st) k"
    by (simp add: st1 confirm_split_def Let_def UpdateInodeContentTx_def UpdateContentTx_def UpdateSemanticTx_def
      updateSemanticNoEmbedTx_def)
  then show ?thesis using d by (simp add: deleted_def)
qed

lemma insert_deleted:
  assumes i: "InsertFileTx sha now f st = Inr st'" and d: "deleted st k"
  shows "deleted st' k"
proof -
  obtain st1 where st1: "insertSplitTablesTx sha now f st1 = Inr st'" "inodes st1 = inodes st"
    using i by (auto simp: InsertFileTx_def split: option.split_asm if_split_asm)
  then have "k \<noteq> fd_FileID f" using d by (auto simp: insertSplitTablesTx_def insert_row_Some deleted_def split: option.split_asm)
  then show ?thesis using d st1(2) by (simp add: deleted_def insertSplit_rows [OF st1(1)])
qed

lemma file_step_deleted:
  assumes ok: "tables_ok st" and v: "\<not> useLegacyFiles st \<or> revision_stated e" and d: "deleted st k"
  shows "deleted (file_step sha e st) k"
proof (cases e)
  case (FInsert now f)
  then show ?thesis using insert_deleted d by (auto simp: or_keep_def split: sum.split)
next
  case (FUpdate now fid er pe a)
  then show ?thesis using update_deleted [OF ok _ _ d] v d by (auto simp: or_keep_def split: sum.split)
next
  case (FEncryption fid mode key)
  then show ?thesis using d encryption_rows(2) by (auto simp: or_keep_def deleted_def split: sum.split)
next
  case (FConfirm ae now fid a)
  then show ?thesis using confirm_deleted [OF ok _ d, of ae sha now fid a] d
    by (cases ae) (auto simp: or_keep_def ConfirmPendingFileTx_def ConfirmPendingFileAutoEmbeddingTx_def split: sum.splits)
next
  case (FDeletePending now fid)
  then show ?thesis using d
    by (auto simp: or_keep_def DeletePendingFileTx_def Let_def deleted_def split: sum.split_asm option.split)
next
  case (FMarkDeleted fid)
  then show ?thesis using d by (auto simp: MarkFileDeleted_def deleted_def split: option.split)
next
  case (FSearchText fid er x)
  then show ?thesis using d by (simp add: updateFileSearchTextExec_def deleted_def gated_rows(2))
next
  case (FEmbed fid rv vec)
  then show ?thesis using d by (simp add: UpdateFileEmbedding_def or_keep_def deleted_def gated_rows(2))
next
  case (FDescEmbed fid rv vec)
  then show ?thesis using d by (simp add: UpdateFileDescriptionEmbedding_def or_keep_def deleted_def gated_rows(2))
qed

section \<open>Sequences of steps\<close>

datatype node_event =
    NFile file_event
  | NWorker gc_event
  | NInsert file_node
  | NDeleteFile int string
  | NDeleteDir int string
  | NRename int string string string string
  | NRenameDir string string
  | NParents "string \<Rightarrow> string" int string
  | NUpdatePath string string string string
  | NDelete string
  | NDeleteEmptyDir string
  | NDeletePrefix string
  | NChmod string nat
  | NTags string "(string, string) gomap"

fun node_step :: "(string \<Rightarrow> string) \<Rightarrow> node_event \<Rightarrow> node_store \<Rightarrow> node_store" where
  "node_step sha (NFile e) s = s\<lparr>tables := file_step sha e (tables s)\<rparr>"
| "node_step sha (NWorker e) s = s\<lparr>gc := gc_step e (gc s)\<rparr>"
| "node_step sha (NInsert n) s = or_keep s (InsertNodeTx n s)"
| "node_step sha (NDeleteFile now p) s = or_keep s (map_sum id fst (DeleteFileWithRefCheck now p s))"
| "node_step sha (NDeleteDir now d) s = or_keep s (map_sum id fst (DeleteDirRecursive now d s))"
| "node_step sha (NRename now p q qp qn) s = or_keep s (map_sum id fst (RenameFileReplacingTarget now p q qp qn s))"
| "node_step sha (NRenameDir p q) s = or_keep s (map_sum id fst (RenameDir p q s))"
| "node_step sha (NParents nid now p) s = ensureParentDirsWithExecer nid now p s"
| "node_step sha (NUpdatePath p q qp qn) s = or_keep s (UpdateNodePath p q qp qn s)"
| "node_step sha (NDelete p) s = or_keep s (DeleteNode p s)"
| "node_step sha (NDeleteEmptyDir d) s = or_keep s (DeleteEmptyDir d s)"
| "node_step sha (NDeletePrefix p) s = fst (DeleteNodesByPrefix p s)"
| "node_step sha (NChmod p m) s = or_keep s (Chmod p m s)"
| "node_step sha (NTags fid kvs) s = ReplaceFileTagsTx fid kvs s"

fun node_event_ok :: "bool \<Rightarrow> node_event \<Rightarrow> bool" where
  "node_event_ok legacy (NFile e) \<longleftrightarrow> file_event_ok e \<and> (legacy \<longrightarrow> revision_stated e)"
| "node_event_ok legacy (NWorker e) \<longleftrightarrow> worker_event e"
| "node_event_ok legacy (NInsert n) \<longleftrightarrow> (fn_is_dir n \<longrightarrow> fn_file_id n = None)"
| "node_event_ok legacy _ \<longleftrightarrow> True"

lemma node_step_safe:
  assumes g: "gc_safe s" and v: "node_event_ok (useLegacyFiles (tables s)) e"
  shows "gc_safe (node_step sha e s)"
proof (cases e)
  case (NFile e)
  have ok: "tables_ok (tables s)" using g by (simp add: gc_safe_def)
  show ?thesis
    by (rule gc_safe_step [OF g])
      (use v NFile ok file_step_ok file_step_deleted in \<open>auto simp: named_def\<close>)
next
  case (NWorker e)
  then show ?thesis using g v by (auto simp: gc_safe_def named_def worker_files)
next
  case (NInsert n)
  then show ?thesis using g v insert_node_safe by (auto intro: or_keep_safe)
next
  case (NUpdatePath p q qp qn)
  then show ?thesis using g
    by (auto simp: UpdateNodePath_def split: option.split_asm if_split_asm intro!: or_keep_safe moved_safe dest: move_node_files)
next
  case (NTags fid kvs)
  then show ?thesis using g by (simp add: ReplaceFileTagsTx_def gc_safe_def named_def)
next
  case (NDeleteFile now p)
  then show ?thesis by (simp add: or_keep_fst_safe [OF g delete_file_safe [OF g]])
next
  case (NDeleteDir now d)
  then show ?thesis by (simp add: or_keep_fst_safe [OF g delete_dir_safe [OF g]])
next
  case (NRename now p q qp qn)
  then show ?thesis by (simp add: or_keep_fst_safe [OF g rename_file_safe [OF g]])
next
  case (NRenameDir p q)
  then show ?thesis by (simp add: or_keep_fst_safe [OF g rename_dir_safe [OF g]])
next
  case (NParents nid now p)
  then show ?thesis using ensure_parents_safe [OF g] by simp
next
  case (NDelete p)
  then show ?thesis using g filter_safe [OF g] by (auto simp: DeleteNode_def or_keep_def)
next
  case (NDeleteEmptyDir d)
  then show ?thesis using g filter_safe [OF g] by (auto simp: DeleteEmptyDir_def or_keep_def)
next
  case (NDeletePrefix p)
  then show ?thesis using filter_safe [OF g] by (simp add: DeleteNodesByPrefix_def)
next
  case (NChmod p m)
  then show ?thesis using g chmod_safe [OF g] by (auto intro: or_keep_safe)
qed

definition no_nodes :: "bool \<Rightarrow> node_store" where
  "no_nodes legacy = \<lparr>tables = no_tables legacy, nodes = [], tags = [], gc = []\<rparr>"

text \<open>The stores a tenant can reach from an empty one.\<close>

inductive node_reach :: "(string \<Rightarrow> string) \<Rightarrow> node_store \<Rightarrow> bool" for sha where
  reach_init: "node_reach sha (no_nodes legacy)"
| reach_step: "node_reach sha s \<Longrightarrow> node_event_ok (useLegacyFiles (tables s)) e \<Longrightarrow> node_reach sha (node_step sha e s)"

lemma reach_safe: "node_reach sha s \<Longrightarrow> gc_safe s"
proof (induction rule: node_reach.induct)
  case (reach_init legacy)
  show ?case by (simp add: no_nodes_def gc_safe_def task_files_def tables_ok_empty)
qed (rule node_step_safe)

lemma safe_task:
  assumes "gc_safe s" "r \<in> set (gc s)"
  shows "TaskID r = FileID r" "deleted (tables s) (FileID r)" "\<not> named s (FileID r)"
  using assms by (auto simp: gc_safe_def task_files_def)

lemma attach_deleted:
  "deleted (tables s) fid \<Longrightarrow> \<not> fn_is_dir n \<Longrightarrow> fn_file_id n = Some fid \<Longrightarrow> InsertNodeTx n s = Inl StoreNotFound"
  by (auto simp: InsertNodeTx_def lockConfirmedFileForAttachTx_def deleted_def split: option.splits)

section \<open>Properties\<close>

definition sample_node :: file_node where
  "sample_node = \<lparr>fn_node_id = ''n'', fn_path = ''/a'', fn_parent_path = ''/'', fn_name = ''a'', fn_is_dir = False,
     fn_file_id = Some ''f'', fn_inode_id = None, fn_created = 1\<rparr>"

definition sample_store :: node_store where
  "sample_store = node_step (\<lambda>x. x) (NInsert sample_node) (node_step (\<lambda>x. x) (NFile (FInsert 1 sample_file)) (no_nodes True))"

lemmas node_eval = sample_node_def sample_store_def no_nodes_def InsertNodeTx_def lockConfirmedFileForAttachTx_def
  insert_node_def node_at_def

lemma sample_store_reach: "node_reach (\<lambda>x. x) sample_store"
  unfolding sample_store_def
  by (rule reach_step, rule reach_step, rule reach_init) (simp_all add: sample_file_def sample_node_def)

text \<open>
  C4: a clean-up never hits a file in use. In every store reached by operations on file rows (with
  stated revisions where the legacy table exists), inserts, deletions and renames of names, creation
  of parents and clean-up work, in any order, the file of every clean-up task is deleted and no path
  names it; and no later insert can give it a name again.
\<close>
theorem gc_task_file_unreachable:
  assumes "node_reach sha s" and "r \<in> set (gc s)"
  shows "(\<forall>n\<in>set (nodes s). fn_file_id n \<noteq> Some (FileID r)) \<and>
    (\<exists>i. map_of (inodes (tables s)) (FileID r) = Some i \<and> i_status i = DELETED) \<and>
    (\<forall>n. \<not> fn_is_dir n \<and> fn_file_id n = Some (FileID r) \<longrightarrow> InsertNodeTx n s = Inl StoreNotFound)"
proof -
  note t = safe_task [OF reach_safe [OF assms(1)] assms(2)]
  then show ?thesis using attach_deleted
    by (auto simp: named_def list_ex_iff deleted_def split: option.split_asm)
qed

theorem gc_task_file_unreachable_witness:
  "\<exists>s r. node_reach (\<lambda>x. x) s \<and> r \<in> set (gc s) \<and> FileID r = ''f'' \<and> \<not> named s ''f''"
proof -
  let ?s = "node_step (\<lambda>x. x) (NDeleteFile 2 ''/a'') sample_store"
  have r: "node_reach (\<lambda>x. x) ?s" by (rule reach_step [OF sample_store_reach]) simp
  have "\<exists>r. gc ?s = [r] \<and> FileID r = ''f''"
    by (simp add: node_eval file_eval DeleteFileWithRefCheck_def scanDeleteCandidateTx_def scanFileForGCTx_def ref_count_def
      release_orphans_def deleteFileTagsByIDsTx_def markFilesDeletedTx_def enqueue_gc_def NewFileGCTaskFromFile_def
      enqueueFileGCTask_def gc_insert_row_def blank.simps white_rune_def)
  then obtain t where "t \<in> set (gc ?s)" "FileID t = ''f''" by auto
  moreover from this gc_task_file_unreachable [OF r, of t] have "\<not> named ?s ''f''" by (simp add: named_def list_ex_iff)
  ultimately show ?thesis using r by blast
qed

text \<open>What the release of one file leaves, when no task knows the file yet.\<close>

lemma release_one:
  assumes "\<not> blank (f_FileID f)" "\<forall>r\<in>set (gc s). TaskID r \<noteq> f_FileID f \<and> FileID r \<noteq> f_FileID f"
  obtains s' r where "release_orphans now [f] s = Inr s'" "gc s' = gc s @ [r]" "FileID r = f_FileID f"
    "StorageRef r = f_StorageRef f" "StorageType r = f_StorageType f" "pending r"
proof -
  let ?s = "deleteFileTagsByIDsTx [f_FileID f] (markFilesDeletedTx [f_FileID f] s)"
  obtain task where t: "NewFileGCTaskFromFile now (Some f) now = Inr task" and id: "FileID task = f_FileID f"
    using assms(1) by (simp add: NewFileGCTaskFromFile_def Let_def)
  have "enqueue_gc now f ?s = Inr (?s\<lparr>gc := gc s @ [gc_insert_row now task]\<rparr>)"
    using assms(1,2) by (simp add: enqueue_gc_def t enqueueFileGCTask_def id Let_def new_task_row [OF t] list_ex_iff)
  then show thesis
    using that [of "?s\<lparr>gc := gc s @ [gc_insert_row now task]\<rparr>" "gc_insert_row now task"]
    by (simp add: release_orphans_def new_task_row [OF t])
qed

lemma node_at_in: "node_at s p = Some n \<Longrightarrow> n \<in> set (nodes s) \<and> fn_path n = p"
  by (auto simp: node_at_def find_Some_iff)

lemma scan_candidate_file:
  assumes ok: "tables_ok (tables s)" and n: "node_at s path = Some n" "fn_file_id n = Some fid"
    and c: "map_of (contents (tables s)) fid = Some c"
  shows "\<exists>f. scanDeleteCandidateTx path s = Some (fid, fn_is_dir n, Some f) \<and> f_FileID f = fid \<and>
    f_StorageRef f = c_storage_ref c \<and> f_StorageType f = c_storage_type c"
proof (cases "useLegacyFiles (tables s)")
  case True
  with rows_of [OF ok c] obtain l i x where "map_of (files (tables s)) fid = Some l" "agree l i c x" by metis
  with True n show ?thesis by (auto simp: scanDeleteCandidateTx_def scanFileForGCTx_def text_of_def agree_def)
qed (use n c in \<open>simp add: scanDeleteCandidateTx_def text_of_def\<close>)

text \<open>
  C18: deleting a name deletes the file exactly with its last name. While another path names the same
  file the transaction removes only the one row. With the last name it marks the file deleted, drops
  its tags and enqueues exactly one pending clean-up task, which carries the storage reference of the file.
\<close>
theorem delete_last_name:
  assumes "node_reach sha s" and "node_at s path = Some n" and "\<not> fn_is_dir n" and "fn_file_id n = Some fid"
    and "\<not> blank fid" and "map_of (contents (tables s)) fid = Some c"
  shows "\<exists>s' out. DeleteFileWithRefCheck now path s = Inr (s', out) \<and>
    nodes s' = filter (\<lambda>m. fn_path m \<noteq> path) (nodes s) \<and>
    (if \<exists>m\<in>set (nodes s). fn_path m \<noteq> path \<and> fn_file_id m = Some fid
     then out = None \<and> tables s' = tables s \<and> tags s' = tags s \<and> gc s' = gc s
     else map_option i_status (map_of (inodes (tables s')) fid) = Some DELETED \<and>
       tags s' = filter (\<lambda>(f, k, v). f \<noteq> fid) (tags s) \<and>
       (\<exists>r. gc s' = gc s @ [r] \<and> FileID r = fid \<and> StorageType r = c_storage_type c \<and> StorageRef r = c_storage_ref c \<and> pending r))"
proof -
  let ?s1 = "s\<lparr>nodes := filter (\<lambda>m. fn_path m \<noteq> path) (nodes s)\<rparr>"
  have g: "gc_safe s" by (rule reach_safe [OF assms(1)])
  then have ok: "tables_ok (tables s)" by (simp add: gc_safe_def)
  obtain f where f: "scanDeleteCandidateTx path s = Some (fid, False, Some f)" "f_FileID f = fid"
      "f_StorageRef f = c_storage_ref c" "f_StorageType f = c_storage_type c"
    using scan_candidate_file [OF ok assms(2,4,6)] assms(3) by auto
  have ne: "fid \<noteq> ''''" using assms(5) by (auto simp: blank.simps)
  have one: "ref_count ?s1 fid = 0 \<longleftrightarrow> \<not> (\<exists>m\<in>set (nodes s). fn_path m \<noteq> path \<and> fn_file_id m = Some fid)"
    by (auto simp: ref_count_zero named_def list_ex_iff)
  show ?thesis
  proof (cases "ref_count ?s1 fid = 0")
    case False
    then show ?thesis using f(1) one ne by (auto simp: DeleteFileWithRefCheck_def Let_def)
  next
    case True
    have "named s fid" using node_at_in [OF assms(2)] assms(4) by (auto simp: named_def list_ex_iff)
    then have fresh: "\<forall>r\<in>set (gc ?s1). TaskID r \<noteq> f_FileID f \<and> FileID r \<noteq> f_FileID f"
      using safe_task [OF g] f(2) by fastforce
    obtain s' r where r: "release_orphans now [f] ?s1 = Inr s'" "gc s' = gc ?s1 @ [r]" "FileID r = f_FileID f"
        "StorageRef r = f_StorageRef f" "StorageType r = f_StorageType f" "pending r"
      using release_one [OF _ fresh] assms(5) f(2) by metis
    have "map_of (inodes (tables s)) fid \<noteq> None" using files_have_inode [OF ok] assms(6) by blast
    with r f ne True one release_Inr(1-3) [OF r(1)] show ?thesis
      by (auto simp: DeleteFileWithRefCheck_def Let_def markFilesDeleted_rows)
  qed
qed

lemma sample_store_rows:
  "node_at sample_store ''/a'' = Some sample_node" "nodes sample_store = [sample_node]" "gc sample_store = []"
  "map_of (contents (tables sample_store)) ''f'' = Some (content_of_file (\<lambda>x. x) sample_file)"
  by (simp_all add: node_eval file_eval)

theorem delete_last_name_witness:
  "\<exists>s' out r. DeleteFileWithRefCheck 2 ''/a'' sample_store = Inr (s', out) \<and> nodes s' = [] \<and> gc s' = [r] \<and>
    FileID r = ''f'' \<and> StorageRef r = ''inline'' \<and> pending r"
proof -
  have "\<not> blank ''f''" by (simp add: blank.simps white_rune_def)
  with delete_last_name [OF sample_store_reach sample_store_rows(1) _ _ _ sample_store_rows(4), of 2]
  show ?thesis by (auto simp: sample_store_rows sample_node_def content_of_file_def sample_file_def Let_def)
qed

end
