(* ===== verification/Node_Tree.thy ===== *)
theory Node_Tree
  imports Node_Safety
begin

text \<open>
  Directories: renaming a subtree, creating missing parents, and what the two do together. The
  positive theorems state the conditions under which the transactions of \<^verbatim>\<open>store.go\<close> do what their
  callers expect; the closed ones evaluate them outside those conditions.
\<close>

section \<open>Renaming a subtree\<close>

definition renamed_row :: "string \<Rightarrow> string \<Rightarrow> file_node \<Rightarrow> file_node" where
  "renamed_row oldPrefix newPrefix n =
    (case dir_update oldPrefix newPrefix n of (nid, path, parent, name) \<Rightarrow> set_name path parent name n)"

lemma renamed_row_fields:
  "fn_node_id (renamed_row o1 n1 n) = fn_node_id n" "fn_file_id (renamed_row o1 n1 n) = fn_file_id n"
  "fn_is_dir (renamed_row o1 n1 n) = fn_is_dir n"
  "HasPrefix (fn_path n) o1 \<Longrightarrow> fn_path (renamed_row o1 n1 n) = n1 @ drop (length o1) (fn_path n)"
  "HasPrefix (fn_path n) o1 \<Longrightarrow> fn_path n \<noteq> o1 \<Longrightarrow> HasPrefix (fn_parent_path n) o1 \<Longrightarrow>
    fn_parent_path (renamed_row o1 n1 n) = n1 @ drop (length o1) (fn_parent_path n)"
  by (auto simp: renamed_row_def dir_update_def set_name_def HasPrefix_iff TrimPrefix_def)

lemma dir_update_renamed:
  "dir_update o1 n1 n = (nid, p, pp, nm) \<Longrightarrow> nid = fn_node_id n \<and> set_name p pp nm n = renamed_row o1 n1 n \<and>
    set_name p pp nm (renamed_row o1 n1 n) = renamed_row o1 n1 n \<and> p = fn_path (renamed_row o1 n1 n)"
  by (auto simp: renamed_row_def dir_update_def set_name_def split: if_split_asm)

definition moved_by :: "string set \<Rightarrow> string \<Rightarrow> string \<Rightarrow> file_node \<Rightarrow> file_node" where
  "moved_by D o1 n1 n = (if fn_node_id n \<in> D then renamed_row o1 n1 n else n)"

lemma moved_by_id [simp]: "fn_node_id (moved_by D o1 n1 n) = fn_node_id n"
  by (simp add: moved_by_def renamed_row_fields)

text \<open>One update of the loop, when the rows of the set \<^verbatim>\<open>D\<close> have been moved.\<close>

lemma move_one:
  assumes inj: "inj_on fn_node_id (set ns)" "inj_on fn_path (set ns)"
    and free: "\<forall>n\<in>set ns. \<not> HasPrefix (fn_path n) n1"
    and D: "\<forall>n\<in>set ns. fn_node_id n \<in> D \<longrightarrow> HasPrefix (fn_path n) o1"
    and u: "u \<in> set ns" "HasPrefix (fn_path u) o1" "dir_update o1 n1 u = (nid, p, pp, nm)"
  shows "move_node p pp nm (\<lambda>n. fn_node_id n = nid) (map (moved_by D o1 n1) ns) =
    Some (map (moved_by (insert nid D) o1 n1) ns)"
proof -
  note d = dir_update_renamed [OF u(3)]
  have p: "p = n1 @ drop (length o1) (fn_path u)" using d renamed_row_fields(4) [OF u(2)] by simp
  have "fn_path (moved_by D o1 n1 m) \<noteq> p" if m: "m \<in> set ns" "fn_node_id m \<noteq> nid" for m
  proof (cases "fn_node_id m \<in> D")
    case True
    then have hp: "HasPrefix (fn_path m) o1" using D m by blast
    have "fn_path m \<noteq> fn_path u" using inj(2) m u(1) d by (auto dest: inj_onD)
    with hp u(2) have "drop (length o1) (fn_path m) \<noteq> drop (length o1) (fn_path u)" by (auto simp: HasPrefix_iff)
    then show ?thesis using True by (simp add: moved_by_def renamed_row_fields(4) [OF hp] p)
  next
    case False
    then show ?thesis using free m p by (auto simp: moved_by_def HasPrefix_iff)
  qed
  moreover have "set_name p pp nm (moved_by D o1 n1 m) = renamed_row o1 n1 m" if "m \<in> set ns" "fn_node_id m = nid" for m
  proof -
    have "m = u" using inj(1) that u(1) d by (auto dest: inj_onD)
    moreover have "set_name p pp nm u = renamed_row o1 n1 u" "set_name p pp nm (renamed_row o1 n1 u) = renamed_row o1 n1 u"
      using d by blast+
    ultimately show ?thesis by (simp add: moved_by_def)
  qed
  ultimately show ?thesis
    by (auto simp: move_node_def update_where_def list_ex_iff) (auto simp: moved_by_def)
qed

definition move_all :: "file_node list option \<Rightarrow> (string \<times> string \<times> string \<times> string) list \<Rightarrow> file_node list option" where
  "move_all nso us = foldl (\<lambda>ns (nid, path, parent, name). case ns of None \<Rightarrow> None
    | Some ns \<Rightarrow> move_node path parent name (\<lambda>n. fn_node_id n = nid) ns) nso us"

lemma move_all_rows:
  assumes "inj_on fn_node_id (set ns)" "inj_on fn_path (set ns)" "\<forall>n\<in>set ns. \<not> HasPrefix (fn_path n) n1"
    "\<forall>n\<in>set ns. fn_node_id n \<in> D \<longrightarrow> HasPrefix (fn_path n) o1" "set us \<subseteq> {n \<in> set ns. HasPrefix (fn_path n) o1}"
  shows "move_all (Some (map (moved_by D o1 n1) ns)) (map (dir_update o1 n1) us) =
    Some (map (moved_by (D \<union> fn_node_id ` set us) o1 n1) ns)"
  using assms(4,5)
proof (induction us arbitrary: D)
  case (Cons u us)
  obtain nid p pp nm where d: "dir_update o1 n1 u = (nid, p, pp, nm)" by (cases "dir_update o1 n1 u")
  have nid: "nid = fn_node_id u" using dir_update_renamed [OF d] by simp
  have u: "u \<in> set ns" "HasPrefix (fn_path u) o1" using Cons.prems(2) by auto
  have D': "\<forall>n\<in>set ns. fn_node_id n \<in> insert nid D \<longrightarrow> HasPrefix (fn_path n) o1"
    using Cons.prems(1) u nid assms(1) by (auto dest: inj_onD)
  have "move_all (Some (map (moved_by D o1 n1) ns)) (map (dir_update o1 n1) (u # us)) =
      move_all (Some (map (moved_by (insert nid D) o1 n1) ns)) (map (dir_update o1 n1) us)"
    by (simp add: move_all_def d move_one [OF assms(1,2,3) Cons.prems(1) u d])
  also have "\<dots> = Some (map (moved_by (insert nid D \<union> fn_node_id ` set us) o1 n1) ns)"
    by (rule Cons.IH [OF D']) (use Cons.prems(2) in auto)
  finally show ?case by (simp add: nid)
qed (simp add: move_all_def)

section \<open>Missing parents\<close>

definition good_dir :: "node_store \<Rightarrow> string \<Rightarrow> bool" where
  "good_dir s d \<longleftrightarrow> list_ex (\<lambda>n. fn_path n = d \<and> fn_is_dir n \<and> fn_inode_id n \<noteq> None) (nodes s)"

text \<open>A directory that exists, or whose path and derived identifier are both unused.\<close>

definition creatable :: "(string \<Rightarrow> string) \<Rightarrow> node_store \<Rightarrow> string \<Rightarrow> bool" where
  "creatable nid s d \<longleftrightarrow> list_ex (\<lambda>n. fn_path n = d \<and> fn_is_dir n) (nodes s) \<or>
    \<not> list_ex (\<lambda>n. fn_node_id n = nid d \<or> fn_path n = d) (nodes s)"

lemma ensure_inode_nodes [simp]: "nodes (ensure_inode iid now s) = nodes s"
  by (simp add: ensure_inode_def)

lemma ensure_dir_cases:
  obtains "ensure_dir nid now d s = s" "good_dir s d"
  | "nodes (ensure_dir nid now d s) = update_where (\<lambda>n. fn_path n = d \<and> fn_is_dir n)
      (\<lambda>n. n\<lparr>fn_inode_id := Some (nid d)\<rparr>) (nodes s)" "list_ex (\<lambda>n. fn_path n = d \<and> fn_is_dir n) (nodes s)"
  | r where "nodes (ensure_dir nid now d s) = nodes s @ [r]" "fn_path r = d" "fn_is_dir r" "fn_inode_id r \<noteq> None"
      "fn_node_id r = nid d"
  | "nodes (ensure_dir nid now d s) = nodes s" "\<not> creatable nid s d"
proof (cases "find (\<lambda>n. fn_path n = d \<and> fn_is_dir n) (nodes s)")
  case None
  then have no: "\<not> list_ex (\<lambda>n. fn_path n = d \<and> fn_is_dir n) (nodes s)" by (simp add: find_None_iff list_ex_iff)
  let ?s1 = "ensure_inode (nid d) now s"
  define r where "r = \<lparr>fn_node_id = nid d, fn_path = d, fn_parent_path = parentPath d, fn_name = baseName d,
    fn_is_dir = True, fn_file_id = None, fn_inode_id = Some (nid d), fn_created = now\<rparr>"
  have e: "ensure_dir nid now d s = or_keep ?s1 (insert_node r ?s1)" using None by (simp add: ensure_dir_def Let_def r_def)
  show thesis
  proof (cases "list_ex (\<lambda>m. fn_node_id m = fn_node_id r \<or> fn_path m = fn_path r) (nodes s)")
    case True
    then show thesis using that(4) e no by (simp add: insert_node_def or_keep_def creatable_def r_def)
  next
    case False
    then show thesis using that(3) [of r] e by (simp add: insert_node_def or_keep_def r_def)
  qed
next
  case (Some n)
  then have n: "n \<in> set (nodes s)" "fn_path n = d" "fn_is_dir n" by (auto simp: find_Some_iff)
  show thesis
  proof (cases "fn_inode_id n = None")
    case True
    then show thesis using that(2) Some n by (auto simp: ensure_dir_def Let_def list_ex_iff)
  next
    case False
    then show thesis using that(1) Some n by (auto simp: ensure_dir_def good_dir_def list_ex_iff)
  qed
qed

lemma list_ex_update_where:
  "list_ex A ns \<Longrightarrow> (\<And>n. A n \<Longrightarrow> B (if P n then f n else n)) \<Longrightarrow> list_ex B (update_where P f ns)"
  by (induction ns) (force simp: update_where_def)+

lemma good_dir_update:
  assumes "nodes s' = update_where P (\<lambda>n. n\<lparr>fn_inode_id := Some x\<rparr>) (nodes s)"
  shows "good_dir s d' \<Longrightarrow> good_dir s' d'"
    "list_ex (\<lambda>n. fn_path n = d \<and> fn_is_dir n) (nodes s) \<Longrightarrow> P = (\<lambda>n. fn_path n = d \<and> fn_is_dir n) \<Longrightarrow> good_dir s' d"
  by (auto simp: good_dir_def assms elim!: list_ex_update_where)

lemma ensure_dir_good:
  assumes "creatable nid s d"
  shows "good_dir (ensure_dir nid now d s) d" "good_dir s d' \<Longrightarrow> good_dir (ensure_dir nid now d s) d'"
proof -
  show "good_dir (ensure_dir nid now d s) d"
  proof (cases rule: ensure_dir_cases [of nid now d s])
    case 2
    from good_dir_update(2) [OF this refl] show ?thesis .
  qed (use assms in \<open>auto simp: good_dir_def\<close>)
  assume good: "good_dir s d'"
  then show "good_dir (ensure_dir nid now d s) d'"
  proof (cases rule: ensure_dir_cases [of nid now d s])
    case 2
    from good_dir_update(1) [OF this(1) good] show ?thesis .
  qed (use good in \<open>auto simp: good_dir_def\<close>)
qed

lemma ensure_dir_creatable:
  assumes "creatable nid s d'" "d \<noteq> d'" "nid d \<noteq> nid d'"
  shows "creatable nid (ensure_dir nid now d s) d'"
proof (cases rule: ensure_dir_cases [of nid now d s])
  case 2
  have eq: "map (\<lambda>n. (fn_node_id n, fn_path n, fn_is_dir n)) (nodes (ensure_dir nid now d s)) =
      map (\<lambda>n. (fn_node_id n, fn_path n, fn_is_dir n)) (nodes s)" by (simp add: 2 update_where_def)
  have "creatable nid t d' \<longleftrightarrow> (\<exists>i. (i, d', True) \<in> set (map (\<lambda>n. (fn_node_id n, fn_path n, fn_is_dir n)) (nodes t))) \<or>
      (\<forall>(i, p, b)\<in>set (map (\<lambda>n. (fn_node_id n, fn_path n, fn_is_dir n)) (nodes t)). i \<noteq> nid d' \<and> p \<noteq> d')" for t
    by (force simp: creatable_def list_ex_iff)
  with eq assms(1) show ?thesis by (simp del: set_map)
qed (use assms in \<open>auto simp: creatable_def\<close>)

lemma ensure_all_good:
  assumes "\<forall>d\<in>set ds. creatable nid s d" "inj_on nid (set ds)" "distinct ds"
  shows "\<forall>d\<in>set ds. good_dir (foldl (\<lambda>s d. ensure_dir nid now d s) s ds) d"
    "good_dir s d' \<Longrightarrow> good_dir (foldl (\<lambda>s d. ensure_dir nid now d s) s ds) d'"
proof -
  have "(\<forall>d\<in>set ds. good_dir (foldl (\<lambda>s d. ensure_dir nid now d s) s ds) d) \<and>
      (good_dir s d' \<longrightarrow> good_dir (foldl (\<lambda>s d. ensure_dir nid now d s) s ds) d')" for d'
    using assms
  proof (induction ds arbitrary: s d')
    case (Cons d ds)
    let ?s = "ensure_dir nid now d s"
    have c: "creatable nid s d" using Cons.prems(1) by simp
    have "\<forall>e\<in>set ds. creatable nid ?s e"
      using Cons.prems by (auto intro!: ensure_dir_creatable)
    with Cons.IH [of ?s] Cons.prems(2,3) ensure_dir_good [OF c] show ?case by (auto simp: inj_on_insert)
  qed simp
  then show "\<forall>d\<in>set ds. good_dir (foldl (\<lambda>s d. ensure_dir nid now d s) s ds) d"
    "good_dir s d' \<Longrightarrow> good_dir (foldl (\<lambda>s d. ensure_dir nid now d s) s ds) d'" by blast+
qed

lemma ancestors_eq:
  "ancestors p = (if parentPath p = p \<or> parentPath p = ''/'' then [] else parentPath p # ancestors (parentPath p))"
  using ancestors.simps [of p] by (simp add: Let_def)

lemma ancestors_shorter: "d \<in> set (ancestors p) \<Longrightarrow> length d < length p"
proof (induction p rule: ancestors.induct)
  case (1 p)
  have stop: "\<not> (parentPath p = p \<or> parentPath p = ''/'')"
    using 1(2) ancestors_eq [of p] by (cases "parentPath p = p \<or> parentPath p = ''/''") auto
  then have "d = parentPath p \<or> d \<in> set (ancestors (parentPath p))" using 1(2) ancestors_eq [of p] by simp
  with 1(1) [OF refl stop] parentPath_shorter [of p] stop show ?case by auto
qed

lemma distinct_ancestors: "distinct (ancestors p)"
proof (induction p rule: ancestors.induct)
  case (1 p)
  show ?case
  proof (cases "parentPath p = p \<or> parentPath p = ''/''")
    case False
    with 1 [OF refl False] ancestors_shorter [of "parentPath p" "parentPath p"] show ?thesis
      by (subst ancestors_eq) auto
  qed (simp add: ancestors_eq [of p])
qed

section \<open>Properties\<close>

definition dir_row :: "string \<Rightarrow> file_node" where
  "dir_row p = \<lparr>fn_node_id = p, fn_path = p, fn_parent_path = parentPath p, fn_name = baseName p, fn_is_dir = True,
     fn_file_id = None, fn_inode_id = Some p, fn_created = 1\<rparr>"

definition dir_store :: "string list \<Rightarrow> node_store" where
  "dir_store ps = (no_nodes False)\<lparr>nodes := map dir_row ps\<rparr>"

text \<open>
  C20: \<^verbatim>\<open>RenameDir\<close> moves exactly the subtree. When the old prefix has no character that is special in a
  pattern, and no row lies below the new prefix, the transaction succeeds; every row whose path starts
  with the old prefix gets the new prefix in its place, with its file, kind and identifier, and no other row changes.
\<close>
theorem RenameDir_exact:
  assumes "inj_on fn_node_id (set (nodes s))" and "inj_on fn_path (set (nodes s))"
    and "list_all (\<lambda>c. \<not> special c) oldp" and "\<forall>n\<in>set (nodes s). \<not> HasPrefix (fn_path n) newp"
  shows "\<exists>s'. RenameDir oldp newp s = Inr (s', length (filter (\<lambda>n. HasPrefix (fn_path n) oldp) (nodes s))) \<and>
    tables s' = tables s \<and> tags s' = tags s \<and> gc s' = gc s \<and>
    list_all2 (\<lambda>n n'. if HasPrefix (fn_path n) oldp
      then fn_path n' = newp @ drop (length oldp) (fn_path n) \<and> fn_node_id n' = fn_node_id n \<and>
        fn_file_id n' = fn_file_id n \<and> fn_is_dir n' = fn_is_dir n
      else n' = n) (nodes s) (nodes s')"
proof -
  let ?us = "sort_key fn_path (filter (\<lambda>n. HasPrefix (fn_path n) oldp) (nodes s))"
  let ?D = "fn_node_id ` set ?us"
  have "move_all (Some (map (moved_by {} oldp newp) (nodes s))) (map (dir_update oldp newp) ?us) =
      Some (map (moved_by ?D oldp newp) (nodes s))"
    using move_all_rows [OF assms(1,2,4), of "{}" oldp ?us] by simp
  moreover have "map (moved_by {} oldp newp) (nodes s) = nodes s" by (simp add: moved_by_def map_idI)
  ultimately have r: "RenameDir oldp newp s = Inr (s\<lparr>nodes := map (moved_by ?D oldp newp) (nodes s)\<rparr>, length ?us)"
    by (simp add: RenameDir_def Let_def move_all_def below_clause_plain [OF assms(3)])
  have D: "fn_node_id n \<in> ?D \<longleftrightarrow> HasPrefix (fn_path n) oldp" if "n \<in> set (nodes s)" for n
    using that assms(1) by (auto dest: inj_onD)
  have eq: "map (moved_by ?D oldp newp) (nodes s) =
      map (\<lambda>n. if HasPrefix (fn_path n) oldp then renamed_row oldp newp n else n) (nodes s)"
    by (rule map_cong [OF refl]) (simp only: moved_by_def D)
  have "list_all2 (\<lambda>n n'. if HasPrefix (fn_path n) oldp
      then fn_path n' = newp @ drop (length oldp) (fn_path n) \<and> fn_node_id n' = fn_node_id n \<and>
        fn_file_id n' = fn_file_id n \<and> fn_is_dir n' = fn_is_dir n
      else n' = n) (nodes s) (map (moved_by ?D oldp newp) (nodes s))"
    unfolding eq by (auto simp: list_all2_map2 renamed_row_fields intro!: list.rel_refl_strong)
  with r show ?thesis by simp
qed

theorem RenameDir_exact_witness:
  "\<exists>s'. RenameDir ''/a/'' ''/b/'' (dir_store [''/a/'', ''/a/x/'', ''/ab/'']) = Inr (s', 2) \<and>
    map fn_path (nodes s') = [''/b/'', ''/b/x/'', ''/ab/'']"
proof -
  let ?s = "dir_store [''/a/'', ''/a/x/'', ''/ab/'']"
  have "inj_on fn_node_id (set (nodes ?s))" "inj_on fn_path (set (nodes ?s))"
    by (simp_all add: dir_store_def no_nodes_def dir_row_def)
  from RenameDir_exact [OF this, of "''/a/''" "''/b/''"]
  show ?thesis by (auto simp: dir_store_def no_nodes_def dir_row_def special_def HasPrefix_def list_all2_Cons1)
qed

text \<open>
  C24: \<^verbatim>\<open>ensureParentDirsWithExecer\<close> creates every missing parent. When each ancestor of the path exists as
  a directory, or neither its path nor the identifier derived from it is in use, and the derived
  identifiers are distinct, then afterwards every ancestor is a directory with an inode and no directory is lost.
\<close>
theorem ensure_parents_complete:
  assumes "\<forall>d\<in>set (ancestors path). creatable nid s d" and "inj_on nid (set (ancestors path))"
  shows "(\<forall>d\<in>set (ancestors path). good_dir (ensureParentDirsWithExecer nid now path s) d) \<and>
    (good_dir s d' \<longrightarrow> good_dir (ensureParentDirsWithExecer nid now path s) d')"
  using ensure_all_good(1) [of "rev (ancestors path)" nid s now]
    ensure_all_good(2) [of "rev (ancestors path)" nid s d' now] assms distinct_ancestors [of path]
  by (simp add: ensureParentDirsWithExecer_def)

theorem ensure_parents_complete_witness:
  "ancestors ''/a/b/c'' = [''/a/b/'', ''/a/''] \<and>
    good_dir (ensureParentDirsWithExecer (\<lambda>p. p) 1 ''/a/b/c'' (dir_store [''/a/''])) ''/a/b/'' \<and>
    good_dir (ensureParentDirsWithExecer (\<lambda>p. p) 1 ''/a/b/c'' (dir_store [''/a/''])) ''/a/''"
proof -
  have a: "ancestors ''/a/b/c'' = [''/a/b/'', ''/a/'']" by code_simp
  have "\<forall>d\<in>set (ancestors ''/a/b/c''). creatable (\<lambda>p. p) (dir_store [''/a/'']) d"
    by (simp add: a creatable_def dir_store_def no_nodes_def dir_row_def)
  from ensure_parents_complete [OF this, of 1 "[]"] a show ?thesis by simp
qed



text \<open>
  an implicitly created directory cannot be created again after a rename. The identifier of the row
  is derived from the old path and stays with it, so the second insert is a duplicate that the
  statement ignores: the call reports success, and the parent is missing.
\<close>
theorem renamed_parent_not_recreated:
  "let s1 = ensureParentDirsWithExecer nid 1 ''/a/x'' (no_nodes False) in
   map_sum id (\<lambda>(s2, k). map fn_path (nodes (ensureParentDirsWithExecer nid 2 ''/a/y'' s2))) (RenameDir ''/a/'' ''/b/'' s1) =
   Inr [''/b/'']"
proof -
  have a: "ancestors ''/a/x'' = [''/a/'']" "ancestors ''/a/y'' = [''/a/'']" by code_simp+
  have b: "below_clause ''/a/'' ''/a/''" "parentPath ''/a/'' = ''/''" "baseName ''/a/'' = ''a''" by code_simp+
  show ?thesis
    by (simp add: Let_def ensureParentDirsWithExecer_def a ensure_dir_def no_nodes_def ensure_inode_def no_tables_def
      insert_node_def or_keep_def RenameDir_def b dir_update_def move_node_def update_where_def set_name_def)
qed

text \<open>
  \<^verbatim>\<open>Chmod\<close> to the mode a path already has fails. The statement changes no row, so the count of
  affected rows is zero, and the operation reports that an existing path was not found.
\<close>
theorem chmod_same_mode_not_found:
  "let s = ensureParentDirsWithExecer (\<lambda>p. p) 1 ''/a/x'' (no_nodes False) in
   map_sum id fn_is_dir (GetNode ''/a/'' s) = Inr True \<and> Chmod ''/a/'' 493 s = Inl StoreNotFound \<and>
   map_sum id (\<lambda>s'. map_option i_mode (map_of (inodes (tables s')) ''/a/'')) (Chmod ''/a/'' 448 s) = Inr (Some 448)"
  by code_simp

end
