(* ===== verification/Semantic_Tasks.thy ===== *)
theory Semantic_Tasks
  imports Lease_Queue
begin

text \<open>
  The queue of semantic work, embeddings and text extraction (\<^verbatim>\<open>pkg/datastore/semantic_tasks.go\<close>): rows
  of \<^verbatim>\<open>semantic_tasks\<close> extend the lease columns with the task type and the file revision they are for.
  The model interprets \<^verbatim>\<open>lease_queue\<close>.
\<close>

section \<open>Rows and operations\<close>

record semantic_task = task_row +
  TaskType :: string
  ResourceID :: string
  ResourceVersion :: int
  PayloadJSON :: string

record semantic_task_observation =
  obs_Queued :: nat
  obs_Processing :: nat
  obs_DeadLettered :: nat
  OldestClaimableAvailableAt :: "int option"

definition defaultSemanticMaxAttempts :: int where
  "defaultSemanticMaxAttempts = 5"

definition resource_key :: "semantic_task \<Rightarrow> string \<times> string \<times> int" where
  "resource_key r = (TaskType r, ResourceID r, ResourceVersion r)"

definition ObserveSemanticTasks :: "int \<Rightarrow> int \<Rightarrow> semantic_task list \<Rightarrow> semantic_task_observation" where
  "ObserveSemanticTasks clock now0 rows =
    (let now = or_clock clock now0 in
     \<lparr>obs_Queued = rows_affected (\<lambda>r. Status r = Queued) rows,
      obs_Processing = rows_affected (\<lambda>r. Status r = Processing) rows,
      obs_DeadLettered = rows_affected (\<lambda>r. Status r = DeadLettered) rows,
      OldestClaimableAvailableAt =
        (case sort_key claim_order (filter (claimable now) rows) of [] \<Rightarrow> None | r # _ \<Rightarrow> Some (AvailableAt r))\<rparr>)"

definition semanticTaskExistsByResource :: "string \<times> string \<times> int \<Rightarrow> semantic_task list \<Rightarrow> bool" where
  "semanticTaskExistsByResource key rows = (0 < rows_affected (\<lambda>r. resource_key r = key) rows)"

definition sem_insert_row :: "int \<Rightarrow> semantic_task \<Rightarrow> semantic_task" where
  "sem_insert_row clock task =
    (let createdAt = or_clock clock (CreatedAt task) in
     task\<lparr>Status := (if Status task = StatusUnset then Queued else Status task),
       MaxAttempts := (if MaxAttempts task \<le> 0 then defaultSemanticMaxAttempts else MaxAttempts task),
       AvailableAt := or_clock clock (AvailableAt task), CreatedAt := createdAt,
       UpdatedAt := or_clock createdAt (UpdatedAt task)\<rparr>)"

text \<open>A duplicate of the unique resource key is a success without effect, a duplicate \<^verbatim>\<open>task_id\<close> an error.\<close>

definition enqueueSemanticTask ::
  "int \<Rightarrow> semantic_task option \<Rightarrow> semantic_task list \<Rightarrow> task_error + semantic_task list \<times> bool" where
  "enqueueSemanticTask clock taskp rows =
    (case taskp of
      None \<Rightarrow> Inl (ErrInvalid ''semantic task is required'')
    | Some task \<Rightarrow>
        let row = sem_insert_row clock task in
        if \<not> list_ex (\<lambda>r. TaskID r = TaskID row \<or> resource_key r = resource_key row) rows
        then Inr (rows @ [row], True)
        else if semanticTaskExistsByResource (resource_key task) rows then Inr (rows, False)
        else Inl ErrDuplicate)"

definition ensure_row :: "int \<Rightarrow> semantic_task \<Rightarrow> semantic_task \<Rightarrow> semantic_task" where
  "ensure_row now task existing =
    (unlease existing)\<lparr>Status := Queued, AvailableAt := or_clock now (AvailableAt task),
      PayloadJSON := (if PayloadJSON task \<noteq> '''' then PayloadJSON task else PayloadJSON existing),
      LastError := None,
      MaxAttempts := (if 0 < MaxAttempts task then MaxAttempts task else MaxAttempts existing),
      CompletedAt := None, UpdatedAt := now\<rparr>"

text \<open>\<^verbatim>\<open>ensureSemanticTaskQueuedTx\<close>: the clock is read once for the insert and once after it.\<close>

definition ensureSemanticTaskQueuedTx ::
  "int \<Rightarrow> int \<Rightarrow> semantic_task option \<Rightarrow> semantic_task list \<Rightarrow> task_error + semantic_task list \<times> bool" where
  "ensureSemanticTaskQueuedTx clock now taskp rows =
    (case taskp of
      None \<Rightarrow> Inl (ErrInvalid ''semantic task is required'')
    | Some task \<Rightarrow>
        (case enqueueSemanticTask clock taskp rows of
          Inl e \<Rightarrow> Inl e
        | Inr (rows1, created) \<Rightarrow>
            if created then Inr (rows1, True)
            else
              (case find (\<lambda>r. resource_key r = resource_key task) rows1 of
                None \<Rightarrow> Inl ErrNotFound
              | Some existing \<Rightarrow>
                  if Status existing = Processing \<and> until_after now existing then Inr (rows1, False)
                  else Inr (update_where (\<lambda>r. TaskID r = TaskID existing) (\<lambda>_. ensure_row now task existing) rows1, True))))"

primrec normalize_types :: "string list \<Rightarrow> string list \<Rightarrow> task_error + string list" where
  "normalize_types [] acc = Inr acc"
| "normalize_types (t # ts) acc =
    (if blank t then Inl (ErrInvalid ''claim task type is required'')
     else if t \<in> set acc then normalize_types ts acc
     else normalize_types ts (acc @ [t]))"

definition normalizeClaimTaskTypes :: "string list \<Rightarrow> task_error + string list" where
  "normalizeClaimTaskTypes taskTypes = (if taskTypes = [] then Inr [] else normalize_types taskTypes [])"

text \<open>The \<^verbatim>\<open>task_type\<close> clause that \<^verbatim>\<open>claimSemanticTaskQuery\<close> adds.\<close>

definition type_clause :: "string list \<Rightarrow> semantic_task \<Rightarrow> bool" where
  "type_clause types r =
    (if length types = 1 then TaskType r = hd types
     else if 1 < length types then TaskType r \<in> set types else True)"

definition claimSemanticTask ::
  "int \<Rightarrow> string list \<Rightarrow> string \<Rightarrow> int \<Rightarrow> int \<Rightarrow> string list \<Rightarrow> semantic_task list \<Rightarrow>
   task_error + semantic_task list \<times> semantic_task option" where
  "claimSemanticTask clock locked receipt now leaseDuration taskTypes rows =
    (case normalizeClaimTaskTypes taskTypes of
      Inl e \<Rightarrow> Inl e
    | Inr types \<Rightarrow>
        Inr (claim_task (type_clause types) locked receipt (or_clock clock now) (lease_duration leaseDuration) rows))"

definition AckSemanticTask ::
  "int \<Rightarrow> string \<Rightarrow> string \<Rightarrow> semantic_task list \<Rightarrow> task_error + semantic_task list" where
  "AckSemanticTask clock taskID receipt rows = update_held (succeed_row clock) taskID receipt clock rows"

definition DeadLetterSemanticTask ::
  "int \<Rightarrow> string \<Rightarrow> string \<Rightarrow> string \<Rightarrow> semantic_task list \<Rightarrow> task_error + semantic_task list" where
  "DeadLetterSemanticTask clock taskID receipt lastErr rows =
    update_held (dead_row clock lastErr) taskID receipt clock rows"

definition renew_row :: "int \<Rightarrow> int \<Rightarrow> 'a task_row_scheme \<Rightarrow> 'a task_row_scheme" where
  "renew_row now dur r = r\<lparr>LeaseUntil := Some (now + dur), UpdatedAt := now\<rparr>"

definition RenewSemanticTask ::
  "int \<Rightarrow> string \<Rightarrow> string \<Rightarrow> int \<Rightarrow> semantic_task list \<Rightarrow> task_error + semantic_task list \<times> int" where
  "RenewSemanticTask clock taskID receipt leaseDuration rows =
    (case update_held (renew_row clock (lease_duration leaseDuration)) taskID receipt clock rows of
      Inl e \<Rightarrow> Inl e
    | Inr rows' \<Rightarrow> Inr (rows', clock + lease_duration leaseDuration))"

definition RetrySemanticTask ::
  "int \<Rightarrow> string \<Rightarrow> string \<Rightarrow> int \<Rightarrow> string \<Rightarrow> semantic_task list \<Rightarrow> task_error + semantic_task list" where
  "RetrySemanticTask clock taskID receipt retryAt lastErr rows =
    retry_task (\<lambda>task. MaxAttempts task \<le> AttemptCount task) taskID receipt clock retryAt lastErr rows"

definition RecoverExpiredSemanticTasks ::
  "int \<Rightarrow> string list \<Rightarrow> int \<Rightarrow> int \<Rightarrow> semantic_task list \<Rightarrow> semantic_task list \<times> nat" where
  "RecoverExpiredSemanticTasks clock locked now limit rows = recover_expired locked (or_clock clock now) limit rows"

section \<open>The table as a lease queue\<close>

datatype sem_event =
    SClaim int "string list" string int int "string list"
  | SAck int string string
  | SDead int string string string
  | SRenew int string string int
  | SRetry int string string int string
  | SRecover int "string list" int int
  | SEnqueue int semantic_task
  | SEnsure int int semantic_task

fun sem_step :: "sem_event \<Rightarrow> semantic_task list \<Rightarrow> semantic_task list" where
  "sem_step (SClaim clock locked c now dur types) q =
    or_keep q (map_sum id fst (claimSemanticTask clock locked c now dur types q))"
| "sem_step (SAck clock i c) q = or_keep q (AckSemanticTask clock i c q)"
| "sem_step (SDead clock i c err) q = or_keep q (DeadLetterSemanticTask clock i c err q)"
| "sem_step (SRenew clock i c dur) q = or_keep q (map_sum id fst (RenewSemanticTask clock i c dur q))"
| "sem_step (SRetry clock i c retryAt err) q = or_keep q (RetrySemanticTask clock i c retryAt err q)"
| "sem_step (SRecover clock locked now limit) q = fst (RecoverExpiredSemanticTasks clock locked now limit q)"
| "sem_step (SEnqueue clock task) q = or_keep q (map_sum id fst (enqueueSemanticTask clock (Some task) q))"
| "sem_step (SEnsure clock now task) q = or_keep q (map_sum id fst (ensureSemanticTaskQueuedTx clock now (Some task) q))"

fun sem_time :: "sem_event \<Rightarrow> int" where
  "sem_time (SClaim clock locked c now dur types) = or_clock clock now"
| "sem_time (SAck clock i c) = clock"
| "sem_time (SDead clock i c err) = clock"
| "sem_time (SRenew clock i c dur) = clock"
| "sem_time (SRetry clock i c retryAt err) = clock"
| "sem_time (SRecover clock locked now limit) = or_clock clock now"
| "sem_time (SEnqueue clock task) = clock"
| "sem_time (SEnsure clock now task) = now"

fun sem_uses :: "sem_event \<Rightarrow> string \<Rightarrow> string \<Rightarrow> bool" where
  "sem_uses (SAck clock i c) j d = (i = j \<and> c = d)"
| "sem_uses (SDead clock i c err) j d = (i = j \<and> c = d)"
| "sem_uses (SRenew clock i c dur) j d = (i = j \<and> c = d)"
| "sem_uses (SRetry clock i c retryAt err) j d = (i = j \<and> c = d)"
| "sem_uses _ j d = False"

fun sem_valid :: "sem_event \<Rightarrow> bool" where
  "sem_valid (SEnqueue clock task) = fresh_task task"
| "sem_valid (SEnsure clock now task) = fresh_task task"
| "sem_valid _ = True"

fun sem_grants :: "sem_event \<Rightarrow> semantic_task list \<Rightarrow> (string \<times> string \<times> int) option" where
  "sem_grants (SClaim clock locked c now dur types) q =
    (case claimSemanticTask clock locked c now dur types q of
      Inl e \<Rightarrow> None
    | Inr (q', ot) \<Rightarrow> map_option (\<lambda>t. (TaskID t, c, or_clock clock now + lease_duration dur)) ot)"
| "sem_grants _ q = None"

lemma sem_insert_row_ok: "fresh_task task \<Longrightarrow> row_ok (sem_insert_row clock task)"
  by (auto simp: sem_insert_row_def Let_def fresh_task_def row_ok_def)

lemma sem_insert_row_key [simp]:
  "resource_key (sem_insert_row clock task) = resource_key task" "TaskID (sem_insert_row clock task) = TaskID task"
  by (simp_all add: sem_insert_row_def resource_key_def Let_def)

lemma renew_row_simps [simp]:
  "TaskID (renew_row now dur r) = TaskID r" "Status r = Processing \<Longrightarrow> row_ok r \<Longrightarrow> row_ok (renew_row now dur r)"
  by (simp_all add: renew_row_def row_ok_def)

lemma ensure_row_simps [simp]:
  "TaskID (ensure_row now task r) = TaskID r" "row_ok (ensure_row now task r)"
  "resource_key (ensure_row now task r) = resource_key r"
  by (simp_all add: ensure_row_def row_ok_def unlease_def resource_key_def)

text \<open>The insert, and the requeue of an existing row, as the only effects.\<close>

lemma enqueue_sem_cases:
  assumes "enqueueSemanticTask clock (Some task) q = Inr (q', b)"
  shows "q' = q \<and> \<not> b \<or>
    q' = q @ [sem_insert_row clock task] \<and> b \<and> row_of q (TaskID task) = None \<and> resource_key task \<notin> resource_key ` set q"
  using assms by (auto simp: enqueueSemanticTask_def Let_def row_of_None list_ex_iff split: if_splits)

lemma ensure_sem_cases:
  assumes "ensureSemanticTaskQueuedTx clock now (Some task) q = Inr (q', b)"
  shows "q' = q \<or>
    q' = q @ [sem_insert_row clock task] \<and> row_of q (TaskID task) = None \<and> resource_key task \<notin> resource_key ` set q \<or>
    (\<exists>x\<in>set q. \<not> (Status x = Processing \<and> until_after now x) \<and>
      q' = update_where (\<lambda>r. TaskID r = TaskID x) (\<lambda>_. ensure_row now task x) q)"
proof (cases "enqueueSemanticTask clock (Some task) q")
  case (Inr z)
  obtain q1 c where z: "z = (q1, c)" by fastforce
  show ?thesis
  proof (cases c)
    case False
    then have "q1 = q" using enqueue_sem_cases [of clock task q q1 c] Inr z by auto
    with False assms Inr z show ?thesis
      by (auto simp: ensureSemanticTaskQueuedTx_def find_Some_iff split: option.splits if_splits)
  qed (use enqueue_sem_cases [of clock task q q1 c] assms Inr z in \<open>auto simp: ensureSemanticTaskQueuedTx_def\<close>)
qed (use assms in \<open>simp add: ensureSemanticTaskQueuedTx_def\<close>)

lemma or_same_cases:
  "or_keep q (map_sum id fst x) = (case x of Inl e \<Rightarrow> q | Inr z \<Rightarrow> fst z)"
  by (cases x) (simp_all add: or_keep_def)

lemma sem_step_claim:
  "sem_step (SClaim clock locked c now dur types) q = q \<or>
   (\<exists>ts. sem_step (SClaim clock locked c now dur types) q =
     fst (claim_task (type_clause ts) locked c (or_clock clock now) (lease_duration dur) q))"
  by (cases "normalizeClaimTaskTypes types") (auto simp: or_keep_def claimSemanticTask_def)

lemma sem_step_enqueue:
  "sem_step (SEnqueue clock task) q = q \<or>
   sem_step (SEnqueue clock task) q = q @ [sem_insert_row clock task] \<and> row_of q (TaskID task) = None \<and>
     resource_key task \<notin> resource_key ` set q"
  using enqueue_sem_cases [of clock task q] by (auto simp: or_same_cases split: sum.splits)

lemma sem_step_ensure:
  "sem_step (SEnsure clock now task) q = q \<or>
   sem_step (SEnsure clock now task) q = q @ [sem_insert_row clock task] \<and> row_of q (TaskID task) = None \<and>
     resource_key task \<notin> resource_key ` set q \<or>
   (\<exists>x\<in>set q. \<not> (Status x = Processing \<and> until_after now x) \<and>
      sem_step (SEnsure clock now task) q = update_where (\<lambda>r. TaskID r = TaskID x) (\<lambda>_. ensure_row now task x) q)"
  using ensure_sem_cases [of clock now task q] by (auto simp: or_same_cases split: sum.splits)

lemma update_where_const:
  assumes "table_ok q" "x \<in> set q"
  shows "update_where (\<lambda>r. TaskID r = TaskID x) (\<lambda>_. f x) q = update_where (\<lambda>r. TaskID r = TaskID x) f q"
proof -
  have "r = x" if "r \<in> set q" "TaskID r = TaskID x" for r
    using row_of_in_set [of q] assms that by (metis option.inject table_ok_def)
  then show ?thesis unfolding update_where_def by (intro map_cong) auto
qed

lemma sem_step_ok:
  assumes ok: "table_ok q" and v: "sem_valid e"
  shows "table_ok (sem_step e q)"
proof (cases e)
  case (SClaim clock locked c now dur types)
  then show ?thesis
    using sem_step_claim [of clock locked c now dur types q] claim_task_ok [OF ok prod.collapse [symmetric]] ok
    by (auto simp del: sem_step.simps)
next
  case (SAck clock i c)
  then show ?thesis using ok
    by (auto simp: AckSemanticTask_def or_keep_def split: sum.splits intro: update_held_ok)
next
  case (SDead clock i c err)
  then show ?thesis using ok
    by (auto simp: DeadLetterSemanticTask_def or_keep_def split: sum.splits intro: update_held_ok)
next
  case (SRenew clock i c dur)
  then show ?thesis using ok
    by (auto simp: RenewSemanticTask_def or_same_cases held_def split: sum.splits intro: update_held_ok)
next
  case (SRetry clock i c retryAt err)
  then show ?thesis using ok
    by (auto simp: RetrySemanticTask_def or_keep_def split: sum.splits intro: retry_task_ok)
next
  case (SRecover clock locked now limit)
  then show ?thesis using recover_expired_spec(1) [OF ok prod.collapse [symmetric]]
    by (simp add: RecoverExpiredSemanticTasks_def)
next
  case (SEnqueue clock task)
  then show ?thesis
    using sem_step_enqueue [of clock task q] insert_row_ok [OF ok _ sem_insert_row_ok, of clock task] ok v
    by (auto simp del: sem_step.simps)
next
  case (SEnsure clock now task)
  have "table_ok (update_where (\<lambda>r. TaskID r = TaskID x) (\<lambda>_. ensure_row now task x) q)" if "x \<in> set q" for x
    unfolding update_where_const [OF ok that, of "ensure_row now task"] using ok by (intro table_ok_update_where) auto
  then show ?thesis
    using SEnsure sem_step_ensure [of clock now task q] insert_row_ok [OF ok _ sem_insert_row_ok, of clock task] ok v
    by (auto simp del: sem_step.simps)
qed

lemma owner_live: "row_owner r = Some (c, u) \<Longrightarrow> now < u \<Longrightarrow> Status r = Processing \<and> until_after now r"
  by (auto simp: row_owner_def until_after_def split: if_splits option.splits)

lemma sem_ensure_keep:
  assumes ok: "table_ok q" and o: "owner q i = Some (c, u)" "now < u"
  shows "owner (sem_step (SEnsure clock now task) q) i = Some (c, u)"
proof -
  obtain r where r: "row_of q i = Some r" "row_owner r = Some (c, u)" using owner_eqD [OF o(1)] by blast
  have "owner (update_where (\<lambda>r. TaskID r = TaskID x) (\<lambda>_. ensure_row now task x) q) i = Some (c, u)"
    if x: "x \<in> set q" "\<not> (Status x = Processing \<and> until_after now x)" for x
  proof -
    have "row_of q (TaskID x) = Some x" using ok x(1) by (auto simp: table_ok_def intro: row_of_in_set)
    moreover have "x \<noteq> r" using x(2) owner_live [OF r(2) o(2)] by blast
    ultimately have "TaskID x \<noteq> TaskID r" using r(1) row_of_SomeD [OF r(1)] by (metis option.inject)
    then show ?thesis
      unfolding update_where_const [OF ok x(1), of "ensure_row now task"] using r
      by (simp add: owner_update_where)
  qed
  with sem_step_ensure [of clock now task q] o(1) owner_append [OF o(1)] show ?thesis
    by (auto simp del: sem_step.simps)
qed

lemma sem_step_keep:
  assumes ok: "table_ok q" and o: "owner q i = Some (c, u)" "sem_time e < u" "\<not> sem_uses e i c"
  shows "owner (sem_step e q) i = Some (c, u)"
proof (cases e)
  case (SClaim clock locked d now dur types)
  then show ?thesis
    using sem_step_claim [of clock locked d now dur types q] claim_task_keep [OF ok o(1)] o(1)
    by (auto simp del: sem_step.simps)
next
  case (SAck clock j d)
  then show ?thesis using ok o
    by (auto simp: AckSemanticTask_def or_keep_def split: sum.splits intro: update_held_owner)
next
  case (SDead clock j d err)
  then show ?thesis using ok o
    by (auto simp: DeadLetterSemanticTask_def or_keep_def split: sum.splits intro: update_held_owner)
next
  case (SRenew clock j d dur)
  then show ?thesis using ok o
    by (auto simp: RenewSemanticTask_def or_same_cases split: sum.splits intro: update_held_owner)
next
  case (SRetry clock j d retryAt err)
  then show ?thesis using ok o
    by (auto simp: RetrySemanticTask_def or_keep_def split: sum.splits intro: retry_task_owner)
next
  case (SRecover clock locked now limit)
  then show ?thesis using recover_expired_owner [OF ok prod.collapse [symmetric] o(1)] o(2)
    by (simp add: RecoverExpiredSemanticTasks_def)
next
  case (SEnqueue clock task)
  then show ?thesis using sem_step_enqueue [of clock task q] o(1) owner_append [OF o(1)]
    by (auto simp del: sem_step.simps)
next
  case (SEnsure clock now task)
  then show ?thesis using sem_ensure_keep [OF ok o(1)] o(2) by (simp del: sem_step.simps)
qed

lemma sem_grant:
  assumes "table_ok q" "sem_grants e q = Some (i, c, u)"
  shows "owner q i = None \<and> owner (sem_step e q) i = Some (c, u)"
proof (cases e)
  case (SClaim clock locked d now dur types)
  with assms(2) obtain q' t ts where
      C: "claim_task (type_clause ts) locked d (or_clock clock now) (lease_duration dur) q = (q', Some t)"
      "claimSemanticTask clock locked d now dur types q = Inr (q', Some t)"
      and t: "TaskID t = i" "d = c" "or_clock clock now + lease_duration dur = u"
    by (auto simp: claimSemanticTask_def split: sum.splits prod.splits)
  then have "sem_step e q = q'" using SClaim by (simp add: or_keep_def)
  then show ?thesis using claim_task_free [OF assms(1) C(1)] claim_task_owner [OF assms(1) C(1), of i] t by simp
qed (use assms in auto)

interpretation semq: lease_queue table_ok owner sem_step sem_time sem_valid sem_uses sem_grants
  by unfold_locales (auto simp del: sem_step.simps intro: sem_step_ok sem_step_keep dest: sem_grant)

section \<open>One row per revision, and the attempt budget\<close>

lemma keys_update_where:
  "(\<And>r. r \<in> set q \<Longrightarrow> P r \<Longrightarrow> k (f r) = k r) \<Longrightarrow> map k (update_where P f q) = map k q"
  by (auto simp: update_where_def)

lemma all_update_where:
  "list_all B q \<Longrightarrow> (\<And>r. r \<in> set q \<Longrightarrow> P r \<Longrightarrow> B r \<Longrightarrow> B (f r)) \<Longrightarrow> list_all B (update_where P f q)"
  by (auto simp: update_where_def list_all_iff)

lemma row_keys [simp]:
  "resource_key (lease_row c now dur r) = resource_key r" "resource_key (succeed_row now r) = resource_key r"
  "resource_key (dead_row now e r) = resource_key r" "resource_key (requeue_row now t e r) = resource_key r"
  "resource_key (recover_row now r) = resource_key r" "resource_key (renew_row now dur r) = resource_key r"
  by (simp_all add: lease_row_def succeed_row_def dead_row_def requeue_row_def recover_row_def renew_row_def
      unlease_def resource_key_def)

text \<open>Every statement but the insert is made of updates of single columns of existing rows.\<close>

lemma keys_recover: "map resource_key (fst (foldl (recover_one now) st ids)) = map resource_key (fst st)"
proof (induction ids arbitrary: st)
  case (Cons i ids)
  have "map resource_key (fst (recover_one now st i)) = map resource_key (fst st)"
    by (simp add: recover_one_def Let_def keys_update_where)
  with Cons.IH [of "recover_one now st i"] show ?case by simp
qed simp

lemma keys_claim: "map resource_key (fst (claim_task el locked c now dur q)) = map resource_key q"
  by (auto simp: claim_task_def Let_def keys_update_where split: list.splits)

lemma keys_update_held:
  assumes "update_held f i c now q = Inr q'" "\<And>r. resource_key (f r) = resource_key r"
  shows "map resource_key q' = map resource_key q"
  using assms by (auto simp: update_held_def Let_def keys_update_where split: if_splits)

lemma keys_retry:
  "retry_task ex i c now t err q = Inr q' \<Longrightarrow> map resource_key q' = map resource_key q"
  by (auto simp: retry_task_def keys_update_where split: option.splits if_splits)

lemma sem_step_keys:
  assumes "table_ok q"
  shows "map resource_key (sem_step e q) = map resource_key q \<or>
    (\<exists>row. sem_step e q = q @ [row] \<and> resource_key row \<notin> resource_key ` set q)"
proof (cases e)
  case (SClaim clock locked c now dur types)
  then show ?thesis using sem_step_claim [of clock locked c now dur types q] keys_claim
    by (metis)
next
  case (SEnqueue clock task)
  then show ?thesis using sem_step_enqueue [of clock task q] by (auto simp del: sem_step.simps)
next
  case (SEnsure clock now task)
  have "map resource_key (update_where (\<lambda>r. TaskID r = TaskID x) (\<lambda>_. ensure_row now task x) q) = map resource_key q"
    if "x \<in> set q" for x
    unfolding update_where_const [OF assms that, of "ensure_row now task"] by (rule keys_update_where) simp
  with SEnsure sem_step_ensure [of clock now task q] show ?thesis by (auto simp del: sem_step.simps)
next
  case (SRecover clock locked now limit)
  then show ?thesis
    by (simp add: RecoverExpiredSemanticTasks_def recover_expired_def keys_recover)
qed (auto simp: AckSemanticTask_def DeadLetterSemanticTask_def RenewSemanticTask_def RetrySemanticTask_def
    or_keep_def split: sum.splits dest!: keys_update_held keys_retry)

definition budget :: "semantic_task \<Rightarrow> bool" where
  "budget r \<longleftrightarrow> AttemptCount r \<le> MaxAttempts r \<and> (Status r = Queued \<longrightarrow> AttemptCount r < MaxAttempts r)"

lemma budget_rows:
  "budget r \<Longrightarrow> claimable now r \<Longrightarrow> budget (lease_row c now dur r)"
  "budget r \<Longrightarrow> budget (succeed_row now r)" "budget r \<Longrightarrow> budget (dead_row now e r)"
  "budget r \<Longrightarrow> AttemptCount r < MaxAttempts r \<Longrightarrow> budget (requeue_row now t e r)"
  "budget r \<Longrightarrow> budget (renew_row now dur r)"
  by (simp_all add: budget_def claimable_def lease_row_def succeed_row_def dead_row_def requeue_row_def
      renew_row_def unlease_def)

fun sem_counted :: "sem_event \<Rightarrow> bool" where
  "sem_counted (SRecover clock locked now limit) = False"
| "sem_counted (SEnsure clock now task) = False"
| "sem_counted (SEnqueue clock task) = (fresh_task task \<and> AttemptCount task = 0)"
| "sem_counted _ = True"

lemma budget_claim: "list_all budget q \<Longrightarrow> list_all budget (fst (claim_task el locked c now dur q))"
  by (auto simp: claim_task_def Let_def split: list.splits intro: all_update_where budget_rows(1))

lemma budget_update_held:
  "update_held f i c now q = Inr q' \<Longrightarrow> list_all budget q \<Longrightarrow> (\<And>r. budget r \<Longrightarrow> budget (f r)) \<Longrightarrow> list_all budget q'"
  by (auto simp: update_held_def Let_def split: if_splits intro: all_update_where)

lemma budget_retry:
  assumes ok: "table_ok q" and R: "RetrySemanticTask clock i c t err q = Inr q'" and b: "list_all budget q"
  shows "list_all budget q'"
proof -
  obtain x where x: "row_of q i = Some x" and q': "q' = update_where (\<lambda>r. TaskID r = i)
      (if MaxAttempts x \<le> AttemptCount x then dead_row clock err else requeue_row clock (or_clock clock t) err) q"
    using R unfolding RetrySemanticTask_def retry_task_iff [OF ok] by blast
  have "r = x" if "r \<in> set q" "TaskID r = i" for r
    using row_of_in_set [of q r] ok x that by (auto simp: table_ok_def)
  then show ?thesis unfolding q' using b budget_rows(3,4) by (intro all_update_where) auto
qed

lemma sem_step_budget:
  assumes "table_ok q" "list_all budget q" "sem_counted e"
  shows "list_all budget (sem_step e q)"
proof (cases e)
  case (SClaim clock locked c now dur types)
  then show ?thesis using sem_step_claim [of clock locked c now dur types q] budget_claim [OF assms(2)] assms(2)
    by metis
next
  case (SEnqueue clock task)
  then have "budget (sem_insert_row clock task)"
    using assms(3) by (auto simp: budget_def sem_insert_row_def Let_def defaultSemanticMaxAttempts_def)
  with SEnqueue sem_step_enqueue [of clock task q] assms(2) show ?thesis by (auto simp del: sem_step.simps)
next
  case (SRetry clock i c t err)
  then show ?thesis using assms budget_retry by (auto simp: or_keep_def split: sum.splits)
qed (use assms budget_rows in \<open>auto simp: AckSemanticTask_def DeadLetterSemanticTask_def RenewSemanticTask_def
    or_keep_def split: sum.splits elim!: budget_update_held\<close>)

section \<open>Properties\<close>

definition sample_sem :: semantic_task where
  "sample_sem = \<lparr>TaskID = ''t'', Status = Queued, AttemptCount = 0, MaxAttempts = 5, Receipt = None,
     LeasedAt = None, LeaseUntil = None, AvailableAt = 1, LastError = None, CreatedAt = 1, UpdatedAt = 1,
     CompletedAt = None, TaskType = ''embed'', ResourceID = ''f'', ResourceVersion = 3, PayloadJSON = []\<rparr>"

text \<open>
  mutual exclusion of the semantic workers. Once a claim hands out a task, then through every
  sequence of claims, acks, dead-letterings, renewals, retries, recoveries, enqueues and re-queueings
  that happen before the lease expires and do not act under that lease's receipt, no claim hands the
  task out again, and the worker's renewal (to another expiry) succeeds and keeps the task its own until the renewed expiry.
\<close>
theorem sem_lease_exclusive:
  assumes "table_ok q" and "claimSemanticTask clock locked receipt now dur types q = Inr (q1, Some t)"
    and "\<forall>e\<in>set es. sem_valid e \<and> sem_time e < or_clock clock now + lease_duration dur \<and>
      \<not> sem_uses e (TaskID t) receipt"
    and "es = xs @ e # ys" and "renew_time < or_clock clock now + lease_duration dur"
    and "renew_time + lease_duration dur' \<noteq> or_clock clock now + lease_duration dur"
  shows "(\<forall>c' u'. sem_grants e (foldl (\<lambda>q e. sem_step e q) q1 xs) \<noteq> Some (TaskID t, c', u')) \<and>
    (\<exists>q'. RenewSemanticTask renew_time (TaskID t) receipt dur' (foldl (\<lambda>q e. sem_step e q) q1 es) =
        Inr (q', renew_time + lease_duration dur') \<and>
      owner q' (TaskID t) = Some (receipt, renew_time + lease_duration dur'))"
proof -
  let ?u = "or_clock clock now + lease_duration dur" and ?c = "SClaim clock locked receipt now dur types"
  let ?q = "foldl (\<lambda>q e. sem_step e q) q1 es" and ?f = "renew_row renew_time (lease_duration dur')"
  have g: "sem_grants ?c q = Some (TaskID t, receipt, ?u)" and s: "sem_step ?c q = q1"
    using assms(2) by (simp_all add: or_keep_def)
  have quiet: "list_all (semq.quiet (TaskID t) receipt ?u) es"
    using assms(3) by (simp add: semq.quiet_def list_all_iff)
  have x: "owner ?q (TaskID t) = Some (receipt, ?u)"
      "\<forall>c' u'. sem_grants e (foldl (\<lambda>q e. sem_step e q) q1 xs) \<noteq> Some (TaskID t, c', u')"
    using semq.exclusive [OF assms(1) _ g quiet assms(4)] s by (simp_all add: semq.run_def)
  have "table_ok q1" using semq.inv_step [OF assms(1), of ?c] s by simp
  then have ok: "table_ok ?q"
    using semq.run_inv [of q1 es] assms(3) by (simp add: semq.run_def list_all_iff)
  obtain r where r: "row_of ?q (TaskID t) = Some r" "row_owner r = Some (receipt, ?u)"
    using owner_eqD [OF x(1)] by blast
  have h: "held receipt renew_time r" "TaskID r = TaskID t"
    using r(2) assms(5) row_of_SomeD [OF r(1)] by (auto simp: held_iff_owner)
  have o': "row_owner (?f r) = Some (receipt, renew_time + lease_duration dur')"
    using h(1) by (simp add: held_def renew_row_def row_owner_def)
  then have "?f r \<noteq> r" using r(2) assms(6) by auto
  then have "0 < rows_changed (\<lambda>x. TaskID x = TaskID t \<and> held receipt renew_time x) ?f ?q"
    using r h unfolding changed_iff [OF ok] by blast
  then have "update_held ?f (TaskID t) receipt renew_time ?q =
      Inr (update_where (\<lambda>x. TaskID x = TaskID t \<and> held receipt renew_time x) ?f ?q)"
    by (simp add: update_held_def)
  then show ?thesis using r h x(2) o' by (auto simp: RenewSemanticTask_def owner_update_where)
qed

theorem sem_lease_exclusive_witness:
  "(\<forall>c' u'. sem_grants (SClaim 6 [] ''r2'' 0 10 [])
      (foldl (\<lambda>q e. sem_step e q) [lease_row ''r1'' 5 10 sample_sem] []) \<noteq> Some (''t'', c', u')) \<and>
   (\<exists>q'. RenewSemanticTask 9 ''t'' ''r1'' 20
        (foldl (\<lambda>q e. sem_step e q) [lease_row ''r1'' 5 10 sample_sem] [SClaim 6 [] ''r2'' 0 10 []]) = Inr (q', 29) \<and>
      owner q' ''t'' = Some (''r1'', 29))"
proof -
  have "table_ok [sample_sem]" by (simp add: table_ok_def row_ok_def sample_sem_def)
  moreover have "\<not> blank ''embed''" by code_simp
  then have "claimSemanticTask 5 [] ''r1'' 0 10 [''embed''] [sample_sem] =
      Inr ([lease_row ''r1'' 5 10 sample_sem], Some (lease_row ''r1'' 5 10 sample_sem))"
    by (simp add: claimSemanticTask_def normalizeClaimTaskTypes_def type_clause_def claim_task_def claimable_def
        rows_changed_def lease_row_def Let_def or_clock_def lease_duration_def update_where_def sample_sem_def)
  ultimately show ?thesis
    using sem_lease_exclusive [of "[sample_sem]" 5 "[]" "''r1''" 0 10 "[''embed'']" _ "lease_row ''r1'' 5 10 sample_sem"
        "[SClaim 6 [] ''r2'' 0 10 []]" "[]" "SClaim 6 [] ''r2'' 0 10 []" "[]" 9 20]
    by (simp add: or_clock_def lease_duration_def sample_sem_def)
qed

text \<open>
  at most one task per task type and file revision. Through every sequence of queue operations the
  table keeps one row per task id and per (task type, resource, version), and every row keeps the
  lease columns in step with its status, so concurrent writers of a revision share one task.
\<close>
theorem sem_one_task_per_revision:
  assumes "table_ok q" and "distinct (map resource_key q)" and "\<forall>e\<in>set es. sem_valid e"
  shows "table_ok (foldl (\<lambda>q e. sem_step e q) q es) \<and>
    distinct (map resource_key (foldl (\<lambda>q e. sem_step e q) q es))"
  using assms
proof (induction es arbitrary: q)
  case (Cons e es)
  have "distinct (map resource_key (sem_step e q))"
    using sem_step_keys [OF Cons.prems(1), of e] Cons.prems(2) by (auto simp del: distinct_map)
  with Cons.IH [of "sem_step e q"] sem_step_ok [OF Cons.prems(1), of e] Cons.prems(3) show ?case by simp
qed simp

theorem sem_one_task_per_revision_witness:
  "distinct (map resource_key (foldl (\<lambda>q e. sem_step e q) [sample_sem]
      [SEnqueue 2 (sample_sem\<lparr>TaskID := ''t2''\<rparr>), SEnsure 3 3 (sample_sem\<lparr>TaskID := ''t3''\<rparr>)]))"
  using sem_one_task_per_revision [of "[sample_sem]"
      "[SEnqueue 2 (sample_sem\<lparr>TaskID := ''t2''\<rparr>), SEnsure 3 3 (sample_sem\<lparr>TaskID := ''t3''\<rparr>)]"]
  by (simp add: table_ok_def row_ok_def sample_sem_def fresh_task_def del: sem_step.simps)



end
