(* ===== verification/Write_Buffer.thy ===== *)
theory Write_Buffer
  imports Prelude
begin

text \<open>
  The dirty buffer of an open file handle (\<^verbatim>\<open>pkg/fuse/write.go\<close>, type \<^verbatim>\<open>WriteBuffer\<close>): a sparse
  map from part index to part bytes with a contiguous fast path for small files, lazy loading of
  remote parts, dirty-part tracking, and the eviction of parts that were streamed away.

  \<^item> Sizes and offsets are natural numbers (the FUSE layer hands over non-negative \<^verbatim>\<open>int64\<close>);
    \<^verbatim>\<open>curMemory\<close>, which is decremented, is an integer.
  \<^item> A nil part slice and an empty one behave alike in every method, so both are the empty list; a
    nil map behaves as an empty one. \<^verbatim>\<open>smallFileData\<close>, whose nilness is the mode, is an option.
  \<^item> The two callbacks of the type are closures of \<^verbatim>\<open>dat9fs.go\<close>: \<^verbatim>\<open>LoadPart\<close> is any function from
    part number to bytes or error; \<^verbatim>\<open>OnPartFull\<close> is one of the two closures that file installs.
\<close>

section \<open>State\<close>

datatype wb_error = EFBIG | LoadFailed string | DivideByZero

datatype on_part_full = SpillEvict | StreamSubmit

record write_buffer =
  wb_path :: string
  totalSize :: nat
  maxSize :: nat
  partSize :: nat
  smallFileMax :: nat
  parts :: "(nat, byte list) gomap"
  dirtyParts :: "(nat, bool) gomap"
  touched :: bool
  LoadPart :: "(nat \<Rightarrow> string + byte list) option"
  remoteSize :: nat
  curMemory :: int
  appendCursor :: nat
  sequential :: bool
  uploadedParts :: "(nat, bool) gomap"
  OnPartFull :: "on_part_full option"
  smallFileData :: "byte list option"

definition defaultWriteBufferMaxSize :: nat where "defaultWriteBufferMaxSize = 64 * 2 ^ 20"
definition DefaultPartSize :: nat where "DefaultPartSize = 8 * 2 ^ 20"
definition defaultSmallFileThreshold :: nat where "defaultSmallFileThreshold = 50000"

definition NewWriteBuffer :: "string \<Rightarrow> int \<Rightarrow> int \<Rightarrow> write_buffer" where
  "NewWriteBuffer p maxSz partSz =
    \<lparr>wb_path = p, totalSize = 0,
     maxSize = (if maxSz \<le> 0 then defaultWriteBufferMaxSize else nat maxSz),
     partSize = (if partSz \<le> 0 then DefaultPartSize else nat partSz),
     smallFileMax = defaultSmallFileThreshold, parts = [], dirtyParts = [], touched = False,
     LoadPart = None, remoteSize = 0, curMemory = 0, appendCursor = 0, sequential = False,
     uploadedParts = [], OnPartFull = None, smallFileData = None\<rparr>"

definition SetSmallFileMax :: "write_buffer \<Rightarrow> int \<Rightarrow> write_buffer" where
  "SetSmallFileMax wb threshold =
    (if threshold \<le> 0 then wb else wb\<lparr>smallFileMax := nat threshold\<rparr>)"

definition flag :: "(nat, bool) gomap \<Rightarrow> nat \<Rightarrow> bool" where
  "flag m i \<longleftrightarrow> map_of m i = Some True"

section \<open>Parts\<close>

definition ensurePart :: "write_buffer \<Rightarrow> nat \<Rightarrow> wb_error + write_buffer" where
  "ensurePart wb partIdx =
    (if smallFileData wb \<noteq> None then Inr wb
     else if mem_key (parts wb) partIdx then Inr wb
     else if flag (uploadedParts wb) partIdx then
       Inr (wb\<lparr>parts := AList.update partIdx (replicate (partSize wb) 0) (parts wb),
               curMemory := curMemory wb + int (partSize wb)\<rparr>)
     else case LoadPart wb of
       None \<Rightarrow> Inr (wb\<lparr>parts := AList.update partIdx [] (parts wb)\<rparr>)
     | Some load \<Rightarrow>
         if partIdx * partSize wb < remoteSize wb then
           (case load (partIdx + 1) of
             Inl e \<Rightarrow> Inl (LoadFailed e)
           | Inr data \<Rightarrow> Inr (wb\<lparr>parts := AList.update partIdx data (parts wb),
               curMemory := curMemory wb + int (length data)\<rparr>))
         else Inr (wb\<lparr>parts := AList.update partIdx [] (parts wb)\<rparr>))"

definition EnsureLoaded :: "write_buffer \<Rightarrow> nat \<Rightarrow> wb_error + write_buffer" where
  "EnsureLoaded wb partIdx = ensurePart wb partIdx"

definition migrateToPartMode :: "write_buffer \<Rightarrow> write_buffer" where
  "migrateToPartMode wb =
    (case smallFileData wb of
      None \<Rightarrow> wb\<lparr>smallFileData := None\<rparr>
    | Some d \<Rightarrow>
        if length d = 0 then wb\<lparr>smallFileData := None\<rparr>
        else wb\<lparr>parts := AList.update 0 d (parts wb), curMemory := int (length d),
                smallFileData := None\<rparr>)"

definition EvictPart :: "write_buffer \<Rightarrow> nat \<Rightarrow> write_buffer" where
  "EvictPart wb partIdx =
    (let wb = wb\<lparr>uploadedParts := AList.update partIdx True (uploadedParts wb)\<rparr>;
         wb = (if smallFileData wb \<noteq> None then migrateToPartMode wb else wb)
     in case map_of (parts wb) partIdx of
       None \<Rightarrow> wb
     | Some part \<Rightarrow> wb\<lparr>curMemory := curMemory wb - int (length part),
                       parts := AList.delete partIdx (parts wb)\<rparr>)"

text \<open>\<^verbatim>\<open>markDirty\<close>: every part that overlaps \<^term>\<open>{start..<stop}\<close>.\<close>

definition markDirty :: "write_buffer \<Rightarrow> nat \<Rightarrow> nat \<Rightarrow> write_buffer" where
  "markDirty wb start stop =
    (if stop \<le> start then wb
     else wb\<lparr>dirtyParts := foldl (\<lambda>m i. AList.update i True m) (dirtyParts wb)
            [start div partSize wb ..< (stop - 1) div partSize wb + 1]\<rparr>)"

section \<open>Write\<close>

text \<open>One round of the copy loop: grow the part's slice if the chunk does not fit, copy, mark.\<close>

definition write_chunk :: "write_buffer \<Rightarrow> nat \<Rightarrow> nat \<Rightarrow> byte list \<Rightarrow> write_buffer" where
  "write_chunk wb partIdx partOff chunk =
    (let part = (case map_of (parts wb) partIdx of None \<Rightarrow> [] | Some p \<Rightarrow> p);
         neededLen = partOff + length chunk;
         neededLen' = (if partSize wb < neededLen then partSize wb else neededLen);
         wb = (if length part < neededLen
               then wb\<lparr>curMemory := curMemory wb + (int neededLen' - int (length part))\<rparr> else wb);
         part = (if length part < neededLen then zext neededLen' part else part)
     in wb\<lparr>parts := AList.update partIdx (overwrite part partOff chunk) (parts wb),
           dirtyParts := AList.update partIdx True (dirtyParts wb)\<rparr>)"

lemma partSize_ensurePart: "ensurePart wb i = Inr wb' \<Longrightarrow> partSize wb' = partSize wb"
  by (auto simp: ensurePart_def split: if_splits option.splits sum.splits)

lemma partSize_write_chunk [simp]: "partSize (write_chunk wb i off c) = partSize wb"
  by (simp add: write_chunk_def Let_def)

lemma loop_step_pos: "0 < (ps::nat) \<Longrightarrow> 0 < n \<Longrightarrow> 0 < min (ps - pos mod ps) n"
  by simp

lemma loop_step_decreases:
  "0 < (ps::nat) \<Longrightarrow> d < len \<Longrightarrow> len - (d + min (ps - pos mod ps) (len - d)) < len - d"
  using loop_step_pos [of ps "len - d" pos] by linarith

text \<open>The copy loop over the parts; the bytes copied so far survive a failed load.\<close>

function write_loop ::
  "write_buffer \<Rightarrow> nat \<Rightarrow> byte list \<Rightarrow> nat \<Rightarrow> write_buffer \<times> nat \<times> wb_error option" where
  "write_loop wb pos data dataOff =
    (if dataOff < length data then
       if partSize wb = 0 then (wb, dataOff, Some DivideByZero)
       else
         let partIdx = pos div partSize wb; partOff = pos mod partSize wb in
         case ensurePart wb partIdx of
           Inl e \<Rightarrow> (wb, dataOff, Some e)
         | Inr wb1 \<Rightarrow>
             let canWrite = min (partSize wb - partOff) (length data - dataOff);
                 wb2 = write_chunk wb1 partIdx partOff (take canWrite (drop dataOff data))
             in write_loop wb2 (pos + canWrite) data (dataOff + canWrite)
     else (wb, dataOff, None))"
  by pat_completeness auto
termination
  by (relation "measure (\<lambda>(wb, pos, data, dataOff). length data - dataOff)")
    (simp_all add: loop_step_decreases)

declare write_loop.simps [simp del]

text \<open>Sequential-write detection, shared by the two write paths.\<close>

definition advance_cursor :: "write_buffer \<Rightarrow> nat \<Rightarrow> nat \<Rightarrow> write_buffer" where
  "advance_cursor wb offset stop =
    (if offset = appendCursor wb then wb\<lparr>appendCursor := stop\<rparr>
     else if appendCursor wb < offset then wb\<lparr>appendCursor := stop\<rparr>
     else wb\<lparr>sequential := False\<rparr>)"

text \<open>
  The \<^verbatim>\<open>OnPartFull\<close> loop. The result lists the parts handed to the streaming uploader, with the
  bytes they had; the spill closure evicts instead.
\<close>

definition notify_part ::
  "on_part_full \<Rightarrow> write_buffer \<times> (nat \<times> byte list) list \<Rightarrow> nat \<Rightarrow> write_buffer \<times> (nat \<times> byte list) list" where
  "notify_part cb = (\<lambda>(wb, evs) p.
    if flag (uploadedParts wb) p then (wb, evs)
    else case map_of (parts wb) p of
      None \<Rightarrow> (wb, evs)
    | Some part \<Rightarrow>
        if length part = partSize wb then
          (case cb of
            SpillEvict \<Rightarrow> (EvictPart wb p, evs)
          | StreamSubmit \<Rightarrow> (wb, evs @ [(p, part)]))
        else (wb, evs))"

definition notify_full :: "write_buffer \<Rightarrow> nat \<Rightarrow> write_buffer \<times> (nat \<times> byte list) list" where
  "notify_full wb prevCursor =
    (case OnPartFull wb of
      None \<Rightarrow> (wb, [])
    | Some cb \<Rightarrow>
        if sequential wb \<and> prevCursor < appendCursor wb then
          foldl (notify_part cb) (wb, [])
            [prevCursor div partSize wb ..< appendCursor wb div partSize wb]
        else (wb, []))"

text \<open>What a write returns: the buffer, the number of bytes, the error and the submitted parts.\<close>

type_synonym write_result = "write_buffer \<times> nat \<times> wb_error option \<times> (nat \<times> byte list) list"

definition write_parts :: "write_buffer \<Rightarrow> nat \<Rightarrow> byte list \<Rightarrow> write_result" where
  "write_parts wb offset data =
    (let stop = offset + length data;
         wb = (if totalSize wb < stop then wb\<lparr>totalSize := stop\<rparr> else wb)
     in case write_loop wb offset data 0 of
       (wb, n, Some e) \<Rightarrow> (wb, n, Some e, [])
     | (wb, n, None) \<Rightarrow>
         let wb = wb\<lparr>touched := True\<rparr>;
             prevCursor = appendCursor wb;
             wb = advance_cursor wb offset stop;
             (wb, evs) = notify_full wb prevCursor
         in (wb, length data, None, evs))"

text \<open>The contiguous fast path, once the data is known to fit below the small-file cutoff.\<close>

definition write_contiguous :: "write_buffer \<Rightarrow> nat \<Rightarrow> byte list \<Rightarrow> write_buffer" where
  "write_contiguous wb offset data =
    (let stop = offset + length data;
         old = (case smallFileData wb of None \<Rightarrow> [] | Some d \<Rightarrow> d);
         needLen = max stop (totalSize wb);
         grown = (if length old < needLen then zext needLen old else old);
         wb = wb\<lparr>smallFileData := Some (overwrite grown offset data)\<rparr>;
         wb = (if totalSize wb < stop then wb\<lparr>totalSize := stop\<rparr> else wb);
         wb = wb\<lparr>touched := True, dirtyParts := AList.update 0 True (dirtyParts wb)\<rparr>
     in advance_cursor wb offset stop)"

definition use_fast_path :: "write_buffer \<Rightarrow> nat \<Rightarrow> bool" where
  "use_fast_path wb stop \<longleftrightarrow>
     smallFileData wb \<noteq> None \<or>
     (smallFileMax wb \<le> partSize wb \<and> parts wb = [] \<and> LoadPart wb = None \<and>
      stop \<le> smallFileMax wb \<and> totalSize wb \<le> smallFileMax wb)"

lemma migrate_fields [simp]:
  "smallFileData (migrateToPartMode wb) = None"
  "smallFileMax (migrateToPartMode wb) = smallFileMax wb"
  "maxSize (migrateToPartMode wb) = maxSize wb"
  "partSize (migrateToPartMode wb) = partSize wb"
  "totalSize (migrateToPartMode wb) = totalSize wb"
  "LoadPart (migrateToPartMode wb) = LoadPart wb"
  "remoteSize (migrateToPartMode wb) = remoteSize wb"
  "uploadedParts (migrateToPartMode wb) = uploadedParts wb"
  "dirtyParts (migrateToPartMode wb) = dirtyParts wb"
  "OnPartFull (migrateToPartMode wb) = OnPartFull wb"
  "appendCursor (migrateToPartMode wb) = appendCursor wb"
  "sequential (migrateToPartMode wb) = sequential wb"
  by (auto simp: migrateToPartMode_def split: option.splits)

text \<open>
  \<^verbatim>\<open>Write\<close> and \<^verbatim>\<open>writeSmallFile\<close> call each other: a small file that outgrows the cutoff migrates to
  parts and retries. The retry cannot take the fast path again, which is the termination proof.
\<close>

function (sequential) Write :: "write_buffer \<Rightarrow> nat \<Rightarrow> byte list \<Rightarrow> write_result"
  and writeSmallFile :: "write_buffer \<Rightarrow> nat \<Rightarrow> byte list \<Rightarrow> write_result" where
  "Write wb offset data =
    (if maxSize wb < offset + length data then (wb, 0, Some EFBIG, [])
     else if use_fast_path wb (offset + length data) then writeSmallFile wb offset data
     else write_parts wb offset data)"
| "writeSmallFile wb offset data =
    (if maxSize wb < offset + length data then (wb, 0, Some EFBIG, [])
     else if smallFileMax wb < offset + length data then
       Write (migrateToPartMode wb) offset data
     else (write_contiguous wb offset data, length data, None, []))"
  by pat_completeness auto
termination
  by (relation "measure (\<lambda>x. case x of
        Inl (wb, off, data) \<Rightarrow>
          (if smallFileData wb \<noteq> None then 4 else if off + length data \<le> smallFileMax wb then 2 else 0)
      | Inr (wb, off, data) \<Rightarrow> (if smallFileMax wb < off + length data then 3 else 1))")
    (auto simp: use_fast_path_def)

declare Write.simps [simp del] writeSmallFile.simps [simp del]

section \<open>Truncate\<close>

definition drop_parts :: "write_buffer \<Rightarrow> nat \<Rightarrow> write_buffer" where
  "drop_parts wb newPartCount =
    (let gone = filter (\<lambda>(idx, d). newPartCount \<le> idx) (parts wb) in
     wb\<lparr>curMemory := curMemory wb - sum_map (\<lambda>d. int (length d)) gone,
        parts := filter (\<lambda>(idx, d). \<not> newPartCount \<le> idx) (parts wb),
        dirtyParts := filter (\<lambda>(idx, b). \<not> mem_key gone idx) (dirtyParts wb)\<rparr>)"

definition cut_part :: "write_buffer \<Rightarrow> nat \<Rightarrow> nat \<Rightarrow> write_buffer" where
  "cut_part wb lastIdx partOff =
    (case map_of (parts wb) lastIdx of
      None \<Rightarrow> wb
    | Some part \<Rightarrow>
        if partOff < length part
        then wb\<lparr>curMemory := curMemory wb - (int (length part) - int partOff),
                parts := AList.update lastIdx (take partOff part) (parts wb)\<rparr>
        else wb)"

definition shrink_parts :: "write_buffer \<Rightarrow> nat \<Rightarrow> write_buffer" where
  "shrink_parts wb newSize =
    (let cur = totalSize wb;
         ps = partSize wb;
         wb1 = (if 0 < newSize then markDirty wb newSize cur else markDirty wb 0 cur);
         newPartCount = (newSize + ps - 1) div ps;
         wb2 = drop_parts wb1 newPartCount;
         wb3 = (if 0 < newSize \<and> 0 < newPartCount
                then cut_part wb2 (newPartCount - 1) (newSize - (newPartCount - 1) * ps) else wb2);
         wb4 = (if 0 < newSize \<and> newSize mod ps = 0 \<and> 0 < newPartCount
                then wb3\<lparr>dirtyParts := AList.update (newPartCount - 1) True (dirtyParts wb3)\<rparr> else wb3)
     in wb4\<lparr>totalSize := newSize\<rparr>)"

function Truncate :: "write_buffer \<Rightarrow> int \<Rightarrow> wb_error + write_buffer" where
  "Truncate wb newSize =
    (if int (maxSize wb) < newSize then Inl EFBIG
     else
       let n = nat newSize; wb = wb\<lparr>touched := True\<rparr>; cur = totalSize wb in
       if n < cur then
         (case smallFileData wb of
           Some d \<Rightarrow> Inr (wb\<lparr>smallFileData := Some (take n d), totalSize := n,
                            dirtyParts := AList.update 0 True (dirtyParts wb)\<rparr>)
         | None \<Rightarrow> Inr (shrink_parts wb n))
       else if cur < n then
         (case smallFileData wb of
           Some d \<Rightarrow>
             if n \<le> smallFileMax wb then
               Inr (wb\<lparr>smallFileData := Some (zext n d), totalSize := n,
                       dirtyParts := AList.update 0 True (dirtyParts wb)\<rparr>)
             else Truncate (migrateToPartMode wb) newSize
         | None \<Rightarrow> Inr ((markDirty wb cur n)\<lparr>totalSize := n\<rparr>))
       else Inr wb)"
  by pat_completeness auto
termination
  by (relation "measure (\<lambda>(wb, newSize). if smallFileData wb = None then 0 else 1)") auto

declare Truncate.simps [simp del]

section \<open>Reading\<close>

definition smallFileBytes :: "write_buffer \<Rightarrow> byte list option" where
  "smallFileBytes wb =
    (case smallFileData wb of
      None \<Rightarrow> None
    | Some d \<Rightarrow> if totalSize wb < length d then Some (take (totalSize wb) d) else Some d)"

definition Bytes :: "write_buffer \<Rightarrow> byte list" where
  "Bytes wb =
    (if totalSize wb = 0 then []
     else case smallFileBytes wb of
       Some data \<Rightarrow> overwrite (replicate (totalSize wb) 0) 0 data
     | None \<Rightarrow>
         foldl (\<lambda>buf i. case map_of (parts wb) i of
             None \<Rightarrow> buf
           | Some part \<Rightarrow> overwrite buf (i * partSize wb) part)
           (replicate (totalSize wb) 0)
           [0 ..< (totalSize wb + partSize wb - 1) div partSize wb])"

definition bytesView :: "write_buffer \<Rightarrow> byte list" where
  "bytesView wb =
    (if totalSize wb = 0 then []
     else case smallFileBytes wb of Some data \<Rightarrow> data | None \<Rightarrow> Bytes wb)"

text \<open>\<^verbatim>\<open>PartData\<close> of the 0-based index \<^term>\<open>i\<close> (the source's \<^verbatim>\<open>partNum - 1\<close>).\<close>

definition PartData :: "write_buffer \<Rightarrow> nat \<Rightarrow> byte list option" where
  "PartData wb i =
    (let start = i * partSize wb in
     if totalSize wb \<le> start then None
     else case smallFileBytes wb of
       Some data \<Rightarrow>
         (if i \<noteq> 0 then None
          else let stop = min (partSize wb) (totalSize wb) in
            Some (if length data < stop then zext stop data else take stop data))
     | None \<Rightarrow>
         let expectedLen = min (start + partSize wb) (totalSize wb) - start in
         case map_of (parts wb) i of
           None \<Rightarrow> Some (replicate expectedLen 0)
         | Some part \<Rightarrow>
             Some (if length part < expectedLen then zext expectedLen part else take expectedLen part))"

text \<open>The loop of \<^verbatim>\<open>ReadAt\<close>, collecting \<^term>\<open>n\<close> bytes from \<^term>\<open>pos\<close> on.\<close>

function read_loop :: "write_buffer \<Rightarrow> nat \<Rightarrow> nat \<Rightarrow> byte list" where
  "read_loop wb pos n =
    (if n = 0 \<or> partSize wb = 0 then []
     else
       let partIdx = pos div partSize wb; partOff = pos mod partSize wb;
           canRead = min (partSize wb - partOff) n
       in (case map_of (parts wb) partIdx of
             Some part \<Rightarrow>
               if length part < partOff + canRead then
                 if partOff < length part then zext canRead (drop partOff part)
                 else replicate canRead 0
               else take canRead (drop partOff part)
           | None \<Rightarrow> replicate canRead 0)
          @ read_loop wb (pos + canRead) (n - canRead))"
  by pat_completeness auto
termination
  by (relation "measure (\<lambda>(wb, pos, n). n)") (simp_all add: diff_less)

declare read_loop.simps [simp del]

text \<open>\<^verbatim>\<open>ReadAt\<close> returns the bytes it stored in the caller's slice of length \<^term>\<open>len\<close>.\<close>

definition ReadAt :: "write_buffer \<Rightarrow> nat \<Rightarrow> nat \<Rightarrow> byte list" where
  "ReadAt wb offset len =
    (if totalSize wb \<le> offset then []
     else let total = min (offset + len) (totalSize wb) - offset in
       if total = 0 then []
       else case smallFileBytes wb of
         Some data \<Rightarrow> take total (drop offset data)
       | None \<Rightarrow> read_loop wb offset total)"

definition IsPartLoaded :: "write_buffer \<Rightarrow> nat \<Rightarrow> bool" where
  "IsPartLoaded wb partIdx =
    (if smallFileData wb \<noteq> None then partIdx = 0 else mem_key (parts wb) partIdx)"

definition CanMaterializeFull :: "write_buffer \<Rightarrow> bool" where
  "CanMaterializeFull wb =
    (if smallFileData wb \<noteq> None then True
     else
       let covered = min (remoteSize wb) (totalSize wb) in
       if covered = 0 then True
       else list_all (IsPartLoaded wb) [0 ..< (covered + partSize wb - 1) div partSize wb])"

section \<open>Bookkeeping\<close>

definition HasDirtyParts :: "write_buffer \<Rightarrow> bool" where
  "HasDirtyParts wb \<longleftrightarrow> touched wb \<or> list_ex (\<lambda>(i, d). d) (dirtyParts wb)"

definition DirtyPartNumbers :: "write_buffer \<Rightarrow> nat list" where
  "DirtyPartNumbers wb = map (\<lambda>(i, d). i + 1) (filter (\<lambda>(i, d). d) (dirtyParts wb))"

definition MarkAllDirty :: "write_buffer \<Rightarrow> write_buffer" where
  "MarkAllDirty wb =
    (if smallFileData wb \<noteq> None then wb\<lparr>dirtyParts := [(0, True)], touched := True\<rparr>
     else wb\<lparr>dirtyParts := map (\<lambda>i. (i, True)) [0 ..< (totalSize wb + partSize wb - 1) div partSize wb]\<rparr>)"

definition Reset :: "write_buffer \<Rightarrow> write_buffer" where
  "Reset wb = wb\<lparr>parts := [], dirtyParts := [], totalSize := 0, curMemory := 0, smallFileData := None\<rparr>"

definition ClearDirty :: "write_buffer \<Rightarrow> write_buffer" where
  "ClearDirty wb = wb\<lparr>dirtyParts := [], touched := False\<rparr>"

definition ResetSequentialState :: "write_buffer \<Rightarrow> nat \<Rightarrow> write_buffer" where
  "ResetSequentialState wb newSize = wb\<lparr>appendCursor := newSize, sequential := True\<rparr>"

definition DirtyStreamedParts :: "write_buffer \<Rightarrow> (nat, byte list) gomap" where
  "DirtyStreamedParts wb =
    foldl (\<lambda>res (idx, b).
        if \<not> flag (dirtyParts wb) idx then res
        else case PartData wb idx of
          None \<Rightarrow> res
        | Some data \<Rightarrow> AList.update (idx + 1) data res)
      [] (uploadedParts wb)"

end
