(* ===== verification/Write_Image.thy ===== *)
theory Write_Image
  imports Write_Buffer
begin

text \<open>
  Correctness of the write buffer against the flat file it stands for. \<^verbatim>\<open>raw\<close> reads the byte the
  buffer stands for at a position: from the contiguous data, from a part in memory, zero for an
  evicted part (its bytes are in the shadow file or at the uploader), from the remote file for a part
  not yet loaded. The mutating operations are shown to act on \<^verbatim>\<open>raw\<close> and the size as a flat array
  does, and the reading operations to return it.
\<close>

section \<open>The image\<close>

definition remote_byte :: "write_buffer \<Rightarrow> nat \<Rightarrow> byte" where
  "remote_byte wb i =
    (case LoadPart wb of
      None \<Rightarrow> 0
    | Some load \<Rightarrow>
        if (i div partSize wb) * partSize wb < remoteSize wb then
          (case load (i div partSize wb + 1) of
            Inl e \<Rightarrow> 0 | Inr d \<Rightarrow> byte_at d (i mod partSize wb))
        else 0)"

definition raw :: "write_buffer \<Rightarrow> nat \<Rightarrow> byte" where
  "raw wb i =
    (case smallFileData wb of
      Some d \<Rightarrow> byte_at d i
    | None \<Rightarrow>
        (case map_of (parts wb) (i div partSize wb) of
          Some d \<Rightarrow> byte_at d (i mod partSize wb)
        | None \<Rightarrow> if flag (uploadedParts wb) (i div partSize wb) then 0 else remote_byte wb i))"

definition wb_image :: "write_buffer \<Rightarrow> byte list" where
  "wb_image wb = map (raw wb) [0 ..< totalSize wb]"

text \<open>The representation invariant of the type.\<close>

definition wb_inv :: "write_buffer \<Rightarrow> bool" where
  "wb_inv wb \<longleftrightarrow>
     0 < partSize wb \<and> wf_map (parts wb) \<and> wf_map (dirtyParts wb) \<and>
     list_all (\<lambda>(i, d). length d \<le> partSize wb) (parts wb) \<and>
     curMemory wb = sum_map (\<lambda>d. int (length d)) (parts wb) \<and>
     (case smallFileData wb of
       None \<Rightarrow> True
     | Some d \<Rightarrow> parts wb = [] \<and> LoadPart wb = None \<and> smallFileMax wb \<le> partSize wb \<and>
         length d = totalSize wb \<and> totalSize wb \<le> smallFileMax wb)"

text \<open>
  The loader returns at most a part and nothing beyond the end of the remote file: the closure of
  \<^verbatim>\<open>dat9fs.go\<close> asks for \<^verbatim>\<open>min(partSize, stat.Size - offset)\<close> bytes.
\<close>

definition load_bounded :: "write_buffer \<Rightarrow> bool" where
  "load_bounded wb \<longleftrightarrow>
     (\<forall>load n d. LoadPart wb = Some load \<longrightarrow> load n = Inr d \<longrightarrow>
        length d \<le> partSize wb \<and> (n - 1) * partSize wb + length d \<le> max ((n - 1) * partSize wb) (remoteSize wb))"

text \<open>Nothing but zeroes lies beyond the end of the file: what a later extension will expose.\<close>

definition tail_zero :: "write_buffer \<Rightarrow> bool" where
  "tail_zero wb \<longleftrightarrow> (\<forall>i\<ge>totalSize wb. raw wb i = 0)"

section \<open>Arithmetic of parts\<close>

lemma div_eq_iff_range: "0 < (ps::nat) \<Longrightarrow> i div ps = p \<longleftrightarrow> p * ps \<le> i \<and> i < p * ps + ps"
proof -
  assume ps: "0 < ps"
  have "i div ps = p \<longleftrightarrow> p \<le> i div ps \<and> i div ps < Suc p" by linarith
  then show ?thesis
    by (simp only: less_eq_div_iff_mult_less_eq [OF ps] div_less_iff_less_mult [OF ps]) (simp add: add.commute)
qed

lemma mod_in_part: "0 < (ps::nat) \<Longrightarrow> i div ps = p \<Longrightarrow> i mod ps = i - p * ps"
  by (metis modulo_nat_def)

lemma ceil_div_le: "0 < (ps::nat) \<Longrightarrow> (n + ps - 1) div ps \<le> p \<longleftrightarrow> n \<le> p * ps"
proof -
  assume ps: "0 < ps"
  have "(n + ps - 1) div ps \<le> p \<longleftrightarrow> (n + ps - 1) div ps < Suc p" by (rule less_Suc_eq_le [symmetric])
  also have "\<dots> \<longleftrightarrow> n + ps - 1 < Suc p * ps" by (rule div_less_iff_less_mult [OF ps])
  also have "\<dots> \<longleftrightarrow> n \<le> p * ps" using ps by (simp, linarith)
  finally show ?thesis .
qed

lemma less_ceil_div: "0 < (ps::nat) \<Longrightarrow> p < (n + ps - 1) div ps \<longleftrightarrow> p * ps < n"
  using ceil_div_le [of ps n p] by linarith

lemma byte_at_overwrite:
  assumes "off + length c \<le> length buf"
  shows "byte_at (overwrite buf off c) j =
    (if off \<le> j \<and> j < off + length c then c ! (j - off) else byte_at buf j)"
  using assms by (auto simp: byte_at_def nth_overwrite)

lemma byte_at_append: "byte_at (xs @ ys) i = (if i < length xs then xs ! i else byte_at ys (i - length xs))"
  by (auto simp: byte_at_def nth_append)

lemma byte_at_replicate [simp]: "byte_at (replicate n 0) i = 0"
  by (simp add: byte_at_def)

lemma byte_at_drop: "byte_at (drop n xs) i = byte_at xs (n + i)"
  by (auto simp: byte_at_def)

section \<open>One part\<close>

definition frame :: "write_buffer \<Rightarrow> write_buffer" where
  "frame wb = wb\<lparr>parts := [], dirtyParts := [], curMemory := 0\<rparr>"

lemma frame_eqD:
  assumes "frame wb' = frame wb"
  shows "partSize wb' = partSize wb" "totalSize wb' = totalSize wb" "maxSize wb' = maxSize wb"
    "smallFileMax wb' = smallFileMax wb" "LoadPart wb' = LoadPart wb" "remoteSize wb' = remoteSize wb"
    "uploadedParts wb' = uploadedParts wb" "OnPartFull wb' = OnPartFull wb"
    "smallFileData wb' = smallFileData wb" "appendCursor wb' = appendCursor wb"
    "sequential wb' = sequential wb" "touched wb' = touched wb"
  using assms by (cases wb, cases wb', simp add: frame_def)+

lemma frame_ensurePart: "ensurePart wb p = Inr wb' \<Longrightarrow> frame wb' = frame wb"
  by (auto simp: ensurePart_def frame_def split: if_splits option.splits sum.splits)

lemma frame_write_chunk [simp]: "frame (write_chunk wb p off c) = frame wb"
  by (simp add: write_chunk_def Let_def frame_def)

lemma remote_byte_frame:
  assumes "frame wb' = frame wb"
  shows "remote_byte wb' = remote_byte wb"
  by (rule ext) (simp only: remote_byte_def frame_eqD [OF assms])

lemma remote_byte_upd [simp]:
  "remote_byte (wb\<lparr>parts := m\<rparr>) = remote_byte wb" "remote_byte (wb\<lparr>curMemory := c\<rparr>) = remote_byte wb"
  by (rule remote_byte_frame, simp add: frame_def)+

lemma raw_load:
  assumes "smallFileData wb = None" "map_of (parts wb) p = None"
    and "\<And>i. i div partSize wb = p \<Longrightarrow>
      byte_at d (i mod partSize wb) = (if flag (uploadedParts wb) p then 0 else remote_byte wb i)"
  shows "raw (wb\<lparr>parts := AList.update p d (parts wb)\<rparr>) = raw wb"
proof
  fix i
  show "raw (wb\<lparr>parts := AList.update p d (parts wb)\<rparr>) i = raw wb i"
    using assms by (cases "i div partSize wb = p") (simp_all add: raw_def cong: option.case_cong)
qed

lemma raw_curMemory [simp]: "raw (wb\<lparr>curMemory := c\<rparr>) = raw wb"
  by (rule ext) (simp add: raw_def cong: option.case_cong)

lemma ensurePart_cases:
  assumes "ensurePart wb p = Inr wb'"
  obtains (same) "wb' = wb" "smallFileData wb \<noteq> None \<or> mem_key (parts wb) p"
    | (load) d where "smallFileData wb = None" "map_of (parts wb) p = None"
      "wb' = wb\<lparr>parts := AList.update p d (parts wb)\<rparr>\<lparr>curMemory := curMemory wb + int (length d)\<rparr>"
      "\<And>i. i div partSize wb = p \<Longrightarrow>
         byte_at d (i mod partSize wb) = (if flag (uploadedParts wb) p then 0 else remote_byte wb i)"
      "load_bounded wb \<Longrightarrow> length d \<le> partSize wb"
proof (cases "smallFileData wb \<noteq> None \<or> mem_key (parts wb) p")
  case True
  with assms have "wb' = wb" by (simp add: ensurePart_def split: if_splits)
  with True show ?thesis by (intro same)
next
  case False
  then have s: "smallFileData wb = None" and m: "map_of (parts wb) p = None" by (auto simp: mem_key_def)
  have upd0: "wb\<lparr>parts := q\<rparr> = wb\<lparr>parts := q\<rparr>\<lparr>curMemory := curMemory wb\<rparr>" for q by simp
  consider (evicted) "flag (uploadedParts wb) p"
      "wb' = wb\<lparr>parts := AList.update p (replicate (partSize wb) 0) (parts wb)\<rparr>
               \<lparr>curMemory := curMemory wb + int (partSize wb)\<rparr>"
    | (loaded) f d where "\<not> flag (uploadedParts wb) p" "LoadPart wb = Some f"
      "p * partSize wb < remoteSize wb" "f (p + 1) = Inr d"
      "wb' = wb\<lparr>parts := AList.update p d (parts wb)\<rparr>\<lparr>curMemory := curMemory wb + int (length d)\<rparr>"
    | (fresh) "\<not> flag (uploadedParts wb) p" "LoadPart wb = None \<or> \<not> p * partSize wb < remoteSize wb"
      "wb' = wb\<lparr>parts := AList.update p [] (parts wb)\<rparr>"
    using assms False by (auto simp: ensurePart_def split: if_splits option.splits sum.splits)
  then show ?thesis
  proof cases
    case evicted
    then show ?thesis by (intro load [OF s m, of "replicate (partSize wb) 0"]) simp_all
  next
    case loaded
    then show ?thesis by (intro load [OF s m, of d]) (simp_all add: remote_byte_def load_bounded_def)
  next
    case fresh
    then show ?thesis
      by (intro load [OF s m, of "[]"]) (auto simp: remote_byte_def split: option.splits)
  qed
qed

lemma ensurePart_raw: "ensurePart wb p = Inr wb' \<Longrightarrow> raw wb' = raw wb"
  by (erule ensurePart_cases) (simp_all add: raw_load)

lemma ensurePart_loaded:
  "ensurePart wb p = Inr wb' \<Longrightarrow> smallFileData wb = None \<Longrightarrow> mem_key (parts wb') p"
  by (auto simp: ensurePart_def split: if_splits option.splits sum.splits)

lemma ensurePart_keys:
  "ensurePart wb p = Inr wb' \<Longrightarrow> smallFileData wb = None \<Longrightarrow>
    mem_key (parts wb') q \<longleftrightarrow> mem_key (parts wb) q \<or> q = p"
  by (auto simp: ensurePart_def split: if_splits option.splits sum.splits)

lemma ensurePart_dirty: "ensurePart wb p = Inr wb' \<Longrightarrow> dirtyParts wb' = dirtyParts wb"
  by (auto simp: ensurePart_def split: if_splits option.splits sum.splits)

lemma list_all_update:
  "list_all (\<lambda>(i, d). Q i d) m \<Longrightarrow> Q k v \<Longrightarrow> list_all (\<lambda>(i, d). Q i d) (AList.update k v m)"
  by (induction m) auto

lemma list_all_delete: "list_all P m \<Longrightarrow> list_all P (AList.delete k m)"
  by (auto simp: AList.delete_eq list_all_iff)

lemma list_all_map_of: "list_all (\<lambda>(i, d). Q i d) m \<Longrightarrow> map_of m k = Some v \<Longrightarrow> Q k v"
  by (auto simp: list_all_iff dest!: map_of_SomeD)

lemma mem_key_None: "\<not> mem_key m k \<longleftrightarrow> map_of m k = None"
  by (simp add: mem_key_def)

lemma ensurePart_inv:
  assumes "ensurePart wb p = Inr wb'" "wb_inv wb" "load_bounded wb"
  shows "wb_inv wb'"
  using assms(1)
proof (cases rule: ensurePart_cases)
  case (load d)
  with assms(2,3) show ?thesis by (simp add: wb_inv_def sum_map_update list_all_update)
qed (simp add: assms(2))

lemma load_bounded_frame: "frame wb' = frame wb \<Longrightarrow> load_bounded wb' = load_bounded wb"
  using frame_eqD [of wb' wb] by (simp add: load_bounded_def)

definition the_part :: "write_buffer \<Rightarrow> nat \<Rightarrow> byte list" where
  "the_part wb p = (case map_of (parts wb) p of None \<Rightarrow> [] | Some d \<Rightarrow> d)"

definition new_part :: "write_buffer \<Rightarrow> nat \<Rightarrow> nat \<Rightarrow> byte list \<Rightarrow> byte list" where
  "new_part wb p off c =
    overwrite (if length (the_part wb p) < off + length c then zext (off + length c) (the_part wb p)
            else the_part wb p) off c"

lemma write_chunk_parts:
  assumes "off + length c \<le> partSize wb"
  shows "parts (write_chunk wb p off c) = AList.update p (new_part wb p off c) (parts wb)"
    and "dirtyParts (write_chunk wb p off c) = AList.update p True (dirtyParts wb)"
  using assms by (auto simp: write_chunk_def new_part_def the_part_def Let_def)

lemma length_new_part: "length (new_part wb p off c) = max (length (the_part wb p)) (off + length c)"
  by (simp add: new_part_def)

lemma byte_at_new_part:
  "byte_at (new_part wb p off c) j =
    (if off \<le> j \<and> j < off + length c then c ! (j - off) else byte_at (the_part wb p) j)"
  by (auto simp: new_part_def byte_at_overwrite) (simp add: byte_at_def)

lemma write_chunk_raw:
  assumes "0 < partSize wb" "smallFileData wb = None" "off + length c \<le> partSize wb"
    "mem_key (parts wb) p"
  shows "raw (write_chunk wb p off c) i =
    (if p * partSize wb + off \<le> i \<and> i < p * partSize wb + off + length c
     then c ! (i - (p * partSize wb + off)) else raw wb i)"
proof -
  let ?wb' = "write_chunk wb p off c"
  have fr: "frame ?wb' = frame wb" by simp
  note fr' = frame_eqD [OF fr] remote_byte_frame [OF fr]
  obtain d where d: "map_of (parts wb) p = Some d" using assms(4) by (auto simp: mem_key_def)
  show ?thesis
  proof (cases "i div partSize wb = p")
    case True
    then have m: "i mod partSize wb = i - p * partSize wb" "p * partSize wb \<le> i"
      using mod_in_part [OF assms(1) True] div_eq_iff_range [OF assms(1)] by auto
    show ?thesis
      using assms(2) d True m
      by (simp add: raw_def fr' write_chunk_parts(1) [OF assms(3)] byte_at_new_part the_part_def) linarith
  next
    case False
    then have "\<not> (p * partSize wb + off \<le> i \<and> i < p * partSize wb + off + length c)"
      using assms(3) div_eq_iff_range [OF assms(1), of i p] by auto
    then have "(if p * partSize wb + off \<le> i \<and> i < p * partSize wb + off + length c
        then c ! (i - (p * partSize wb + off)) else raw wb i) = raw wb i" by (rule if_not_P)
    with False show ?thesis
      using assms(2) by (simp add: raw_def fr' write_chunk_parts(1) [OF assms(3)] cong: option.case_cong)
  qed
qed

lemma write_chunk_inv:
  assumes "wb_inv wb" "smallFileData wb = None" "off + length c \<le> partSize wb" "mem_key (parts wb) p"
  shows "wb_inv (write_chunk wb p off c)"
proof -
  obtain d where d: "map_of (parts wb) p = Some d" using assms(4) by (auto simp: mem_key_def)
  have fr: "frame (write_chunk wb p off c) = frame wb" by simp
  have "length d \<le> partSize wb"
    using assms(1) d by (auto simp: wb_inv_def dest: list_all_map_of [where Q = "\<lambda>i d. length d \<le> partSize wb"])
  then have len: "length (new_part wb p off c) \<le> partSize wb"
    using assms(3) d by (simp add: length_new_part the_part_def)
  have mem: "curMemory (write_chunk wb p off c) =
      curMemory wb + int (length (new_part wb p off c)) - int (length d)"
    using assms(3) d by (simp add: write_chunk_def Let_def length_new_part the_part_def)
  show ?thesis
    using assms(1,2) len
    by (auto simp: wb_inv_def frame_eqD [OF fr] write_chunk_parts [OF assms(3)] mem sum_map_update d
        intro!: list_all_update)
qed

section \<open>The copy loop\<close>

lemma write_loop_frame: "write_loop wb pos data k = (wb', n, err) \<Longrightarrow> frame wb' = frame wb"
proof (induction wb pos data k rule: write_loop.induct)
  case (1 wb pos data k)
  show ?case
    using 1(2) frame_ensurePart
    by (subst (asm) write_loop.simps)
      (force simp: Let_def dest: "1.IH" split: if_splits sum.splits)
qed

text \<open>
  \<^verbatim>\<open>copied wb wb' pos data k n\<close>: the step from \<^verbatim>\<open>wb\<close> to \<^verbatim>\<open>wb'\<close> stored the bytes \<^verbatim>\<open>data[k:n]\<close> at
  \<^verbatim>\<open>pos\<close>, changed no other byte, and loaded and marked exactly the parts it touched.
\<close>

definition copied ::
  "write_buffer \<Rightarrow> write_buffer \<Rightarrow> nat \<Rightarrow> byte list \<Rightarrow> nat \<Rightarrow> nat \<Rightarrow> bool" where
  "copied wb wb' pos data k n \<longleftrightarrow>
    (\<forall>i. raw wb' i = (if pos \<le> i \<and> i < pos + (n - k) then data ! (k + (i - pos)) else raw wb i)) \<and>
    (\<forall>p. flag (dirtyParts wb') p \<longleftrightarrow>
       flag (dirtyParts wb) p \<or> (\<exists>i. pos \<le> i \<and> i < pos + (n - k) \<and> i div partSize wb = p)) \<and>
    (\<forall>p. mem_key (parts wb') p \<longleftrightarrow>
       mem_key (parts wb) p \<or> (\<exists>i. pos \<le> i \<and> i < pos + (n - k) \<and> i div partSize wb = p))"

lemma copied_refl: "copied wb wb pos data k k"
  by (auto simp: copied_def)

lemma copied_trans:
  assumes "copied wb wb2 pos data k m" "copied wb2 wb' (pos + (m - k)) data m n"
    "k \<le> m" "m \<le> n" "partSize wb2 = partSize wb"
  shows "copied wb wb' pos data k n"
proof -
  have cover: "(\<exists>i. pos \<le> i \<and> i < pos + (m - k) \<and> i div partSize wb = p) \<or>
      (\<exists>i. pos + (m - k) \<le> i \<and> i < pos + (m - k) + (n - m) \<and> i div partSize wb = p) \<longleftrightarrow>
      (\<exists>i. pos \<le> i \<and> i < pos + (n - k) \<and> i div partSize wb = p)" (is "?A \<or> ?B \<longleftrightarrow> ?C") for p
  proof
    assume "?A \<or> ?B"
    then obtain i where "pos \<le> i \<and> i < pos + (n - k) \<and> i div partSize wb = p"
      using assms(3,4) by fastforce
    then show ?C by blast
  next
    assume ?C
    then obtain i where i: "pos \<le> i \<and> i < pos + (n - k) \<and> i div partSize wb = p" ..
    then show "?A \<or> ?B" using assms(3,4) by (cases "i < pos + (m - k)") (auto intro!: exI [of _ i])
  qed
  have "raw wb' i = (if pos \<le> i \<and> i < pos + (n - k) then data ! (k + (i - pos)) else raw wb i)" for i
    using assms(1-4) by (auto simp: copied_def intro!: arg_cong [where f = "nth data"])
  moreover have "flag (dirtyParts wb') p \<longleftrightarrow>
       flag (dirtyParts wb) p \<or> (\<exists>i. pos \<le> i \<and> i < pos + (n - k) \<and> i div partSize wb = p)" for p
    using assms(1,2,5) cover [of p] by (simp add: copied_def)
  moreover have "mem_key (parts wb') p \<longleftrightarrow>
       mem_key (parts wb) p \<or> (\<exists>i. pos \<le> i \<and> i < pos + (n - k) \<and> i div partSize wb = p)" for p
    using assms(1,2,5) cover [of p] by (simp add: copied_def)
  ultimately show ?thesis by (simp add: copied_def)
qed

lemma write_step:
  assumes ens: "ensurePart wb (pos div partSize wb) = Inr wb1" and inv: "wb_inv wb" "load_bounded wb"
    and small: "smallFileData wb = None" and k: "k < length data"
    and c: "c = min (partSize wb - pos mod partSize wb) (length data - k)"
    and wb2: "wb2 = write_chunk wb1 (pos div partSize wb) (pos mod partSize wb) (take c (drop k data))"
  shows "frame wb2 = frame wb" "wb_inv wb2" "copied wb wb2 pos data k (k + c)"
proof -
  let ?p = "pos div partSize wb" and ?o = "pos mod partSize wb" and ?chunk = "take c (drop k data)"
  have ps: "0 < partSize wb" using inv(1) by (simp add: wb_inv_def)
  have fr1: "frame wb1 = frame wb" by (rule frame_ensurePart [OF ens])
  note f1 = frame_eqD [OF fr1]
  have c0: "0 < c" using loop_step_pos [OF ps, of "length data - k" pos] k c by simp
  have lc: "length ?chunk = c" using k c by simp
  have "?o \<le> partSize wb" using ps by (simp add: less_imp_le)
  then have "?o + c \<le> partSize wb" unfolding c by linarith
  then have fits: "?o + length ?chunk \<le> partSize wb1" unfolding lc f1 .
  have loaded: "mem_key (parts wb1) ?p" by (rule ensurePart_loaded [OF ens small])
  have s1: "smallFileData wb1 = None" using small by (simp add: f1)
  show "frame wb2 = frame wb" using fr1 wb2 by simp
  show "wb_inv wb2"
    unfolding wb2 by (rule write_chunk_inv [OF ensurePart_inv [OF ens inv] s1 fits loaded])
  have at: "?p * partSize wb + ?o = pos" by simp
  have raw2: "raw wb2 i = (if pos \<le> i \<and> i < pos + c then data ! (k + (i - pos)) else raw wb i)" for i
  proof -
    have "raw wb2 i = (if pos \<le> i \<and> i < pos + c then ?chunk ! (i - pos) else raw wb i)"
      using write_chunk_raw [OF _ s1 fits loaded, of i] ps
      unfolding lc f1 at ensurePart_raw [OF ens] wb2 by simp
    moreover have "?chunk ! (i - pos) = data ! (k + (i - pos))" if "i - pos < c"
      using that lc by simp
    ultimately show ?thesis by auto
  qed
  have "(\<exists>i. pos \<le> i \<and> i < pos + c \<and> i div partSize wb = p) \<longleftrightarrow> p = ?p" for p
  proof
    assume "\<exists>i. pos \<le> i \<and> i < pos + c \<and> i div partSize wb = p"
    then obtain i where i: "pos \<le> i" "i < pos + c" "i div partSize wb = p" by blast
    have "?p * partSize wb \<le> i \<and> i < ?p * partSize wb + partSize wb"
      using i(1,2) fits at unfolding lc f1 by linarith
    with div_eq_iff_range [OF ps] i(3) show "p = ?p" by blast
  qed (use c0 in \<open>auto intro: exI [of _ pos]\<close>)
  moreover have "flag (dirtyParts wb2) p \<longleftrightarrow> flag (dirtyParts wb) p \<or> p = ?p" for p
    by (auto simp: wb2 write_chunk_parts(2) [OF fits] ensurePart_dirty [OF ens] flag_def)
  moreover have "mem_key (parts wb2) p \<longleftrightarrow> mem_key (parts wb) p \<or> p = ?p" for p
    using ensurePart_keys [OF ens small] by (auto simp: wb2 write_chunk_parts(1) [OF fits])
  ultimately show "copied wb wb2 pos data k (k + c)" using raw2 by (simp add: copied_def)
qed

text \<open>
  The loop copies the bytes up to the count it returns, and returns without an error only when
  everything has been copied.
\<close>

lemma write_loop_spec:
  assumes "write_loop wb pos data k = (wb', n, err)" "wb_inv wb" "load_bounded wb"
    "smallFileData wb = None" "k \<le> length data"
  shows "wb_inv wb' \<and> k \<le> n \<and> n \<le> length data \<and> (err = None \<longrightarrow> n = length data) \<and>
    copied wb wb' pos data k n"
  using assms
proof (induction wb pos data k rule: write_loop.induct)
  case (1 wb pos data k)
  have ps: "0 < partSize wb" using "1.prems"(2) by (simp add: wb_inv_def)
  show ?case
  proof (cases "k < length data")
    case False
    with "1.prems"(1,2,5) show ?thesis by (auto simp: write_loop.simps copied_refl)
  next
    case True
    show ?thesis
    proof (cases "ensurePart wb (pos div partSize wb)")
      case (Inl e)
      with "1.prems" True ps show ?thesis by (auto simp: write_loop.simps Let_def copied_refl)
    next
      case (Inr wb1)
      define c where "c = min (partSize wb - pos mod partSize wb) (length data - k)"
      define wb2 where
        "wb2 = write_chunk wb1 (pos div partSize wb) (pos mod partSize wb) (take c (drop k data))"
      note step = write_step [OF Inr "1.prems"(2-4) True c_def wb2_def]
      note f2 = frame_eqD [OF step(1)]
      have rest: "write_loop wb2 (pos + c) data (k + c) = (wb', n, err)"
        using "1.prems"(1) True ps Inr
        by (subst (asm) write_loop.simps) (simp add: Let_def c_def wb2_def)
      have ih: "wb_inv wb' \<and> k + c \<le> n \<and> n \<le> length data \<and> (err = None \<longrightarrow> n = length data) \<and>
          copied wb2 wb' (pos + c) data (k + c) n"
        using rest "1.prems"(3,4) True step(2) load_bounded_frame [OF step(1)]
        by (intro "1.IH" [OF True _ refl refl Inr c_def wb2_def]) (use ps f2 in \<open>auto simp: c_def\<close>)
      have "copied wb wb' pos data k n"
        using ih f2(1) by (intro copied_trans [OF step(3)]) auto
      with ih show ?thesis by auto
    qed
  qed
qed

section \<open>Mode switch and fast path\<close>

lemma raw_no_parts:
  "smallFileData wb = None \<Longrightarrow> parts wb = [] \<Longrightarrow> LoadPart wb = None \<Longrightarrow> raw wb i = 0"
  by (simp add: raw_def remote_byte_def)

lemma migrate_raw:
  assumes "wb_inv wb" "smallFileData wb = Some d"
  shows "raw (migrateToPartMode wb) = raw wb"
proof
  fix i
  from assms have inv: "parts wb = []" "LoadPart wb = None" "length d \<le> partSize wb" "0 < partSize wb"
    by (auto simp: wb_inv_def)
  have "remote_byte (migrateToPartMode wb) i = 0" using inv(2) by (simp add: remote_byte_def)
  moreover have "byte_at d i = 0" if "i div partSize wb \<noteq> 0"
    using that inv(3,4) by (simp add: byte_at_def div_eq_0_iff)
  moreover have "i mod partSize wb = i" if "i div partSize wb = 0"
    using that by (metis mod_div_trivial mod_mult_div_eq mult_0_right add.right_neutral)
  ultimately show "raw (migrateToPartMode wb) i = raw wb i"
    using assms(2) inv(1) by (cases "d = []") (auto simp: raw_def migrateToPartMode_def byte_at_def)
qed

lemma migrate_inv: "wb_inv wb \<Longrightarrow> wb_inv (migrateToPartMode wb)"
  by (auto simp: wb_inv_def migrateToPartMode_def split: option.splits)

lemma load_bounded_migrate [simp]: "load_bounded (migrateToPartMode wb) = load_bounded wb"
  by (simp add: load_bounded_def)

lemma advance_cursor_fields [simp]:
  "parts (advance_cursor wb a b) = parts wb" "dirtyParts (advance_cursor wb a b) = dirtyParts wb"
  "partSize (advance_cursor wb a b) = partSize wb" "totalSize (advance_cursor wb a b) = totalSize wb"
  "smallFileMax (advance_cursor wb a b) = smallFileMax wb" "LoadPart (advance_cursor wb a b) = LoadPart wb"
  "remoteSize (advance_cursor wb a b) = remoteSize wb" "uploadedParts (advance_cursor wb a b) = uploadedParts wb"
  "OnPartFull (advance_cursor wb a b) = OnPartFull wb" "smallFileData (advance_cursor wb a b) = smallFileData wb"
  "curMemory (advance_cursor wb a b) = curMemory wb" "maxSize (advance_cursor wb a b) = maxSize wb"
  by (auto simp: advance_cursor_def)

text \<open>\<^verbatim>\<open>raw\<close> and the invariant depend on the storage fields only.\<close>

lemma raw_storage_cong:
  assumes "smallFileData wb' = smallFileData wb" "parts wb' = parts wb" "partSize wb' = partSize wb"
    "uploadedParts wb' = uploadedParts wb" "LoadPart wb' = LoadPart wb" "remoteSize wb' = remoteSize wb"
  shows "raw wb' = raw wb"
  by (rule ext) (simp only: raw_def remote_byte_def assms)

lemma raw_advance [simp]: "raw (advance_cursor wb a b) = raw wb"
  by (rule raw_storage_cong) simp_all

lemma inv_advance [simp]: "wb_inv (advance_cursor wb a b) = wb_inv wb"
  by (simp add: wb_inv_def cong: option.case_cong)

lemma write_contiguous_spec:
  assumes inv: "wb_inv wb" and fast: "use_fast_path wb (off + length data)"
    and le: "off + length data \<le> smallFileMax wb"
  shows "wb_inv (write_contiguous wb off data) \<and>
    totalSize (write_contiguous wb off data) = max (totalSize wb) (off + length data) \<and>
    (\<forall>i. raw (write_contiguous wb off data) i =
      (if off \<le> i \<and> i < off + length data then data ! (i - off) else raw wb i)) \<and>
    (\<forall>p. flag (dirtyParts (write_contiguous wb off data)) p \<longleftrightarrow> flag (dirtyParts wb) p \<or> p = 0)"
proof -
  define old where "old = (case smallFileData wb of None \<Rightarrow> [] | Some d \<Rightarrow> d)"
  define buf where "buf = (if length old < max (off + length data) (totalSize wb)
    then zext (max (off + length data) (totalSize wb)) old else old)"
  have pre: "parts wb = []" "LoadPart wb = None" "smallFileMax wb \<le> partSize wb"
    "totalSize wb \<le> smallFileMax wb" "length old \<le> totalSize wb"
    using inv fast by (auto simp: old_def wb_inv_def use_fast_path_def split: option.splits)
  have old: "raw wb i = byte_at old i" for i
    using raw_no_parts [OF _ pre(1,2), of i]
    by (cases "smallFileData wb") (auto simp: old_def, simp add: raw_def)
  have len: "length buf = max (off + length data) (totalSize wb)"
    using pre(5) by (auto simp: buf_def max_def)
  have at: "byte_at buf i = byte_at old i" for i
    by (auto simp: buf_def) (auto simp: byte_at_def)
  let ?wb' = "write_contiguous wb off data"
  have small: "smallFileData ?wb' = Some (overwrite buf off data)"
    and tot: "totalSize ?wb' = max (totalSize wb) (off + length data)"
    and same: "parts ?wb' = parts wb" "LoadPart ?wb' = LoadPart wb" "partSize ?wb' = partSize wb"
      "smallFileMax ?wb' = smallFileMax wb" "curMemory ?wb' = curMemory wb"
      "dirtyParts ?wb' = AList.update 0 True (dirtyParts wb)"
    by (auto simp: write_contiguous_def Let_def buf_def old_def)
  have "raw ?wb' i = (if off \<le> i \<and> i < off + length data then data ! (i - off) else raw wb i)" for i
    using len old [of i] by (simp add: raw_def [of ?wb'] small byte_at_overwrite at)
  moreover have "wb_inv ?wb'"
    using inv pre le len by (simp add: wb_inv_def small same tot max.commute)
  ultimately show ?thesis using tot by (auto simp: same(6) flag_def)
qed

section \<open>Handing full parts over\<close>

text \<open>\<^verbatim>\<open>handed wb wb'\<close>: parts may have left the memory for the shadow file, nothing else happened.\<close>

definition handed :: "write_buffer \<Rightarrow> write_buffer \<Rightarrow> bool" where
  "handed wb wb' \<longleftrightarrow>
    (wb_inv wb \<and> smallFileData wb = None \<longrightarrow> wb_inv wb') \<and>
    dirtyParts wb' = dirtyParts wb \<and> totalSize wb' = totalSize wb \<and> partSize wb' = partSize wb \<and>
    maxSize wb' = maxSize wb \<and> smallFileMax wb' = smallFileMax wb \<and>
    (smallFileData wb = None \<longrightarrow> smallFileData wb' = None) \<and>
    LoadPart wb' = LoadPart wb \<and> remoteSize wb' = remoteSize wb \<and> OnPartFull wb' = OnPartFull wb \<and>
    (\<forall>p. flag (uploadedParts wb) p \<longrightarrow> flag (uploadedParts wb') p) \<and>
    (smallFileData wb = None \<longrightarrow>
      (\<forall>i. \<not> flag (uploadedParts wb') (i div partSize wb) \<longrightarrow> raw wb' i = raw wb i))"

lemma handed_refl: "handed wb wb"
  by (simp add: handed_def)

lemma handed_trans: "handed a b \<Longrightarrow> handed b c \<Longrightarrow> handed a c"
  unfolding handed_def by (simp, blast)

lemma handed_EvictPart: "handed wb (EvictPart wb p)"
proof (cases "smallFileData wb")
  case (Some d)
  then show ?thesis by (auto simp: handed_def EvictPart_def Let_def flag_def split: option.splits)
next
  case None
  have r: "raw (EvictPart wb p) i = raw wb i" if "i div partSize wb \<noteq> p" for i
    using that None
    by (auto simp: EvictPart_def Let_def raw_def remote_byte_def flag_def split: option.splits sum.splits)
  have up: "uploadedParts (EvictPart wb p) = AList.update p True (uploadedParts wb)"
    using None by (simp add: EvictPart_def Let_def split: option.splits)
  have inv: "wb_inv (EvictPart wb p)" if "wb_inv wb"
    using that None by (auto simp: EvictPart_def Let_def wb_inv_def sum_map_delete list_all_delete
        split: option.splits)
  show ?thesis
    using None r up inv
    by (auto simp: handed_def EvictPart_def Let_def flag_def split: option.splits)
qed

lemma handed_notify_part: "handed wb (fst (notify_part cb (wb, evs) p))"
  by (auto simp: notify_part_def handed_refl handed_EvictPart split: option.splits on_part_full.splits)

lemma handed_notify_full: "handed wb (fst (notify_full wb c))"
proof -
  have "handed wb (fst (foldl (notify_part cb) (wb', evs) ps))" if "handed wb wb'" for cb wb' evs ps
    using that
  proof (induction ps arbitrary: wb' evs)
    case (Cons p ps)
    obtain wb2 evs2 where n: "notify_part cb (wb', evs) p = (wb2, evs2)" by fastforce
    have "handed wb wb2"
      using handed_trans [OF Cons.prems handed_notify_part [of wb' cb evs p]] n by simp
    with Cons.IH n show ?case by simp
  qed simp
  then show ?thesis using handed_refl by (auto simp: notify_full_def split: option.splits)
qed

section \<open>Write\<close>

text \<open>What a successful write of the whole data does to size and image.\<close>

definition stored :: "write_buffer \<Rightarrow> write_buffer \<Rightarrow> nat \<Rightarrow> byte list \<Rightarrow> bool" where
  "stored wb wb' off data \<longleftrightarrow>
    totalSize wb' = max (totalSize wb) (off + length data) \<and>
    (\<forall>i. \<not> flag (uploadedParts wb') (i div partSize wb) \<longrightarrow>
      raw wb' i = (if off \<le> i \<and> i < off + length data then data ! (i - off) else raw wb i)) \<and>
    (\<forall>p. flag (dirtyParts wb) p \<or> (\<exists>i. off \<le> i \<and> i < off + length data \<and> i div partSize wb = p) \<longrightarrow>
      flag (dirtyParts wb') p)"

lemma raw_totalSize [simp]: "raw (wb\<lparr>totalSize := n\<rparr>) = raw wb"
  by (rule raw_storage_cong) simp_all

lemma raw_touched [simp]: "raw (wb\<lparr>touched := b\<rparr>) = raw wb"
  by (rule raw_storage_cong) simp_all

lemma write_parts_spec:
  assumes res: "write_parts wb off data = (wb', n, err, evs)"
    and inv: "wb_inv wb" "load_bounded wb" and small: "smallFileData wb = None"
  shows "wb_inv wb' \<and> n \<le> length data \<and> (err = None \<longrightarrow> n = length data \<and> stored wb wb' off data)"
proof -
  define wb0 where "wb0 = (if totalSize wb < off + length data then wb\<lparr>totalSize := off + length data\<rparr> else wb)"
  have wb0: "wb_inv wb0" "load_bounded wb0" "smallFileData wb0 = None" "raw wb0 = raw wb"
    "dirtyParts wb0 = dirtyParts wb" "partSize wb0 = partSize wb" "uploadedParts wb0 = uploadedParts wb"
    "totalSize wb0 = max (totalSize wb) (off + length data)"
    using inv small by (auto simp: wb0_def wb_inv_def load_bounded_def)
  obtain wb1 m e where loop: "write_loop wb0 off data 0 = (wb1, m, e)" by (metis prod_cases3)
  from write_loop_spec [OF loop wb0(1-3)]
  have l: "wb_inv wb1" "m \<le> length data" "e = None \<Longrightarrow> m = length data" "copied wb0 wb1 off data 0 m"
    by auto
  note f = frame_eqD [OF write_loop_frame [OF loop]]
  show ?thesis
  proof (cases e)
    case (Some x)
    with res loop l show ?thesis by (auto simp: write_parts_def Let_def wb0_def [symmetric])
  next
    case None
    define wb2 where "wb2 = advance_cursor (wb1\<lparr>touched := True\<rparr>) off (off + length data)"
    have wb': "wb' = fst (notify_full wb2 (appendCursor wb1))" "n = length data" "err = None"
      using res loop None by (auto simp: write_parts_def Let_def wb0_def [symmetric] wb2_def split: prod.splits)
    have h: "handed wb2 wb'" unfolding wb' by (rule handed_notify_full)
    have wb2: "wb_inv wb2" "smallFileData wb2 = None" "raw wb2 = raw wb1" "dirtyParts wb2 = dirtyParts wb1"
      "totalSize wb2 = totalSize wb0" "partSize wb2 = partSize wb"
      using l(1) wb0 f by (auto simp: wb2_def wb_inv_def)
    have "stored wb wb' off data"
      using h wb2 wb0 l(3,4) None unfolding stored_def handed_def copied_def by auto
    with h wb2 wb' show ?thesis by (simp add: handed_def)
  qed
qed

lemma Write_EFBIG: "maxSize wb < off + length data \<Longrightarrow> Write wb off data = (wb, 0, Some EFBIG, [])"
  by (simp add: Write.simps)

text \<open>The three ways a write within the size limit goes.\<close>

lemma Write_cases:
  assumes "off + length data \<le> maxSize wb"
  obtains (fast) "use_fast_path wb (off + length data)" "off + length data \<le> smallFileMax wb"
      "Write wb off data = (write_contiguous wb off data, length data, None, [])"
    | (migrate) d where "smallFileData wb = Some d"
      "Write wb off data = write_parts (migrateToPartMode wb) off data"
    | (parts) "smallFileData wb = None" "Write wb off data = write_parts wb off data"
proof (cases "use_fast_path wb (off + length data)")
  case False
  then have "smallFileData wb = None" "Write wb off data = write_parts wb off data"
    using assms by (auto simp: Write.simps use_fast_path_def)
  then show ?thesis by (rule parts)
next
  case True
  show ?thesis
  proof (cases "off + length data \<le> smallFileMax wb")
    case le: True
    with True assms fast show ?thesis by (simp add: Write.simps writeSmallFile.simps)
  next
    case False
    with True obtain d where d: "smallFileData wb = Some d" by (auto simp: use_fast_path_def)
    have "Write wb off data = Write (migrateToPartMode wb) off data"
      using True False assms by (simp add: Write.simps [of wb] writeSmallFile.simps)
    also have "\<dots> = write_parts (migrateToPartMode wb) off data"
      using False assms by (simp add: Write.simps use_fast_path_def)
    finally show ?thesis using migrate [OF d] by simp
  qed
qed

lemma Write_spec:
  assumes res: "Write wb off data = (wb', n, err, evs)" and inv: "wb_inv wb" "load_bounded wb"
    and le: "off + length data \<le> maxSize wb"
  shows "wb_inv wb' \<and> n \<le> length data \<and> (err = None \<longrightarrow> n = length data \<and> stored wb wb' off data)"
  using le
proof (cases rule: Write_cases)
  case fast
  have "wb' = write_contiguous wb off data" "n = length data" "err = None" using res fast(3) by auto
  moreover have "i div partSize wb = 0" if "i < off + length data" for i
    using that inv(1) fast(1,2) by (auto simp: wb_inv_def use_fast_path_def)
  ultimately show ?thesis
    using write_contiguous_spec [OF inv(1) fast(1,2)] by (auto simp: stored_def)
next
  case (migrate d)
  have "write_parts (migrateToPartMode wb) off data = (wb', n, err, evs)" using res migrate(2) by simp
  from write_parts_spec [OF this migrate_inv [OF inv(1)]] inv(2)
  show ?thesis by (simp add: stored_def migrate_raw [OF inv(1) migrate(1)])
next
  case parts
  have "write_parts wb off data = (wb', n, err, evs)" using res parts(2) by simp
  from write_parts_spec [OF this inv parts(1)] show ?thesis .
qed

section \<open>Truncate\<close>

lemma remote_byte_beyond:
  assumes "load_bounded wb" "remoteSize wb \<le> i" "0 < partSize wb"
  shows "remote_byte wb i = 0"
proof -
  have *: "(i div partSize wb) * partSize wb + i mod partSize wb = i" by simp
  have "length d \<le> i mod partSize wb"
    if "LoadPart wb = Some f" "(i div partSize wb) * partSize wb < remoteSize wb"
      "f (i div partSize wb + 1) = Inr d" for f d
  proof -
    have "(i div partSize wb + 1 - 1) * partSize wb + length d
        \<le> max ((i div partSize wb + 1 - 1) * partSize wb) (remoteSize wb)"
      using assms(1) that(1,3) unfolding load_bounded_def by blast
    then have "(i div partSize wb) * partSize wb + length d \<le> remoteSize wb" using that(2) by simp
    with assms(2) * show ?thesis by linarith
  qed
  then show ?thesis
    by (fastforce simp: remote_byte_def byte_at_def not_less split: option.splits sum.splits)
qed

lemma markDirty_frame: "frame (markDirty wb a b) = frame wb"
  by (simp add: markDirty_def frame_def)

lemma markDirty_parts [simp]:
  "parts (markDirty wb a b) = parts wb" "curMemory (markDirty wb a b) = curMemory wb"
  by (simp_all add: markDirty_def)

lemmas markDirty_fields [simp] = frame_eqD [OF markDirty_frame]

lemma map_of_mark: "map_of (foldl (\<lambda>m i. AList.update i True m) m is) p =
    (if p \<in> set is then Some True else map_of m p)"
  by (induction "is" arbitrary: m) auto

lemma wf_map_mark: "wf_map m \<Longrightarrow> wf_map (foldl (\<lambda>m i. AList.update i True m) m is)"
  by (induction "is" arbitrary: m) auto

lemma markDirty_dirty:
  assumes "0 < partSize wb"
  shows "flag (dirtyParts (markDirty wb a b)) p \<longleftrightarrow>
    flag (dirtyParts wb) p \<or> (\<exists>i. a \<le> i \<and> i < b \<and> i div partSize wb = p)"
proof (cases "b \<le> a")
  case True
  then show ?thesis by (auto simp: markDirty_def)
next
  case False
  have "(\<exists>i. a \<le> i \<and> i < b \<and> i div partSize wb = p) \<longleftrightarrow>
      a div partSize wb \<le> p \<and> p \<le> (b - 1) div partSize wb" (is "?L \<longleftrightarrow> ?R")
  proof
    assume ?L
    then obtain i where "a \<le> i" "i \<le> b - 1" "p = i div partSize wb" by auto
    then show ?R by (simp add: div_le_mono)
  next
    assume r: ?R
    then have p: "p * partSize wb \<le> b - 1" "a < p * partSize wb + partSize wb"
      using less_eq_div_iff_mult_less_eq [OF assms] div_less_iff_less_mult [OF assms, of a "Suc p"]
      by (auto simp: add.commute)
    define i where "i = max a (p * partSize wb)"
    have "a \<le> i" "i < b" "i div partSize wb = p"
      using p False assms div_eq_iff_range [OF assms, of i p] by (auto simp: i_def)
    then show ?L by blast
  qed
  with False show ?thesis by (auto simp: markDirty_def flag_def map_of_mark)
qed

lemma markDirty_wf: "wf_map (dirtyParts wb) \<Longrightarrow> wf_map (dirtyParts (markDirty wb a b))"
  by (simp add: markDirty_def wf_map_mark)

lemma drop_frame: "frame (drop_parts wb c) = frame wb"
  by (simp add: drop_parts_def Let_def frame_def)

lemma cut_frame: "frame (cut_part wb i off) = frame wb"
  by (simp add: cut_part_def frame_def split: option.split)

lemmas drop_cut_fields [simp] = frame_eqD [OF drop_frame] frame_eqD [OF cut_frame]

lemma cut_dirty [simp]: "dirtyParts (cut_part wb i off) = dirtyParts wb"
  by (simp add: cut_part_def split: option.split)

lemma shrink_fields [simp]:
  "partSize (shrink_parts wb n) = partSize wb" "totalSize (shrink_parts wb n) = n"
  "LoadPart (shrink_parts wb n) = LoadPart wb" "remoteSize (shrink_parts wb n) = remoteSize wb"
  "uploadedParts (shrink_parts wb n) = uploadedParts wb" "maxSize (shrink_parts wb n) = maxSize wb"
  "smallFileData (shrink_parts wb n) = smallFileData wb" "smallFileMax (shrink_parts wb n) = smallFileMax wb"
  "OnPartFull (shrink_parts wb n) = OnPartFull wb"
  by (simp_all add: shrink_parts_def Let_def)

lemma drop_lookup: "map_of (parts (drop_parts wb c)) q = (if c \<le> q then None else map_of (parts wb) q)"
  by (simp add: drop_parts_def Let_def map_of_filter_key)

lemma cut_lookup: "map_of (parts (cut_part wb i off)) q =
    (if q = i then map_option (take off) (map_of (parts wb) q) else map_of (parts wb) q)"
  by (auto simp: cut_part_def split: option.split)

text \<open>The parts after dropping and cutting, and their memory account.\<close>

lemma shrink_parts_parts:
  "map_of (parts (shrink_parts wb n)) q =
    (let c = (n + partSize wb - 1) div partSize wb in
     if c \<le> q then None
     else if 0 < n \<and> q = c - 1 then map_option (take (n - (c - 1) * partSize wb)) (map_of (parts wb) q)
     else map_of (parts wb) q)"
  by (simp add: shrink_parts_def Let_def cut_lookup drop_lookup)

lemma shrink_lookup:
  assumes inv: "wb_inv wb"
  shows "map_of (parts (shrink_parts wb n)) q =
    (if q * partSize wb < n then map_option (take (n - q * partSize wb)) (map_of (parts wb) q) else None)"
proof -
  have ps: "0 < partSize wb" using inv by (simp add: wb_inv_def)
  define c where "c = (n + partSize wb - 1) div partSize wb"
  have c: "q * partSize wb < n \<longleftrightarrow> q < c" "Suc q * partSize wb < n \<longleftrightarrow> Suc q < c" "0 < n \<longleftrightarrow> 0 < c"
    using less_ceil_div [OF ps, of q n] less_ceil_div [OF ps, of "Suc q" n] less_ceil_div [OF ps, of 0 n]
    by (auto simp: c_def)
  have inner: "map_option (take (n - q * partSize wb)) (map_of (parts wb) q) = map_of (parts wb) q"
    if "q < c" "q \<noteq> c - 1"
  proof (cases "map_of (parts wb) q")
    case (Some d)
    have "Suc q < c" using that by linarith
    then have "Suc q * partSize wb < n" using c by simp
    moreover have "length d \<le> partSize wb"
      using inv Some by (auto simp: wb_inv_def dest: list_all_map_of [where Q = "\<lambda>i d. length d \<le> partSize wb"])
    ultimately show ?thesis using Some by simp
  qed simp
  show ?thesis
    unfolding shrink_parts_parts Let_def c_def [symmetric] c(1) using inner c(3)
    by (cases "q = c - 1") auto
qed

lemma shrink_raw:
  assumes "wb_inv wb" "smallFileData wb = None"
  shows "raw (shrink_parts wb n) i =
    (if i < n then raw wb i
     else if mem_key (parts (shrink_parts wb n)) (i div partSize wb) \<or>
       flag (uploadedParts wb) (i div partSize wb) then 0 else remote_byte wb i)"
proof -
  let ?q = "i div partSize wb"
  have ps: "0 < partSize wb" using assms(1) by (simp add: wb_inv_def)
  have dm: "?q * partSize wb + i mod partSize wb = i" by simp
  have lt: "i mod partSize wb < n - ?q * partSize wb \<longleftrightarrow> i < n" if "?q * partSize wb < n"
    using dm that by linarith
  have rb: "remote_byte (shrink_parts wb n) i = remote_byte wb i"
    by (simp only: remote_byte_def shrink_fields)
  show ?thesis
  proof (cases "?q * partSize wb < n")
    case True
    with lt [OF True] assms(2) rb show ?thesis
      by (simp add: raw_def shrink_lookup [OF assms(1)] mem_key_def split: option.splits)
  next
    case False
    then have "\<not> i < n" using dm by linarith
    with False assms(2) rb show ?thesis
      by (simp add: raw_def shrink_lookup [OF assms(1)] mem_key_def split: option.splits)
  qed
qed

definition accounted :: "write_buffer \<Rightarrow> bool" where
  "accounted wb \<longleftrightarrow> wf_map (parts wb) \<and> wf_map (dirtyParts wb) \<and>
     curMemory wb = sum_map (\<lambda>d. int (length d)) (parts wb)"

lemma accounted_drop: "accounted wb \<Longrightarrow> accounted (drop_parts wb c)"
  using sum_map_filter [of "\<lambda>d. int (length d)" "\<lambda>(idx, d). \<not> c \<le> idx" "parts wb"]
  by (simp add: accounted_def drop_parts_def Let_def case_prod_unfold)

lemma accounted_cut: "accounted wb \<Longrightarrow> accounted (cut_part wb i off)"
  by (auto simp: accounted_def cut_part_def sum_map_update split: option.splits)

lemma accounted_shrink: "wb_inv wb \<Longrightarrow> accounted (shrink_parts wb n)"
proof -
  assume "wb_inv wb"
  then have a: "accounted (drop_parts (markDirty wb m cur) c)" for m cur c
    by (intro accounted_drop) (simp add: accounted_def wb_inv_def markDirty_wf)
  have b: "accounted (wb'\<lparr>dirtyParts := AList.update i True (dirtyParts wb')\<rparr>)" if "accounted wb'" for wb' i
    using that by (simp add: accounted_def)
  have c: "accounted (wb'\<lparr>totalSize := k\<rparr>) = accounted wb'" for wb' k
    by (simp add: accounted_def)
  show ?thesis unfolding shrink_parts_def Let_def c by (simp add: a b accounted_cut del: cut_dirty)
qed

lemma shrink_inv:
  assumes inv: "wb_inv wb" and small: "smallFileData wb = None"
  shows "wb_inv (shrink_parts wb n)"
proof -
  let ?wb' = "shrink_parts wb n"
  have acc: "accounted ?wb'" by (rule accounted_shrink [OF inv])
  have "length d \<le> partSize wb" if mem: "(i, d) \<in> set (parts ?wb')" for i d
  proof -
    have "map_of (parts ?wb') i = Some d" using acc mem by (simp add: accounted_def map_of_in_set)
    then obtain d0 where "map_of (parts wb) i = Some d0" "d = take (n - i * partSize wb) d0"
      using shrink_lookup [OF inv, of n i] by (auto split: if_splits)
    with inv show ?thesis
      by (auto simp: wb_inv_def dest!: list_all_map_of [where Q = "\<lambda>i d. length d \<le> partSize wb"])
  qed
  then show ?thesis using acc inv small by (auto simp: wb_inv_def accounted_def list_all_iff)
qed

text \<open>\<^verbatim>\<open>Truncate\<close> on a size within the limit, one equation per mode and direction.\<close>

lemma Truncate_cases:
  assumes "n \<le> maxSize wb"
  shows "Truncate wb (int n) = Inr (
    let wb = wb\<lparr>touched := True\<rparr> in
    if n < totalSize wb then
      (case smallFileData wb of
        Some d \<Rightarrow> wb\<lparr>smallFileData := Some (take n d), totalSize := n,
                     dirtyParts := AList.update 0 True (dirtyParts wb)\<rparr>
      | None \<Rightarrow> shrink_parts wb n)
    else if totalSize wb < n then
      (case smallFileData wb of
        Some d \<Rightarrow>
          if n \<le> smallFileMax wb
          then wb\<lparr>smallFileData := Some (zext n d), totalSize := n,
                  dirtyParts := AList.update 0 True (dirtyParts wb)\<rparr>
          else (markDirty ((migrateToPartMode wb)\<lparr>touched := True\<rparr>) (totalSize wb) n)\<lparr>totalSize := n\<rparr>
      | None \<Rightarrow> (markDirty wb (totalSize wb) n)\<lparr>totalSize := n\<rparr>)
    else wb)"
proof -
  have m: "migrateToPartMode (wb\<lparr>touched := True\<rparr>) = (migrateToPartMode wb)\<lparr>touched := True\<rparr>"
    by (simp add: migrateToPartMode_def split: option.splits)
  show ?thesis
    using assms
    by (subst Truncate.simps, auto simp: Let_def m split: option.splits)
      (subst Truncate.simps, simp add: Let_def m)+
qed

end
