(* ===== verification/Write_Refine.thy ===== *)
theory Write_Refine
  imports Write_Image
begin

text \<open>
  The contract of the write buffer: its operations are those of a flat byte array. The reading
  methods agree with one another, \<^verbatim>\<open>CanMaterializeFull\<close> is the condition under which the buffer can be
  uploaded whole, and \<^verbatim>\<open>Write\<close> and \<^verbatim>\<open>Truncate\<close> refine the flat operations.
\<close>

section \<open>Reading\<close>

text \<open>The byte the memory holds, zero where a part is not loaded.\<close>

definition part_byte :: "write_buffer \<Rightarrow> nat \<Rightarrow> nat \<Rightarrow> byte" where
  "part_byte wb p j = (case map_of (parts wb) p of Some d \<Rightarrow> byte_at d j | None \<Rightarrow> 0)"

definition mem_byte :: "write_buffer \<Rightarrow> nat \<Rightarrow> byte" where
  "mem_byte wb i =
    (case smallFileData wb of
      Some d \<Rightarrow> byte_at d i
    | None \<Rightarrow> part_byte wb (i div partSize wb) (i mod partSize wb))"

lemma part_byte_simps:
  "map_of (parts wb) p = None \<Longrightarrow> part_byte wb p = (\<lambda>j. 0)"
  "map_of (parts wb) p = Some d \<Longrightarrow> part_byte wb p = byte_at d"
  by (auto simp: part_byte_def)

lemma zext_eq_map: "zext n xs = map (byte_at xs) [0 ..< n]"
  by (rule nth_equalityI) (auto simp: nth_zext byte_at_def)

lemma overwrite_zeros_0: "length d \<le> n \<Longrightarrow> overwrite (replicate n 0) 0 d = zext n d"
  by (simp add: overwrite_def zext_ge)

text \<open>The assembly loop of \<^verbatim>\<open>Bytes\<close>: parts do not overlap, so each byte comes from its own part.\<close>

lemma assemble_loop:
  assumes ps: "0 < ps" and len: "\<And>i d. m i = Some d \<Longrightarrow> length d \<le> ps"
    and k: "\<And>i. i < k \<Longrightarrow> i * ps < length buf"
  shows "length (foldl (\<lambda>buf i. case m i of None \<Rightarrow> buf | Some d \<Rightarrow> overwrite buf (i * ps) d) buf [0 ..< k])
      = length buf \<and>
    (\<forall>j<length buf. foldl (\<lambda>buf i. case m i of None \<Rightarrow> buf | Some d \<Rightarrow> overwrite buf (i * ps) d) buf [0 ..< k] ! j =
      (case (if j div ps < k then m (j div ps) else None) of
        None \<Rightarrow> buf ! j
      | Some d \<Rightarrow> if j mod ps < length d then d ! (j mod ps) else buf ! j))"
  using k
proof (induction k)
  case (Suc k)
  let ?f = "foldl (\<lambda>buf i. case m i of None \<Rightarrow> buf | Some d \<Rightarrow> overwrite buf (i * ps) d) buf [0 ..< k]"
  have ih: "length ?f = length buf" "\<And>j. j < length buf \<Longrightarrow> ?f ! j =
      (case (if j div ps < k then m (j div ps) else None) of
        None \<Rightarrow> buf ! j
      | Some d \<Rightarrow> if j mod ps < length d then d ! (j mod ps) else buf ! j)"
    using Suc.IH Suc.prems by auto
  have kl: "k * ps \<le> length ?f" using Suc.prems [of k] ih(1) by simp
  show ?case
  proof (cases "m k")
    case None
    have "(if j div ps < Suc k then m (j div ps) else None) = (if j div ps < k then m (j div ps) else None)" for j
      using None by (auto simp: less_Suc_eq)
    with None ih show ?thesis by simp
  next
    case (Some d)
    have "overwrite ?f (k * ps) d ! j =
        (case (if j div ps < Suc k then m (j div ps) else None) of
          None \<Rightarrow> buf ! j
        | Some d \<Rightarrow> if j mod ps < length d then d ! (j mod ps) else buf ! j)" if j: "j < length buf" for j
    proof (cases "j div ps = k")
      case True
      then have "j mod ps = j - k * ps" "k * ps \<le> j"
        using mod_in_part [OF ps True] div_eq_iff_range [OF ps, of j k] by auto
      with True Some j ih kl show ?thesis by (auto simp: nth_overwrite)
    next
      case False
      then have "\<not> (k * ps \<le> j \<and> j < k * ps + length d)"
        using len [OF Some] div_eq_iff_range [OF ps, of j k] by auto
      then have "overwrite ?f (k * ps) d ! j = ?f ! j"
        using j ih(1) kl nth_overwrite [of "k * ps" ?f j d] by (metis (no_types, lifting))
      moreover have "(if j div ps < Suc k then m (j div ps) else None) = (if j div ps < k then m (j div ps) else None)"
        using False by (auto simp: less_Suc_eq)
      ultimately show ?thesis using ih(2) [OF j] by simp
    qed
    with Some ih kl show ?thesis by simp
  qed
qed simp

lemma part_bounded:
  "wb_inv wb \<Longrightarrow> map_of (parts wb) i = Some d \<Longrightarrow> length d \<le> partSize wb"
  by (auto simp: wb_inv_def dest: list_all_map_of [where Q = "\<lambda>i d. length d \<le> partSize wb"])

lemma smallFileBytes_inv: "wb_inv wb \<Longrightarrow> smallFileBytes wb = smallFileData wb"
  by (auto simp: smallFileBytes_def wb_inv_def split: option.splits)

lemma small_length: "wb_inv wb \<Longrightarrow> smallFileData wb = Some d \<Longrightarrow> length d = totalSize wb"
  by (simp add: wb_inv_def)

lemma Bytes_mem_byte:
  assumes inv: "wb_inv wb"
  shows "Bytes wb = map (mem_byte wb) [0 ..< totalSize wb]"
proof (cases "smallFileData wb")
  case (Some d)
  with inv small_length [OF inv Some] show ?thesis
    by (auto simp: Bytes_def smallFileBytes_inv mem_byte_def overwrite_zeros_0 zext_eq_map cong: map_cong)
next
  case None
  have ps: "0 < partSize wb" using inv by (simp add: wb_inv_def)
  let ?n = "(totalSize wb + partSize wb - 1) div partSize wb"
  have k: "i * partSize wb < length (replicate (totalSize wb) (0::byte))" if "i < ?n" for i
    using that less_ceil_div [OF ps] by simp
  have lt: "j div partSize wb < ?n" if "j < totalSize wb" for j
    using that less_ceil_div [OF ps] div_times_less_eq_dividend [of j "partSize wb"]
    by (meson le_less_trans)
  have al: "Bytes wb = foldl (\<lambda>buf i. case map_of (parts wb) i of None \<Rightarrow> buf
      | Some d \<Rightarrow> overwrite buf (i * partSize wb) d) (replicate (totalSize wb) 0) [0 ..< ?n]"
    using None inv ps by (cases "totalSize wb = 0") (auto simp: Bytes_def smallFileBytes_inv div_eq_0_iff)
  from assemble_loop [OF ps part_bounded [OF inv] k, where k = ?n]
  have b: "length (Bytes wb) = totalSize wb" "\<And>j. j < totalSize wb \<Longrightarrow> Bytes wb ! j =
      (case map_of (parts wb) (j div partSize wb) of
        None \<Rightarrow> replicate (totalSize wb) 0 ! j
      | Some d \<Rightarrow> if j mod partSize wb < length d then d ! (j mod partSize wb)
          else replicate (totalSize wb) 0 ! j)"
    using lt unfolding al by auto
  show ?thesis
    using None b by (intro nth_equalityI) (auto simp: mem_byte_def part_byte_def byte_at_def split: option.splits)
qed

lemma map_upt_slice: "take l (drop a (map f [0 ..< n])) = map f [a ..< min (a + l) n]"
  by (rule nth_equalityI) auto

text \<open>Within one part the memory's bytes are those of the part's slice.\<close>

lemma mem_chunk:
  assumes "smallFileData wb = None" "0 < partSize wb" "o' + c \<le> partSize wb"
  shows "map (mem_byte wb) [p * partSize wb + o' ..< p * partSize wb + o' + c] =
    map (\<lambda>j. part_byte wb p (o' + j)) [0 ..< c]"
    (is "map _ [?pos ..< _] = _")
proof (rule nth_equalityI)
  fix j assume "j < length (map (mem_byte wb) [?pos ..< ?pos + c])"
  then have j: "j < c" by simp
  have d: "(?pos + j) div partSize wb = p"
    using j assms(3) by (intro div_eq_iff_range [THEN iffD2, OF assms(2)]) linarith
  then have m: "(?pos + j) mod partSize wb = o' + j"
    using mod_in_part [OF assms(2) d] by simp
  show "map (mem_byte wb) [?pos ..< ?pos + c] ! j =
    map (\<lambda>j. part_byte wb p (o' + j)) [0 ..< c] ! j"
    using j assms(1) by (simp add: mem_byte_def d m)
qed simp

lemma PartData_mem_byte:
  assumes inv: "wb_inv wb"
  shows "PartData wb p = (if totalSize wb \<le> p * partSize wb then None
    else Some (map (mem_byte wb) [p * partSize wb ..< min (p * partSize wb + partSize wb) (totalSize wb)]))"
proof (cases "totalSize wb \<le> p * partSize wb")
  case False
  have ps: "0 < partSize wb" using inv by (simp add: wb_inv_def)
  let ?l = "min (p * partSize wb + partSize wb) (totalSize wb) - p * partSize wb"
  show ?thesis
  proof (cases "smallFileData wb")
    case (Some d)
    with inv have le: "totalSize wb \<le> partSize wb" by (simp add: wb_inv_def)
    have "p = 0"
    proof (rule ccontr)
      assume "p \<noteq> 0"
      then have "partSize wb \<le> p * partSize wb" by simp
      with le False show False by linarith
    qed
    with False Some le small_length [OF inv Some] show ?thesis
      by (auto simp: PartData_def smallFileBytes_inv [OF inv] mem_byte_def Let_def byte_at_def intro!: nth_equalityI)
  next
    case None
    have "map (mem_byte wb) [p * partSize wb ..< p * partSize wb + ?l] =
        map (part_byte wb p) [0 ..< ?l]"
      using mem_chunk [OF None ps, of 0 ?l p] False by simp
    moreover have "p * partSize wb + ?l = min (p * partSize wb + partSize wb) (totalSize wb)"
      using False by simp
    moreover have "(if length d < ?l then zext ?l d else take ?l d) = map (byte_at d) [0 ..< ?l]" for d
      by (auto simp: zext_eq_map byte_at_def intro!: nth_equalityI)
    ultimately show ?thesis
      using False None
      by (auto simp: PartData_def smallFileBytes_inv [OF inv] Let_def map_replicate_const part_byte_simps
          split: option.splits)
  qed
qed (simp add: PartData_def)

lemma read_loop_mem_byte:
  assumes "wb_inv wb" "smallFileData wb = None"
  shows "read_loop wb pos n = map (mem_byte wb) [pos ..< pos + n]"
  using assms
proof (induction wb pos n rule: read_loop.induct)
  case (1 wb pos n)
  have ps: "0 < partSize wb" using "1.prems"(1) by (simp add: wb_inv_def)
  show ?case
  proof (cases "n = 0")
    case False
    define p o' c where "p = pos div partSize wb" and "o' = pos mod partSize wb"
      and "c = min (partSize wb - pos mod partSize wb) n"
    have "o' \<le> partSize wb" using ps by (simp add: o'_def less_imp_le)
    then have at: "pos = p * partSize wb + o'" "o' + c \<le> partSize wb" "c \<le> n"
      unfolding p_def o'_def c_def by (simp, linarith, linarith)
    note chunk = mem_chunk [OF "1.prems"(2) ps at(2), of p, folded at(1)]
    have piece: "(case map_of (parts wb) p of
        Some part \<Rightarrow>
          if length part < o' + c then if o' < length part then zext c (drop o' part) else replicate c 0
          else take c (drop o' part)
      | None \<Rightarrow> replicate c 0) = map (mem_byte wb) [pos ..< pos + c]"
      unfolding chunk by (auto simp: zext_eq_map part_byte_def byte_at_drop byte_at_def map_replicate_const
          intro!: nth_equalityI split: option.splits)
    have "read_loop wb (pos + c) (n - c) = map (mem_byte wb) [pos + c ..< pos + c + (n - c)]"
      using "1.IH" [OF _ refl refl refl] False ps "1.prems" by (simp add: c_def)
    then have "read_loop wb pos n = map (mem_byte wb) [pos ..< pos + c] @ map (mem_byte wb) [pos + c ..< pos + n]"
      using False ps at(3) piece unfolding p_def o'_def c_def
      by (subst read_loop.simps) (simp add: Let_def)
    also have "\<dots> = map (mem_byte wb) [pos ..< pos + n]"
      using at(3) by (metis map_append upt_add_eq_append le_add1 le_add_diff_inverse add.assoc)
    finally show ?thesis .
  qed (simp add: read_loop.simps)
qed

section \<open>The flat file\<close>

definition flat_write :: "byte list \<Rightarrow> nat \<Rightarrow> byte list \<Rightarrow> byte list" where
  "flat_write xs off d = overwrite (zext (max (length xs) (off + length d)) xs) off d"

lemma length_flat_write [simp]: "length (flat_write xs off d) = max (length xs) (off + length d)"
  by (simp add: flat_write_def)

lemma nth_flat_write:
  "i < max (length xs) (off + length d) \<Longrightarrow> flat_write xs off d ! i =
    (if off \<le> i \<and> i < off + length d then d ! (i - off) else byte_at xs i)"
  by (auto simp: flat_write_def nth_overwrite nth_zext byte_at_def)

lemma length_image [simp]: "length (wb_image wb) = totalSize wb"
  by (simp add: wb_image_def)

lemma byte_at_image: "tail_zero wb \<Longrightarrow> byte_at (wb_image wb) i = raw wb i"
  by (auto simp: byte_at_def wb_image_def tail_zero_def)

lemma stored_image:
  assumes "stored wb wb' off data" "tail_zero wb" "\<And>p. \<not> flag (uploadedParts wb') p"
  shows "wb_image wb' = flat_write (wb_image wb) off data \<and> tail_zero wb'"
proof
  show "wb_image wb' = flat_write (wb_image wb) off data"
    using assms byte_at_image [OF assms(2)]
    by (intro nth_equalityI) (auto simp: stored_def nth_flat_write wb_image_def [of wb'])
  show "tail_zero wb'"
    using assms unfolding stored_def tail_zero_def by auto
qed

lemma Write_None_le:
  "Write wb off data = (wb', n, None, evs) \<Longrightarrow> off + length data \<le> maxSize wb"
  by (rule ccontr) (auto simp: Write_EFBIG not_le)

lemma image_zext:
  assumes "tail_zero wb" "totalSize wb' = n" "\<And>i. i < n \<Longrightarrow> raw wb' i = raw wb i"
  shows "wb_image wb' = zext n (wb_image wb)"
  using assms byte_at_image [OF assms(1)]
  by (intro nth_equalityI) (auto simp: wb_image_def [of wb'] zext_eq_map)

lemma raw_markDirty [simp]: "raw (markDirty wb a b) = raw wb"
  by (rule raw_storage_cong) simp_all

lemma wb_inv_touched [simp]: "wb_inv (wb\<lparr>touched := b\<rparr>) = wb_inv wb"
  by (simp add: wb_inv_def cong: option.case_cong)

lemma load_bounded_touched [simp]: "load_bounded (wb\<lparr>touched := b\<rparr>) = load_bounded wb"
  by (simp add: load_bounded_def)

text \<open>The effect of \<^verbatim>\<open>Truncate\<close> on the bytes, whatever the mode.\<close>

lemma Truncate_raw:
  assumes res: "Truncate wb (int n) = Inr wb'" and inv: "wb_inv wb" "load_bounded wb"
  shows "wb_inv wb' \<and> totalSize wb' = n \<and> (\<forall>i<n. raw wb' i = raw wb i) \<and>
    (totalSize wb \<le> n \<longrightarrow> (\<forall>i\<ge>n. raw wb' i = 0 \<or> raw wb' i = raw wb i)) \<and>
    (LoadPart wb = None \<or> remoteSize wb \<le> n \<longrightarrow> n < totalSize wb \<longrightarrow> (\<forall>i\<ge>n. raw wb' i = 0))"
proof -
  have le: "n \<le> maxSize wb" using res by (auto simp: Truncate.simps split: if_splits)
  have ps: "0 < partSize wb" using inv(1) by (simp add: wb_inv_def)
  let ?W = "wb\<lparr>touched := True\<rparr>"
  note T = res [unfolded Truncate_cases [OF le]]
  consider (shrink_small) d where "n < totalSize wb" "smallFileData wb = Some d"
    | (shrink) "n < totalSize wb" "smallFileData wb = None"
    | (grow_small) d where "totalSize wb < n" "smallFileData wb = Some d" "n \<le> smallFileMax wb"
    | (grow_migrate) d where "totalSize wb < n" "smallFileData wb = Some d" "smallFileMax wb < n"
    | (grow) "totalSize wb < n" "smallFileData wb = None"
    | (same) "totalSize wb = n"
    by (cases "smallFileData wb"; cases "n \<le> smallFileMax wb"; cases n "totalSize wb" rule: linorder_cases)
      auto
  then show ?thesis
  proof cases
    case shrink_small
    with T inv(1) show ?thesis by (auto simp: raw_def wb_inv_def)
  next
    case shrink
    have rb: "remote_byte ?W i = 0" if "LoadPart wb = None \<or> remoteSize wb \<le> n" "n \<le> i" for i
      using that remote_byte_beyond [of ?W i] inv(2) ps by (auto simp: remote_byte_def)
    show ?thesis
      using T shrink inv(1) shrink_inv [of ?W n] shrink_raw [of ?W n] rb by auto
  next
    case grow_small
    with T inv(1) show ?thesis by (auto simp: raw_def wb_inv_def)
  next
    case grow_migrate
    have r: "raw (migrateToPartMode ?W) = raw wb" using migrate_raw [of ?W d] inv(1) grow_migrate by simp
    have "wb_inv (migrateToPartMode ?W)" using migrate_inv [of ?W] inv(1) by simp
    with T grow_migrate show ?thesis by (auto simp: r wb_inv_def markDirty_wf)
  next
    case grow
    with T inv(1) show ?thesis by (auto simp: wb_inv_def markDirty_wf)
  next
    case same
    with T have "wb' = ?W" by simp
    with same inv(1) show ?thesis by simp
  qed
qed

lemma Truncate_spec:
  assumes "Truncate wb (int n) = Inr wb'" "wb_inv wb" "load_bounded wb" "tail_zero wb"
  shows "wb_inv wb' \<and> wb_image wb' = zext n (wb_image wb) \<and>
    (LoadPart wb = None \<or> remoteSize wb \<le> n \<or> totalSize wb \<le> n \<longrightarrow> tail_zero wb')"
proof -
  note r = Truncate_raw [OF assms(1-3)]
  have "wb_image wb' = zext n (wb_image wb)" using r by (intro image_zext [OF assms(4)]) auto
  moreover have "tail_zero wb'" if "LoadPart wb = None \<or> remoteSize wb \<le> n \<or> totalSize wb \<le> n"
    using that r assms(4) unfolding tail_zero_def by (metis le_trans not_less)
  ultimately show ?thesis using r by blast
qed

lemma CanMaterializeFull_image:
  assumes "wb_inv wb" "CanMaterializeFull wb"
  shows "Bytes wb = wb_image wb"
proof -
  have ps: "0 < partSize wb" using assms(1) by (simp add: wb_inv_def)
  have "mem_byte wb i = raw wb i" if i: "i < totalSize wb" for i
  proof (cases "smallFileData wb = None \<and> map_of (parts wb) (i div partSize wb) = None")
    case True
    have "remoteSize wb \<le> (i div partSize wb) * partSize wb"
    proof (rule ccontr)
      assume n: "\<not> ?thesis"
      moreover have "(i div partSize wb) * partSize wb < totalSize wb"
        using i div_times_less_eq_dividend [of i "partSize wb"] by linarith
      ultimately have "i div partSize wb < (min (remoteSize wb) (totalSize wb) + partSize wb - 1) div partSize wb"
        using less_ceil_div [OF ps] by simp
      moreover have "min (remoteSize wb) (totalSize wb) \<noteq> 0" using n i by auto
      then have "list_all (IsPartLoaded wb)
          [0 ..< (min (remoteSize wb) (totalSize wb) + partSize wb - 1) div partSize wb]"
        using assms(2) True unfolding CanMaterializeFull_def Let_def by metis
      ultimately have "IsPartLoaded wb (i div partSize wb)" by (auto simp: list_all_iff)
      with True show False by (simp add: IsPartLoaded_def mem_key_def)
    qed
    with True show ?thesis
      by (auto simp: mem_byte_def raw_def part_byte_def remote_byte_def split: option.splits)
  qed (auto simp: mem_byte_def raw_def part_byte_def split: option.splits)
  then show ?thesis by (simp add: Bytes_mem_byte [OF assms(1)] wb_image_def)
qed

section \<open>The contract as an interface\<close>

text \<open>A file as its clients use it: states, their contents, and two fallible operations.\<close>

datatype file_op = OpWrite nat "byte list" | OpTruncate nat

fun flat_op :: "byte list \<Rightarrow> file_op \<Rightarrow> byte list" where
  "flat_op xs (OpWrite off d) = flat_write xs off d"
| "flat_op xs (OpTruncate n) = zext n xs"

fun run_ops ::
  "('s \<Rightarrow> nat \<Rightarrow> byte list \<Rightarrow> 's option) \<Rightarrow> ('s \<Rightarrow> nat \<Rightarrow> 's option) \<Rightarrow> 's \<Rightarrow> file_op list \<Rightarrow> 's option" where
  "run_ops wr tr s [] = Some s"
| "run_ops wr tr s (OpWrite off d # ops) =
    (case wr s off d of None \<Rightarrow> None | Some s' \<Rightarrow> run_ops wr tr s' ops)"
| "run_ops wr tr s (OpTruncate n # ops) =
    (case tr s n of None \<Rightarrow> None | Some s' \<Rightarrow> run_ops wr tr s' ops)"

locale byte_file =
  fixes ok :: "'s \<Rightarrow> bool" and img :: "'s \<Rightarrow> byte list"
    and wr :: "'s \<Rightarrow> nat \<Rightarrow> byte list \<Rightarrow> 's option" and tr :: "'s \<Rightarrow> nat \<Rightarrow> 's option"
  assumes wr_img: "ok s \<Longrightarrow> wr s off d = Some s' \<Longrightarrow> ok s' \<and> img s' = flat_write (img s) off d"
    and tr_img: "ok s \<Longrightarrow> tr s n = Some s' \<Longrightarrow> ok s' \<and> img s' = zext n (img s)"
begin

lemma run_img:
  assumes "ok s" "run_ops wr tr s ops = Some s'"
  shows "ok s' \<and> img s' = foldl flat_op (img s) ops"
  using assms
proof (induction ops arbitrary: s)
  case (Cons a ops)
  show ?case
  proof (cases a)
    case (OpWrite off d)
    with Cons.prems obtain t where t: "wr s off d = Some t" "run_ops wr tr t ops = Some s'"
      by (auto split: option.splits)
    from wr_img [OF Cons.prems(1) t(1)] Cons.IH [OF _ t(2)] OpWrite show ?thesis by simp
  next
    case (OpTruncate n)
    with Cons.prems obtain t where t: "tr s n = Some t" "run_ops wr tr t ops = Some s'"
      by (auto split: option.splits)
    from tr_img [OF Cons.prems(1) t(1)] Cons.IH [OF _ t(2)] OpTruncate show ?thesis by simp
  qed
qed simp

lemma read_back:
  assumes "ok s" "wr s off d = Some s'"
  shows "take (length d) (drop off (img s')) = d"
  using wr_img [OF assms] by (auto intro!: nth_equalityI simp: nth_flat_write)

lemma write_elsewhere:
  assumes "ok s" "wr s off d = Some s'" "i < length (img s)" "i < off \<or> off + length d \<le> i"
  shows "img s' ! i = img s ! i"
  using wr_img [OF assms(1,2)] assms(3,4) by (auto simp: nth_flat_write byte_at_def)

end

text \<open>
  The write buffer provides this interface, for buffers that keep all their parts (the spill
  closure hands parts to the shadow file) and for truncations that do not cut into remote data
  (the exception is the subject of \<^verbatim>\<open>truncate_resurrects\<close> below).
\<close>

definition wb_ok :: "write_buffer \<Rightarrow> bool" where
  "wb_ok wb \<longleftrightarrow> wb_inv wb \<and> load_bounded wb \<and> tail_zero wb \<and> uploadedParts wb = [] \<and>
     OnPartFull wb \<noteq> Some SpillEvict"

definition wb_write :: "write_buffer \<Rightarrow> nat \<Rightarrow> byte list \<Rightarrow> write_buffer option" where
  "wb_write wb off data =
    (case Write wb off data of (wb', n, None, evs) \<Rightarrow> Some wb' | (wb', n, Some e, evs) \<Rightarrow> None)"

definition wb_truncate :: "write_buffer \<Rightarrow> nat \<Rightarrow> write_buffer option" where
  "wb_truncate wb n =
    (if LoadPart wb \<noteq> None \<and> n < remoteSize wb \<and> n < totalSize wb then None
     else case Truncate wb (int n) of Inl e \<Rightarrow> None | Inr wb' \<Rightarrow> Some wb')"

definition config :: "write_buffer \<Rightarrow> write_buffer" where
  "config wb = wb\<lparr>parts := [], dirtyParts := [], curMemory := 0, totalSize := 0, touched := False,
     appendCursor := 0, sequential := False, smallFileData := None\<rparr>"

lemma config_eqD:
  assumes "config wb' = config wb"
  shows "partSize wb' = partSize wb" "maxSize wb' = maxSize wb" "LoadPart wb' = LoadPart wb"
    "remoteSize wb' = remoteSize wb" "uploadedParts wb' = uploadedParts wb" "OnPartFull wb' = OnPartFull wb"
  using assms by (cases wb, cases wb', simp add: config_def)+

lemma frame_config: "frame wb' = frame wb \<Longrightarrow> config wb' = config wb"
  by (cases wb, cases wb') (simp add: frame_def config_def)

lemma notify_submit_id: "fst (foldl (notify_part StreamSubmit) (wb, evs) ps) = wb"
proof (induction ps arbitrary: evs)
  case (Cons p ps)
  have "fst (notify_part StreamSubmit (wb, evs) p) = wb"
    by (simp add: notify_part_def split: option.splits)
  then obtain evs' where "notify_part StreamSubmit (wb, evs) p = (wb, evs')"
    by (metis prod.collapse)
  with Cons.IH show ?case by simp
qed simp

lemma notify_keeps:
  assumes "OnPartFull wb \<noteq> Some SpillEvict"
  shows "fst (notify_full wb c) = wb"
proof (cases "OnPartFull wb")
  case (Some cb)
  then have "cb = StreamSubmit" using assms by (cases cb) auto
  with Some show ?thesis by (simp add: notify_full_def notify_submit_id)
qed (simp add: notify_full_def)

lemma config_upd [simp]:
  "config (wb\<lparr>parts := m\<rparr>) = config wb" "config (wb\<lparr>dirtyParts := dp\<rparr>) = config wb"
  "config (wb\<lparr>curMemory := c\<rparr>) = config wb" "config (wb\<lparr>totalSize := n\<rparr>) = config wb"
  "config (wb\<lparr>touched := t\<rparr>) = config wb" "config (wb\<lparr>appendCursor := n\<rparr>) = config wb"
  "config (wb\<lparr>sequential := q\<rparr>) = config wb" "config (wb\<lparr>smallFileData := sd\<rparr>) = config wb"
  by (simp_all add: config_def)

lemma config_ops [simp]:
  "config (advance_cursor wb a b) = config wb" "config (migrateToPartMode wb) = config wb"
  "config (write_contiguous wb off d) = config wb" "config (markDirty wb a b) = config wb"
  by (simp_all add: advance_cursor_def migrateToPartMode_def write_contiguous_def markDirty_def
      Let_def split: option.split)

lemma config_shrink [simp]: "config (shrink_parts wb n) = config wb"
  using frame_config [OF drop_frame] frame_config [OF cut_frame]
  by (simp add: shrink_parts_def Let_def)

lemma config_write_parts:
  assumes "write_parts wb off data = (wb', n, err, evs)" "OnPartFull wb \<noteq> Some SpillEvict"
  shows "config wb' = config wb"
proof -
  define wb0 where "wb0 = (if totalSize wb < off + length data then wb\<lparr>totalSize := off + length data\<rparr> else wb)"
  obtain wb1 m e where loop: "write_loop wb0 off data 0 = (wb1, m, e)" by (metis prod_cases3)
  have c: "config wb1 = config wb"
    using frame_config [OF write_loop_frame [OF loop]] by (simp add: wb0_def)
  define wb2 where "wb2 = advance_cursor (wb1\<lparr>touched := True\<rparr>) off (off + length data)"
  have c2: "config wb2 = config wb" using c by (simp add: wb2_def)
  have "wb' = wb1 \<or> wb' = fst (notify_full wb2 (appendCursor wb1))"
    using assms(1) loop by (auto simp: write_parts_def Let_def wb0_def [symmetric] wb2_def
        split: prod.splits option.splits)
  moreover have "fst (notify_full wb2 (appendCursor wb1)) = wb2"
    using assms(2) config_eqD(6) [OF c2] by (intro notify_keeps) simp
  ultimately show ?thesis using c c2 by auto
qed

lemma config_Write:
  assumes "Write wb off data = (wb', n, None, evs)" "OnPartFull wb \<noteq> Some SpillEvict"
  shows "config wb' = config wb"
  using Write_None_le [OF assms(1)]
proof (cases rule: Write_cases)
  case (migrate d)
  with assms config_write_parts [of "migrateToPartMode wb" off data wb' n None evs] show ?thesis by simp
next
  case parts
  with assms config_write_parts [of wb off data wb' n None evs] show ?thesis by simp
qed (use assms in simp)

lemma config_Truncate:
  assumes "Truncate wb (int n) = Inr wb'"
  shows "config wb' = config wb"
proof -
  have le: "n \<le> maxSize wb" using assms by (auto simp: Truncate.simps split: if_splits)
  show ?thesis
    using assms [unfolded Truncate_cases [OF le]] by (auto simp: Let_def split: if_splits option.splits)
qed

lemma wb_ok_config:
  assumes "config wb' = config wb" "wb_ok wb" "wb_inv wb'" "tail_zero wb'"
  shows "wb_ok wb'"
  using assms config_eqD [OF assms(1)] by (simp add: wb_ok_def load_bounded_def)

interpretation wbf: byte_file wb_ok wb_image wb_write wb_truncate
proof
  fix s off d s'
  assume ok: "wb_ok s" and "wb_write s off d = Some s'"
  then obtain n evs where w: "Write s off d = (s', n, None, evs)"
    by (auto simp: wb_write_def split: prod.splits option.splits)
  note c = config_Write [OF w]
  have st: "wb_inv s' \<and> stored s s' off d"
    using Write_spec [OF w _ _ Write_None_le [OF w]] ok by (simp add: wb_ok_def)
  have "\<not> flag (uploadedParts s') p" for p
    using config_eqD(5) [OF c] ok by (simp add: wb_ok_def flag_def)
  with stored_image [of s s' off d] st ok have "wb_image s' = flat_write (wb_image s) off d \<and> tail_zero s'"
    by (auto simp: wb_ok_def)
  with c st ok show "wb_ok s' \<and> wb_image s' = flat_write (wb_image s) off d"
    using wb_ok_config [of s' s] by (simp add: wb_ok_def)
next
  fix s n s'
  assume ok: "wb_ok s" and "wb_truncate s n = Some s'"
  then have t: "Truncate s (int n) = Inr s'" "LoadPart s = None \<or> remoteSize s \<le> n \<or> totalSize s \<le> n"
    by (auto simp: wb_truncate_def not_less split: if_splits sum.splits)
  with Truncate_spec [OF t(1)] ok have "wb_inv s' \<and> wb_image s' = zext n (wb_image s) \<and> tail_zero s'"
    by (auto simp: wb_ok_def)
  with config_Truncate [OF t(1)] ok show "wb_ok s' \<and> wb_image s' = zext n (wb_image s)"
    using wb_ok_config [of s' s] by blast
qed

section \<open>New files\<close>

text \<open>The buffer of a handle that created its file, as \<^verbatim>\<open>newWriteBuffer\<close> and \<^verbatim>\<open>Create\<close> set it up.\<close>

definition created_buffer ::
  "string \<Rightarrow> int \<Rightarrow> int \<Rightarrow> int \<Rightarrow> on_part_full option \<Rightarrow> write_buffer" where
  "created_buffer p maxSz partSz threshold cb =
    (SetSmallFileMax (NewWriteBuffer p maxSz partSz) threshold)
      \<lparr>touched := True, sequential := True, OnPartFull := cb\<rparr>"

lemma wb_ok_created: "cb \<noteq> Some SpillEvict \<Longrightarrow> wb_ok (created_buffer p maxSz partSz threshold cb)"
  by (auto simp: wb_ok_def created_buffer_def SetSmallFileMax_def NewWriteBuffer_def wb_inv_def
      load_bounded_def tail_zero_def raw_def remote_byte_def flag_def DefaultPartSize_def)

lemma image_created: "wb_image (created_buffer p maxSz partSz threshold cb) = []"
  by (simp add: created_buffer_def SetSmallFileMax_def NewWriteBuffer_def wb_image_def)

lemma config_run:
  assumes "run_ops wb_write wb_truncate wb ops = Some wb'" "wb_ok wb"
  shows "config wb' = config wb"
  using assms
proof (induction ops arbitrary: wb)
  case (Cons a ops)
  show ?case
  proof (cases a)
    case (OpWrite off d)
    with Cons.prems obtain t where t: "wb_write wb off d = Some t" "run_ops wb_write wb_truncate t ops = Some wb'"
      by (auto split: option.splits)
    then obtain n evs where w: "Write wb off d = (t, n, None, evs)"
      by (auto simp: wb_write_def split: prod.splits option.splits)
    have "wb_ok t" using wbf.wr_img [OF Cons.prems(2) t(1)] by simp
    with Cons.IH [OF t(2)] config_Write [OF w] Cons.prems(2) show ?thesis by (simp add: wb_ok_def)
  next
    case (OpTruncate n)
    with Cons.prems obtain t where t: "wb_truncate wb n = Some t" "run_ops wb_write wb_truncate t ops = Some wb'"
      by (auto split: option.splits)
    then have "Truncate wb (int n) = Inr t" by (auto simp: wb_truncate_def split: if_splits sum.splits)
    moreover have "wb_ok t" using wbf.tr_img [OF Cons.prems(2) t(1)] by simp
    ultimately show ?thesis using Cons.IH [OF t(2)] config_Truncate by simp
  qed
qed simp

lemma ReadAt_mem_byte:
  assumes inv: "wb_inv wb"
  shows "ReadAt wb off len = map (mem_byte wb) [off ..< min (off + len) (totalSize wb)]"
proof (cases "totalSize wb \<le> off")
  case False
  let ?t = "min (off + len) (totalSize wb) - off"
  have e: "off + ?t = min (off + len) (totalSize wb)" using False by simp
  show ?thesis
  proof (cases "smallFileData wb")
    case (Some d)
    have d: "d = map (mem_byte wb) [0 ..< totalSize wb]"
      using Some small_length [OF inv Some] by (intro nth_equalityI) (auto simp: mem_byte_def byte_at_def)
    have "take ?t (drop off d) = map (mem_byte wb) [off ..< min (off + len) (totalSize wb)]"
      using e by (subst d) (simp only: map_upt_slice min.assoc min.idem)
    with False Some show ?thesis by (simp add: ReadAt_def Let_def smallFileBytes_inv [OF inv])
  next
    case None
    with False e read_loop_mem_byte [OF inv None, of off ?t] show ?thesis
      by (simp add: ReadAt_def Let_def smallFileBytes_inv [OF inv])
  qed
qed (simp add: ReadAt_def)

lemma bytesView_Bytes: "wb_inv wb \<Longrightarrow> bytesView wb = Bytes wb"
  using Bytes_mem_byte [of wb] small_length [of wb]
  by (auto simp: bytesView_def smallFileBytes_inv mem_byte_def byte_at_def Bytes_def
      split: option.splits intro!: nth_equalityI)

section \<open>Opened files\<close>

text \<open>
  The loader closure of \<^verbatim>\<open>dat9fs.go\<close> for a remote file whose range reads succeed, and the buffer
  \<^verbatim>\<open>preloadWritableHandle\<close> sets up around it.
\<close>

definition remote_loader :: "byte list \<Rightarrow> nat \<Rightarrow> nat \<Rightarrow> string + byte list" where
  "remote_loader remote ps partNum = Inr (take ps (drop ((partNum - 1) * ps) remote))"

definition opened_buffer :: "string \<Rightarrow> byte list \<Rightarrow> nat \<Rightarrow> nat \<Rightarrow> int \<Rightarrow> write_buffer" where
  "opened_buffer p remote bufMax ps threshold =
    (SetSmallFileMax (NewWriteBuffer p (int bufMax) (int ps)) threshold)
      \<lparr>totalSize := length remote, remoteSize := length remote,
       LoadPart := Some (remote_loader remote (if ps = 0 then DefaultPartSize else ps))\<rparr>"

lemma opened_fields:
  "partSize (opened_buffer p remote bufMax ps t) = (if ps = 0 then DefaultPartSize else ps)"
  "totalSize (opened_buffer p remote bufMax ps t) = length remote"
  "remoteSize (opened_buffer p remote bufMax ps t) = length remote"
  "parts (opened_buffer p remote bufMax ps t) = []"
  "dirtyParts (opened_buffer p remote bufMax ps t) = []"
  "uploadedParts (opened_buffer p remote bufMax ps t) = []"
  "smallFileData (opened_buffer p remote bufMax ps t) = None"
  "LoadPart (opened_buffer p remote bufMax ps t) = Some (remote_loader remote (if ps = 0 then DefaultPartSize else ps))"
  "curMemory (opened_buffer p remote bufMax ps t) = 0" "OnPartFull (opened_buffer p remote bufMax ps t) = None"
  by (simp_all add: opened_buffer_def SetSmallFileMax_def NewWriteBuffer_def)

lemma wb_inv_opened: "wb_inv (opened_buffer p remote bufMax ps t)"
  by (simp add: wb_inv_def opened_fields DefaultPartSize_def)

lemma load_bounded_opened: "load_bounded (opened_buffer p remote bufMax ps t)"
  by (auto simp: load_bounded_def opened_fields remote_loader_def)

lemma remote_byte_opened: "remote_byte (opened_buffer p remote bufMax ps t) i = byte_at remote i"
proof -
  let ?q = "if ps = 0 then DefaultPartSize else ps"
  have "i mod ?q < ?q" by (simp add: DefaultPartSize_def)
  moreover have "i div ?q * ?q + i mod ?q = i" by simp
  moreover have "byte_at remote i = 0" if "length remote \<le> i div ?q * ?q"
    using that div_times_less_eq_dividend [of i ?q] unfolding byte_at_def by (meson le_trans not_less)
  ultimately show ?thesis
    unfolding remote_byte_def opened_fields by (simp add: remote_loader_def byte_at_drop)
qed

lemma raw_opened: "raw (opened_buffer p remote bufMax ps t) i = byte_at remote i"
  using remote_byte_opened [of p remote bufMax ps t i] by (simp add: raw_def opened_fields flag_def)

lemma tail_zero_opened: "tail_zero (opened_buffer p remote bufMax ps t)"
  by (simp add: tail_zero_def raw_opened opened_fields byte_at_def)

lemma wb_ok_opened: "wb_ok (opened_buffer p remote bufMax ps t)"
  by (simp add: wb_ok_def wb_inv_opened load_bounded_opened tail_zero_opened opened_fields)

lemma image_opened: "wb_image (opened_buffer p remote bufMax ps t) = remote"
  by (intro nth_equalityI) (auto simp: wb_image_def raw_opened opened_fields byte_at_def)

text \<open>The only other error of a write within the limit is a failed load.\<close>

lemma write_loop_err: "write_loop wb pos data k = (wb', n, Some e) \<Longrightarrow> e \<noteq> EFBIG"
proof (induction wb pos data k rule: write_loop.induct)
  case (1 wb pos data k)
  show ?case
  proof
    assume "e = EFBIG"
    with 1(2) show False
      by (subst (asm) write_loop.simps)
        (auto simp: Let_def ensurePart_def split: if_splits sum.splits option.splits dest!: "1.IH")
  qed
qed

lemma Write_err_load:
  assumes "Write wb off data = (wb', n, err, evs)" "off + length data \<le> maxSize wb"
  shows "err \<noteq> Some EFBIG"
proof -
  have "err' \<noteq> Some EFBIG" if "write_parts w off data = (wb', n', err', evs')" for w wb' n' err' evs'
    using that by (auto simp: write_parts_def Let_def split: prod.splits option.splits dest: write_loop_err)
  with assms(1) show ?thesis by (cases rule: Write_cases [OF assms(2)]) auto
qed

text \<open>Evaluating the operations at a concrete buffer.\<close>

lemmas wb_eval = wb_write_def wb_truncate_def Write.simps writeSmallFile.simps use_fast_path_def
  write_parts_def write_loop.simps ensurePart_def write_chunk_def write_contiguous_def
  advance_cursor_def notify_full_def migrateToPartMode_def Truncate.simps shrink_parts_def
  drop_parts_def cut_part_def markDirty_def overwrite_def zext_def flag_def mem_key_def
  remote_loader_def SetSmallFileMax_def NewWriteBuffer_def

section \<open>Properties\<close>



text \<open>
  C21: \<^verbatim>\<open>Write\<close> against the flat file, for any buffer, with parts loaded lazily from the remote file,
  streamed away or spilled. A write that succeeds reports all bytes written, extends the size to
  cover them, changes exactly the written range among the bytes still in memory, keeps the
  representation invariant (part sizes, the memory account, the fast-path conditions) and marks every
  part it touched dirty. It fails with EFBIG exactly when the range passes the size limit, and then
  the buffer is unchanged.
\<close>
theorem Write_refines_flat:
  assumes "wb_inv wb" and "load_bounded wb" and "Write wb off data = (wb', n, err, evs)"
  shows "(err = Some EFBIG \<longleftrightarrow> maxSize wb < off + length data) \<and>
    (err = Some EFBIG \<longrightarrow> wb' = wb \<and> n = 0) \<and> wb_inv wb' \<and>
    (err = None \<longrightarrow>
      n = length data \<and> totalSize wb' = max (totalSize wb) (off + length data) \<and>
      (\<forall>i. \<not> flag (uploadedParts wb') (i div partSize wb) \<longrightarrow>
        raw wb' i = (if off \<le> i \<and> i < off + length data then data ! (i - off) else raw wb i)) \<and>
      (\<forall>i. off \<le> i \<and> i < off + length data \<longrightarrow> flag (dirtyParts wb') (i div partSize wb)))"
proof (cases "maxSize wb < off + length data")
  case True
  then have "wb' = wb" "n = 0" "err = Some EFBIG" using assms(3) by (auto simp: Write_EFBIG)
  with True assms(1) show ?thesis by simp
next
  case False
  then have "off + length data \<le> maxSize wb" by simp
  from Write_spec [OF assms(3,1,2) this] Write_err_load [OF assms(3) this] show ?thesis
    using False by (auto simp: stored_def)
qed

theorem Write_refines_flat_witness:
  "\<exists>wb' evs. Write (opened_buffer ''/f'' [1, 2, 3] 9 2 1) 1 [8] = (wb', 1, None, evs) \<and>
     raw wb' 0 = 1 \<and> raw wb' 1 = 8"
proof -
  let ?wb = "opened_buffer ''/f'' [1, 2, 3] 9 2 1"
  obtain wb' evs where w: "Write ?wb 1 [8] = (wb', 1, None, evs)" and u: "uploadedParts wb' = []"
    by (simp add: wb_eval opened_buffer_def)
  have r: "raw ?wb 0 = 1" by (simp add: raw_opened byte_at_def)
  have "raw wb' 0 = 1 \<and> raw wb' 1 = 8"
    using Write_refines_flat [OF wb_inv_opened load_bounded_opened w] r by (simp add: u flag_def)
  with w show ?thesis by blast
qed

text \<open>
  C22: \<^verbatim>\<open>Truncate\<close> against the flat file: the contents become the old contents cut to the new size or
  extended with zeroes, the invariant is kept, and as long as the cut does not go below the size of
  the remote file the bytes beyond the end are zero, so that a later extension exposes zeroes only.
\<close>
theorem Truncate_refines_flat:
  assumes "wb_inv wb" and "load_bounded wb" and "tail_zero wb" and "Truncate wb (int n) = Inr wb'"
  shows "wb_image wb' = zext n (wb_image wb) \<and> wb_inv wb' \<and>
    (LoadPart wb = None \<or> remoteSize wb \<le> n \<or> totalSize wb \<le> n \<longrightarrow> tail_zero wb')"
  using Truncate_spec [OF assms(4,1-3)] by blast

theorem Truncate_refines_flat_witness:
  "\<exists>wb'. Truncate (opened_buffer ''/f'' [1, 2, 3] 9 2 1) 5 = Inr wb' \<and> wb_image wb' = [1, 2, 3, 0, 0]"
proof -
  let ?wb = "opened_buffer ''/f'' [1, 2, 3] 9 2 1"
  obtain wb' where t: "Truncate ?wb (int 5) = Inr wb'"
    by (simp add: wb_eval opened_buffer_def)
  have i: "wb_image ?wb = [1, 2, 3]" by (rule image_opened)
  have "zext 5 [1, 2, 3] = [1, 2, 3, 0, 0]" by (simp add: zext_def)
  with t Truncate_refines_flat [OF wb_inv_opened load_bounded_opened tail_zero_opened t] i
  show ?thesis by auto
qed




text \<open>
  shortening an opened file to a length inside a part that was never loaded loses the part. The
  remote file holds 1 2 3 4; after truncating to 2 the buffer stands for 1 2 and its part 1 is the
  one dirty part, but \<^verbatim>\<open>PartData\<close> and \<^verbatim>\<open>Bytes\<close>, which the flush uploads, return zeroes.
\<close>
theorem truncate_uploads_zeroes:
  "\<exists>wb. Truncate (opened_buffer ''/f'' [1, 2, 3, 4] 9 4 1) 2 = Inr wb \<and> wb_image wb = [1, 2] \<and>
     DirtyPartNumbers wb = [1] \<and> PartData wb 0 = Some [0, 0] \<and> bytesView wb = [0, 0]"
  by (simp add: wb_eval opened_buffer_def Bytes_def bytesView_def smallFileBytes_def wb_image_def raw_def
      remote_byte_def byte_at_def DirtyPartNumbers_def PartData_def)

end
