(* ===== verification/Local_S3.thy ===== *)
theory Local_S3
  imports Prelude
begin

text \<open>
  The filesystem-backed object store (\<^verbatim>\<open>pkg/s3client/local.go\<close>, type \<^verbatim>\<open>LocalS3Client\<close>) and the part
  arithmetic of \<^verbatim>\<open>pkg/s3client/s3client.go\<close>. The directories \<^verbatim>\<open>objects/\<close> and \<^verbatim>\<open>parts/\<close> are maps; the
  upload id that \<^verbatim>\<open>CreateMultipartUpload\<close> draws from the clock and the etag digest (SHA-256) are
  parameters. Failures of the local disk are not modelled; every error the code itself decides is.

  The locale \<^verbatim>\<open>multipart_store\<close> is what the server relies on: parts staged under an upload id become
  one object, concatenated in part order.
\<close>

section \<open>Part arithmetic\<close>

definition PartSize :: nat where "PartSize = 8 * 2 ^ 20"
definition MinPartSize :: nat where "MinPartSize = 5 * 2 ^ 20"
definition MaxPartSize :: nat where "MaxPartSize = 5 * 2 ^ 30"
definition MaxAdaptivePartSize :: nat where "MaxAdaptivePartSize = 512 * 2 ^ 20"

definition CalcAdaptivePartSize :: "nat \<Rightarrow> nat" where
  "CalcAdaptivePartSize totalSz =
    (let align = 2 ^ 20;
         ps = (totalSz + 9999) div 10000;
         ps = ((ps + align - 1) div align) * align;
         ps = (if ps < PartSize then PartSize else ps)
     in if MaxAdaptivePartSize < ps then MaxAdaptivePartSize else ps)"

record s3_part =
  Number :: nat
  Size :: nat

definition CalcParts :: "nat \<Rightarrow> nat \<Rightarrow> s3_part list" where
  "CalcParts totalSz partSz =
    (let ps = (if partSz = 0 then PartSize else partSz);
         n = (totalSz + ps - 1) div ps
     in map (\<lambda>i. \<lparr>Number = i + 1, Size = (if i = n - 1 then totalSz - i * ps else ps)\<rparr>) [0 ..< n])"

section \<open>The store\<close>

record local_part =
  lp_size :: nat
  lp_etag :: string

record local_upload =
  up_key :: string
  up_parts :: "(nat, local_part) gomap"

record local_s3 =
  objects :: "(string, byte list) gomap"
  partFiles :: "(string \<times> nat, byte list) gomap"
  uploads :: "(string, local_upload) gomap"

datatype s3_error = UploadNotFound | SourceNotFound | ObjectNotFound | PartMissing nat

definition CreateMultipartUpload :: "local_s3 \<Rightarrow> string \<Rightarrow> string \<Rightarrow> local_s3" where
  "CreateMultipartUpload c key uploadID =
     c\<lparr>uploads := AList.update uploadID \<lparr>up_key = key, up_parts = []\<rparr> (uploads c)\<rparr>"

definition store_part ::
  "(byte list \<Rightarrow> string) \<Rightarrow> local_s3 \<Rightarrow> string \<Rightarrow> local_upload \<Rightarrow> nat \<Rightarrow> byte list \<Rightarrow> local_s3" where
  "store_part etag c uploadID u n data =
     c\<lparr>partFiles := AList.update (uploadID, n) data (partFiles c),
       uploads := AList.update uploadID
         (u\<lparr>up_parts := AList.update n \<lparr>lp_size = length data, lp_etag = etag data\<rparr> (up_parts u)\<rparr>)
         (uploads c)\<rparr>"

definition UploadPart ::
  "(byte list \<Rightarrow> string) \<Rightarrow> local_s3 \<Rightarrow> string \<Rightarrow> nat \<Rightarrow> byte list \<Rightarrow> s3_error + (local_s3 \<times> string)" where
  "UploadPart etag c uploadID n body =
    (case map_of (uploads c) uploadID of
      None \<Rightarrow> Inl UploadNotFound
    | Some u \<Rightarrow> Inr (store_part etag c uploadID u n body, etag body))"

definition UploadPartCopy ::
  "(byte list \<Rightarrow> string) \<Rightarrow> local_s3 \<Rightarrow> string \<Rightarrow> nat \<Rightarrow> string \<Rightarrow> nat \<Rightarrow> nat \<Rightarrow> s3_error + (local_s3 \<times> string)" where
  "UploadPartCopy etag c uploadID n sourceKey startByte endByte =
    (case map_of (uploads c) uploadID of
      None \<Rightarrow> Inl UploadNotFound
    | Some u \<Rightarrow>
        (case map_of (objects c) sourceKey of
          None \<Rightarrow> Inl SourceNotFound
        | Some src \<Rightarrow>
            let data = take (endByte + 1 - startByte) (drop startByte src)
            in Inr (store_part etag c uploadID u n data, etag data)))"

text \<open>
  The assembly loop writes the object file part by part; a missing part file leaves what was written
  so far in place of the object.
\<close>

fun assemble_parts ::
  "(nat \<Rightarrow> byte list option) \<Rightarrow> byte list \<Rightarrow> nat list \<Rightarrow> byte list \<times> nat option" where
  "assemble_parts file acc [] = (acc, None)"
| "assemble_parts file acc (n # ns) =
    (case file n of None \<Rightarrow> (acc, Some n) | Some d \<Rightarrow> assemble_parts file (acc @ d) ns)"

definition drop_upload :: "local_s3 \<Rightarrow> string \<Rightarrow> local_s3" where
  "drop_upload c uploadID =
     c\<lparr>partFiles := filter (\<lambda>((u, n), d). u \<noteq> uploadID) (partFiles c),
       uploads := AList.delete uploadID (uploads c)\<rparr>"

definition CompleteMultipartUpload ::
  "local_s3 \<Rightarrow> string \<Rightarrow> string \<Rightarrow> nat list \<Rightarrow> local_s3 \<times> s3_error option" where
  "CompleteMultipartUpload c key uploadID ns =
    (case map_of (uploads c) uploadID of
      None \<Rightarrow> (c, Some UploadNotFound)
    | Some u \<Rightarrow>
        (case assemble_parts (\<lambda>n. map_of (partFiles c) (uploadID, n)) [] (sort ns) of
          (obj, Some n) \<Rightarrow> (c\<lparr>objects := AList.update key obj (objects c)\<rparr>, Some (PartMissing n))
        | (obj, None) \<Rightarrow> (drop_upload (c\<lparr>objects := AList.update key obj (objects c)\<rparr>) uploadID, None)))"

definition AbortMultipartUpload :: "local_s3 \<Rightarrow> string \<Rightarrow> local_s3" where
  "AbortMultipartUpload c uploadID = drop_upload c uploadID"

definition ListParts :: "local_s3 \<Rightarrow> string \<Rightarrow> s3_error + (nat \<times> local_part) list" where
  "ListParts c uploadID =
    (case map_of (uploads c) uploadID of
      None \<Rightarrow> Inl UploadNotFound
    | Some u \<Rightarrow> Inr (sort_key fst (up_parts u)))"

definition PutObject :: "local_s3 \<Rightarrow> string \<Rightarrow> byte list \<Rightarrow> local_s3" where
  "PutObject c key body = c\<lparr>objects := AList.update key body (objects c)\<rparr>"

definition GetObject :: "local_s3 \<Rightarrow> string \<Rightarrow> s3_error + byte list" where
  "GetObject c key = (case map_of (objects c) key of None \<Rightarrow> Inl ObjectNotFound | Some d \<Rightarrow> Inr d)"

definition DeleteObject :: "local_s3 \<Rightarrow> string \<Rightarrow> s3_error + local_s3" where
  "DeleteObject c key =
    (case map_of (objects c) key of
      None \<Rightarrow> Inl ObjectNotFound
    | Some d \<Rightarrow> Inr (c\<lparr>objects := AList.delete key (objects c)\<rparr>))"

section \<open>The interface of a multipart store\<close>

datatype staging = StageUpload nat "byte list" | StageCopy nat string nat nat

fun staging_number :: "staging \<Rightarrow> nat" where
  "staging_number (StageUpload n d) = n"
| "staging_number (StageCopy n k a b) = n"

text \<open>The bytes a staging step contributes, given the objects it may copy from.\<close>

fun staging_bytes :: "(string \<Rightarrow> byte list option) \<Rightarrow> staging \<Rightarrow> byte list option" where
  "staging_bytes obj (StageUpload n d) = Some d"
| "staging_bytes obj (StageCopy n k a b) = map_option (\<lambda>src. take (b + 1 - a) (drop a src)) (obj k)"

fun run_staging ::
  "('s \<Rightarrow> string \<Rightarrow> nat \<Rightarrow> byte list \<Rightarrow> 's option) \<Rightarrow>
   ('s \<Rightarrow> string \<Rightarrow> nat \<Rightarrow> string \<Rightarrow> nat \<Rightarrow> nat \<Rightarrow> 's option) \<Rightarrow> 's \<Rightarrow> string \<Rightarrow> staging list \<Rightarrow> 's option" where
  "run_staging up cp s u [] = Some s"
| "run_staging up cp s u (StageUpload n d # as) =
    (case up s u n d of None \<Rightarrow> None | Some s' \<Rightarrow> run_staging up cp s' u as)"
| "run_staging up cp s u (StageCopy n k a b # as) =
    (case cp s u n k a b of None \<Rightarrow> None | Some s' \<Rightarrow> run_staging up cp s' u as)"

definition stage_map ::
  "(string \<Rightarrow> byte list option) \<Rightarrow> (nat \<Rightarrow> byte list option) \<Rightarrow> staging \<Rightarrow> nat \<Rightarrow> byte list option" where
  "stage_map obj m a = m(staging_number a := staging_bytes obj a)"

locale multipart_store =
  fixes obj :: "'s \<Rightarrow> string \<Rightarrow> byte list option"
    and live :: "'s \<Rightarrow> string \<Rightarrow> bool"
    and staged :: "'s \<Rightarrow> string \<Rightarrow> nat \<Rightarrow> byte list option"
    and up :: "'s \<Rightarrow> string \<Rightarrow> nat \<Rightarrow> byte list \<Rightarrow> 's option"
    and cp :: "'s \<Rightarrow> string \<Rightarrow> nat \<Rightarrow> string \<Rightarrow> nat \<Rightarrow> nat \<Rightarrow> 's option"
    and comp :: "'s \<Rightarrow> string \<Rightarrow> string \<Rightarrow> nat list \<Rightarrow> 's option"
  assumes up_law: "live s u \<Longrightarrow>
      \<exists>s'. up s u n d = Some s' \<and> live s' u \<and> obj s' = obj s \<and> staged s' u = (staged s u)(n \<mapsto> d)"
    and cp_law: "live s u \<Longrightarrow> obj s k = Some src \<Longrightarrow>
      \<exists>s'. cp s u n k a b = Some s' \<and> live s' u \<and> obj s' = obj s \<and>
        staged s' u = (staged s u)(n \<mapsto> take (b + 1 - a) (drop a src))"
    and comp_law: "live s u \<Longrightarrow> sorted ns \<Longrightarrow> (\<forall>n\<in>set ns. staged s u n \<noteq> None) \<Longrightarrow>
      \<exists>s'. comp s k u ns = Some s' \<and> \<not> live s' u \<and>
        obj s' = (obj s)(k \<mapsto> concat (map (\<lambda>n. the (staged s u n)) ns))"
begin

lemma staging_law:
  assumes "live s u" "\<And>a. a \<in> set as \<Longrightarrow> staging_bytes (obj s) a \<noteq> None"
  shows "\<exists>s'. run_staging up cp s u as = Some s' \<and> live s' u \<and> obj s' = obj s \<and>
    staged s' u = foldl (stage_map (obj s)) (staged s u) as"
  using assms
proof (induction "as" arbitrary: s)
  case (Cons a as)
  show ?case
  proof (cases a)
    case (StageUpload n d)
    obtain t where t: "up s u n d = Some t" "live t u" "obj t = obj s" "staged t u = (staged s u)(n \<mapsto> d)"
      using up_law [OF Cons.prems(1)] by blast
    have "\<And>b. b \<in> set as \<Longrightarrow> staging_bytes (obj t) b \<noteq> None" using t(3) Cons.prems(2) by simp
    moreover have "stage_map (obj s) (staged s u) a = staged t u"
      by (simp add: stage_map_def StageUpload t(4))
    ultimately show ?thesis using Cons.IH [OF t(2)] t(1,3) StageUpload by simp
  next
    case (StageCopy n k x y)
    obtain src where src: "obj s k = Some src" using Cons.prems(2) [of a] StageCopy by auto
    obtain t where t: "cp s u n k x y = Some t" "live t u" "obj t = obj s"
        "staged t u = (staged s u)(n \<mapsto> take (y + 1 - x) (drop x src))"
      using cp_law [OF Cons.prems(1) src] by blast
    have "\<And>b. b \<in> set as \<Longrightarrow> staging_bytes (obj t) b \<noteq> None" using t(3) Cons.prems(2) by simp
    moreover have "stage_map (obj s) (staged s u) a = staged t u"
      by (simp add: stage_map_def StageCopy t(4) src)
    ultimately show ?thesis using Cons.IH [OF t(2)] t(1,3) StageCopy by simp
  qed
qed simp

text \<open>Staging a numbered plan and completing it publishes the concatenation, in order.\<close>

lemma plan_completes:
  assumes "live s u" "\<And>a. a \<in> set as \<Longrightarrow> staging_bytes (obj s) a \<noteq> None"
    and "sorted (map staging_number as)" "distinct (map staging_number as)"
  shows "\<exists>s1 s2. run_staging up cp s u as = Some s1 \<and> comp s1 k u (map staging_number as) = Some s2 \<and>
    obj s2 = (obj s)(k \<mapsto> concat (map (\<lambda>a. the (staging_bytes (obj s) a)) as))"
proof -
  have look: "foldl (stage_map (obj s)) m bs n =
      (case map_of (rev (map (\<lambda>a. (staging_number a, staging_bytes (obj s) a)) bs)) n of
        None \<Rightarrow> m n | Some d \<Rightarrow> d)" for m bs n
    by (induction bs rule: rev_induct) (auto simp: stage_map_def)
  obtain s1 where s1: "run_staging up cp s u as = Some s1" "live s1 u" "obj s1 = obj s"
      "staged s1 u = foldl (stage_map (obj s)) (staged s u) as"
    using staging_law [OF assms(1,2)] by blast
  have at: "staged s1 u (staging_number a) = staging_bytes (obj s) a" if "a \<in> set as" for a
  proof -
    have "distinct (map fst (rev (map (\<lambda>a. (staging_number a, staging_bytes (obj s) a)) as)))"
      using assms(4) by (simp add: rev_map [symmetric] comp_def)
    then have "map_of (rev (map (\<lambda>a. (staging_number a, staging_bytes (obj s) a)) as)) (staging_number a)
        = Some (staging_bytes (obj s) a)"
      using that by (intro map_of_is_SomeI) auto
    then show ?thesis by (simp add: s1(4) look)
  qed
  from comp_law [OF s1(2) assms(3), of k] at assms(2) obtain s2 where
      "comp s1 k u (map staging_number as) = Some s2"
      "obj s2 = (obj s1)(k \<mapsto> concat (map (\<lambda>n. the (staged s1 u n)) (map staging_number as)))"
    by auto
  moreover have "map (\<lambda>n. the (staged s1 u n)) (map staging_number as) =
      map (\<lambda>a. the (staging_bytes (obj s) a)) as"
    using at by simp
  ultimately show ?thesis unfolding s1(3) using s1(1) by metis
qed

end

section \<open>The local store is one\<close>

definition ls_object :: "local_s3 \<Rightarrow> string \<Rightarrow> byte list option" where
  "ls_object c key = (case GetObject c key of Inl e \<Rightarrow> None | Inr d \<Rightarrow> Some d)"

definition ls_live :: "local_s3 \<Rightarrow> string \<Rightarrow> bool" where
  "ls_live c u = mem_key (uploads c) u"

definition ls_staged :: "local_s3 \<Rightarrow> string \<Rightarrow> nat \<Rightarrow> byte list option" where
  "ls_staged c u n = map_of (partFiles c) (u, n)"

definition ls_upload :: "(byte list \<Rightarrow> string) \<Rightarrow> local_s3 \<Rightarrow> string \<Rightarrow> nat \<Rightarrow> byte list \<Rightarrow> local_s3 option" where
  "ls_upload etag c u n d = (case UploadPart etag c u n d of Inl e \<Rightarrow> None | Inr (c', t) \<Rightarrow> Some c')"

definition ls_copy ::
  "(byte list \<Rightarrow> string) \<Rightarrow> local_s3 \<Rightarrow> string \<Rightarrow> nat \<Rightarrow> string \<Rightarrow> nat \<Rightarrow> nat \<Rightarrow> local_s3 option" where
  "ls_copy etag c u n k a b = (case UploadPartCopy etag c u n k a b of Inl e \<Rightarrow> None | Inr (c', t) \<Rightarrow> Some c')"

definition ls_complete :: "local_s3 \<Rightarrow> string \<Rightarrow> string \<Rightarrow> nat list \<Rightarrow> local_s3 option" where
  "ls_complete c k u ns = (case CompleteMultipartUpload c k u ns of (c', None) \<Rightarrow> Some c' | (c', Some e) \<Rightarrow> None)"

lemmas ls_defs = ls_object_def ls_live_def ls_staged_def ls_upload_def ls_copy_def ls_complete_def

lemma assemble_all:
  "\<forall>n\<in>set ns. file n \<noteq> None \<Longrightarrow> assemble_parts file acc ns = (acc @ concat (map (\<lambda>n. the (file n)) ns), None)"
  by (induction ns arbitrary: acc) auto

lemma ls_object_map_of: "ls_object c = map_of (objects c)"
  by (rule ext) (simp add: ls_object_def GetObject_def split: option.split)

interpretation ls: multipart_store ls_object ls_live ls_staged "ls_upload etag" "ls_copy etag" ls_complete
  for etag
proof
  fix s u n d
  assume "ls_live s u"
  then obtain x where "map_of (uploads s) u = Some x" by (auto simp: ls_live_def mem_key_def)
  then show "\<exists>s'. ls_upload etag s u n d = Some s' \<and> ls_live s' u \<and> ls_object s' = ls_object s \<and>
      ls_staged s' u = (ls_staged s u)(n \<mapsto> d)"
    by (auto simp: ls_upload_def ls_object_map_of ls_live_def ls_staged_def UploadPart_def store_part_def)
next
  fix s u k src n a b
  assume "ls_live s u" "ls_object s k = Some src"
  then obtain x where "map_of (uploads s) u = Some x" "map_of (objects s) k = Some src"
    by (auto simp: ls_live_def mem_key_def ls_object_map_of)
  then show "\<exists>s'. ls_copy etag s u n k a b = Some s' \<and> ls_live s' u \<and> ls_object s' = ls_object s \<and>
      ls_staged s' u = (ls_staged s u)(n \<mapsto> take (b + 1 - a) (drop a src))"
    by (auto simp: ls_copy_def ls_object_map_of ls_live_def ls_staged_def UploadPartCopy_def Let_def store_part_def)
next
  fix s u ns k
  assume "ls_live s u" "sorted ns" and st: "\<forall>n\<in>set ns. ls_staged s u n \<noteq> None"
  then obtain x where x: "map_of (uploads s) u = Some x" by (auto simp: ls_live_def mem_key_def)
  have "sort ns = ns" using \<open>sorted ns\<close> by (rule sorted_sort_id)
  with x st show "\<exists>s'. ls_complete s k u ns = Some s' \<and> \<not> ls_live s' u \<and>
      ls_object s' = (ls_object s)(k \<mapsto> concat (map (\<lambda>n. the (ls_staged s u n)) ns))"
    by (simp add: ls_complete_def CompleteMultipartUpload_def assemble_all ls_staged_def
        ls_object_map_of ls_live_def drop_upload_def)
qed

section \<open>Part lists\<close>

lemma CalcParts_sizes:
  assumes "0 < ps"
  shows "sum_list (map Size (CalcParts totalSz ps)) = totalSz"
proof -
  have "sum_list (map (\<lambda>i. if i = n - 1 then totalSz - i * ps else ps) [0 ..< n]) = totalSz"
    if n: "(n - 1) * ps < totalSz \<and> totalSz \<le> n * ps \<or> totalSz = 0 \<and> n = 0" for n
  proof (cases n)
    case (Suc m)
    have "map (\<lambda>i. if i = n - 1 then totalSz - i * ps else ps) [0 ..< m] = map (\<lambda>i. ps) [0 ..< m]"
      using Suc by simp
    then have "sum_list (map (\<lambda>i. if i = n - 1 then totalSz - i * ps else ps) [0 ..< m]) = m * ps"
      by (simp only: sum_list_triv length_upt minus_nat.diff_0 of_nat_id)
    with Suc n show ?thesis by simp
  qed (use n in auto)
  moreover have "let n = (totalSz + ps - 1) div ps in
      (n - 1) * ps < totalSz \<and> totalSz \<le> n * ps \<or> totalSz = 0 \<and> n = 0"
  proof (cases "totalSz = 0")
    case False
    then obtain t where t: "totalSz = Suc t" by (cases totalSz) auto
    then have n: "(totalSz + ps - 1) div ps = Suc (t div ps)" using assms div_add_self2 [of ps t] by simp
    have "t div ps * ps \<le> t" "t < Suc (t div ps) * ps"
      using assms div_times_less_eq_dividend dividend_less_div_times [of ps t] by auto
    with n t show ?thesis unfolding Let_def n by (simp add: less_Suc_eq_le)
  qed (use assms in simp)
  ultimately show ?thesis using assms by (simp add: CalcParts_def Let_def comp_def)
qed

end
