(* ===== verification/Patch.thy ===== *)
theory Patch
  imports Write_Refine Local_S3 Path_Util
begin

text \<open>
  Uploading a modified large file (\<^verbatim>\<open>pkg/backend/patch.go\<close>, \<^verbatim>\<open>pkg/client/patch.go\<close> and the patch branch
  of \<^verbatim>\<open>flushHandle\<close> in \<^verbatim>\<open>pkg/fuse/dat9fs.go\<close>): the client names its dirty parts, the server copies the
  clean ones inside the object store and hands out URLs for the others, the client uploads those, and
  the object store concatenates the parts. The last section puts the write buffer, the plan, the
  client and the store together.
\<close>

section \<open>The server's plan\<close>

datatype patch_error = UploadTooLarge | BadPath path_error | S3NotConfigured | StatFailed | NotS3Stored
  | RevisionConflict | UploadConflict | PartSizeTooLarge | TooManyParts | AppendNotPositive

definition MaxMultipartParts :: nat where "MaxMultipartParts = 10000"

definition ensureUploadSizeAllowed :: "int \<Rightarrow> int \<Rightarrow> patch_error option" where
  "ensureUploadSizeAllowed maxUploadBytes sz =
    (if sz \<le> 0 \<or> maxUploadBytes \<le> 0 then None
     else if maxUploadBytes < sz then Some UploadTooLarge else None)"

text \<open>What the handler reads of the file it patches: storage, object key, size and revision.\<close>

record stored_file =
  sf_s3 :: bool
  sf_ref :: string
  sf_size :: nat
  sf_revision :: int

text \<open>
  The checks before the upload is created, in order. \<^verbatim>\<open>stat\<close> is the datastore's answer for the
  canonical path (\<^const>\<open>None\<close> for an error), \<^verbatim>\<open>active\<close> whether an upload of the path is under way.
  The result is the source key, the original size and the part size to use.
\<close>

definition patch_guards ::
  "(string \<Rightarrow> string) \<Rightarrow> int \<Rightarrow> bool \<Rightarrow> (string \<Rightarrow> stored_file option) \<Rightarrow> (string \<Rightarrow> bool) \<Rightarrow>
   string \<Rightarrow> nat \<Rightarrow> nat \<Rightarrow> int \<Rightarrow> patch_error + (string \<times> nat \<times> nat)" where
  "patch_guards nfc maxUpload s3 stat active path newSize clientPartSize expectedRevision =
    (case ensureUploadSizeAllowed maxUpload (int newSize) of Some e \<Rightarrow> Inl e | None \<Rightarrow>
     case Canonicalize nfc path of Inl e \<Rightarrow> Inl (BadPath e) | Inr p \<Rightarrow>
     if \<not> s3 then Inl S3NotConfigured
     else case stat p of None \<Rightarrow> Inl StatFailed | Some f \<Rightarrow>
     if \<not> sf_s3 f then Inl NotS3Stored
     else if expectedRevision = 0 then Inl RevisionConflict
     else if 0 < expectedRevision \<and> sf_revision f \<noteq> expectedRevision then Inl RevisionConflict
     else if active p then Inl UploadConflict
     else
       let ps = (if clientPartSize < MinPartSize then PartSize else clientPartSize) in
       if MaxPartSize < ps then Inl PartSizeTooLarge
       else if MaxMultipartParts < length (CalcParts newSize ps) then Inl TooManyParts
       else Inr (sf_ref f, sf_size f, ps))"

datatype patch_part = Copied nat nat nat | ToUpload nat nat "(nat \<times> nat) option"

text \<open>One round of the part loop: copy inside the store, or upload with an optional range to read.\<close>

definition plan_part :: "nat \<Rightarrow> nat \<Rightarrow> (nat \<Rightarrow> bool) \<Rightarrow> s3_part \<Rightarrow> patch_part" where
  "plan_part origSize ps dirtySet p =
    (let origPartCount = (if 0 < origSize then length (CalcParts origSize ps) else 0);
         partStart = (Number p - 1) * ps;
         partEnd = partStart + Size p - 1;
         partEnd = (if origSize \<le> partEnd then origSize - 1 else partEnd)
     in if \<not> dirtySet (Number p) \<and> Number p \<le> origPartCount then Copied (Number p) partStart partEnd
        else ToUpload (Number p) (Size p)
          (if Number p \<le> origPartCount then Some (partStart, partEnd) else None))"

definition patch_plan :: "nat \<Rightarrow> nat \<Rightarrow> nat \<Rightarrow> nat list \<Rightarrow> patch_part list" where
  "patch_plan origSize newSize ps dirty =
    map (plan_part origSize ps (\<lambda>n. n \<in> set dirty)) (CalcParts newSize ps)"

section \<open>Appending\<close>

definition appendDirtyPartNumbers :: "nat \<Rightarrow> nat \<Rightarrow> nat \<Rightarrow> nat list" where
  "appendDirtyPartNumbers baseSize newSize partSz =
    (if newSize \<le> baseSize \<or> partSz = 0 then []
     else
       let newParts = length (CalcParts newSize partSz);
           basePartCount = (if 0 < baseSize then length (CalcParts baseSize partSz) else 0);
           dirty = (if 0 < baseSize \<and> baseSize mod partSz \<noteq> 0 then [basePartCount] else []);
           dirty = dirty @ [basePartCount + 1 ..< newParts + 1]
       in if dirty = [] \<and> 0 < newParts then [newParts] else dirty)"

definition append_part_size :: "nat \<Rightarrow> nat \<Rightarrow> nat \<Rightarrow> nat" where
  "append_part_size baseSize newSize clientPartSize =
    (let ps = (if clientPartSize < MinPartSize then CalcAdaptivePartSize baseSize else clientPartSize)
     in if MaxMultipartParts < length (CalcParts newSize ps) then CalcAdaptivePartSize newSize else ps)"

section \<open>The client\<close>

text \<open>The snapshots \<^verbatim>\<open>flushHandle\<close> takes of the dirty parts, and its \<^verbatim>\<open>readPart\<close> callback.\<close>

definition part_snapshots :: "write_buffer \<Rightarrow> (nat, byte list) gomap" where
  "part_snapshots wb =
    foldl (\<lambda>m pn. case PartData wb (pn - 1) of None \<Rightarrow> m | Some src \<Rightarrow> AList.update pn src m)
      [] (DirtyPartNumbers wb)"

definition read_part :: "(nat, byte list) gomap \<Rightarrow> nat \<Rightarrow> byte list \<Rightarrow> byte list" where
  "read_part snaps partNumber origData =
    (case map_of snaps partNumber of Some d \<Rightarrow> d | None \<Rightarrow> origData)"

text \<open>
  What happens in the store for one entry of the plan: a server-side copy, or \<^verbatim>\<open>uploadPatchPart\<close>, which
  downloads the range it was given (nothing for a new part), asks \<^verbatim>\<open>readPart\<close> and uploads the answer.
\<close>

definition stage_part :: "string \<Rightarrow> byte list \<Rightarrow> (nat, byte list) gomap \<Rightarrow> patch_part \<Rightarrow> staging" where
  "stage_part sourceKey source snaps part =
    (case part of
      Copied n a b \<Rightarrow> StageCopy n sourceKey a b
    | ToUpload n sz rng \<Rightarrow>
        let origData = (case rng of None \<Rightarrow> [] | Some (a, b) \<Rightarrow> take (b + 1 - a) (drop a source))
        in StageUpload n (read_part snaps n origData))"

definition flush_patch :: "string \<Rightarrow> byte list \<Rightarrow> write_buffer \<Rightarrow> staging list" where
  "flush_patch sourceKey source wb =
    map (stage_part sourceKey source (part_snapshots wb))
      (patch_plan (length source) (totalSize wb) (partSize wb) (DirtyPartNumbers wb))"

section \<open>Part arithmetic\<close>

lemma CalcParts_length: "0 < ps \<Longrightarrow> length (CalcParts n ps) = (n + ps - 1) div ps"
  by (simp add: CalcParts_def Let_def)

lemma CalcParts_map:
  assumes "0 < ps"
  shows "CalcParts n ps =
    map (\<lambda>i. \<lparr>Number = i + 1, Size = min ps (n - i * ps)\<rparr>) [0 ..< (n + ps - 1) div ps]"
proof -
  let ?c = "(n + ps - 1) div ps"
  have "(if i = ?c - 1 then n - i * ps else ps) = min ps (n - i * ps)" if "i < ?c" for i
  proof (cases "i = ?c - 1")
    case True
    have "?c \<le> Suc i" using True by simp
    then have "n \<le> Suc i * ps" using ceil_div_le [OF assms, of n "Suc i"] by simp
    with True show ?thesis by simp
  next
    case False
    then have "Suc i < ?c" using that by linarith
    then have "Suc i * ps < n" using less_ceil_div [OF assms] by blast
    with False show ?thesis by simp
  qed
  with assms show ?thesis by (simp add: CalcParts_def Let_def)
qed

lemma concat_slices:
  assumes "0 < ps"
  shows "concat (map (\<lambda>i. take ps (drop (i * ps) xs)) [0 ..< (length xs + ps - 1) div ps]) = xs"
proof -
  have "concat (map (\<lambda>i. take ps (drop (i * ps) xs)) [0 ..< k]) = take (k * ps) xs" for k
  proof (induction k)
    case (Suc k)
    then show ?case using take_add [of "k * ps" ps xs] by (simp add: add.commute)
  qed simp
  moreover have "length xs \<le> (length xs + ps - 1) div ps * ps"
    using ceil_div_le [OF assms, of "length xs" "(length xs + ps - 1) div ps"] by simp
  ultimately show ?thesis by simp
qed

lemma image_slice:
  "take ps (drop (p * ps) (wb_image wb)) = map (raw wb) [p * ps ..< min (p * ps + ps) (totalSize wb)]"
  by (simp add: wb_image_def map_upt_slice)

section \<open>Buffers that can be patched\<close>

text \<open>
  A clean part lies within the remote file and still holds its bytes; a dirty part is in memory.
\<close>

definition tracked :: "byte list \<Rightarrow> write_buffer \<Rightarrow> bool" where
  "tracked source wb \<longleftrightarrow>
    wb_inv wb \<and> smallFileData wb = None \<and> LoadPart wb \<noteq> None \<and>
    (\<forall>p. p * partSize wb < totalSize wb \<and> \<not> flag (dirtyParts wb) p \<longrightarrow>
      min (p * partSize wb + partSize wb) (totalSize wb) \<le> length source \<and>
      (\<forall>i. p * partSize wb \<le> i \<and> i < min (p * partSize wb + partSize wb) (totalSize wb) \<longrightarrow>
        raw wb i = source ! i)) \<and>
    (\<forall>p. flag (dirtyParts wb) p \<longrightarrow> mem_key (parts wb) p)"

lemma DirtyPartNumbers_iff:
  "wf_map (dirtyParts wb) \<Longrightarrow> i + 1 \<in> set (DirtyPartNumbers wb) \<longleftrightarrow> flag (dirtyParts wb) i"
  by (auto simp: DirtyPartNumbers_def flag_def image_iff dest: map_of_SomeD map_of_in_set)

lemma part_snapshots_lookup:
  "map_of (part_snapshots wb) n = (if n \<in> set (DirtyPartNumbers wb) then PartData wb (n - 1) else None)"
proof -
  have "map_of (foldl (\<lambda>m pn. case PartData wb (pn - 1) of None \<Rightarrow> m | Some src \<Rightarrow> AList.update pn src m) m ns) n =
      (if n \<in> set ns \<and> PartData wb (n - 1) \<noteq> None then PartData wb (n - 1) else map_of m n)" for m ns
    by (induction ns arbitrary: m) (auto split: option.splits)
  from this [of "[]" "DirtyPartNumbers wb"] show ?thesis
    unfolding part_snapshots_def by simp
qed

lemma div_in_part:
  assumes "0 < (ps::nat)" "p * ps \<le> i" "i < p * ps + ps"
  shows "i div ps = p"
  using assms div_eq_iff_range [OF assms(1)] by blast

text \<open>Each staged part carries its slice of the file.\<close>

lemma staged_slice:
  assumes tr: "tracked source wb" and p: "p * partSize wb < totalSize wb" and key: "obj sourceKey = Some source"
  shows "staging_bytes obj (stage_part sourceKey source (part_snapshots wb)
      (plan_part (length source) (partSize wb) (\<lambda>n. n \<in> set (DirtyPartNumbers wb))
        \<lparr>Number = p + 1, Size = min (partSize wb) (totalSize wb - p * partSize wb)\<rparr>)) =
    Some (take (partSize wb) (drop (p * partSize wb) (wb_image wb)))"
proof -
  let ?ps = "partSize wb" and ?T = "totalSize wb"
  have inv: "wb_inv wb" and ps: "0 < ?ps" using tr by (auto simp: tracked_def wb_inv_def)
  have dpn: "Suc p \<in> set (DirtyPartNumbers wb) \<longleftrightarrow> flag (dirtyParts wb) p"
    using DirtyPartNumbers_iff [of wb p] inv by (simp add: wb_inv_def)
  show ?thesis
  proof (cases "flag (dirtyParts wb) p")
    case True
    then have "mem_key (parts wb) p" "smallFileData wb = None" using tr by (auto simp: tracked_def)
    then have "mem_byte wb i = raw wb i" if "p * ?ps \<le> i" "i < p * ?ps + ?ps" for i
      using div_in_part [OF ps that] by (auto simp: mem_byte_def raw_def part_byte_def mem_key_def)
    then have "PartData wb p = Some (take ?ps (drop (p * ?ps) (wb_image wb)))"
      using p by (simp add: PartData_mem_byte [OF inv] image_slice)
    with True dpn show ?thesis
      by (simp add: plan_part_def Let_def stage_part_def read_part_def part_snapshots_lookup)
  next
    case False
    then have le: "min (p * ?ps + ?ps) ?T \<le> length source"
      and eq: "\<And>i. p * ?ps \<le> i \<Longrightarrow> i < min (p * ?ps + ?ps) ?T \<Longrightarrow> raw wb i = source ! i"
      using tr p unfolding tracked_def by blast+
    have src0: "p * ?ps < length source" using le p ps by linarith
    then have cnt: "Suc p \<le> length (CalcParts (length source) ?ps)"
      using less_ceil_div [OF ps, of p "length source"] by (simp add: CalcParts_length [OF ps] Suc_le_eq)
    define e where "e = p * ?ps + min ?ps (?T - p * ?ps) - 1"
    have e: "e + 1 = min (p * ?ps + ?ps) ?T" using p ps by (auto simp: e_def)
    then have "\<not> length source \<le> e" using le by linarith
    then have "plan_part (length source) ?ps (\<lambda>n. n \<in> set (DirtyPartNumbers wb))
        \<lparr>Number = p + 1, Size = min ?ps (?T - p * ?ps)\<rparr> = Copied (Suc p) (p * ?ps) e"
      using False dpn cnt src0 by (cases source) (simp_all add: plan_part_def Let_def e_def)
    moreover have "take (e + 1 - p * ?ps) (drop (p * ?ps) source) = map (raw wb) [p * ?ps ..< min (p * ?ps + ?ps) ?T]"
    proof -
      define hi where "hi = min (p * ?ps + ?ps) ?T"
      have "hi \<le> length source" "\<And>i. p * ?ps \<le> i \<Longrightarrow> i < hi \<Longrightarrow> raw wb i = source ! i"
        using le eq by (auto simp: hi_def)
      then show ?thesis unfolding e hi_def [symmetric] by (intro nth_equalityI) auto
    qed
    ultimately show ?thesis using key by (simp add: stage_part_def image_slice)
  qed
qed

lemma flush_patch_bytes:
  assumes tr: "tracked source wb" and key: "obj sourceKey = Some source"
  shows "concat (map (\<lambda>a. the (staging_bytes obj a)) (flush_patch sourceKey source wb)) = wb_image wb"
    and "\<And>a. a \<in> set (flush_patch sourceKey source wb) \<Longrightarrow> staging_bytes obj a \<noteq> None"
    and "map staging_number (flush_patch sourceKey source wb) =
      [1 ..< (totalSize wb + partSize wb - 1) div partSize wb + 1]"
proof -
  have ps: "0 < partSize wb" using tr by (simp add: tracked_def wb_inv_def)
  let ?n = "(totalSize wb + partSize wb - 1) div partSize wb"
  let ?f = "\<lambda>i. stage_part sourceKey source (part_snapshots wb)
      (plan_part (length source) (partSize wb) (\<lambda>n. n \<in> set (DirtyPartNumbers wb))
        \<lparr>Number = i + 1, Size = min (partSize wb) (totalSize wb - i * partSize wb)\<rparr>)"
  have fp: "flush_patch sourceKey source wb = map ?f [0 ..< ?n]"
    by (simp add: flush_patch_def patch_plan_def CalcParts_map [OF ps])
  have sl: "staging_bytes obj (?f i) = Some (take (partSize wb) (drop (i * partSize wb) (wb_image wb)))"
    if "i < ?n" for i
    using that less_ceil_div [OF ps] by (intro staged_slice [where obj = obj, OF tr _ key]) simp
  show "concat (map (\<lambda>a. the (staging_bytes obj a)) (flush_patch sourceKey source wb)) = wb_image wb"
  proof -
    have "map (\<lambda>a. the (staging_bytes obj a)) (flush_patch sourceKey source wb) =
        map (\<lambda>i. take (partSize wb) (drop (i * partSize wb) (wb_image wb))) [0 ..< ?n]"
      unfolding fp map_map using sl by (intro map_cong) auto
    with concat_slices [OF ps, of "wb_image wb"] show ?thesis by simp
  qed
  show "staging_bytes obj a \<noteq> None" if "a \<in> set (flush_patch sourceKey source wb)" for a
    using that sl by (auto simp: fp)
  have "staging_number (?f i) = i + 1" for i
    by (simp add: stage_part_def plan_part_def Let_def split: patch_part.split)
  then show "map staging_number (flush_patch sourceKey source wb) = [1 ..< ?n + 1]"
    by (simp add: fp comp_def map_Suc_upt)
qed

section \<open>Writing keeps the buffer patchable\<close>

lemma write_parts_copied:
  assumes res: "write_parts wb off data = (wb', n, None, evs)"
    and inv: "wb_inv wb" "load_bounded wb" and small: "smallFileData wb = None"
    and cb: "OnPartFull wb \<noteq> Some SpillEvict"
  shows "copied wb wb' off data 0 (length data) \<and> smallFileData wb' = None"
proof -
  define wb0 where "wb0 = (if totalSize wb < off + length data then wb\<lparr>totalSize := off + length data\<rparr> else wb)"
  have wb0: "wb_inv wb0" "load_bounded wb0" "smallFileData wb0 = None" "raw wb0 = raw wb"
    "dirtyParts wb0 = dirtyParts wb" "parts wb0 = parts wb" "partSize wb0 = partSize wb"
    "OnPartFull wb0 = OnPartFull wb"
    using inv small by (auto simp: wb0_def wb_inv_def load_bounded_def)
  obtain wb1 m e where loop: "write_loop wb0 off data 0 = (wb1, m, e)" by (metis prod_cases3)
  note f = frame_eqD [OF write_loop_frame [OF loop]]
  define wb2 where "wb2 = advance_cursor (wb1\<lparr>touched := True\<rparr>) off (off + length data)"
  have e: "e = None" "wb' = fst (notify_full wb2 (appendCursor wb1))"
    using res loop by (auto simp: write_parts_def Let_def wb0_def [symmetric] wb2_def split: prod.splits option.splits)
  have "OnPartFull wb2 \<noteq> Some SpillEvict" using cb wb0 f by (simp add: wb2_def)
  then have wb': "wb' = wb2" using e(2) notify_keeps by simp
  from write_loop_spec [OF loop wb0(1-3)] e(1) have "copied wb0 wb1 off data 0 (length data)" by auto
  then have "copied wb wb2 off data 0 (length data)"
    using wb0 by (simp add: copied_def wb2_def)
  with wb' f wb0(3) show ?thesis by (simp add: wb2_def)
qed

lemma tracked_Write:
  assumes tr: "tracked source wb" and ok: "wb_ok wb" and w: "Write wb off data = (wb', n, None, evs)"
    and gap: "off \<le> totalSize wb"
  shows "tracked source wb'"
proof -
  have inv: "wb_inv wb" "load_bounded wb" and cb: "OnPartFull wb \<noteq> Some SpillEvict"
    and small: "smallFileData wb = None" and ps: "0 < partSize wb"
    using tr ok by (auto simp: tracked_def wb_ok_def wb_inv_def)
  have wp: "write_parts wb off data = (wb', n, None, evs)"
    using w Write_None_le [OF w] tr by (auto simp: Write.simps use_fast_path_def tracked_def)
  note c = config_eqD [OF config_write_parts [OF wp cb]]
  have cp: "copied wb wb' off data 0 (length data)" "smallFileData wb' = None"
    using write_parts_copied [OF wp inv small cb] by auto
  have st: "wb_inv wb'" "totalSize wb' = max (totalSize wb) (off + length data)"
    using write_parts_spec [OF wp inv small] by (auto simp: stored_def)
  have clean: "min (p * partSize wb + partSize wb) (totalSize wb') \<le> length source \<and>
      (\<forall>i. p * partSize wb \<le> i \<and> i < min (p * partSize wb + partSize wb) (totalSize wb') \<longrightarrow>
        raw wb' i = source ! i)"
    if p: "p * partSize wb < totalSize wb'" "\<not> flag (dirtyParts wb') p" for p
  proof -
    have untouched: "\<not> (off \<le> i \<and> i < off + length data)" if "p * partSize wb \<le> i" "i < p * partSize wb + partSize wb" for i
      using cp(1) p(2) div_in_part [OF ps that] by (auto simp: copied_def)
    have in_old: "p * partSize wb < totalSize wb"
      using untouched [of "p * partSize wb"] p(1) st(2) gap ps by auto
    moreover have "\<not> flag (dirtyParts wb) p" using cp(1) p(2) by (auto simp: copied_def)
    ultimately have old: "min (p * partSize wb + partSize wb) (totalSize wb) \<le> length source"
        "\<And>i. p * partSize wb \<le> i \<Longrightarrow> i < min (p * partSize wb + partSize wb) (totalSize wb) \<Longrightarrow> raw wb i = source ! i"
      using tr unfolding tracked_def by blast+
    have same: "min (p * partSize wb + partSize wb) (totalSize wb') = min (p * partSize wb + partSize wb) (totalSize wb)"
      using untouched [of "totalSize wb"] in_old gap st(2) by (auto simp: min_def max_def not_le)
    have "raw wb' i = source ! i" if i: "p * partSize wb \<le> i" "i < min (p * partSize wb + partSize wb) (totalSize wb)" for i
      using cp(1) old(2) [OF i] untouched [OF i(1)] i(2) unfolding copied_def by auto
    then show ?thesis unfolding same using old(1) by blast
  qed
  have "mem_key (parts wb') p" if "flag (dirtyParts wb') p" for p
    using that cp(1) tr by (auto simp: copied_def tracked_def)
  then show ?thesis
    using st(1) cp(2) tr clean unfolding tracked_def c by blast
qed

lemma tracked_opened:
  assumes "0 < ps"
  shows "tracked source (opened_buffer p source bufMax ps t)"
  using assms by (auto simp: tracked_def wb_inv_opened opened_fields raw_opened flag_def byte_at_def)

text \<open>Sequences of writes that leave no gap behind the end of the file.\<close>

fun gapfree :: "nat \<Rightarrow> file_op list \<Rightarrow> bool" where
  "gapfree n [] = True"
| "gapfree n (OpWrite off d # ops) \<longleftrightarrow> off \<le> n \<and> gapfree (max n (off + length d)) ops"
| "gapfree n (OpTruncate m # ops) = False"

lemma tracked_run:
  assumes "run_ops wb_write wb_truncate wb ops = Some wb'" "wb_ok wb" "tracked source wb"
    and "gapfree (totalSize wb) ops"
  shows "tracked source wb'"
  using assms
proof (induction ops arbitrary: wb)
  case (Cons a ops)
  from Cons.prems(4) obtain off d where a: "a = OpWrite off d" "off \<le> totalSize wb"
      "gapfree (max (totalSize wb) (off + length d)) ops"
    by (cases a) auto
  with Cons.prems(1) obtain x where x: "wb_write wb off d = Some x" "run_ops wb_write wb_truncate x ops = Some wb'"
    by (auto split: option.splits)
  then obtain n evs where w: "Write wb off d = (x, n, None, evs)"
    by (auto simp: wb_write_def split: prod.splits option.splits)
  have okx: "wb_ok x" and "wb_image x = flat_write (wb_image wb) off d"
    using wbf.wr_img [OF Cons.prems(2) x(1)] by auto
  then have "totalSize x = max (totalSize wb) (off + length d)"
    using length_image [of x] by simp
  with Cons.IH [OF x(2) okx tracked_Write [OF Cons.prems(3,2) w a(2)]] a(3) show ?case by simp
qed simp

section \<open>Properties\<close>

text \<open>
  C2: flushing a modified large file through the patch protocol stores exactly the modified file. A
  handle opens a remote object lazily, performs any sequence of writes that leave no gap past the
  end, and flushes: the server copies the parts the buffer reports clean and the client uploads the
  others. Staging and completion succeed, the new object is byte for byte the original with the
  writes applied, and no other object changes.
\<close>
theorem patch_flush_correct:
  assumes "0 < ps" and "ls_object c sourceKey = Some source" and "ls_live c uploadID"
    and "run_ops wb_write wb_truncate (opened_buffer p source bufMax ps t) ops = Some wb"
    and "gapfree (length source) ops"
  shows "\<exists>c1 c2.
    run_staging (ls_upload etag) (ls_copy etag) c uploadID (flush_patch sourceKey source wb) = Some c1 \<and>
    ls_complete c1 newKey uploadID (map staging_number (flush_patch sourceKey source wb)) = Some c2 \<and>
    ls_object c2 = (ls_object c)(newKey \<mapsto> foldl flat_op source ops)"
proof -
  have tr: "tracked source wb"
    using tracked_run [OF assms(4) wb_ok_opened tracked_opened [OF assms(1)]] assms(5)
    by (simp add: opened_fields)
  have img: "wb_image wb = foldl flat_op source ops"
    using wbf.run_img [OF wb_ok_opened assms(4)] by (simp add: image_opened)
  note fp = flush_patch_bytes [where obj = "ls_object c", OF tr assms(2)]
  have "sorted (map staging_number (flush_patch sourceKey source wb))"
    "distinct (map staging_number (flush_patch sourceKey source wb))"
    unfolding fp(3) by (simp_all only: sorted_upt distinct_upt)
  from ls.plan_completes [OF assms(3) fp(2) this] show ?thesis
    unfolding fp(1) img by blast
qed

theorem patch_flush_correct_witness:
  "\<exists>wb c1 c2. run_ops wb_write wb_truncate (opened_buffer ''/f'' [1, 2, 3] 9 2 1) [OpWrite 2 [7, 8]] = Some wb \<and>
     run_staging (ls_upload (\<lambda>d. [])) (ls_copy (\<lambda>d. []))
       \<lparr>objects = [(''old'', [1, 2, 3])], partFiles = [], uploads = [(''u'', \<lparr>up_key = ''new'', up_parts = []\<rparr>)]\<rparr>
       ''u'' (flush_patch ''old'' [1, 2, 3] wb) = Some c1 \<and>
     ls_complete c1 ''new'' ''u'' (map staging_number (flush_patch ''old'' [1, 2, 3] wb)) = Some c2 \<and>
     ls_object c2 ''new'' = Some [1, 2, 7, 8]"
proof -
  let ?c = "\<lparr>objects = [(''old'', [1, 2, 3])], partFiles = [], uploads = [(''u'', \<lparr>up_key = ''new'', up_parts = []\<rparr>)]\<rparr>"
  obtain wb where wb: "run_ops wb_write wb_truncate (opened_buffer ''/f'' [1, 2, 3] 9 2 1) [OpWrite 2 [7, 8]] = Some wb"
    by (simp add: wb_eval opened_buffer_def)
  have "ls_object ?c ''old'' = Some [1, 2, 3]" "ls_live ?c ''u''"
    by (simp_all add: ls_object_map_of ls_live_def mem_key_def)
  from patch_flush_correct [OF _ this wb, of "\<lambda>d. []" "''new''"]
  have "\<exists>c1 c2. run_staging (ls_upload (\<lambda>d. [])) (ls_copy (\<lambda>d. [])) ?c ''u'' (flush_patch ''old'' [1, 2, 3] wb) = Some c1 \<and>
      ls_complete c1 ''new'' ''u'' (map staging_number (flush_patch ''old'' [1, 2, 3] wb)) = Some c2 \<and>
      ls_object c2 = (ls_object ?c)(''new'' \<mapsto> foldl flat_op [1, 2, 3] [OpWrite 2 [7, 8]])"
    by simp
  moreover have "foldl flat_op [1, 2, 3] [OpWrite 2 [7, 8]] = [1, 2, 7, 8]"
    by (simp add: flat_write_def overwrite_def zext_def)
  ultimately show ?thesis using wb by (metis fun_upd_same)
qed


text \<open>
  the dirty list of an append covers exactly the parts an append changes. Every part the server
  copies instead is a full part that lies inside the old object, so no appended byte is lost and no
  copied part is short.
\<close>
theorem append_copies_full_parts:
  assumes "0 < partSz" and "baseSize < newSize"
    and "Copied n a b \<in> set (patch_plan baseSize newSize partSz (appendDirtyPartNumbers baseSize newSize partSz))"
  shows "a = (n - 1) * partSz \<and> b + 1 = n * partSz \<and> n * partSz \<le> baseSize"
proof -
  let ?bc = "length (CalcParts baseSize partSz)" and ?d = "appendDirtyPartNumbers baseSize newSize partSz"
  obtain i where i: "i < (newSize + partSz - 1) div partSz"
      "Copied n a b = plan_part baseSize partSz (\<lambda>n. n \<in> set ?d)
        \<lparr>Number = i + 1, Size = min partSz (newSize - i * partSz)\<rparr>"
    using assms(3) by (auto simp: patch_plan_def CalcParts_map [OF assms(1)])
  have b0: "0 < baseSize" and n: "n = i + 1" "i + 1 \<notin> set ?d" "i + 1 \<le> ?bc" "a = i * partSz"
    using i(2) by (auto simp: plan_part_def Let_def split: if_splits)
  have in_base: "i * partSz < baseSize"
    using n(3) less_ceil_div [OF assms(1), of i baseSize] by (simp add: CalcParts_length [OF assms(1)])
  have "Suc i * partSz \<le> baseSize"
  proof (rule ccontr)
    assume "\<not> Suc i * partSz \<le> baseSize"
    then have over: "baseSize < Suc i * partSz" by simp
    then have "?bc \<le> Suc i"
      using ceil_div_le [OF assms(1), of baseSize "Suc i"] by (simp add: CalcParts_length [OF assms(1)])
    with n(3) have "?bc = i + 1" by simp
    moreover have "baseSize div partSz = i"
      using in_base over by (intro div_in_part [OF assms(1)]) (simp_all add: less_imp_le add.commute)
    then have "baseSize mod partSz \<noteq> 0"
      using in_base by (metis add.right_neutral div_mult_mod_eq less_irrefl)
    ultimately have "i + 1 \<in> set ?d"
      using assms(1,2) b0 by (auto simp: appendDirtyPartNumbers_def Let_def)
    with n(2) show False ..
  qed
  moreover have "partSz \<le> newSize - i * partSz" using calculation assms(2) by simp
  ultimately show ?thesis
    using i(2) n b0 assms(1) by (auto simp: plan_part_def Let_def split: if_splits)
qed

theorem append_copies_full_parts_witness:
  "Copied 1 0 1 \<in> set (patch_plan 3 5 2 (appendDirtyPartNumbers 3 5 2)) \<and>
   (0::nat) = (1 - 1) * 2 \<and> (1::nat) + 1 = 1 * 2 \<and> (1::nat) * 2 \<le> 3"
proof -
  have h: "Copied 1 0 1 \<in> set (patch_plan 3 5 2 (appendDirtyPartNumbers 3 5 2))"
    by (simp add: patch_plan_def appendDirtyPartNumbers_def CalcParts_def plan_part_def Let_def)
  show ?thesis using h append_copies_full_parts [OF _ _ h] by simp
qed

end
