(* ===== verification/Upload_Rows.thy ===== *)
theory Upload_Rows
  imports File_Rows
begin

text \<open>
  The table \<^verbatim>\<open>uploads\<close> of multipart uploads (\<^verbatim>\<open>pkg/datastore/store.go\<close>), keyed by \<^verbatim>\<open>upload_id\<close>. Two more unique
  indexes guard it: the idempotency key, and the target path of the rows in state \<^verbatim>\<open>UPLOADING\<close> (a generated
  column that is \<^verbatim>\<open>NULL\<close> in every other state). A statement that violates one fails and changes nothing.
\<close>

section \<open>Rows\<close>

datatype upload_status = UploadInitiated | UploadUploading | UploadCompleted | UploadAborted | UploadExpired

datatype upload_error = UpNotFound | UpConflict | UpIdempotencyConflict | UpNotActive | UpExpired | UpDatabase

record upload =
  u_UploadID :: string
  u_FileID :: string
  u_TargetPath :: string
  u_S3UploadID :: string
  u_S3Key :: string
  u_EncMode :: string
  u_EncKeyID :: string
  u_TotalSize :: int
  u_PartSize :: int
  u_PartsTotal :: int
  u_ExpectedRevision :: "int option"
  u_Status :: upload_status
  u_FingerprintSHA :: string
  u_IdempotencyKey :: string
  u_Description :: string
  u_CreatedAt :: int
  u_UpdatedAt :: int
  u_ExpiresAt :: int

type_synonym upload_table = "(string, upload) gomap"

section \<open>Statements\<close>

definition uploadStorageEncryptionModeForWrite :: "string \<Rightarrow> string" where
  "uploadStorageEncryptionModeForWrite mode = (if mode = '''' then ''none'' else mode)"

definition open_status :: "upload_status \<Rightarrow> bool" where
  "open_status st \<longleftrightarrow> st = UploadInitiated \<or> st = UploadUploading"

text \<open>The index \<^verbatim>\<open>idx_uploads_active\<close>: another row that occupies the target path.\<close>

definition path_taken :: "string \<Rightarrow> upload \<Rightarrow> upload_table \<Rightarrow> bool" where
  "path_taken uid u t \<longleftrightarrow>
    u_Status u = UploadUploading \<and>
    list_ex (\<lambda>(k, v). k \<noteq> uid \<and> u_Status v = UploadUploading \<and> u_TargetPath v = u_TargetPath u) t"

definition upload_row :: "upload \<Rightarrow> upload" where
  "upload_row u =
    (let mode = uploadStorageEncryptionModeForWrite (u_EncMode u) in
     u\<lparr>u_EncMode := mode, u_EncKeyID := storageEncryptionKeyIDForWrite mode (u_EncKeyID u)\<rparr>)"

definition InsertUploadTx :: "upload \<Rightarrow> upload_table \<Rightarrow> upload_error + upload_table" where
  "InsertUploadTx u t =
    (let row = upload_row u in
     if mem_key t (u_UploadID u) then Inl UpConflict
     else if u_IdempotencyKey u \<noteq> '''' \<and> list_ex (\<lambda>(k, v). u_IdempotencyKey v = u_IdempotencyKey u) t
     then Inl UpIdempotencyConflict
     else if path_taken (u_UploadID u) row t then Inl UpConflict
     else Inr (AList.update (u_UploadID u) row t))"

definition InsertUpload :: "upload \<Rightarrow> upload_table \<Rightarrow> upload_error + upload_table" where
  "InsertUpload u t = InsertUploadTx u t"

definition GetUpload :: "string \<Rightarrow> upload_table \<Rightarrow> upload_error + upload" where
  "GetUpload uid t = (case map_of t uid of None \<Rightarrow> Inl UpNotFound | Some u \<Rightarrow> Inr u)"

text \<open>The newest open upload to a path that has not expired.\<close>

definition GetUploadByPath :: "int \<Rightarrow> string \<Rightarrow> upload_table \<Rightarrow> upload_error + upload" where
  "GetUploadByPath now path t =
    (case sort_key (\<lambda>u. - u_CreatedAt u)
        (filter (\<lambda>u. u_TargetPath u = path \<and> open_status (u_Status u) \<and> now < u_ExpiresAt u) (map snd t)) of
       [] \<Rightarrow> Inl UpNotFound
     | u # _ \<Rightarrow> Inr u)"

definition ListUploadsByPath :: "string \<Rightarrow> upload_status \<Rightarrow> upload_table \<Rightarrow> upload list" where
  "ListUploadsByPath path st t =
    sort_key (\<lambda>u. - u_CreatedAt u) (filter (\<lambda>u. u_TargetPath u = path \<and> u_Status u = st) (map snd t))"

definition HasActiveUploads :: "int \<Rightarrow> upload_table \<Rightarrow> bool" where
  "HasActiveUploads now t = list_ex (\<lambda>(k, u). open_status (u_Status u) \<and> now < u_ExpiresAt u) t"

text \<open>An \<^verbatim>\<open>UPDATE\<close> of the status of one row under a condition on its present status.\<close>

definition set_status :: "int \<Rightarrow> (upload_status \<Rightarrow> bool) \<Rightarrow> upload_status \<Rightarrow> string \<Rightarrow> upload_table \<Rightarrow> upload_error + upload_table" where
  "set_status now ok st uid t =
    (case map_of t uid of
       None \<Rightarrow> Inr t
     | Some u \<Rightarrow>
         if \<not> ok (u_Status u) then Inr t
         else
           let row = u\<lparr>u_Status := st, u_UpdatedAt := now\<rparr> in
           if path_taken uid row t then Inl UpDatabase else Inr (AList.update uid row t))"

definition CompleteUploadTx :: "int \<Rightarrow> string \<Rightarrow> upload_table \<Rightarrow> upload_error + upload_table" where
  "CompleteUploadTx now uid t = set_status now (\<lambda>s. s = UploadUploading) UploadCompleted uid t"

definition CompleteUpload :: "int \<Rightarrow> string \<Rightarrow> upload_table \<Rightarrow> upload_error + upload_table" where
  "CompleteUpload now uid t = set_status now (\<lambda>s. s = UploadUploading) UploadCompleted uid t"

definition abort_row :: "int \<Rightarrow> string \<Rightarrow> upload_table \<Rightarrow> upload_error + upload_table" where
  "abort_row now uid t = set_status now (\<lambda>s. s = UploadUploading) UploadAborted uid t"

definition abort_row_v2 :: "int \<Rightarrow> string \<Rightarrow> upload_table \<Rightarrow> upload_error + upload_table" where
  "abort_row_v2 now uid t = set_status now open_status UploadAborted uid t"

definition UpdateUploadStatus :: "int \<Rightarrow> string \<Rightarrow> upload_status \<Rightarrow> upload_table \<Rightarrow> upload_error + upload_table" where
  "UpdateUploadStatus now uid st t = set_status now (\<lambda>_. True) st uid t"

definition TransitionUploadStatus ::
  "int \<Rightarrow> string \<Rightarrow> upload_status \<Rightarrow> upload_status \<Rightarrow> upload_table \<Rightarrow> upload_error + upload_table" where
  "TransitionUploadStatus now uid expectedStatus newStatus t =
    (case map_of t uid of
       None \<Rightarrow> Inl UpNotActive
     | Some u \<Rightarrow>
         if u_Status u \<noteq> expectedStatus then Inl UpNotActive
         else set_status now (\<lambda>s. s = expectedStatus) newStatus uid t)"

text \<open>The overwriting branch of a completion moves the upload to the file it wrote to.\<close>

definition set_upload_file :: "string \<Rightarrow> string \<Rightarrow> upload_table \<Rightarrow> upload_table" where
  "set_upload_file uid fid t = update_row uid (\<lambda>u. u\<lparr>u_FileID := fid\<rparr>) t"

section \<open>At most one upload per path\<close>

definition uploads_ok :: "upload_table \<Rightarrow> bool" where
  "uploads_ok t \<longleftrightarrow> wf_map t \<and>
    (\<forall>k v l w. map_of t k = Some v \<longrightarrow> map_of t l = Some w \<longrightarrow>
      u_Status v = UploadUploading \<longrightarrow> u_Status w = UploadUploading \<longrightarrow> u_TargetPath v = u_TargetPath w \<longrightarrow> k = l)"

lemma uploads_okI:
  "wf_map t \<Longrightarrow> (\<And>k v l w. map_of t k = Some v \<Longrightarrow> map_of t l = Some w \<Longrightarrow> u_Status v = UploadUploading \<Longrightarrow>
    u_Status w = UploadUploading \<Longrightarrow> u_TargetPath v = u_TargetPath w \<Longrightarrow> k = l) \<Longrightarrow> uploads_ok t"
  unfolding uploads_ok_def by blast

lemma uploads_okD:
  assumes "uploads_ok t"
  shows "wf_map t"
    "map_of t k = Some v \<Longrightarrow> map_of t l = Some w \<Longrightarrow> u_Status v = UploadUploading \<Longrightarrow> u_Status w = UploadUploading \<Longrightarrow>
      u_TargetPath v = u_TargetPath w \<Longrightarrow> k = l"
  using assms unfolding uploads_ok_def by blast+

lemma set_row_ok:
  assumes ok: "uploads_ok t" and free: "\<not> path_taken uid row t"
  shows "uploads_ok (AList.update uid row t)"
proof -
  have other: "k = uid" if "map_of t k = Some v" "u_Status row = UploadUploading" "u_Status v = UploadUploading"
      "u_TargetPath v = u_TargetPath row" for k v
    using free that map_of_SomeD [OF that(1)] by (auto simp: path_taken_def list_ex_iff)
  show ?thesis
  proof (rule uploads_okI)
    fix k v l w
    assume m: "map_of (AList.update uid row t) k = Some v" "map_of (AList.update uid row t) l = Some w"
      and u: "u_Status v = UploadUploading" "u_Status w = UploadUploading" "u_TargetPath v = u_TargetPath w"
    have rows: "if k = uid then v = row else map_of t k = Some v" "if l = uid then w = row else map_of t l = Some w"
      using m by (auto simp: update_conv')
    show "k = l"
    proof (cases "k = uid \<or> l = uid")
      case True
      then show ?thesis using rows u other by metis
    next
      case False
      then have "map_of t k = Some v" "map_of t l = Some w" using rows by simp_all
      then show ?thesis by (rule uploads_okD(2) [OF ok _ _ u])
    qed
  qed (simp add: uploads_okD(1) [OF ok])
qed

lemma set_status_ok: "uploads_ok t \<Longrightarrow> set_status now ok st uid t = Inr t' \<Longrightarrow> uploads_ok t'"
  by (auto simp: set_status_def Let_def set_row_ok split: option.split_asm if_split_asm)

datatype upload_event =
    UInsert upload
  | UComplete int string
  | UAbort int string
  | UAbortV2 int string
  | UStatus int string upload_status
  | UTransition int string upload_status upload_status
  | UFile string string

fun upload_step :: "upload_event \<Rightarrow> upload_table \<Rightarrow> upload_table" where
  "upload_step (UInsert u) t = or_keep t (InsertUploadTx u t)"
| "upload_step (UComplete now uid) t = or_keep t (CompleteUploadTx now uid t)"
| "upload_step (UAbort now uid) t = or_keep t (abort_row now uid t)"
| "upload_step (UAbortV2 now uid) t = or_keep t (abort_row_v2 now uid t)"
| "upload_step (UStatus now uid st) t = or_keep t (UpdateUploadStatus now uid st t)"
| "upload_step (UTransition now uid st st') t = or_keep t (TransitionUploadStatus now uid st st' t)"
| "upload_step (UFile uid fid) t = set_upload_file uid fid t"

lemma or_keep_ok: "uploads_ok t \<Longrightarrow> (\<And>t'. x = Inr t' \<Longrightarrow> uploads_ok t') \<Longrightarrow> uploads_ok (or_keep t x)"
  by (simp add: or_keep_def split: sum.split)

lemma upload_file_ok:
  assumes "uploads_ok t"
  shows "uploads_ok (set_upload_file uid fid t)"
proof (cases "map_of t uid")
  case (Some u)
  have "k = uid" if "(k, v) \<in> set t" "u_Status u = UploadUploading" "u_Status v = UploadUploading" "u_TargetPath v = u_TargetPath u" for k v
    by (rule uploads_okD(2) [OF assms map_of_in_set [OF uploads_okD(1) [OF assms] that(1)] Some that(3,2,4)])
  then have "\<not> path_taken uid (u\<lparr>u_FileID := fid\<rparr>) t"
    unfolding path_taken_def list_ex_iff by auto
  then show ?thesis using set_row_ok [OF assms] Some by (simp add: set_upload_file_def update_row_def)
qed (use assms in \<open>simp add: set_upload_file_def update_row_def\<close>)

lemma insert_upload_ok: "uploads_ok t \<Longrightarrow> InsertUploadTx u t = Inr t' \<Longrightarrow> uploads_ok t'"
  by (simp add: InsertUploadTx_def Let_def split: if_split_asm) (use set_row_ok in blast)

lemma transition_ok: "uploads_ok t \<Longrightarrow> TransitionUploadStatus now uid st st' t = Inr t' \<Longrightarrow> uploads_ok t'"
  by (simp add: TransitionUploadStatus_def split: option.split_asm if_split_asm) (use set_status_ok in blast)

lemma upload_step_ok:
  assumes "uploads_ok t"
  shows "uploads_ok (upload_step e t)"
proof (cases e)
  case (UInsert u)
  then show ?thesis using or_keep_ok [OF assms insert_upload_ok [OF assms]] by simp
next
  case (UTransition now uid st st')
  then show ?thesis using or_keep_ok [OF assms transition_ok [OF assms]] by simp
next
  case (UFile uid fid)
  then show ?thesis using upload_file_ok [OF assms] by simp
qed (use or_keep_ok [OF assms set_status_ok [OF assms]] in
    \<open>simp_all add: CompleteUploadTx_def abort_row_def abort_row_v2_def UpdateUploadStatus_def\<close>)

lemma upload_steps_ok: "uploads_ok t \<Longrightarrow> uploads_ok (foldl (\<lambda>t e. upload_step e t) t es)"
  by (induction es arbitrary: t) (simp_all add: upload_step_ok)

definition sample_upload :: "string \<Rightarrow> upload_status \<Rightarrow> int \<Rightarrow> upload" where
  "sample_upload uid st expires =
    \<lparr>u_UploadID = uid, u_FileID = ''f'' @ uid, u_TargetPath = ''/a'', u_S3UploadID = ''m'' @ uid, u_S3Key = ''k'' @ uid,
     u_EncMode = ''none'', u_EncKeyID = '''', u_TotalSize = 4, u_PartSize = 4, u_PartsTotal = 1, u_ExpectedRevision = None,
     u_Status = st, u_FingerprintSHA = '''', u_IdempotencyKey = '''', u_Description = '''', u_CreatedAt = 0,
     u_UpdatedAt = 0, u_ExpiresAt = expires\<rparr>"

section \<open>Properties\<close>

text \<open>
  C14: at most one upload is in progress for a path. After any sequence of insertions, completions, abortions and status
  changes of any clients, two rows in state UPLOADING with the same target path are the same row.
\<close>
theorem one_active_upload_per_path:
  assumes "t = foldl (\<lambda>t e. upload_step e t) [] es" and "map_of t k = Some v" and "map_of t l = Some w"
    and "u_Status v = UploadUploading" and "u_Status w = UploadUploading" and "u_TargetPath v = u_TargetPath w"
  shows "k = l"
proof -
  have "uploads_ok t" unfolding assms(1) by (rule upload_steps_ok) (simp add: uploads_ok_def)
  then show ?thesis using assms(2-6) by (rule uploads_okD(2))
qed

text \<open>Two uploads start for one path; only the first becomes active.\<close>
theorem one_active_upload_per_path_witness:
  "let es = [UInsert (sample_upload ''1'' UploadInitiated 9), UInsert (sample_upload ''2'' UploadInitiated 9),
             UTransition 1 ''1'' UploadInitiated UploadUploading, UTransition 1 ''2'' UploadInitiated UploadUploading];
       t = foldl (\<lambda>t e. upload_step e t) [] es
   in map (\<lambda>(k, u). (k, u_Status u)) t = [(''1'', UploadUploading), (''2'', UploadInitiated)] \<and>
      map_of t ''1'' = Some ((sample_upload ''1'' UploadUploading 9)\<lparr>u_UpdatedAt := 1\<rparr>) \<and> ''1'' = ''1''"
proof -
  let ?es = "[UInsert (sample_upload ''1'' UploadInitiated 9), UInsert (sample_upload ''2'' UploadInitiated 9),
     UTransition 1 ''1'' UploadInitiated UploadUploading, UTransition 1 ''2'' UploadInitiated UploadUploading]"
  let ?u = "(sample_upload ''1'' UploadUploading 9)\<lparr>u_UpdatedAt := 1\<rparr>"
  have t: "map (\<lambda>(k, u). (k, u_Status u)) (foldl (\<lambda>t e. upload_step e t) [] ?es) = [(''1'', UploadUploading), (''2'', UploadInitiated)]"
      "map_of (foldl (\<lambda>t e. upload_step e t) [] ?es) ''1'' = Some ?u" "u_Status ?u = UploadUploading"
    by code_simp+
  have same: "''1'' = ''1''" by (rule one_active_upload_per_path [OF refl t(2,2,3,3) refl])
  show ?thesis unfolding Let_def by (rule conjI [OF t(1) conjI [OF t(2) same]])
qed



end
