(* ===== verification/Backend.thy ===== *)
theory Backend
  imports Node_Tree Semantic_Tasks Quota Object_GC Patch Upload_Rows Canonical_JSON
begin

text \<open>
  The file operations of the server (\<^verbatim>\<open>pkg/backend/dat9.go\<close>, \<^verbatim>\<open>semantic_tasks.go\<close>, \<^verbatim>\<open>quota.go\<close>): creating, reading,
  writing, linking, renaming and removing files over the tenant's store, the object store and the control plane.
  Small contents live in the row of the file, larger ones in an object with a key of its own; a write stores
  the new content first and changes the rows in one transaction. The local object store stands for S3. Which
  calls fail, the clock and the generated identifiers are the argument \<^verbatim>\<open>io\<close>. The in-memory queue
  of images is not part of the state.
\<close>

section \<open>State\<close>

datatype backend_error =
    PathError path_error | StoreFailed store_error | UploadFailed upload_error | IsADirectory | NoFileEntity
  | S3Unconfigured | ObjectStoreFailed | TooLarge | QuotaDenied | FileExists | ReadEOF | UnsupportedStorage
  | CannotCopyDirectory | TaskFailed task_error | NotInline | ClientProtocol | ChecksumCount | DescriptionTooLong
  | UnsupportedAlgorithm | NotStoredInS3

text \<open>The configuration, with the functions of other packages: the hex SHA-256, Unicode normalization and
  lower case, and the table of MIME types by extension.\<close>

record backend =
  b_tenantID :: string
  b_namespaceID :: string
  b_s3 :: bool
  b_metaStore :: bool
  b_quotaServer :: bool
  b_smallInDB :: bool
  b_inlineThreshold :: int
  b_maxUploadBytes :: int
  b_textExtractMaxBytes :: int
  b_maxTenantStorageBytes :: int
  b_maxMediaLLMFiles :: int
  b_autoEmbedding :: bool
  b_imageExtract :: bool
  b_audioExtract :: bool
  b_encMode :: string
  b_encKeyID :: string
  b_sha :: "string \<Rightarrow> string"
  b_nfc :: "string \<Rightarrow> string"
  b_fold :: "string \<Rightarrow> string"
  b_mime :: "string \<Rightarrow> string"

record backend_state =
  bs_store :: node_store
  bs_uploads :: upload_table
  bs_tasks :: "semantic_task list"
  bs_s3 :: local_s3
  bs_quota :: quota_db
  bs_gc :: gc_world

datatype io_call =
    IoTx | IoPut | IoGet | IoDelete | IoCandidate | IoQuota | IoLog | IoMutation | IoReserve | IoCreateUpload | IoListParts
  | IoPresign | IoComplete | IoMark

record io =
  io_now :: int
  io_month :: int
  io_ids :: "nat \<Rightarrow> string"
  io_fails :: "io_call \<Rightarrow> bool"
  io_deadlocks :: "tx_outcome list"

section \<open>Bytes\<close>

definition bytes_of :: "string \<Rightarrow> byte list" where
  "bytes_of s = map (\<lambda>c. word_of_nat (of_char c)) s"

definition string_of :: "byte list \<Rightarrow> string" where
  "string_of bs = map (\<lambda>b. char_of (unat b)) bs"

lemma string_of_bytes [simp]: "string_of (bytes_of s) = s"
proof -
  have "char_of (unat (word_of_nat (of_char c) :: byte)) = c" for c
    by (simp add: unat_of_nat of_char_mod_256)
  then show ?thesis by (simp add: string_of_def bytes_of_def comp_def)
qed

section \<open>Content types and text\<close>

definition isTextContent :: "string \<Rightarrow> bool" where
  "isTextContent data \<longleftrightarrow> CHR 0x00 \<notin> set data \<and> utf8_valid data"

definition isTextualContentType :: "string \<Rightarrow> bool" where
  "isTextualContentType contentType \<longleftrightarrow>
    HasPrefix contentType ''text/'' \<or> contentType = ''application/json'' \<or> contentType = ''application/xml'' \<or>
    contentType = ''application/yaml''"

definition detectContentType :: "backend \<Rightarrow> string \<Rightarrow> string \<Rightarrow> string" where
  "detectContentType b path data =
    (let ext = Ext path; ct = (if ext = '''' then '''' else b_mime b ext) in
     if ct \<noteq> '''' then
       (if isTextualContentType ct \<and> \<not> isTextContent data then ''application/octet-stream'' else ct)
     else if data \<noteq> '''' \<and> isTextContent data then ''text/plain''
     else ''application/octet-stream'')"

definition DefaultTextExtractMaxBytes :: int where "DefaultTextExtractMaxBytes = 8192"

definition extractText :: "string \<Rightarrow> string \<Rightarrow> int \<Rightarrow> string" where
  "extractText data contentType maxBytes =
    (if \<not> isTextualContentType contentType then ''''
     else if \<not> isTextContent data then ''''
     else
       let limit = (if maxBytes \<le> 0 then DefaultTextExtractMaxBytes else maxBytes) in
       if int (length data) > limit then '''' else data)"

definition lower_case :: "backend \<Rightarrow> string \<Rightarrow> string" where
  "lower_case b s = ToLower (b_fold b) s"

definition isImageContentType :: "backend \<Rightarrow> string \<Rightarrow> bool" where
  "isImageContentType b contentType = HasPrefix (lower_case b (TrimSpace contentType)) ''image/''"

definition imageExtensions :: "(string, string) gomap" where
  "imageExtensions =
    [(''.png'', ''image/png''), (''.jpg'', ''image/jpeg''), (''.jpeg'', ''image/jpeg''), (''.gif'', ''image/gif''),
     (''.bmp'', ''image/bmp''), (''.webp'', ''image/webp''), (''.svg'', ''image/svg+xml''), (''.tiff'', ''image/tiff''),
     (''.tif'', ''image/tiff''), (''.ico'', ''image/x-icon'')]"

definition by_suffix :: "(string, string) gomap \<Rightarrow> string \<Rightarrow> string" where
  "by_suffix m path = (case find (\<lambda>(ext, ct). HasSuffix path ext) m of None \<Rightarrow> '''' | Some (ext, ct) \<Rightarrow> ct)"

definition contentTypeFromPath :: "backend \<Rightarrow> string \<Rightarrow> string" where
  "contentTypeFromPath b path = by_suffix imageExtensions (lower_case b path)"

definition hasAsyncImageTextSource :: "backend \<Rightarrow> string \<Rightarrow> string \<Rightarrow> bool" where
  "hasAsyncImageTextSource b path contentType \<longleftrightarrow>
    b_imageExtract b \<and> (isImageContentType b contentType \<or> isImageContentType b (contentTypeFromPath b path))"

definition audioExtensionMIME :: "(string, string) gomap" where
  "audioExtensionMIME =
    [(''.mp3'', ''audio/mpeg''), (''.wav'', ''audio/wav''), (''.mp4'', ''audio/mp4''), (''.m4a'', ''audio/mp4'')]"

definition stripMIMEParams :: "backend \<Rightarrow> string \<Rightarrow> string" where
  "stripMIMEParams b ct = (let c = TrimSpace (lower_case b ct) in
    if CHR '';'' \<in> set c then TrimSpace (takeWhile (\<lambda>x. x \<noteq> CHR '';'') c) else c)"

definition normalizeStdlibAudioMIMEAliases :: "backend \<Rightarrow> string \<Rightarrow> string" where
  "normalizeStdlibAudioMIMEAliases b ct0 =
    (let ct = stripMIMEParams b ct0 in
     if ct = ''audio/wave'' \<or> ct = ''audio/vnd.wave'' \<or> ct = ''audio/x-pn-wav'' then ''audio/wav''
     else if ct = ''video/mp4'' \<or> ct = ''application/mp4'' \<or> ct = ''audio/mp4a-latm'' then ''audio/mp4''
     else ct)"

definition isAllowedAudioMIME :: "backend \<Rightarrow> string \<Rightarrow> bool" where
  "isAllowedAudioMIME b ct \<longleftrightarrow>
    normalizeStdlibAudioMIMEAliases b ct \<in>
      set [''audio/mpeg'', ''audio/wav'', ''audio/x-wav'', ''audio/mp4'', ''audio/x-m4a'']"

definition audioMIMEAllowsPathFallback :: "backend \<Rightarrow> string \<Rightarrow> bool" where
  "audioMIMEAllowsPathFallback b ct \<longleftrightarrow>
    stripMIMEParams b ct = '''' \<or> stripMIMEParams b ct = ''application/octet-stream'' \<or> stripMIMEParams b ct = ''text/plain''"

definition effectiveAudioMIME :: "backend \<Rightarrow> string \<Rightarrow> string \<Rightarrow> string" where
  "effectiveAudioMIME b path contentType =
    (if isAllowedAudioMIME b contentType then normalizeStdlibAudioMIMEAliases b contentType
     else if \<not> audioMIMEAllowsPathFallback b (stripMIMEParams b contentType) then ''''
     else by_suffix audioExtensionMIME (lower_case b path))"

definition shouldEnqueueAudioExtractTask :: "backend \<Rightarrow> string \<Rightarrow> string \<Rightarrow> bool" where
  "shouldEnqueueAudioExtractTask b path contentType \<longleftrightarrow> b_audioExtract b \<and> effectiveAudioMIME b path contentType \<noteq> ''''"

section \<open>Quota checks\<close>

definition UseServerQuota :: "backend \<Rightarrow> bool" where
  "UseServerQuota b \<longleftrightarrow> b_quotaServer b \<and> b_metaStore b"

definition ConfirmedStorageBytesTx :: "file_tables \<Rightarrow> int" where
  "ConfirmedStorageBytesTx st = sum_list (map (\<lambda>(k, i). if i_status i = CONFIRMED then i_size i else 0) (inodes st))"

definition ConfirmedMediaFileCountTx :: "file_tables \<Rightarrow> int" where
  "ConfirmedMediaFileCountTx st = int (length (filter (\<lambda>(k, i). i_status i = CONFIRMED \<and>
     (case map_of (contents st) k of None \<Rightarrow> False
      | Some c \<Rightarrow> isQuotaMediaContentType (Lease_Queue.text_of (c_type c)))) (inodes st)))"

text \<open>The confirmed inode a node leads to.\<close>

definition node_inode :: "file_tables \<Rightarrow> file_node \<Rightarrow> (string \<times> inode_row) option" where
  "node_inode st n =
    (case (case fn_inode_id n of Some i \<Rightarrow> Some i | None \<Rightarrow> fn_file_id n) of
       None \<Rightarrow> None
     | Some iid \<Rightarrow>
         (case map_of (inodes st) iid of
            None \<Rightarrow> None
          | Some i \<Rightarrow> if i_status i = CONFIRMED then Some (iid, i) else None))"

definition ConfirmedFileSizeByPathTx :: "string \<Rightarrow> node_store \<Rightarrow> int" where
  "ConfirmedFileSizeByPathTx path s =
    (case node_at s path of
       None \<Rightarrow> 0
     | Some n \<Rightarrow> if fn_is_dir n then 0 else (case node_inode (tables s) n of None \<Rightarrow> 0 | Some (iid, i) \<Rightarrow> i_size i))"

definition ActiveUploadReservedBytesTx :: "int \<Rightarrow> upload_table \<Rightarrow> node_store \<Rightarrow> int" where
  "ActiveUploadReservedBytesTx now ups s =
    sum_list (map (\<lambda>(k, u).
      if open_status (u_Status u) \<and> now < u_ExpiresAt u then
        (let held = (case node_at s (u_TargetPath u) of
             None \<Rightarrow> 0
           | Some n \<Rightarrow> (case node_inode (tables s) n of None \<Rightarrow> 0 | Some (iid, i) \<Rightarrow> i_size i))
         in if u_TotalSize u > held then u_TotalSize u - held else 0)
      else 0) ups)"

text \<open>\<^verbatim>\<open>ensureTenantStorageQuotaTx\<close> on the sums it reads, and the dispatch of \<^verbatim>\<open>ensureStorageQuota\<close>. The check against
  the control plane passes when it cannot be reached.\<close>

definition tenant_quota :: "backend \<Rightarrow> io \<Rightarrow> string \<Rightarrow> int \<Rightarrow> backend_state \<Rightarrow> quota_error option" where
  "tenant_quota b io path newSize s =
    ensureTenantStorageQuotaTx (b_maxTenantStorageBytes b) (ConfirmedStorageBytesTx (tables (bs_store s)))
      (ActiveUploadReservedBytesTx (io_now io) (bs_uploads s) (bs_store s)) (ConfirmedFileSizeByPathTx path (bs_store s)) newSize"

definition storage_quota :: "backend \<Rightarrow> io \<Rightarrow> string \<Rightarrow> int \<Rightarrow> backend_state \<Rightarrow> quota_error option" where
  "storage_quota b io path newSize s =
    (if UseServerQuota b then
       (if io_fails io IoQuota then None
        else ensureStorageQuota (b_tenantID b) (ConfirmedFileSizeByPathTx path (bs_store s)) newSize (bs_quota s))
     else tenant_quota b io path newSize s)"

definition mediaLLMQuotaExceededCheckTx :: "backend \<Rightarrow> io \<Rightarrow> backend_state \<Rightarrow> bool" where
  "mediaLLMQuotaExceededCheckTx b io s \<longleftrightarrow>
    (if UseServerQuota b then \<not> io_fails io IoQuota \<and> mediaLLMQuotaExceededServer (b_tenantID b) (bs_quota s)
     else 0 < b_maxMediaLLMFiles b \<and> b_maxMediaLLMFiles b < ConfirmedMediaFileCountTx (tables (bs_store s)))"

section \<open>Semantic tasks of a write\<close>

definition new_task :: "string \<Rightarrow> string \<Rightarrow> string \<Rightarrow> int \<Rightarrow> string \<Rightarrow> int \<Rightarrow> semantic_task" where
  "new_task taskID taskType fid revision payload now =
    \<lparr>TaskID = taskID, Status = Queued, AttemptCount = 0, MaxAttempts = 5, Receipt = None, LeasedAt = None,
     LeaseUntil = None, AvailableAt = now, LastError = None, CreatedAt = now, UpdatedAt = now, CompletedAt = None,
     TaskType = taskType, ResourceID = fid, ResourceVersion = revision, PayloadJSON = payload\<rparr>"

text \<open>The payload of an extraction task is a JSON object without its empty fields.\<close>

definition extract_payload :: "string \<Rightarrow> string \<Rightarrow> string" where
  "extract_payload path contentType =
    (let fields = (if path = '''' then [] else [marshal_string ''path'' @ '':'' @ marshal_string path]) @
           (if contentType = '''' then [] else [marshal_string ''content_type'' @ '':'' @ marshal_string contentType])
     in if fields = [] then '''' else ''{'' @ join_with (CHR '','') fields @ ''}'')"

definition newEmbedTask :: "string \<Rightarrow> string \<Rightarrow> int \<Rightarrow> int \<Rightarrow> semantic_task" where
  "newEmbedTask taskID fid revision now = new_task taskID ''embed'' fid revision '''' now"

definition newImgExtractTask :: "string \<Rightarrow> string \<Rightarrow> int \<Rightarrow> string \<Rightarrow> string \<Rightarrow> int \<Rightarrow> semantic_task" where
  "newImgExtractTask taskID fid revision path contentType now =
    new_task taskID ''img_extract_text'' fid revision (extract_payload path contentType) now"

definition newAudioExtractTask :: "string \<Rightarrow> string \<Rightarrow> int \<Rightarrow> string \<Rightarrow> string \<Rightarrow> int \<Rightarrow> semantic_task" where
  "newAudioExtractTask taskID fid revision path contentType now =
    new_task taskID ''audio_extract_text'' fid revision (extract_payload path contentType) now"

definition enqueue_task :: "int \<Rightarrow> semantic_task \<Rightarrow> semantic_task list \<Rightarrow> backend_error + semantic_task list" where
  "enqueue_task now t rows =
    (case enqueueSemanticTask now (Some t) rows of Inl e \<Rightarrow> Inl (TaskFailed e) | Inr (rows', _) \<Rightarrow> Inr rows')"

definition enqueueTiDBAutoSemanticTasksTx ::
  "backend \<Rightarrow> io \<Rightarrow> nat \<Rightarrow> string \<Rightarrow> int \<Rightarrow> string \<Rightarrow> string \<Rightarrow> backend_state \<Rightarrow> backend_error + semantic_task list" where
  "enqueueTiDBAutoSemanticTasksTx b io k fid revision path contentType s =
    (let isImage = hasAsyncImageTextSource b path contentType;
         isAudio = shouldEnqueueAudioExtractTask b path contentType;
         now = io_now io in
     if \<not> isImage \<and> \<not> isAudio then Inr (bs_tasks s)
     else if mediaLLMQuotaExceededCheckTx b io s then Inr (bs_tasks s)
     else
       tx_bind (if isImage then enqueue_task now (newImgExtractTask (io_ids io k) fid revision path contentType now) (bs_tasks s)
                else Inr (bs_tasks s)) (\<lambda>rows.
       if isAudio then enqueue_task now (newAudioExtractTask (io_ids io (Suc k)) fid revision path contentType now) rows
       else Inr rows))"

definition shouldEnqueueEmbedForRevision :: "backend \<Rightarrow> string \<Rightarrow> string \<Rightarrow> string \<Rightarrow> string \<Rightarrow> bool" where
  "shouldEnqueueEmbedForRevision b path contentType contentText description \<longleftrightarrow>
    TrimSpace contentText \<noteq> '''' \<or> TrimSpace description \<noteq> '''' \<or> hasAsyncImageTextSource b path contentType"

text \<open>The end of every writing transaction.\<close>

definition enqueue_semantic ::
  "backend \<Rightarrow> io \<Rightarrow> nat \<Rightarrow> string \<Rightarrow> int \<Rightarrow> string \<Rightarrow> string \<Rightarrow> string \<Rightarrow> string \<Rightarrow> backend_state \<Rightarrow> backend_error + backend_state" where
  "enqueue_semantic b io k fid revision path contentType contentText description s =
    map_sum id (\<lambda>rows. s\<lparr>bs_tasks := rows\<rparr>)
      (if b_autoEmbedding b then enqueueTiDBAutoSemanticTasksTx b io k fid revision path contentType s
       else if shouldEnqueueEmbedForRevision b path contentType contentText description
       then enqueue_task (io_now io) (newEmbedTask (io_ids io k) fid revision (io_now io)) (bs_tasks s)
       else Inr (bs_tasks s))"

section \<open>Resolving and reading\<close>

definition on_store :: "(node_store \<Rightarrow> store_error + node_store) \<Rightarrow> backend_state \<Rightarrow> backend_error + backend_state" where
  "on_store f s = map_sum StoreFailed (\<lambda>st. s\<lparr>bs_store := st\<rparr>) (f (bs_store s))"

definition on_tables :: "(file_tables \<Rightarrow> store_error + file_tables) \<Rightarrow> node_store \<Rightarrow> store_error + node_store" where
  "on_tables f s = map_sum id (\<lambda>t. s\<lparr>tables := t\<rparr>) (f (tables s))"

definition canonical_path :: "backend \<Rightarrow> string \<Rightarrow> backend_error + string" where
  "canonical_path b path = map_sum PathError id (Canonicalize (b_nfc b) path)"

definition normalizePath :: "backend \<Rightarrow> string \<Rightarrow> string" where
  "normalizePath b path =
    (case (if IsDir path then CanonicalizeDir (b_nfc b) path else Canonicalize (b_nfc b) path) of Inl _ \<Rightarrow> path | Inr p \<Rightarrow> p)"

definition canonicalizePathForKind :: "backend \<Rightarrow> string \<Rightarrow> bool \<Rightarrow> string" where
  "canonicalizePathForKind b path isDir =
    (if isDir then (case CanonicalizeDir (b_nfc b) path of Inl _ \<Rightarrow> path | Inr p \<Rightarrow> p) else normalizePath b path)"

text \<open>\<^verbatim>\<open>resolveNodePath\<close>: a path that names no file may still name a directory.\<close>

definition resolveNodePath :: "backend \<Rightarrow> string \<Rightarrow> node_store \<Rightarrow> backend_error + string \<times> file_node" where
  "resolveNodePath b rawPath s =
    (let resolvedPath = normalizePath b rawPath in
     case GetNode resolvedPath s of
       Inr n \<Rightarrow> Inr (resolvedPath, n)
     | Inl e \<Rightarrow>
         if IsDir rawPath then Inl (StoreFailed e)
         else
           (case CanonicalizeDir (b_nfc b) rawPath of
              Inl _ \<Rightarrow> Inl (StoreFailed e)
            | Inr dirPath \<Rightarrow>
                if dirPath = resolvedPath then Inl (StoreFailed e)
                else (case GetNode dirPath s of Inl _ \<Rightarrow> Inl (StoreFailed e) | Inr n \<Rightarrow> Inr (dirPath, n))))"

record node_with_file =
  nf_Node :: file_node
  nf_File :: "file_data option"

definition Stat :: "string \<Rightarrow> node_store \<Rightarrow> store_error + node_with_file" where
  "Stat path s =
    tx_bind (GetNode path s) (\<lambda>n.
    case (if fn_is_dir n then None else fn_file_id n) of
      None \<Rightarrow> Inr \<lparr>nf_Node = n, nf_File = None\<rparr>
    | Some fid \<Rightarrow> tx_bind (GetFile fid (tables s)) (\<lambda>f. Inr \<lparr>nf_Node = n, nf_File = Some f\<rparr>))"

text \<open>\<^verbatim>\<open>StatForRead\<close>: the confirmed inode of the node with its content row, if there is one.\<close>

definition StatForRead :: "string \<Rightarrow> node_store \<Rightarrow> store_error + file_node \<times> (inode_row \<times> content_row option) option" where
  "StatForRead path s =
    tx_bind (GetNode path s) (\<lambda>n.
    Inr (n, case node_inode (tables s) n of None \<Rightarrow> None | Some (iid, i) \<Rightarrow> Some (i, map_of (contents (tables s)) iid)))"

definition readFileDataCtx :: "backend \<Rightarrow> io \<Rightarrow> file_data \<Rightarrow> local_s3 \<Rightarrow> backend_error + string" where
  "readFileDataCtx b io f c =
    (if fd_StorageType f = ''s3'' then
       (if \<not> b_s3 b then Inl S3Unconfigured
        else if io_fails io IoGet then Inl ObjectStoreFailed
        else (case GetObject c (fd_StorageRef f) of Inl _ \<Rightarrow> Inl ObjectStoreFailed | Inr d \<Rightarrow> Inr (string_of d)))
     else if fd_StorageType f = ''db9'' then Inr (fd_ContentBlob f)
     else Inl UnsupportedStorage)"

definition ReadCtx :: "backend \<Rightarrow> io \<Rightarrow> string \<Rightarrow> int \<Rightarrow> int \<Rightarrow> backend_state \<Rightarrow> backend_error + string" where
  "ReadCtx b io path offset sz s =
    tx_bind (canonical_path b path) (\<lambda>p.
    tx_bind (map_sum StoreFailed id (Stat p (bs_store s))) (\<lambda>nf.
    if fn_is_dir (nf_Node nf) then Inl IsADirectory
    else
      (case nf_File nf of
         None \<Rightarrow> Inl NoFileEntity
       | Some f \<Rightarrow>
           tx_bind (readFileDataCtx b io f (bs_s3 s)) (\<lambda>data.
           if 0 < offset \<and> int (length data) \<le> offset then Inl ReadEOF
           else
             let rest = (if 0 < offset then drop (nat offset) data else data) in
             Inr (if 0 \<le> sz \<and> sz < int (length rest) then take (nat sz) rest else rest)))))"

text \<open>\<^verbatim>\<open>ReadPlanCtx\<close>: the body for a content in the row, else the key of the object the client is sent to.\<close>

datatype read_plan = PlanInline string int int int | PlanObject string int int int

definition fileMtime :: "inode_row \<Rightarrow> int" where
  "fileMtime i = (case i_confirmed i of Some t \<Rightarrow> t | None \<Rightarrow> i_created i)"

definition ReadPlanCtx :: "backend \<Rightarrow> io \<Rightarrow> string \<Rightarrow> backend_state \<Rightarrow> backend_error + read_plan" where
  "ReadPlanCtx b io path s =
    tx_bind (canonical_path b path) (\<lambda>p.
    tx_bind (map_sum StoreFailed id (StatForRead p (bs_store s))) (\<lambda>(n, f).
    if fn_is_dir n then Inl (StoreFailed StoreNotFound)
    else
      (case f of
         None \<Rightarrow> Inl (StoreFailed StoreNotFound)
       | Some (i, c) \<Rightarrow>
           let t = (case c of None \<Rightarrow> '''' | Some c \<Rightarrow> c_storage_type c) in
           if t = ''db9'' then
             Inr (PlanInline (case c of None \<Rightarrow> '''' | Some c \<Rightarrow> Lease_Queue.text_of (c_blob c)) (i_size i) (i_revision i) (fileMtime i))
           else if t = ''s3'' then
             (if \<not> b_s3 b then Inl S3Unconfigured
              else if io_fails io IoPresign then Inl ObjectStoreFailed
              else Inr (PlanObject (case c of None \<Rightarrow> '''' | Some c \<Rightarrow> c_storage_ref c) (i_size i) (i_revision i) (fileMtime i)))
           else Inl UnsupportedStorage)))"

definition ReadInlinePlanCtx :: "backend \<Rightarrow> string \<Rightarrow> backend_state \<Rightarrow> backend_error + read_plan" where
  "ReadInlinePlanCtx b path s =
    tx_bind (canonical_path b path) (\<lambda>p.
    tx_bind (map_sum StoreFailed id (StatForRead p (bs_store s))) (\<lambda>(n, f).
    if fn_is_dir n then Inl (StoreFailed StoreNotFound)
    else
      (case f of
         None \<Rightarrow> Inl (StoreFailed StoreNotFound)
       | Some (i, c) \<Rightarrow>
           (case c of
              None \<Rightarrow> Inl NotInline
            | Some c \<Rightarrow>
                if c_storage_type c \<noteq> ''db9'' then Inl NotInline
                else Inr (PlanInline (Lease_Queue.text_of (c_blob c)) (i_size i) (i_revision i) (fileMtime i))))))"

section \<open>Storing contents\<close>

text \<open>Where a content goes: into the row, or into the object with the given key.\<close>

record placement =
  pl_type :: string
  pl_ref :: string
  pl_encMode :: string
  pl_encKeyID :: string
  pl_blob :: string

definition shouldStoreInDB :: "backend \<Rightarrow> int \<Rightarrow> bool" where
  "shouldStoreInDB b sz \<longleftrightarrow> b_smallInDB b \<and> sz < b_inlineThreshold b"

definition storageEncryptionModeFromS3 :: "string \<Rightarrow> string" where
  "storageEncryptionModeFromS3 mode =
    (if mode \<in> set [''legacy'', ''none'', ''sse-s3'', ''sse-kms'', ''dsse-kms''] then mode else ''none'')"

definition place :: "backend \<Rightarrow> io \<Rightarrow> string \<Rightarrow> string \<Rightarrow> backend_state \<Rightarrow> backend_error + placement \<times> backend_state" where
  "place b io key data s =
    (if shouldStoreInDB b (int (length data)) then
       Inr (\<lparr>pl_type = ''db9'', pl_ref = ''inline'', pl_encMode = ''none'', pl_encKeyID = '''', pl_blob = data\<rparr>, s)
     else if \<not> b_s3 b then Inl S3Unconfigured
     else if io_fails io IoPut then Inl ObjectStoreFailed
     else
       Inr (\<lparr>pl_type = ''s3'', pl_ref = key, pl_encMode = storageEncryptionModeFromS3 (b_encMode b),
             pl_encKeyID = b_encKeyID b, pl_blob = ''''\<rparr>,
            s\<lparr>bs_s3 := PutObject (bs_s3 s) key (bytes_of data)\<rparr>))"

text \<open>\<^verbatim>\<open>deleteBlobCtx\<close>, and the clean-up after a failed transaction.\<close>

definition delete_blob :: "backend \<Rightarrow> io \<Rightarrow> string \<Rightarrow> backend_state \<Rightarrow> backend_state" where
  "delete_blob b io ref s =
    (if b_s3 b \<and> ref \<noteq> '''' \<and> \<not> io_fails io IoDelete
     then s\<lparr>bs_s3 := or_keep (bs_s3 s) (DeleteObject (bs_s3 s) ref)\<rparr> else s)"

definition undo_place :: "backend \<Rightarrow> io \<Rightarrow> placement \<Rightarrow> backend_state \<Rightarrow> backend_state" where
  "undo_place b io pl s = (if pl_type pl = ''s3'' then delete_blob b io (pl_ref pl) s else s)"

text \<open>\<^verbatim>\<open>deleteBlobIfS3Ctx\<close>: the old object becomes a candidate for collection.\<close>

definition release_blob :: "backend \<Rightarrow> io \<Rightarrow> string \<Rightarrow> string \<Rightarrow> string \<Rightarrow> backend_state \<Rightarrow> backend_state" where
  "release_blob b io storageType ref keepRef s =
    (if b_metaStore b \<and> \<not> io_fails io IoCandidate
     then s\<lparr>bs_gc := deleteBlobIfS3Ctx (b_sha b) (io_now io) (b_namespaceID b) (b_tenantID b) storageType ref keepRef (bs_gc s)\<rparr>
     else s)"

definition sync_create :: "backend \<Rightarrow> io \<Rightarrow> string \<Rightarrow> int \<Rightarrow> string \<Rightarrow> backend_state \<Rightarrow> backend_state" where
  "sync_create b io fid sz contentType s =
    s\<lparr>bs_quota := syncCentralFileCreate (b_metaStore b \<and> \<not> io_fails io IoLog) (\<not> io_fails io IoMutation)
        (io_now io) (io_month io) (b_tenantID b) fid sz contentType (bs_quota s)\<rparr>"

definition sync_overwrite :: "backend \<Rightarrow> io \<Rightarrow> string \<Rightarrow> int \<Rightarrow> string \<Rightarrow> int \<Rightarrow> string \<Rightarrow> backend_state \<Rightarrow> backend_state" where
  "sync_overwrite b io fid oldSize oldType newSize newType s =
    s\<lparr>bs_quota := syncCentralFileOverwrite (b_metaStore b \<and> \<not> io_fails io IoLog) (\<not> io_fails io IoMutation)
        (io_now io) (io_month io) (b_tenantID b) fid oldSize oldType newSize newType (bs_quota s)\<rparr>"

section \<open>Creating and writing\<close>

definition name_node :: "string \<Rightarrow> string \<Rightarrow> string \<Rightarrow> int \<Rightarrow> file_node" where
  "name_node nodeID path fid now =
    \<lparr>fn_node_id = nodeID, fn_path = path, fn_parent_path = ParentPath path, fn_name = BaseName path,
     fn_is_dir = False, fn_file_id = nullStr fid, fn_inode_id = None, fn_created = now\<rparr>"

definition new_file :: "string \<Rightarrow> placement \<Rightarrow> string \<Rightarrow> int \<Rightarrow> string \<Rightarrow> string \<Rightarrow> string \<Rightarrow> int option \<Rightarrow> int \<Rightarrow> file_data" where
  "new_file fid pl contentType sz checksum contentText description descRev now =
    \<lparr>fd_FileID = fid, fd_StorageType = pl_type pl, fd_StorageRef = pl_ref pl, fd_EncMode = pl_encMode pl,
     fd_EncKeyID = pl_encKeyID pl, fd_ContentBlob = pl_blob pl, fd_ContentType = contentType, fd_SizeBytes = sz,
     fd_Checksum = checksum, fd_Revision = 1, fd_Mode = 0, fd_EmbeddingRevision = None, fd_Status = CONFIRMED,
     fd_SourceID = '''', fd_ContentText = contentText, fd_Description = description,
     fd_DescEmbeddingRevision = descRev, fd_CreatedAt = now, fd_ConfirmedAt = Some now, fd_ExpiresAt = None\<rparr>"

text \<open>The statements that insert a file under a path, shared by creation and by the first write.\<close>

definition insert_file :: "backend \<Rightarrow> io \<Rightarrow> string \<Rightarrow> file_data \<Rightarrow> backend_state \<Rightarrow> backend_error + backend_state" where
  "insert_file b io path f s =
    tx_bind (on_store (on_tables (InsertFileTx (b_sha b) (io_now io) f)) s) (\<lambda>s1.
    on_store (InsertNodeTx (name_node (io_ids io 1) path (fd_FileID f) (io_now io)))
      (s1\<lparr>bs_store := ensureParentDirsWithExecer (b_sha b) (io_now io) path (bs_store s1)\<rparr>))"

definition in_store_tx :: "io \<Rightarrow> backend_error + 'a \<Rightarrow> backend_error + 'a" where
  "in_store_tx io r = (if io_fails io IoTx then Inl (StoreFailed (StoreError ''transaction'')) else r)"

definition CreateCtx :: "backend \<Rightarrow> io \<Rightarrow> string \<Rightarrow> backend_state \<Rightarrow> backend_state \<times> (backend_error + unit)" where
  "CreateCtx b io path s =
    (case canonical_path b path of
       Inl e \<Rightarrow> (s, Inl e)
     | Inr p \<Rightarrow>
         let fid = io_ids io 0 in
         (case place b io (''blobs/'' @ fid) '''' s of
            Inl e \<Rightarrow> (s, Inl e)
          | Inr (pl, s1) \<Rightarrow>
              (case in_store_tx io (insert_file b io p (new_file fid pl '''' 0 '''' '''' '''' None (io_now io)) s1) of
                 Inl e \<Rightarrow> (undo_place b io pl s1, Inl e)
               | Inr s2 \<Rightarrow> (sync_create b io fid 0 '''' s2, Inr ()))))"

definition set_tags :: "string \<Rightarrow> (string, string) gomap option \<Rightarrow> backend_state \<Rightarrow> backend_state" where
  "set_tags fid newTags s =
    (case newTags of None \<Rightarrow> s | Some kvs \<Rightarrow> s\<lparr>bs_store := ReplaceFileTagsTx fid kvs (bs_store s)\<rparr>)"

definition write_new_tx ::
  "backend \<Rightarrow> io \<Rightarrow> string \<Rightarrow> file_data \<Rightarrow> (string, string) gomap option \<Rightarrow> backend_state \<Rightarrow> backend_error + backend_state" where
  "write_new_tx b io path f newTags s =
    (case storage_quota b io path (fd_SizeBytes f) s of
       Some _ \<Rightarrow> Inl QuotaDenied
     | None \<Rightarrow>
         tx_bind (insert_file b io path f s) (\<lambda>s1.
         enqueue_semantic b io 2 (fd_FileID f) 1 path (fd_ContentType f) (fd_ContentText f) (fd_Description f)
           (set_tags (fd_FileID f) newTags s1)))"

definition createAndWriteCtx ::
  "backend \<Rightarrow> io \<Rightarrow> string \<Rightarrow> string \<Rightarrow> (string, string) gomap option \<Rightarrow> string \<Rightarrow> backend_state \<Rightarrow>
   backend_state \<times> (backend_error + int)" where
  "createAndWriteCtx b io path data newTags description s =
    (if ensureUploadSizeAllowed (b_maxUploadBytes b) (int (length data)) \<noteq> None then (s, Inl TooLarge)
     else
       let fid = io_ids io 0; contentType = detectContentType b path data;
           descRev = (if b_autoEmbedding b \<and> description \<noteq> '''' then Some 1 else None) in
       (case place b io (''blobs/'' @ fid) data s of
          Inl e \<Rightarrow> (s, Inl e)
        | Inr (pl, s1) \<Rightarrow>
            let f = new_file fid pl contentType (int (length data)) (b_sha b data)
                  (extractText data contentType (b_textExtractMaxBytes b)) description descRev (io_now io) in
            (case in_store_tx io (write_new_tx b io path f newTags s1) of
               Inl e \<Rightarrow> (undo_place b io pl s1, Inl e)
             | Inr s2 \<Rightarrow> (sync_create b io fid (int (length data)) contentType s2, Inr (int (length data))))))"

record write_flags =
  wf_append :: bool
  wf_create :: bool
  wf_exclusive :: bool
  wf_truncate :: bool

text \<open>The bytes between the old content and the write: a hole is filled with zeros.\<close>

definition splice :: "string \<Rightarrow> nat \<Rightarrow> string \<Rightarrow> string" where
  "splice old off data =
    (let padded = old @ replicate (off - length old) (CHR 0x00) in
     take off padded @ data @ drop (off + length data) padded)"

definition final_data ::
  "backend \<Rightarrow> io \<Rightarrow> file_data \<Rightarrow> string \<Rightarrow> int \<Rightarrow> write_flags \<Rightarrow> local_s3 \<Rightarrow> backend_error + string" where
  "final_data b io f data offset flags c =
    (if wf_append flags then tx_bind (readFileDataCtx b io f c) (\<lambda>old. Inr (old @ data))
     else if wf_truncate flags \<or> offset \<le> 0 then Inr data
     else tx_bind (readFileDataCtx b io f c) (\<lambda>old. Inr (splice old (nat offset) data)))"

definition overwrite_tx ::
  "backend \<Rightarrow> io \<Rightarrow> string \<Rightarrow> string \<Rightarrow> int \<Rightarrow> content_args \<Rightarrow> placement \<Rightarrow> (string, string) gomap option \<Rightarrow> backend_state \<Rightarrow>
   backend_error + backend_state \<times> int" where
  "overwrite_tx b io path fid expectedRevision a pl newTags s =
    (case storage_quota b io path (a_size a) s of
       Some _ \<Rightarrow> Inl QuotaDenied
     | None \<Rightarrow>
         tx_bind (map_sum StoreFailed id
           (updateFileContentTx (b_sha b) (io_now io) fid expectedRevision (b_autoEmbedding b) a (tables (bs_store s)))) (\<lambda>(t1, newRev).
         tx_bind (map_sum StoreFailed id (UpdateFileStorageEncryptionTx fid (pl_encMode pl) (pl_encKeyID pl) t1)) (\<lambda>t2.
         tx_bind (enqueue_semantic b io 1 fid newRev path (a_contentType a) (a_contentText a) (a_description a)
           (set_tags fid newTags (s\<lparr>bs_store := (bs_store s)\<lparr>tables := t2\<rparr>\<rparr>))) (\<lambda>s1.
         Inr (s1, newRev)))))"

definition overwriteFileCtxWithRev ::
  "backend \<Rightarrow> io \<Rightarrow> node_with_file \<Rightarrow> string \<Rightarrow> int \<Rightarrow> write_flags \<Rightarrow> int \<Rightarrow> (string, string) gomap option \<Rightarrow> string \<Rightarrow>
   backend_state \<Rightarrow> backend_state \<times> (backend_error + int \<times> int)" where
  "overwriteFileCtxWithRev b io nf data offset flags expectedRevision newTags description s =
    (case nf_File nf of
       None \<Rightarrow> (s, Inl NoFileEntity)
     | Some f \<Rightarrow>
         (case final_data b io f data offset flags (bs_s3 s) of
            Inl e \<Rightarrow> (s, Inl e)
          | Inr final \<Rightarrow>
              if ensureUploadSizeAllowed (b_maxUploadBytes b) (int (length final)) \<noteq> None then (s, Inl TooLarge)
              else
                let path = fn_path (nf_Node nf); contentType = detectContentType b path final in
                (case place b io (''blobs/'' @ io_ids io 0) final s of
                   Inl e \<Rightarrow> (s, Inl e)
                 | Inr (pl, s1) \<Rightarrow>
                     let a = \<lparr>a_storageType = pl_type pl, a_storageRef = pl_ref pl, a_contentType = contentType,
                           a_checksum = b_sha b final, a_contentText = extractText final contentType (b_textExtractMaxBytes b),
                           a_contentBlob = pl_blob pl, a_size = int (length final), a_description = description\<rparr> in
                     (case in_store_tx io (overwrite_tx b io path (fd_FileID f) expectedRevision a pl newTags s1) of
                        Inl e \<Rightarrow> (undo_place b io pl s1, Inl e)
                      | Inr (s2, newRev) \<Rightarrow>
                          (release_blob b io (fd_StorageType f) (fd_StorageRef f) (pl_ref pl)
                             (sync_overwrite b io (fd_FileID f) (fd_SizeBytes f) (fd_ContentType f) (int (length final)) contentType s2),
                           Inr (int (length data), newRev))))))"

text \<open>\<^verbatim>\<open>expectedRevision\<close>: negative for any, zero for a path that must not exist, else the revision to replace.\<close>

definition WriteCtxIfRevisionWithTagsResult ::
  "backend \<Rightarrow> io \<Rightarrow> string \<Rightarrow> string \<Rightarrow> int \<Rightarrow> write_flags \<Rightarrow> int \<Rightarrow> (string, string) gomap option \<Rightarrow> string \<Rightarrow>
   backend_state \<Rightarrow> backend_state \<times> (backend_error + int \<times> int)" where
  "WriteCtxIfRevisionWithTagsResult b io path0 data offset flags expectedRevision newTags description s =
    (case canonical_path b path0 of
       Inl e \<Rightarrow> (s, Inl e)
     | Inr path \<Rightarrow>
         (case Stat path (bs_store s) of
            Inl StoreNotFound \<Rightarrow>
              if 0 < expectedRevision then (s, Inl (StoreFailed StoreRevisionConflict))
              else if \<not> wf_create flags then
                (s, Inl (StoreFailed (if expectedRevision = 0 then StoreRevisionConflict else StoreNotFound)))
              else
                (case createAndWriteCtx b io path data newTags description s of
                   (s', Inl e) \<Rightarrow>
                     (s', Inl (if expectedRevision = 0 \<and> e = StoreFailed StorePathConflict then StoreFailed StoreRevisionConflict else e))
                 | (s', Inr n) \<Rightarrow> (s', Inr (n, 1)))
          | Inl e \<Rightarrow> (s, Inl (StoreFailed e))
          | Inr nf \<Rightarrow>
              if expectedRevision = 0 then (s, Inl (StoreFailed StoreRevisionConflict))
              else if fn_is_dir (nf_Node nf) then (s, Inl IsADirectory)
              else if wf_exclusive flags then (s, Inl FileExists)
              else if 0 < expectedRevision \<and>
                 (case nf_File nf of None \<Rightarrow> True | Some f \<Rightarrow> fd_Revision f \<noteq> expectedRevision)
              then (s, Inl (StoreFailed StoreRevisionConflict))
              else overwriteFileCtxWithRev b io nf data offset flags expectedRevision newTags description s))"

section \<open>Names\<close>

text \<open>An operation of the store that runs in its own transaction.\<close>

definition store_op :: "(node_store \<Rightarrow> store_error + node_store) \<Rightarrow> backend_state \<Rightarrow> backend_state \<times> (backend_error + unit)" where
  "store_op f s = (case f (bs_store s) of Inl e \<Rightarrow> (s, Inl (StoreFailed e)) | Inr st \<Rightarrow> (s\<lparr>bs_store := st\<rparr>, Inr ()))"

definition InsertInodeTx :: "string \<Rightarrow> inode_row \<Rightarrow> node_store \<Rightarrow> store_error + node_store" where
  "InsertInodeTx iid row s =
    (case insert_row iid row (inodes (tables s)) of
       None \<Rightarrow> Inl (StoreError ''Duplicate entry'')
     | Some is \<Rightarrow> Inr (s\<lparr>tables := (tables s)\<lparr>inodes := is\<rparr>\<rparr>))"

definition mkdir_tx :: "io \<Rightarrow> string \<Rightarrow> nat \<Rightarrow> node_store \<Rightarrow> store_error + node_store" where
  "mkdir_tx io dirPath perm s =
    (let now = io_now io; iid = io_ids io 0 in
     tx_bind (InsertInodeTx iid \<lparr>i_size = 0, i_revision = 1, i_mode = perm, i_status = CONFIRMED, i_created = now,
         i_mtime = now, i_confirmed = None, i_expires = None\<rparr> s)
       (InsertNodeTx \<lparr>fn_node_id = io_ids io 1, fn_path = dirPath, fn_parent_path = ParentPath dirPath,
          fn_name = BaseName dirPath, fn_is_dir = True, fn_file_id = None, fn_inode_id = nullStr iid, fn_created = now\<rparr>))"

definition MkdirCtx :: "backend \<Rightarrow> io \<Rightarrow> string \<Rightarrow> nat \<Rightarrow> backend_state \<Rightarrow> backend_state \<times> (backend_error + unit)" where
  "MkdirCtx b io path perm s =
    (case CanonicalizeDir (b_nfc b) path of
       Inl e \<Rightarrow> (s, Inl (PathError e))
     | Inr dirPath \<Rightarrow>
         (case EnsureParentDirs (io_deadlocks io) (b_sha b) (io_now io) dirPath (bs_store s) of
            Inl e \<Rightarrow> (s, Inl (StoreFailed e))
          | Inr st \<Rightarrow> store_op (mkdir_tx io dirPath perm) (s\<lparr>bs_store := st\<rparr>)))"

definition ChmodCtx :: "backend \<Rightarrow> string \<Rightarrow> nat \<Rightarrow> backend_state \<Rightarrow> backend_state \<times> (backend_error + unit)" where
  "ChmodCtx b path mode s =
    (case resolveNodePath b path (bs_store s) of Inl e \<Rightarrow> (s, Inl e) | Inr (p, n) \<Rightarrow> store_op (Chmod p mode) s)"

definition delete_file_op :: "io \<Rightarrow> string \<Rightarrow> node_store \<Rightarrow> store_error + node_store" where
  "delete_file_op io p st = map_sum id fst (DeleteFileWithRefCheck (io_now io) p st)"

definition RemoveCtx :: "backend \<Rightarrow> io \<Rightarrow> string \<Rightarrow> backend_state \<Rightarrow> backend_state \<times> (backend_error + unit)" where
  "RemoveCtx b io path s =
    (case resolveNodePath b path (bs_store s) of
       Inl e \<Rightarrow> (s, Inl e)
     | Inr (p, n) \<Rightarrow> if fn_is_dir n then store_op (DeleteEmptyDir p) s else store_op (delete_file_op io p) s)"

definition RemoveFileCtx :: "backend \<Rightarrow> io \<Rightarrow> string \<Rightarrow> backend_state \<Rightarrow> backend_state \<times> (backend_error + unit)" where
  "RemoveFileCtx b io path s =
    (case canonical_path b path of Inl e \<Rightarrow> (s, Inl e) | Inr p \<Rightarrow> store_op (delete_file_op io p) s)"

definition RemoveDirCtx :: "backend \<Rightarrow> string \<Rightarrow> backend_state \<Rightarrow> backend_state \<times> (backend_error + unit)" where
  "RemoveDirCtx b path s =
    (case CanonicalizeDir (b_nfc b) path of Inl e \<Rightarrow> (s, Inl (PathError e)) | Inr p \<Rightarrow> store_op (DeleteEmptyDir p) s)"

definition RemoveAllCtx :: "backend \<Rightarrow> io \<Rightarrow> string \<Rightarrow> backend_state \<Rightarrow> backend_state \<times> (backend_error + unit)" where
  "RemoveAllCtx b io path s =
    (case resolveNodePath b path (bs_store s) of
       Inl e \<Rightarrow> (s, Inl e)
     | Inr (p, n) \<Rightarrow>
         if \<not> fn_is_dir n then store_op (delete_file_op io p) s
         else store_op (\<lambda>st. map_sum id fst (DeleteDirRecursive (io_now io) p st)) s)"

definition RenameCtx :: "backend \<Rightarrow> io \<Rightarrow> string \<Rightarrow> string \<Rightarrow> backend_state \<Rightarrow> backend_state \<times> (backend_error + unit)" where
  "RenameCtx b io oldPath0 newPath0 s =
    (case resolveNodePath b oldPath0 (bs_store s) of
       Inl e \<Rightarrow> (s, Inl e)
     | Inr (oldPath, n) \<Rightarrow>
         let newPath = canonicalizePathForKind b newPath0 (fn_is_dir n) in
         if oldPath = newPath then (s, Inr ())
         else
           (case EnsureParentDirs (io_deadlocks io) (b_sha b) (io_now io) newPath (bs_store s) of
              Inl e \<Rightarrow> (s, Inl (StoreFailed e))
            | Inr st \<Rightarrow>
                if fn_is_dir n
                then store_op (\<lambda>st. map_sum id fst (RenameDir oldPath newPath st)) (s\<lparr>bs_store := st\<rparr>)
                else store_op (\<lambda>st. map_sum id fst (RenameFileReplacingTarget (io_now io) oldPath newPath
                  (ParentPath newPath) (BaseName newPath) st)) (s\<lparr>bs_store := st\<rparr>)))"

text \<open>\<^verbatim>\<open>CopyFileCtx\<close> gives the file of the source a second name.\<close>

definition CopyFileCtx :: "backend \<Rightarrow> io \<Rightarrow> string \<Rightarrow> string \<Rightarrow> backend_state \<Rightarrow> backend_state \<times> (backend_error + unit)" where
  "CopyFileCtx b io srcPath dstPath s =
    (case canonical_path b srcPath of
       Inl e \<Rightarrow> (s, Inl e)
     | Inr src \<Rightarrow>
         (case canonical_path b dstPath of
            Inl e \<Rightarrow> (s, Inl e)
          | Inr dst \<Rightarrow>
              (case GetNode src (bs_store s) of
                 Inl e \<Rightarrow> (s, Inl (StoreFailed e))
               | Inr n \<Rightarrow>
                   if fn_is_dir n then (s, Inl CannotCopyDirectory)
                   else
                     (case EnsureParentDirs (io_deadlocks io) (b_sha b) (io_now io) dst (bs_store s) of
                        Inl e \<Rightarrow> (s, Inl (StoreFailed e))
                      | Inr st \<Rightarrow>
                          store_op (InsertNodeTx (name_node (io_ids io 0) dst (Lease_Queue.text_of (fn_file_id n)) (io_now io)))
                            (s\<lparr>bs_store := st\<rparr>)))))"

end
