(* ===== verification/Backend_Refine.thy ===== *)
theory Backend_Refine
  imports Backend
begin

text \<open>
  The file operations of \<^verbatim>\<open>Backend\<close> refine the inode model of the design: a map from paths to file identifiers and
  a map from identifiers to contents. Writing changes the content of a file for all its names, copying adds a
  name, renaming and removing change names only, and an operation that fails changes nothing that can be read.
\<close>

section \<open>The abstraction\<close>

record inode_fs =
  fs_names :: "string \<Rightarrow> string option"
  fs_data :: "string \<Rightarrow> string option"

definition file_at :: "node_store \<Rightarrow> string \<Rightarrow> string option" where
  "file_at st p = (case node_at st p of None \<Rightarrow> None | Some n \<Rightarrow> if fn_is_dir n then None else fn_file_id n)"

definition row_data :: "backend \<Rightarrow> local_s3 \<Rightarrow> content_row \<Rightarrow> string option" where
  "row_data b c r =
    (if c_storage_type r = ''s3'' then (if b_s3 b then map_option string_of (map_of (objects c) (c_storage_ref r)) else None)
     else if c_storage_type r = ''db9'' then Some (Lease_Queue.text_of (c_blob r)) else None)"

definition content_of :: "backend \<Rightarrow> backend_state \<Rightarrow> string \<Rightarrow> string option" where
  "content_of b s fid = Option.bind (map_of (contents (tables (bs_store s))) fid) (row_data b (bs_s3 s))"

definition abs_fs :: "backend \<Rightarrow> backend_state \<Rightarrow> inode_fs" where
  "abs_fs b s = \<lparr>fs_names = file_at (bs_store s), fs_data = content_of b s\<rparr>"

definition names_ok :: "node_store \<Rightarrow> bool" where
  "names_ok st \<longleftrightarrow> distinct (map fn_path (nodes st)) \<and> distinct (map fn_node_id (nodes st)) \<and>
    Some '''' \<notin> set (map fn_file_id (nodes st))"

definition store_ok :: "node_store \<Rightarrow> bool" where
  "store_ok st \<longleftrightarrow> tables_ok (tables st) \<and> names_ok st"

text \<open>No row refers to the object with the given key.\<close>

definition fresh_key :: "string \<Rightarrow> backend_state \<Rightarrow> bool" where
  "fresh_key key s \<longleftrightarrow> list_all (\<lambda>(fid, c). c_storage_ref c \<noteq> key) (contents (tables (bs_store s)))"

lemma fresh_keyD: "fresh_key key s \<Longrightarrow> map_of (contents (tables (bs_store s))) fid = Some c \<Longrightarrow> c_storage_ref c \<noteq> key"
  by (auto simp: fresh_key_def list_all_iff dest: map_of_SomeD)

text \<open>Reading a whole file.\<close>

lemma Stat_file:
  assumes "tables_ok (tables st)"
  shows "Stat p st = Inr nf \<Longrightarrow> \<not> fn_is_dir (nf_Node nf) \<Longrightarrow> nf_File nf = Some f \<Longrightarrow>
      node_at st p = Some (nf_Node nf) \<and> file_at st p = Some (fd_FileID f) \<and> GetFile (fd_FileID f) (tables st) = Inr f"
  by (auto simp: Stat_def GetNode_def file_at_def GetFile_def assembleFile_def split: option.split_asm if_split_asm sum.split_asm)

lemma GetFile_content:
  assumes "tables_ok t" "map_of (contents t) fid = Some c"
  shows "\<exists>f. GetFile fid t = Inr f \<and> fd_FileID f = fid \<and> fd_StorageType f = c_storage_type c \<and> fd_StorageRef f = c_storage_ref c \<and>
    fd_ContentBlob f = Lease_Queue.text_of (c_blob c)"
  using rows_of [OF assms] by (fastforce simp: GetFile_def assembleFile_def assms(2))

lemma GetFile_row:
  assumes "GetFile fid t = Inr f"
  shows "\<exists>c. map_of (contents t) fid = Some c \<and> fd_StorageType f = c_storage_type c \<and> fd_StorageRef f = c_storage_ref c \<and>
    fd_ContentBlob f = Lease_Queue.text_of (c_blob c)"
  using assms by (auto simp: GetFile_def assembleFile_def split: option.split_asm)

lemma readFileData_row:
  assumes "fd_StorageType f = c_storage_type c" "fd_StorageRef f = c_storage_ref c"
    "fd_ContentBlob f = Lease_Queue.text_of (c_blob c)"
  shows "readFileDataCtx b io f s3 = Inr d \<Longrightarrow> row_data b s3 c = Some d"
    "\<not> io_fails io IoGet \<Longrightarrow> readFileDataCtx b io f s3 = Inr d \<longleftrightarrow> row_data b s3 c = Some d"
  using assms
  by (auto simp: readFileDataCtx_def row_data_def GetObject_def split: if_split_asm option.split_asm sum.split_asm)

lemma ReadCtx_content:
  assumes "tables_ok (tables (bs_store s))" "canonical_path b path = Inr p" "\<not> io_fails io IoGet"
  shows "ReadCtx b io path 0 (-1) s = Inr d \<longleftrightarrow> (\<exists>fid. file_at (bs_store s) p = Some fid \<and> content_of b s fid = Some d)"
proof (cases "file_at (bs_store s) p")
  case None
  then show ?thesis
    by (auto simp: ReadCtx_def assms(2) Stat_def GetNode_def file_at_def split: option.split if_split sum.split)
next
  case (Some fid)
  then obtain n where n: "node_at (bs_store s) p = Some n" "\<not> fn_is_dir n" "fn_file_id n = Some fid"
    by (auto simp: file_at_def split: option.split_asm if_split_asm)
  show ?thesis
  proof (cases "map_of (contents (tables (bs_store s))) fid")
    case None
    then have "\<exists>e. GetFile fid (tables (bs_store s)) = Inl e" by (auto simp: GetFile_def split: option.split)
    then show ?thesis using None Some n by (auto simp: ReadCtx_def assms(2) Stat_def GetNode_def content_of_def)
  next
    case c: (Some c)
    obtain f where f: "GetFile fid (tables (bs_store s)) = Inr f" "fd_StorageType f = c_storage_type c"
        "fd_StorageRef f = c_storage_ref c" "fd_ContentBlob f = Lease_Queue.text_of (c_blob c)"
      using GetFile_content [OF assms(1) c] by blast
    have "ReadCtx b io path 0 (-1) s = readFileDataCtx b io f (bs_s3 s)"
      using n f(1) by (cases "readFileDataCtx b io f (bs_s3 s)") (simp_all add: ReadCtx_def assms(2) Stat_def GetNode_def)
    then show ?thesis using readFileData_row(2) [OF f(2-4) assms(3)] Some c by (simp add: content_of_def)
  qed
qed

section \<open>Names\<close>

lemma node_at_iff: "names_ok s \<Longrightarrow> node_at s p = Some n \<longleftrightarrow> n \<in> set (nodes s) \<and> fn_path n = p"
  by (auto simp: node_at_def find_Some_iff names_ok_def distinct_conv_nth in_set_conv_nth)

lemma file_at_iff:
  "names_ok s \<Longrightarrow> file_at s p = Some f \<longleftrightarrow> (\<exists>n\<in>set (nodes s). fn_path n = p \<and> \<not> fn_is_dir n \<and> fn_file_id n = Some f)"
proof (cases "node_at s p")
  case (Some a)
  assume "names_ok s"
  then have "n \<in> set (nodes s) \<and> fn_path n = p \<longleftrightarrow> n = a" for n using node_at_iff [of s p n] Some by auto
  then have "(\<exists>n\<in>set (nodes s). fn_path n = p \<and> P n) \<longleftrightarrow> P a" for P
    by (simp add: Bex_def conj_assoc [symmetric])
  then show ?thesis using Some by (simp add: file_at_def)
next
  case None
  assume "names_ok s"
  then have "n \<in> set (nodes s) \<Longrightarrow> fn_path n \<noteq> p" for n using node_at_iff [of s p n] None by simp
  then show ?thesis using None by (auto simp: file_at_def)
qed

lemma option_fun_eqI: "(\<And>x y. f x = Some y \<longleftrightarrow> g x = Some y) \<Longrightarrow> f = g"
  by (rule ext) (metis not_Some_eq)

text \<open>A step that changes directories, modes, tags or tasks, and nothing that names or holds a content.\<close>

definition quiet :: "node_store \<Rightarrow> node_store \<Rightarrow> bool" where
  "quiet s s' \<longleftrightarrow> (store_ok s \<longrightarrow> store_ok s' \<and> file_at s' = file_at s \<and> map_of (contents (tables s')) = map_of (contents (tables s)))"

lemma quiet_refl [simp]: "quiet s s"
  by (simp add: quiet_def)

lemma quiet_trans: "quiet s s' \<Longrightarrow> quiet s' s'' \<Longrightarrow> quiet s s''"
  by (simp add: quiet_def)

lemma same_nodes: "nodes s' = nodes s \<Longrightarrow> file_at s' = file_at s \<and> (names_ok s' \<longleftrightarrow> names_ok s)"
  by (simp add: file_at_def node_at_def names_ok_def fun_eq_iff)

lemma quiet_tables:
  "nodes s' = nodes s \<Longrightarrow> contents (tables s') = contents (tables s) \<Longrightarrow> (tables_ok (tables s) \<Longrightarrow> tables_ok (tables s')) \<Longrightarrow> quiet s s'"
  using same_nodes [of s' s] by (simp add: quiet_def store_ok_def)

lemma insert_names:
  assumes "insert_node r s = Inr s'" "names_ok s" "fn_file_id r \<noteq> Some ''''"
  shows "names_ok s'" "file_at s' = (file_at s)(fn_path r := if fn_is_dir r then None else fn_file_id r)" "tables s' = tables s"
proof -
  have s': "s' = s\<lparr>nodes := nodes s @ [r]\<rparr>" and new: "\<forall>m\<in>set (nodes s). fn_path m \<noteq> fn_path r \<and> fn_node_id m \<noteq> fn_node_id r"
    using assms(1) by (auto simp: insert_node_Inr list_ex_iff)
  show ok: "names_ok s'" using assms(2,3) new by (auto simp: s' names_ok_def)
  show "file_at s' = (file_at s)(fn_path r := if fn_is_dir r then None else fn_file_id r)"
    by (rule option_fun_eqI) (use new in \<open>auto simp: file_at_iff [OF ok] file_at_iff [OF assms(2)], auto simp: s'\<close>)
  show "tables s' = tables s" by (simp add: s')
qed

lemma insert_dir_quiet:
  assumes "insert_node r s = Inr s'" "fn_is_dir r" "fn_file_id r = None"
  shows "quiet s s'"
proof -
  have "file_at s (fn_path r) = None" if "names_ok s"
    using assms(1) that file_at_iff [OF that, of "fn_path r"]
    by (cases "file_at s (fn_path r)") (auto simp: insert_node_Inr list_ex_iff)
  then show ?thesis
    using insert_names [OF assms(1)] assms(2,3) by (auto simp: quiet_def store_ok_def fun_upd_idem)
qed

lemma ensure_inode_quiet: "quiet s (ensure_inode iid now s)"
  by (rule quiet_tables) (auto simp: ensure_inode_def mem_key_def new_inode_ok)

lemma update_dir_quiet: "quiet s (s\<lparr>nodes := update_where (\<lambda>n. fn_path n = d \<and> fn_is_dir n) (\<lambda>n. n\<lparr>fn_inode_id := x\<rparr>) (nodes s)\<rparr>)"
  (is "quiet s ?s")
proof -
  have m: "map fn_path (nodes ?s) = map fn_path (nodes s)" "map fn_node_id (nodes ?s) = map fn_node_id (nodes s)"
      "map fn_file_id (nodes ?s) = map fn_file_id (nodes s)"
    by (simp_all add: update_where_def)
  then have ok: "names_ok ?s \<longleftrightarrow> names_ok s" unfolding names_ok_def by (simp only: m)
  moreover have "file_at ?s = file_at s" if "names_ok s"
    by (rule option_fun_eqI) (use that ok in \<open>auto simp: file_at_iff update_where_def\<close>)
  ultimately show ?thesis by (simp add: quiet_def store_ok_def)
qed

lemma ensure_dir_quiet: "quiet s (ensure_dir nid now d s)"
proof (cases "find (\<lambda>n. fn_path n = d \<and> fn_is_dir n) (nodes s)")
  case None
  have "quiet s1 (or_keep s1 (insert_node r s1))" if "fn_is_dir r" "fn_file_id r = None" for s1 r
    using insert_dir_quiet [OF _ that] by (auto simp: or_keep_def split: sum.split)
  then have "quiet s (or_keep (ensure_inode iid now s) (insert_node r (ensure_inode iid now s)))"
    if "fn_is_dir r" "fn_file_id r = None" for r iid
    by (rule quiet_trans [OF ensure_inode_quiet]) (use that in simp_all)
  then show ?thesis using None by (simp add: ensure_dir_def Let_def)
next
  case (Some n)
  with quiet_trans [OF ensure_inode_quiet update_dir_quiet] show ?thesis by (simp add: ensure_dir_def Let_def)
qed

lemma ensure_parents_quiet: "quiet s (ensureParentDirsWithExecer nid now path s)"
proof -
  have "quiet s (foldl (\<lambda>s d. ensure_dir nid now d s) s ds)" for ds
    by (induction ds arbitrary: s) (auto intro: quiet_trans [OF ensure_dir_quiet])
  then show ?thesis by (simp add: ensureParentDirsWithExecer_def)
qed

lemma EnsureParentDirs_quiet: "EnsureParentDirs outs nid now path s = Inr s' \<Longrightarrow> quiet s s'"
proof -
  have "ensure_attempts k outs nid now path s = Inr s' \<Longrightarrow> quiet s s'" for k
    by (induction k outs nid now path s rule: ensure_attempts.induct)
      (auto simp: ensure_parents_quiet split: tx_outcome.split_asm if_split_asm)
  then show "EnsureParentDirs outs nid now path s = Inr s' \<Longrightarrow> ?thesis" by (simp add: EnsureParentDirs_def)
qed

lemma chmod_quiet: "Chmod path mode s = Inr s' \<Longrightarrow> quiet s s'"
  by (rule quiet_tables) (auto elim: chmod_row intro: chmod_ok)

lemma delete_dir_quiet: "DeleteEmptyDir path s = Inr s' \<Longrightarrow> quiet s s'"
proof -
  let ?s = "s\<lparr>nodes := filter (\<lambda>n. \<not> (fn_path n = path \<and> fn_is_dir n)) (nodes s)\<rparr>"
  have ok: "names_ok s \<Longrightarrow> names_ok ?s" by (auto simp: names_ok_def distinct_map_filter)
  moreover have "file_at ?s = file_at s" if "names_ok s"
    by (rule option_fun_eqI) (use file_at_iff [OF ok [OF that]] in \<open>auto simp: file_at_iff [OF that]\<close>)
  ultimately have "quiet s ?s" by (simp add: quiet_def store_ok_def)
  then show "DeleteEmptyDir path s = Inr s' \<Longrightarrow> quiet s s'" by (auto simp: DeleteEmptyDir_def split: if_split_asm)
qed

lemma tags_quiet: "quiet s (ReplaceFileTagsTx fid kvs s)"
  by (rule quiet_tables) (simp_all add: ReplaceFileTagsTx_def)

section \<open>Removing and renaming a name\<close>

lemma release_ok:
  assumes "release_orphans now fs s = Inr s'" "store_ok s"
  shows "store_ok s' \<and> file_at s' = file_at s \<and> contents (tables s') = contents (tables s)"
  using release_Inr(1,2) [OF assms(1)] same_nodes [of s' s] assms(2) markFilesDeleted_ok [of s] markFilesDeleted_rows(2) [of _ s]
  by (simp add: store_ok_def)

lemma remove_row:
  assumes "names_ok s"
  shows "names_ok (s\<lparr>nodes := filter P (nodes s)\<rparr>)"
  using assms by (auto simp: names_ok_def distinct_map_filter)

lemma delete_file_names:
  assumes d: "DeleteFileWithRefCheck now p s = Inr (s', out)" and ok: "store_ok s"
  shows "store_ok s' \<and> file_at s' = (file_at s)(p := None) \<and> contents (tables s') = contents (tables s)"
proof -
  let ?s = "s\<lparr>nodes := filter (\<lambda>n. fn_path n \<noteq> p) (nodes s)\<rparr>"
  have n: "names_ok s" "names_ok ?s" using ok remove_row by (auto simp: store_ok_def)
  have s1: "store_ok ?s" using ok n by (simp add: store_ok_def)
  have "file_at ?s x = Some y \<longleftrightarrow> ((file_at s)(p := None)) x = Some y" for x y
    using file_at_iff [OF n(2), of x y] file_at_iff [OF n(1), of x y] by auto
  then have f: "file_at ?s = (file_at s)(p := None)" by (rule option_fun_eqI)
  consider "s' = ?s" | f where "release_orphans now [f] ?s = Inr s'"
    using d by (auto simp: DeleteFileWithRefCheck_def Let_def split: option.split_asm if_split_asm prod.split_asm sum.split_asm)
  then show ?thesis
  proof cases
    case 1
    then show ?thesis using s1 f by simp
  next
    case (2 f)
    from release_ok [OF 2 s1] show ?thesis by (simp add: \<open>file_at ?s = _\<close>)
  qed
qed

text \<open>The rows after the update of one name, the row of the target removed.\<close>

lemma moved_names:
  assumes "names_ok s" "old \<in> set (nodes s)" "fn_path old = p" "\<not> fn_is_dir old" "p \<noteq> q"
    and ns: "ns = update_where (\<lambda>n. fn_node_id n = fn_node_id old) (set_name q qp qn) (filter (\<lambda>n. fn_path n \<noteq> q) (nodes s))"
  shows "names_ok (s\<lparr>nodes := ns\<rparr>)" "file_at (s\<lparr>nodes := ns\<rparr>) = (file_at s)(p := None, q := file_at s p)"
proof -
  let ?ms = "filter (\<lambda>n. fn_path n \<noteq> q) (nodes s)"
  have same: "fn_node_id n = fn_node_id old \<longleftrightarrow> n = old" "fn_path n = p \<longleftrightarrow> n = old" if "n \<in> set (nodes s)" for n
    using assms(1-3) that by (auto simp: names_ok_def distinct_map inj_on_def)
  have ns': "ns = map (\<lambda>n. if n = old then set_name q qp qn n else n) ?ms"
    using same(1) by (auto simp: ns update_where_def)
  have d: "names_ok (s\<lparr>nodes := ?ms\<rparr>)" using remove_row [OF assms(1)] .
  have "map fn_node_id ns = map fn_node_id ?ms" "map fn_file_id ns = map fn_file_id ?ms" by (auto simp: ns' set_name_def)
  moreover have "distinct (map fn_path ns)"
    using d by (auto simp: ns' names_ok_def distinct_map inj_on_def set_name_def)
  ultimately show ok: "names_ok (s\<lparr>nodes := ns\<rparr>)" using d by (simp add: names_ok_def)
  have q: "fn_path old \<noteq> q" using assms(3,5) by simp
  have bex: "(\<exists>n\<in>set ns. fn_path n = x \<and> \<not> fn_is_dir n \<and> fn_file_id n = Some y) \<longleftrightarrow>
      (x = q \<and> fn_file_id old = Some y \<or>
       (\<exists>m\<in>set (nodes s). fn_path m \<noteq> q \<and> m \<noteq> old \<and> fn_path m = x \<and> \<not> fn_is_dir m \<and> fn_file_id m = Some y))" for x y
    unfolding ns' set_map bex_simps using assms(2,4) q by (force simp: set_name_def)
  have old: "file_at s p = fn_file_id old" using assms(1-4) node_at_iff [OF assms(1), of p old] by (simp add: file_at_def)
  have "file_at (s\<lparr>nodes := ns\<rparr>) x = Some y \<longleftrightarrow> ((file_at s)(p := None, q := file_at s p)) x = Some y" for x y
    unfolding file_at_iff [OF ok] using bex [of x y] file_at_iff [OF assms(1), of x y] same(2) assms(5)
    by (auto simp: old)
  then show "file_at (s\<lparr>nodes := ns\<rparr>) = (file_at s)(p := None, q := file_at s p)" by (rule option_fun_eqI)
qed

lemma rename_file_moves:
  assumes r: "RenameFileReplacingTarget now p q qp qn s = Inr (s', out)" and "p \<noteq> q" and n: "names_ok s"
  obtains ns old where "old \<in> set (nodes s)" "fn_path old = p" "\<not> fn_is_dir old"
      "ns = update_where (\<lambda>n. fn_node_id n = fn_node_id old) (set_name q qp qn) (filter (\<lambda>n. fn_path n \<noteq> q) (nodes s))"
      "release_replaced now (node_at s q) (s\<lparr>nodes := ns\<rparr>) = Inr (s', out)"
proof -
  obtain old where old: "node_at s p = Some old" "\<not> fn_is_dir old"
    using r by (auto simp: RenameFileReplacingTarget_def split: option.split_asm if_split_asm)
  then have o: "old \<in> set (nodes s)" "fn_path old = p" using node_at_iff [OF n] by auto
  have ns1: "(case node_at s q of None \<Rightarrow> nodes s | Some d \<Rightarrow> filter (\<lambda>n. fn_node_id n \<noteq> fn_node_id d) (nodes s)) =
      filter (\<lambda>n. fn_path n \<noteq> q) (nodes s)"
  proof (cases "node_at s q")
    case None
    then have "n \<in> set (nodes s) \<Longrightarrow> fn_path n \<noteq> q" for n using node_at_iff [OF n, of q n] by simp
    then show ?thesis using None by (simp add: filter_id_conv)
  next
    case (Some d)
    then have "d \<in> set (nodes s)" "fn_path d = q" using node_at_iff [OF n] by auto
    then have "n \<in> set (nodes s) \<Longrightarrow> fn_node_id n = fn_node_id d \<longleftrightarrow> fn_path n = q" for n
      using n by (auto simp: names_ok_def distinct_map inj_on_def)
    then show ?thesis using Some by (auto intro!: filter_cong)
  qed
  have "\<not> (case node_at s q of None \<Rightarrow> False | Some d \<Rightarrow> fn_node_id d = fn_node_id old)"
    using node_at_iff [OF n, of q] o n assms(2) by (force simp: names_ok_def distinct_map inj_on_def split: option.split_asm)
  with r old assms(2) show thesis
    by (intro that [OF o old(2) refl])
      (auto simp: RenameFileReplacingTarget_def Let_def ns1 move_node_def split: if_split_asm option.split_asm)
qed

lemma rename_file_names:
  assumes "RenameFileReplacingTarget now p q qp qn s = Inr (s', out)" "p \<noteq> q" "store_ok s"
  shows "store_ok s' \<and> file_at s' = (file_at s)(p := None, q := file_at s p) \<and> contents (tables s') = contents (tables s)"
proof -
  have n: "names_ok s" using assms(3) by (simp add: store_ok_def)
  show ?thesis
  proof (rule rename_file_moves [OF assms(1,2) n])
    fix ns old
    let ?s = "s\<lparr>nodes := ns\<rparr>"
    assume m: "old \<in> set (nodes s)" "fn_path old = p" "\<not> fn_is_dir old"
      "ns = update_where (\<lambda>n. fn_node_id n = fn_node_id old) (set_name q qp qn) (filter (\<lambda>n. fn_path n \<noteq> q) (nodes s))"
      and rel: "release_replaced now (node_at s q) ?s = Inr (s', out)"
    have ok: "store_ok ?s" using moved_names(1) [OF n m(1-3) assms(2) m(4)] assms(3) by (simp add: store_ok_def)
    note f = moved_names(2) [OF n m(1-3) assms(2) m(4)]
    consider "s' = ?s" | g where "release_orphans now [g] ?s = Inr s'"
      using rel by (auto simp: release_replaced_def split: option.split_asm if_split_asm sum.split_asm)
    then show ?thesis
    proof cases
      case 1
      then show ?thesis using ok f by simp
    next
      case (2 g)
      then show ?thesis using release_ok [OF 2 ok] f by simp
    qed
  qed
qed

section \<open>Contents\<close>

definition fresh_ids :: "io \<Rightarrow> backend_state \<Rightarrow> bool" where
  "fresh_ids io s \<longleftrightarrow> io_ids io 0 \<noteq> '''' \<and> fresh_key (''blobs/'' @ io_ids io 0) s"

text \<open>Rows keep their contents when the object of a key none of them has is written or deleted.\<close>

lemma content_other_object:
  assumes "fresh_key key s" "bs_store s' = bs_store s" "\<And>k. k \<noteq> key \<Longrightarrow> map_of (objects (bs_s3 s')) k = map_of (objects (bs_s3 s)) k"
  shows "content_of b s' = content_of b s"
proof
  fix fid
  show "content_of b s' fid = content_of b s fid"
    using assms by (cases "map_of (contents (tables (bs_store s))) fid") (auto simp: content_of_def row_data_def dest: fresh_keyD)
qed

lemma place_data:
  assumes p: "place b io key d s = Inr (pl, s1)" and f: "fresh_key key s"
  shows "bs_store s1 = bs_store s" "content_of b s1 = content_of b s"
    "c_storage_type r = pl_type pl \<Longrightarrow> c_storage_ref r = pl_ref pl \<Longrightarrow> Lease_Queue.text_of (c_blob r) = pl_blob pl \<Longrightarrow>
      row_data b (bs_s3 s1) r = Some d"
    "bs_store (undo_place b io' pl s1) = bs_store s" "content_of b (undo_place b io' pl s1) = content_of b s"
proof -
  show st: "bs_store s1 = bs_store s" "bs_store (undo_place b io' pl s1) = bs_store s"
    using p by (auto simp: place_def undo_place_def delete_blob_def split: if_split_asm)
  show "content_of b s1 = content_of b s"
    by (rule content_other_object [OF f st(1)]) (use p in \<open>auto simp: place_def PutObject_def split: if_split_asm\<close>)
  show "content_of b (undo_place b io' pl s1) = content_of b s"
    by (rule content_other_object [OF f st(2)])
      (use p in \<open>auto simp: place_def undo_place_def delete_blob_def PutObject_def DeleteObject_def or_keep_def
         split: if_split_asm sum.split\<close>)
  show "c_storage_type r = pl_type pl \<Longrightarrow> c_storage_ref r = pl_ref pl \<Longrightarrow> Lease_Queue.text_of (c_blob r) = pl_blob pl \<Longrightarrow>
      row_data b (bs_s3 s1) r = Some d"
    using p by (auto simp: place_def row_data_def PutObject_def string_of_bytes split: if_split_asm)
qed

lemma enqueue_semantic_keeps:
  "enqueue_semantic b io k fid rv path ct tx desc s = Inr s' \<Longrightarrow> bs_store s' = bs_store s \<and> bs_s3 s' = bs_s3 s"
  by (auto simp: enqueue_semantic_def map_sum_def split: sum.split_asm)

lemma bookkeeping_keeps [simp]:
  "bs_store (sync_create b io fid sz ct s) = bs_store s" "bs_s3 (sync_create b io fid sz ct s) = bs_s3 s"
  "bs_store (sync_overwrite b io fid osz oct sz ct s) = bs_store s" "bs_s3 (sync_overwrite b io fid osz oct sz ct s) = bs_s3 s"
  "bs_store (release_blob b io t ref keep s) = bs_store s" "bs_s3 (release_blob b io t ref keep s) = bs_s3 s"
  by (simp_all add: sync_create_def sync_overwrite_def release_blob_def)

lemma abs_fs_cong: "bs_store s' = bs_store s \<Longrightarrow> bs_s3 s' = bs_s3 s \<Longrightarrow> abs_fs b s' = abs_fs b s"
  by (simp add: abs_fs_def content_of_def fun_eq_iff)

lemma set_tags_quiet: "quiet (bs_store s) (bs_store (set_tags fid kvs s)) \<and> bs_s3 (set_tags fid kvs s) = bs_s3 s"
  by (simp add: set_tags_def tags_quiet split: option.split)

section \<open>The inode model\<close>

datatype fs_op =
    FsCreate string
  | FsWrite string string int write_flags int "(string, string) gomap option" string
  | FsCopy string string
  | FsRemoveFile string
  | FsRemove string
  | FsRename string string
  | FsMkdir string nat
  | FsChmod string nat
  | FsRemoveDir string

text \<open>What a write leaves of the old content, byte by byte: a write at an offset replaces the bytes it covers, and
  the gap between the end of the old content and the offset reads as zeros.\<close>

definition patched :: "string \<Rightarrow> nat \<Rightarrow> string \<Rightarrow> string" where
  "patched old off data =
    map (\<lambda>i. if off \<le> i \<and> i < off + length data then data ! (i - off) else if i < length old then old ! i else CHR 0x00)
      [0..<max (length old) (off + length data)]"

lemma splice_patched: "splice old off data = patched old off data"
proof -
  have "min (length old) off + (off - length old) = off" by simp
  then show ?thesis by (intro nth_equalityI) (auto simp: splice_def patched_def nth_append Let_def)
qed

definition written :: "write_flags \<Rightarrow> int \<Rightarrow> string \<Rightarrow> string \<Rightarrow> string" where
  "written flags offset old data =
    (if wf_append flags then old @ data
     else if wf_truncate flags \<or> offset \<le> 0 then data
     else patched old (nat offset) data)"

definition add_file :: "string \<Rightarrow> string \<Rightarrow> string \<Rightarrow> inode_fs \<Rightarrow> inode_fs" where
  "add_file p fid d fs = \<lparr>fs_names = (fs_names fs)(p \<mapsto> fid), fs_data = (fs_data fs)(fid \<mapsto> d)\<rparr>"

definition clean :: "backend \<Rightarrow> string \<Rightarrow> string" where
  "clean b path = (case canonical_path b path of Inl e \<Rightarrow> path | Inr p \<Rightarrow> p)"

fun spec_op :: "backend \<Rightarrow> string \<Rightarrow> fs_op \<Rightarrow> inode_fs \<Rightarrow> inode_fs" where
  "spec_op b fid (FsCreate path) fs = add_file (clean b path) fid '''' fs"
| "spec_op b fid (FsWrite path data offset flags er kvs desc) fs =
    (case fs_names fs (clean b path) of
       None \<Rightarrow> add_file (clean b path) fid data fs
     | Some k \<Rightarrow> fs\<lparr>fs_data := (fs_data fs)(k \<mapsto> written flags offset (case fs_data fs k of None \<Rightarrow> '''' | Some old \<Rightarrow> old) data)\<rparr>)"
| "spec_op b fid (FsCopy src dst) fs = fs\<lparr>fs_names := (fs_names fs)(clean b dst := fs_names fs (clean b src))\<rparr>"
| "spec_op b fid (FsRemoveFile path) fs = fs\<lparr>fs_names := (fs_names fs)(clean b path := None)\<rparr>"
| "spec_op b fid (FsRemove path) fs = fs\<lparr>fs_names := (fs_names fs)(normalizePath b path := None)\<rparr>"
| "spec_op b fid (FsRename old new) fs =
    (let p = normalizePath b old; q = normalizePath b new in
     if p = q then fs else fs\<lparr>fs_names := (fs_names fs)(p := None, q := fs_names fs p)\<rparr>)"
| "spec_op b fid (FsMkdir path mode) fs = fs"
| "spec_op b fid (FsChmod path mode) fs = fs"
| "spec_op b fid (FsRemoveDir path) fs = fs"

fun run_op :: "backend \<Rightarrow> io \<Rightarrow> fs_op \<Rightarrow> backend_state \<Rightarrow> backend_state \<times> (backend_error + unit)" where
  "run_op b io (FsCreate path) s = CreateCtx b io path s"
| "run_op b io (FsWrite path data offset flags er kvs desc) s =
    map_prod id (map_sum id (\<lambda>_. ())) (WriteCtxIfRevisionWithTagsResult b io path data offset flags er kvs desc s)"
| "run_op b io (FsCopy src dst) s = CopyFileCtx b io src dst s"
| "run_op b io (FsRemoveFile path) s = RemoveFileCtx b io path s"
| "run_op b io (FsRemove path) s = RemoveCtx b io path s"
| "run_op b io (FsRename old new) s = RenameCtx b io old new s"
| "run_op b io (FsMkdir path mode) s = MkdirCtx b io path mode s"
| "run_op b io (FsChmod path mode) s = ChmodCtx b path mode s"
| "run_op b io (FsRemoveDir path) s = RemoveDirCtx b path s"

text \<open>The path of a removal or of a rename names a file by its canonical form; a rename is of a file.\<close>

fun plain_op :: "backend \<Rightarrow> fs_op \<Rightarrow> node_store \<Rightarrow> bool" where
  "plain_op b (FsRemove path) st =
    (case resolveNodePath b path st of Inl _ \<Rightarrow> True | Inr (p, n) \<Rightarrow> fn_is_dir n \<or> p = normalizePath b path)"
| "plain_op b (FsRename old new) st =
    (case resolveNodePath b old st of Inl _ \<Rightarrow> True | Inr (p, n) \<Rightarrow> \<not> fn_is_dir n \<and> p = normalizePath b old)"
| "plain_op b _ st = True"

text \<open>The outcome of an operation on a state: the invariant, and the abstract effect of a success.\<close>

definition refines :: "backend \<Rightarrow> (inode_fs \<Rightarrow> inode_fs) \<Rightarrow> backend_state \<Rightarrow> backend_state \<Rightarrow> bool \<Rightarrow> bool" where
  "refines b f s s' ok \<longleftrightarrow> store_ok (bs_store s') \<and> abs_fs b s' = (if ok then f (abs_fs b s) else abs_fs b s)"

lemma refines_quiet:
  assumes "quiet (bs_store s) (bs_store s')" "bs_s3 s' = bs_s3 s" "store_ok (bs_store s)"
  shows "store_ok (bs_store s') \<and> abs_fs b s' = abs_fs b s"
  using assms by (auto simp: quiet_def abs_fs_def content_of_def fun_eq_iff)

lemma insert_file_rows:
  assumes i: "insert_file b io p f s = Inr s'" and ok: "store_ok (bs_store s)"
    and f: "fd_EmbeddingRevision f = None" "fd_Status f = CONFIRMED" "fd_FileID f \<noteq> ''''"
  shows "store_ok (bs_store s')" "file_at (bs_store s') = (file_at (bs_store s))(p \<mapsto> fd_FileID f)"
    "map_of (contents (tables (bs_store s'))) =
      (map_of (contents (tables (bs_store s))))(fd_FileID f \<mapsto> content_of_file (b_sha b) f)"
    "bs_s3 s' = bs_s3 s" "file_at (bs_store s) p = None"
proof -
  let ?st = "bs_store s"
  obtain t1 where t1: "InsertFileTx (b_sha b) (io_now io) f (tables ?st) = Inr t1"
    using i by (auto simp: insert_file_def tx_bind_Inr on_store_def on_tables_def map_sum_def split: sum.split_asm)
  let ?s1 = "?st\<lparr>tables := t1\<rparr>"
  let ?s2 = "ensureParentDirsWithExecer (b_sha b) (io_now io) p ?s1"
  let ?n = "name_node (io_ids io 1) p (fd_FileID f) (io_now io)"
  obtain s3 where s3: "InsertNodeTx ?n ?s2 = Inr s3" and s': "s' = s\<lparr>bs_store := s3\<rparr>"
    using i t1 by (auto simp: insert_file_def on_store_def on_tables_def map_sum_def split: sum.split_asm)
  have c1: "map_of (contents t1) = (map_of (contents (tables ?st)))(fd_FileID f \<mapsto> content_of_file (b_sha b) f)"
    using t1 by (auto simp: InsertFileTx_def dest!: insertSplit_rows(4) split: option.split_asm if_split_asm)
  have s1: "store_ok ?s1" "file_at ?s1 = file_at ?st"
    using ok insert_ok [OF _ t1 f(1)] f(2) same_nodes [of ?s1 ?st] by (auto simp: store_ok_def)
  then have s2: "store_ok ?s2" "file_at ?s2 = file_at ?st" "map_of (contents (tables ?s2)) = map_of (contents t1)"
    using ensure_parents_quiet [of ?s1 "b_sha b" "io_now io" p] by (auto simp: quiet_def)
  have ins: "insert_node ?n ?s2 = Inr s3"
    using s3 by (auto simp: InsertNodeTx_def split: option.split_asm if_split_asm)
  have n: "fn_path ?n = p" "\<not> fn_is_dir ?n" "fn_file_id ?n = Some (fd_FileID f)"
    using f(3) by (simp_all add: name_node_def nullStr_def)
  note names = insert_names [OF ins]
  have "names_ok ?s2" using s2(1) by (simp add: store_ok_def)
  moreover have "\<forall>m\<in>set (nodes ?s2). fn_path m \<noteq> p" using ins n(1) by (auto simp: insert_node_Inr list_ex_iff name_node_def)
  ultimately show "file_at ?st p = None" using file_at_iff [of ?s2 p] s2(2) by (metis not_None_eq)
  show "store_ok (bs_store s')" "file_at (bs_store s') = (file_at ?st)(p \<mapsto> fd_FileID f)"
    "map_of (contents (tables (bs_store s'))) =
      (map_of (contents (tables ?st)))(fd_FileID f \<mapsto> content_of_file (b_sha b) f)" "bs_s3 s' = bs_s3 s"
    using names n s2 c1 f(3) by (auto simp: s' store_ok_def)
qed

section \<open>Creating and writing\<close>

lemma failed_place:
  assumes "place b io key d s = Inr (pl, s1)" "fresh_key key s"
  shows "bs_store (undo_place b io' pl s1) = bs_store s \<and> abs_fs b (undo_place b io' pl s1) = abs_fs b s"
  using place_data(4,5) [OF assms] by (simp add: abs_fs_def)

lemma insert_file_abs:
  assumes "place b io key d s = Inr (pl, s1)" "fresh_key key s" "store_ok (bs_store s)" "fid \<noteq> ''''"
    and i: "insert_file b io p (new_file fid pl ct sz ck tx desc dr now) s1 = Inr s2"
  shows "store_ok (bs_store s2) \<and> abs_fs b s2 = add_file p fid d (abs_fs b s) \<and> file_at (bs_store s) p = None"
proof -
  let ?f = "new_file fid pl ct sz ck tx desc dr now"
  note p = place_data [OF assms(1,2)]
  have "fd_FileID ?f = fid" "fd_EmbeddingRevision ?f = None" "fd_Status ?f = CONFIRMED" by (simp_all add: new_file_def)
  note r = insert_file_rows [OF i, unfolded this, OF _ refl refl assms(4)]
  have "row_data b (bs_s3 s1) (content_of_file (b_sha b) ?f) = Some d"
    by (rule p(3)) (simp_all add: content_of_file_def Let_def new_file_def)
  then have "content_of b s2 = (content_of b s1)(fid \<mapsto> d)"
    using r(3,4) p(1) assms(3) by (auto simp: content_of_def fun_eq_iff)
  then show ?thesis using r(1,2,5) p(1,2) assms(3) by (simp add: abs_fs_def add_file_def)
qed

lemma create_refines:
  assumes c: "CreateCtx b io path s = (s', r)" and ok: "store_ok (bs_store s)" and f: "fresh_ids io s"
  shows "refines b (spec_op b (io_ids io 0) (FsCreate path)) s s' (\<not> isl r)"
proof (cases "canonical_path b path")
  case (Inl e)
  then show ?thesis using c ok by (auto simp: CreateCtx_def refines_def)
next
  case p: (Inr p)
  have k: "fresh_key (''blobs/'' @ io_ids io 0) s" "io_ids io 0 \<noteq> ''''" using f by (simp_all add: fresh_ids_def)
  show ?thesis
  proof (cases "place b io (''blobs/'' @ io_ids io 0) '''' s")
    case (Inl e)
    then show ?thesis using c p ok by (auto simp: CreateCtx_def refines_def)
  next
    case (Inr x)
    then obtain pl s1 where pl: "place b io (''blobs/'' @ io_ids io 0) '''' s = Inr (pl, s1)" by (cases x) auto
    let ?t = "in_store_tx io (insert_file b io p (new_file (io_ids io 0) pl '''' 0 '''' '''' '''' None (io_now io)) s1)"
    show ?thesis
    proof (cases ?t)
      case (Inl e)
      then show ?thesis using c p pl ok failed_place [OF pl k(1)] by (auto simp: CreateCtx_def refines_def Let_def)
    next
      case (Inr s2)
      then have i: "insert_file b io p (new_file (io_ids io 0) pl '''' 0 '''' '''' '''' None (io_now io)) s1 = Inr s2"
        by (simp add: in_store_tx_def split: if_split_asm)
      have "s' = sync_create b io (io_ids io 0) 0 '''' s2" "r = Inr ()"
        using c p pl Inr by (simp_all add: CreateCtx_def Let_def)
      then show ?thesis
        using insert_file_abs [OF pl k(1) ok k(2) i] abs_fs_cong [of s' s2] by (simp add: refines_def clean_def p)
    qed
  qed
qed

lemma create_write_refines:
  assumes c: "createAndWriteCtx b io p data kvs desc s = (s', r)" and ok: "store_ok (bs_store s)" and f: "fresh_ids io s"
  shows "refines b (add_file p (io_ids io 0) data) s s' (\<not> isl r) \<and> (isl r \<or> file_at (bs_store s) p = None)"
proof -
  have k: "fresh_key (''blobs/'' @ io_ids io 0) s" "io_ids io 0 \<noteq> ''''" using f by (simp_all add: fresh_ids_def)
  consider "s' = s" "isl r"
    | pl s1 where "place b io (''blobs/'' @ io_ids io 0) data s = Inr (pl, s1)" "s' = undo_place b io pl s1" "isl r"
    | pl s1 ct sz ck tx dr s2 where "place b io (''blobs/'' @ io_ids io 0) data s = Inr (pl, s1)"
        "write_new_tx b io p (new_file (io_ids io 0) pl ct sz ck tx desc dr (io_now io)) kvs s1 = Inr s2"
        "s' = sync_create b io (io_ids io 0) sz ct s2" "\<not> isl r"
    using c by (auto simp: createAndWriteCtx_def Let_def in_store_tx_def split: if_split_asm sum.split_asm)
  then show ?thesis
  proof cases
    case 1
    then show ?thesis using ok by (simp add: refines_def)
  next
    case (2 pl s1)
    then show ?thesis using ok failed_place [OF 2(1) k(1)] by (simp add: refines_def)
  next
    case (3 pl s1 ct sz ck tx dr s2)
    obtain s3 where s3: "insert_file b io p (new_file (io_ids io 0) pl ct sz ck tx desc dr (io_now io)) s1 = Inr s3"
        and e: "enqueue_semantic b io 2 (io_ids io 0) 1 p ct tx desc (set_tags (io_ids io 0) kvs s3) = Inr s2"
      using 3(2) by (auto simp: write_new_tx_def tx_bind_Inr new_file_def split: option.split_asm)
    have ins: "store_ok (bs_store s3)" "abs_fs b s3 = add_file p (io_ids io 0) data (abs_fs b s)" "file_at (bs_store s) p = None"
      using insert_file_abs [OF 3(1) k(1) ok k(2) s3] by simp_all
    let ?t = "set_tags (io_ids io 0) kvs s3"
    have "store_ok (bs_store ?t) \<and> abs_fs b ?t = abs_fs b s3"
      using set_tags_quiet [of s3 "io_ids io 0" kvs] ins(1) by (intro refines_quiet) simp_all
    then show ?thesis
      using enqueue_semantic_keeps [OF e] abs_fs_cong [of s' ?t] ins(2,3) 3(3,4) by (simp add: refines_def)
  qed
qed

lemma map_sum_id_Inr: "map_sum f id x = Inr y \<longleftrightarrow> x = Inr y"
  by (cases x) simp_all

lemma overwrite_tx_rows:
  assumes o: "overwrite_tx b io path fid er a pl kvs s = Inr (s', rv)" and ok: "store_ok (bs_store s)"
  obtains c where "store_ok (bs_store s')" "bs_s3 s' = bs_s3 s" "file_at (bs_store s') = file_at (bs_store s)"
    "map_of (contents (tables (bs_store s'))) = (map_of (contents (tables (bs_store s))))(fid \<mapsto> c)"
    "c_storage_type c = a_storageType a" "c_storage_ref c = a_storageRef a" "Lease_Queue.text_of (c_blob c) = a_contentBlob a"
proof -
  let ?st = "bs_store s"
  have tok: "tables_ok (tables ?st)" using ok by (simp add: store_ok_def)
  obtain t1 t2 where t1: "updateFileContentTx (b_sha b) (io_now io) fid er (b_autoEmbedding b) a (tables ?st) = Inr (t1, rv)"
      and t2: "UpdateFileStorageEncryptionTx fid (pl_encMode pl) (pl_encKeyID pl) t1 = Inr t2"
      and e: "enqueue_semantic b io 1 fid rv path (a_contentType a) (a_contentText a) (a_description a)
        (set_tags fid kvs (s\<lparr>bs_store := ?st\<lparr>tables := t2\<rparr>\<rparr>)) = Inr s'"
    using o by (auto simp: overwrite_tx_def map_sum_id_Inr tx_bind_Inr split: option.split_asm)
  obtain c where c: "map_of (contents t1) fid = Some c" "c_storage_ref c = a_storageRef a" "c_storage_type c = a_storageType a"
      "c_blob c = nullStr (a_contentBlob a)"
    using update_content_after [OF tok t1] by metis
  have u: "tables_ok t1" "same_but fid (tables ?st) t1" using update_content_ok [OF tok t1] by simp_all
  note enc = encryption_rows(4) [OF t2]
  define c' where "c' = c\<lparr>c_enc_mode := fileStorageEncryptionModeForWrite (pl_encMode pl),
    c_enc_key := storageEncryptionKeyIDForWrite (fileStorageEncryptionModeForWrite (pl_encMode pl)) (pl_encKeyID pl)\<rparr>"
  have m: "map_of (contents t2) = (map_of (contents (tables ?st)))(fid \<mapsto> c')"
    using u(2) c(1) by (auto simp: fun_eq_iff enc same_but_def c'_def)
  let ?s2 = "s\<lparr>bs_store := ?st\<lparr>tables := t2\<rparr>\<rparr>"
  have s2: "store_ok (bs_store ?s2)" "file_at (bs_store ?s2) = file_at ?st"
    using ok encryption_ok [OF u(1) t2] same_nodes [of "?st\<lparr>tables := t2\<rparr>" ?st] by (auto simp: store_ok_def)
  have s3: "store_ok (bs_store s')" "file_at (bs_store s') = file_at ?st" "map_of (contents (tables (bs_store s'))) = map_of (contents t2)"
      "bs_s3 s' = bs_s3 s"
    using enqueue_semantic_keeps [OF e] set_tags_quiet [of ?s2 fid kvs] s2 by (auto simp: quiet_def)
  show thesis
    by (rule that [of c']) (use s3 m c in \<open>simp_all add: c'_def\<close>)
qed

lemma final_data_written:
  assumes g: "GetFile fid (tables (bs_store s)) = Inr f" and d: "final_data b io f data offset flags (bs_s3 s) = Inr final"
  shows "final = written flags offset (case content_of b s fid of None \<Rightarrow> '''' | Some old \<Rightarrow> old) data"
proof -
  obtain c where c: "map_of (contents (tables (bs_store s))) fid = Some c" "fd_StorageType f = c_storage_type c"
      "fd_StorageRef f = c_storage_ref c" "fd_ContentBlob f = Lease_Queue.text_of (c_blob c)"
    using GetFile_row [OF g] by blast
  have "readFileDataCtx b io f (bs_s3 s) = Inr old \<Longrightarrow> content_of b s fid = Some old" for old
    using readFileData_row(1) [OF c(2-4)] c(1) by (simp add: content_of_def)
  then show ?thesis using d by (auto simp: final_data_def written_def tx_bind_Inr splice_patched split: if_split_asm)
qed

lemma overwrite_cases:
  assumes o: "overwriteFileCtxWithRev b io nf data offset flags er kvs desc s = (s', r)" and nf: "nf_File nf = Some f"
  obtains "s' = s" "isl r"
  | final pl s1 where "place b io (''blobs/'' @ io_ids io 0) final s = Inr (pl, s1)" "s' = undo_place b io pl s1" "isl r"
  | final pl s1 a s2 rv where "final_data b io f data offset flags (bs_s3 s) = Inr final"
      "place b io (''blobs/'' @ io_ids io 0) final s = Inr (pl, s1)"
      "a_storageType a = pl_type pl" "a_storageRef a = pl_ref pl" "a_contentBlob a = pl_blob pl"
      "overwrite_tx b io (fn_path (nf_Node nf)) (fd_FileID f) er a pl kvs s1 = Inr (s2, rv)"
      "bs_store s' = bs_store s2" "bs_s3 s' = bs_s3 s2" "\<not> isl r"
proof (cases "final_data b io f data offset flags (bs_s3 s)")
  case (Inl e)
  then show thesis using that(1) o nf by (auto simp: overwriteFileCtxWithRev_def)
next
  case fin: (Inr final)
  define a where "a p q x = (let contentType = detectContentType b (fn_path (nf_Node nf)) final in
    \<lparr>a_storageType = p, a_storageRef = q, a_contentType = contentType, a_checksum = b_sha b final,
     a_contentText = extractText final contentType (b_textExtractMaxBytes b), a_contentBlob = x, a_size = int (length final),
     a_description = desc\<rparr>)" for p q x
  show thesis
  proof (cases "ensureUploadSizeAllowed (b_maxUploadBytes b) (int (length final)) \<noteq> None \<or>
      isl (place b io (''blobs/'' @ io_ids io 0) final s)")
    case True
    then show thesis using that(1) o nf fin
      by (cases "place b io (''blobs/'' @ io_ids io 0) final s") (auto simp: overwriteFileCtxWithRev_def split: if_split_asm)
  next
    case False
    then obtain pl s1 where pl: "place b io (''blobs/'' @ io_ids io 0) final s = Inr (pl, s1)"
      by (cases "place b io (''blobs/'' @ io_ids io 0) final s") auto
    let ?a = "a (pl_type pl) (pl_ref pl) (pl_blob pl)"
    let ?t = "in_store_tx io (overwrite_tx b io (fn_path (nf_Node nf)) (fd_FileID f) er ?a pl kvs s1)"
    show thesis
    proof (cases ?t)
      case (Inl e)
      then show thesis using that(2) [OF pl] o nf fin False pl by (auto simp: overwriteFileCtxWithRev_def Let_def a_def)
    next
      case (Inr z)
      then obtain s2 rv where z: "?t = Inr (s2, rv)" by (cases z) auto
      then have "overwrite_tx b io (fn_path (nf_Node nf)) (fd_FileID f) er ?a pl kvs s1 = Inr (s2, rv)"
        by (simp add: in_store_tx_def split: if_split_asm)
      moreover have "bs_store s' = bs_store s2" "bs_s3 s' = bs_s3 s2" "\<not> isl r"
        using o nf fin False pl z by (auto simp: overwriteFileCtxWithRev_def Let_def a_def)
      moreover have "a_storageType ?a = pl_type pl" "a_storageRef ?a = pl_ref pl" "a_contentBlob ?a = pl_blob pl"
        by (simp_all add: a_def Let_def)
      ultimately show thesis using that(3) [OF fin pl] by blast
    qed
  qed
qed

lemma overwrite_refines:
  assumes o: "overwriteFileCtxWithRev b io nf data offset flags er kvs desc s = (s', r)"
    and nf: "nf_File nf = Some f" "GetFile (fd_FileID f) (tables (bs_store s)) = Inr f"
    and ok: "store_ok (bs_store s)" and fr: "fresh_ids io s"
  shows "refines b (\<lambda>fs. fs\<lparr>fs_data := (fs_data fs)(fd_FileID f \<mapsto>
    written flags offset (case fs_data fs (fd_FileID f) of None \<Rightarrow> '''' | Some old \<Rightarrow> old) data)\<rparr>) s s' (\<not> isl r)"
proof -
  let ?key = "''blobs/'' @ io_ids io 0" and ?fid = "fd_FileID f"
  have k: "fresh_key ?key s" using fr by (simp add: fresh_ids_def)
  show ?thesis
  proof (cases rule: overwrite_cases [OF o nf(1)])
    case 1
    then show ?thesis using ok by (simp add: refines_def)
  next
    case (2 final pl s1)
    then show ?thesis using ok failed_place [OF 2(1) k] by (simp add: refines_def)
  next
    case (3 final pl s1 a s2 rv)
    note p = place_data [OF 3(2) k]
    have ok1: "store_ok (bs_store s1)" using ok p(1) by simp
    obtain c where c: "store_ok (bs_store s2)" "bs_s3 s2 = bs_s3 s1" "file_at (bs_store s2) = file_at (bs_store s1)"
        "map_of (contents (tables (bs_store s2))) = (map_of (contents (tables (bs_store s1))))(?fid \<mapsto> c)"
        "c_storage_type c = pl_type pl" "c_storage_ref c = pl_ref pl" "Lease_Queue.text_of (c_blob c) = pl_blob pl"
      using overwrite_tx_rows [OF 3(6) ok1] 3(3-5) by metis
    have "content_of b s2 = (content_of b s1)(?fid \<mapsto> final)"
      using c(2,4) p(3) [OF c(5-7)] by (auto simp: content_of_def fun_eq_iff)
    then have "abs_fs b s2 = (abs_fs b s)\<lparr>fs_data := (content_of b s)(?fid \<mapsto> final)\<rparr>"
      using c(3) p(1,2) by (simp add: abs_fs_def)
    then show ?thesis
      using abs_fs_cong [of s' s2] 3(7-9) c(1) final_data_written [OF nf(2) 3(1)] by (simp add: refines_def abs_fs_def)
  qed
qed

lemma write_refines:
  assumes w: "WriteCtxIfRevisionWithTagsResult b io path data offset flags er kvs desc s = (s', r)"
    and ok: "store_ok (bs_store s)" and f: "fresh_ids io s"
  shows "refines b (spec_op b (io_ids io 0) (FsWrite path data offset flags er kvs desc)) s s' (\<not> isl r)"
proof (cases "canonical_path b path")
  case (Inl e)
  then show ?thesis using w ok by (auto simp: WriteCtxIfRevisionWithTagsResult_def refines_def)
next
  case p: (Inr p)
  consider "s' = s" "isl r"
    | x where "Stat p (bs_store s) = Inl StoreNotFound" "createAndWriteCtx b io p data kvs desc s = (s', x)" "isl x = isl r"
    | nf where "Stat p (bs_store s) = Inr nf" "\<not> fn_is_dir (nf_Node nf)"
        "overwriteFileCtxWithRev b io nf data offset flags er kvs desc s = (s', r)"
    using w p by (auto simp: WriteCtxIfRevisionWithTagsResult_def split: sum.split_asm if_split_asm store_error.split_asm prod.split_asm)
  then show ?thesis
  proof cases
    case 1
    then show ?thesis using ok by (simp add: refines_def)
  next
    case (2 x)
    note r = create_write_refines [OF 2(2) ok f]
    then show ?thesis using 2(3) by (auto simp: refines_def clean_def p abs_fs_def)
  next
    case (3 nf)
    show ?thesis
    proof (cases "nf_File nf")
      case None
      then show ?thesis using 3(3) ok by (auto simp: overwriteFileCtxWithRev_def refines_def)
    next
      case (Some g)
      have st: "file_at (bs_store s) p = Some (fd_FileID g)" "GetFile (fd_FileID g) (tables (bs_store s)) = Inr g"
        using Stat_file [OF _ 3(1,2) Some] ok by (auto simp: store_ok_def)
      from overwrite_refines [OF 3(3) Some st(2) ok f] st(1) show ?thesis by (simp add: refines_def clean_def p abs_fs_def)
    qed
  qed
qed

section \<open>Names of the backend\<close>

lemma store_op_cases:
  assumes "store_op f s = (s', r)"
  obtains "s' = s" "isl r" | st where "f (bs_store s) = Inr st" "s' = s\<lparr>bs_store := st\<rparr>" "\<not> isl r"
  using assms by (cases "f (bs_store s)") (auto simp: store_op_def)

lemma store_op_quiet:
  assumes "store_op f s = (s', r)" "store_ok (bs_store s)" "\<And>st. f (bs_store s) = Inr st \<Longrightarrow> quiet (bs_store s) st"
  shows "store_ok (bs_store s') \<and> abs_fs b s' = abs_fs b s"
  using assms(1)
proof (cases rule: store_op_cases)
  case (2 st)
  with assms(2,3) show ?thesis by (intro refines_quiet) auto
qed (use assms(2) in simp)

lemma store_op_names:
  assumes "store_op f s = (s', r)" "store_ok (bs_store s)"
    and "\<And>st. f (bs_store s) = Inr st \<Longrightarrow>
      store_ok st \<and> file_at st = g (file_at (bs_store s)) \<and> contents (tables st) = contents (tables (bs_store s))"
  shows "refines b (\<lambda>fs. fs\<lparr>fs_names := g (fs_names fs)\<rparr>) s s' (\<not> isl r)"
  using assms(1)
proof (cases rule: store_op_cases)
  case (2 st)
  with assms(3) [OF 2(1)] show ?thesis by (simp add: refines_def abs_fs_def content_of_def fun_eq_iff)
qed (use assms(2) in \<open>simp add: refines_def\<close>)

lemma ensure_then:
  assumes "EnsureParentDirs outs nid now path (bs_store s) = Inr st" "store_ok (bs_store s)"
  shows "store_ok (bs_store (s\<lparr>bs_store := st\<rparr>))" "abs_fs b (s\<lparr>bs_store := st\<rparr>) = abs_fs b s"
    "file_at st = file_at (bs_store s)"
  using EnsureParentDirs_quiet [OF assms(1)] refines_quiet [of s "s\<lparr>bs_store := st\<rparr>" b] assms(2) by (auto simp: quiet_def)

lemma delete_op_refines:
  assumes "store_op (delete_file_op io p) s = (s', r)" "store_ok (bs_store s)"
  shows "refines b (\<lambda>fs. fs\<lparr>fs_names := (fs_names fs)(p := None)\<rparr>) s s' (\<not> isl r)"
  by (rule store_op_names [OF assms, where g = "\<lambda>names. names(p := None)"])
    (use assms(2) in \<open>auto simp: delete_file_op_def map_sum_def dest!: delete_file_names split: sum.split_asm\<close>)

lemma remove_file_refines:
  assumes "RemoveFileCtx b io path s = (s', r)" "store_ok (bs_store s)"
  shows "refines b (spec_op b fid (FsRemoveFile path)) s s' (\<not> isl r)"
proof (cases "canonical_path b path")
  case (Inl e)
  then show ?thesis using assms by (auto simp: RemoveFileCtx_def refines_def)
next
  case (Inr p)
  then show ?thesis using assms delete_op_refines [of io p s s' r b] by (auto simp: RemoveFileCtx_def clean_def refines_def)
qed

lemma resolve_node:
  assumes "resolveNodePath b path st = Inr (p, n)"
  shows "node_at st p = Some n" "p \<noteq> normalizePath b path \<Longrightarrow> node_at st (normalizePath b path) = None"
  using assms by (auto simp: resolveNodePath_def GetNode_def Let_def split: option.split_asm if_split_asm sum.split_asm)

lemma remove_refines:
  assumes "RemoveCtx b io path s = (s', r)" "store_ok (bs_store s)" and p: "plain_op b (FsRemove path) (bs_store s)"
  shows "refines b (spec_op b fid (FsRemove path)) s s' (\<not> isl r)"
proof (cases "resolveNodePath b path (bs_store s)")
  case (Inl e)
  then show ?thesis using assms by (auto simp: RemoveCtx_def refines_def)
next
  case (Inr x)
  then obtain q n where q: "resolveNodePath b path (bs_store s) = Inr (q, n)" by (cases x) auto
  show ?thesis
  proof (cases "fn_is_dir n")
    case True
    then have "store_op (DeleteEmptyDir q) s = (s', r)" using assms(1) q by (simp add: RemoveCtx_def)
    from store_op_quiet [OF this assms(2) delete_dir_quiet] have "store_ok (bs_store s') \<and> abs_fs b s' = abs_fs b s" .
    moreover have "file_at (bs_store s) (normalizePath b path) = None"
      using resolve_node [OF q] True by (cases "q = normalizePath b path") (auto simp: file_at_def)
    ultimately show ?thesis by (auto simp: refines_def abs_fs_def fun_upd_idem)
  next
    case False
    then have "store_op (delete_file_op io (normalizePath b path)) s = (s', r)" using assms(1) p q by (simp add: RemoveCtx_def)
    from delete_op_refines [OF this assms(2), of b] show ?thesis by (simp add: refines_def)
  qed
qed

lemma rename_refines:
  assumes rn: "RenameCtx b io old new s = (s', r)" and ok: "store_ok (bs_store s)"
    and p: "plain_op b (FsRename old new) (bs_store s)"
  shows "refines b (spec_op b fid (FsRename old new)) s s' (\<not> isl r)"
proof (cases "resolveNodePath b old (bs_store s)")
  case (Inl e)
  then show ?thesis using rn ok by (auto simp: RenameCtx_def refines_def)
next
  case (Inr x)
  let ?p = "normalizePath b old" and ?q = "normalizePath b new"
  from Inr p obtain n where n: "resolveNodePath b old (bs_store s) = Inr (?p, n)" "\<not> fn_is_dir n" by (cases x) auto
  let ?e = "EnsureParentDirs (io_deadlocks io) (b_sha b) (io_now io) ?q (bs_store s)"
  have q: "canonicalizePathForKind b new (fn_is_dir n) = ?q" using n(2) by (simp add: canonicalizePathForKind_def)
  show ?thesis
  proof (cases "?p = ?q \<or> isl ?e")
    case True
    then show ?thesis using rn n q ok by (cases ?e) (auto simp: RenameCtx_def Let_def refines_def split: if_split_asm)
  next
    case False
    then obtain st where st: "?e = Inr st" by (cases ?e) auto
    note en = ensure_then [OF st ok]
    let ?f = "\<lambda>st. map_sum id fst (RenameFileReplacingTarget (io_now io) ?p ?q (ParentPath ?q) (BaseName ?q) st)"
    have so: "store_op ?f (s\<lparr>bs_store := st\<rparr>) = (s', r)" using rn n q st False by (simp add: RenameCtx_def Let_def)
    have "refines b (\<lambda>fs. fs\<lparr>fs_names := (fs_names fs)(?p := None, ?q := fs_names fs ?p)\<rparr>) (s\<lparr>bs_store := st\<rparr>) s' (\<not> isl r)"
      by (rule store_op_names [OF so en(1), where g = "\<lambda>names. names(?p := None, ?q := names ?p)"])
        (use en(1) False in \<open>auto simp: map_sum_def dest!: rename_file_names split: sum.split_asm\<close>)
    then show ?thesis using False en(2) by (simp add: refines_def Let_def)
  qed
qed

lemma copy_refines:
  assumes c: "CopyFileCtx b io src dst s = (s', r)" and ok: "store_ok (bs_store s)"
  shows "refines b (spec_op b fid (FsCopy src dst)) s s' (\<not> isl r)"
proof -
  consider "s' = s" "isl r"
    | p q n st where "canonical_path b src = Inr p" "canonical_path b dst = Inr q" "node_at (bs_store s) p = Some n" "\<not> fn_is_dir n"
        "EnsureParentDirs (io_deadlocks io) (b_sha b) (io_now io) q (bs_store s) = Inr st"
        "store_op (InsertNodeTx (name_node (io_ids io 0) q (Lease_Queue.text_of (fn_file_id n)) (io_now io))) (s\<lparr>bs_store := st\<rparr>) = (s', r)"
    using c by (auto simp: CopyFileCtx_def GetNode_def split: sum.split_asm option.split_asm if_split_asm)
  then show ?thesis
  proof cases
    case 1
    then show ?thesis using ok by (simp add: refines_def)
  next
    case (2 p q n st)
    note en = ensure_then [OF 2(5) ok]
    let ?n = "name_node (io_ids io 0) q (Lease_Queue.text_of (fn_file_id n)) (io_now io)"
    have "fn_file_id n \<noteq> Some ''''" using ok node_at_in [OF 2(3)] by (force simp: store_ok_def names_ok_def)
    then have n: "fn_file_id ?n = fn_file_id n" "fn_path ?n = q" "\<not> fn_is_dir ?n" "fn_file_id ?n \<noteq> Some ''''"
      by (auto simp: name_node_def Lease_Queue.text_of_def nullStr_def split: option.split)
    have p: "file_at st p = fn_file_id n" using 2(3,4) en(3) by (simp add: file_at_def)
    have ins: "InsertNodeTx ?n st = Inr st' \<Longrightarrow> insert_node ?n st = Inr st'" for st'
      by (auto simp: InsertNodeTx_def split: option.split_asm if_split_asm)
    have row: "store_ok st' \<and> file_at st' = (file_at st)(q := file_at st p) \<and> contents (tables st') = contents (tables st)"
      if "InsertNodeTx ?n st = Inr st'" for st'
      using insert_names [OF ins [OF that] _ n(4)] en(1) n(1-3) p by (simp add: store_ok_def)
    have "refines b (\<lambda>fs. fs\<lparr>fs_names := (fs_names fs)(q := fs_names fs p)\<rparr>) (s\<lparr>bs_store := st\<rparr>) s' (\<not> isl r)"
      by (rule store_op_names [OF 2(6) en(1), where g = "\<lambda>names. names(q := names p)"])
        (use row in simp)
    then show ?thesis using en(2) 2(1,2) by (simp add: refines_def clean_def)
  qed
qed

lemma insert_inode_quiet: "InsertInodeTx iid row s = Inr s' \<Longrightarrow> quiet s s'"
  by (rule quiet_tables) (auto simp: InsertInodeTx_def insert_row_Some new_inode_ok split: option.split_asm)

lemma mkdir_tx_quiet:
  assumes "mkdir_tx io p perm s = Inr s'"
  shows "quiet s s'"
proof -
  obtain s1 where s1: "quiet s s1" "InsertNodeTx \<lparr>fn_node_id = io_ids io 1, fn_path = p, fn_parent_path = ParentPath p,
      fn_name = BaseName p, fn_is_dir = True, fn_file_id = None, fn_inode_id = nullStr (io_ids io 0), fn_created = io_now io\<rparr> s1 = Inr s'"
    using assms by (fastforce simp: mkdir_tx_def Let_def tx_bind_Inr dest: insert_inode_quiet)
  then show ?thesis by (intro quiet_trans [OF s1(1)] insert_dir_quiet) (auto simp: InsertNodeTx_def)
qed

lemma mkdir_refines:
  assumes m: "MkdirCtx b io path perm s = (s', r)" and ok: "store_ok (bs_store s)"
  shows "refines b (spec_op b fid (FsMkdir path perm)) s s' (\<not> isl r)"
proof -
  consider "s' = s" | p st where "EnsureParentDirs (io_deadlocks io) (b_sha b) (io_now io) p (bs_store s) = Inr st"
      "store_op (mkdir_tx io p perm) (s\<lparr>bs_store := st\<rparr>) = (s', r)"
    using m by (auto simp: MkdirCtx_def split: sum.split_asm)
  then show ?thesis
  proof cases
    case (2 p st)
    note en = ensure_then [OF 2(1) ok]
    from store_op_quiet [OF 2(2) en(1) mkdir_tx_quiet] en(2) show ?thesis by (simp add: refines_def)
  qed (use ok in \<open>simp add: refines_def\<close>)
qed

lemma chmod_refines:
  assumes "ChmodCtx b path mode s = (s', r)" "store_ok (bs_store s)"
  shows "refines b (spec_op b fid (FsChmod path mode)) s s' (\<not> isl r)"
  using assms store_op_quiet [OF _ assms(2) chmod_quiet]
  by (auto simp: ChmodCtx_def refines_def split: sum.split_asm prod.split_asm)

lemma remove_dir_refines:
  assumes "RemoveDirCtx b path s = (s', r)" "store_ok (bs_store s)"
  shows "refines b (spec_op b fid (FsRemoveDir path)) s s' (\<not> isl r)"
  using assms store_op_quiet [OF _ assms(2) delete_dir_quiet] by (auto simp: RemoveDirCtx_def refines_def split: sum.split_asm)

lemma run_op_refines:
  assumes "run_op b io op s = (s', r)" "store_ok (bs_store s)" "fresh_ids io s" "plain_op b op (bs_store s)"
  shows "refines b (spec_op b (io_ids io 0) op) s s' (\<not> isl r)"
proof (cases op)
  case (FsWrite path data offset flags er kvs desc)
  then obtain x where "WriteCtxIfRevisionWithTagsResult b io path data offset flags er kvs desc s = (s', x)" "isl x = isl r"
    using assms(1) by (cases "WriteCtxIfRevisionWithTagsResult b io path data offset flags er kvs desc s") (auto simp: isl_map_sum)
  with write_refines [OF this(1) assms(2,3)] FsWrite show ?thesis by simp
qed (use assms in \<open>simp_all add: create_refines copy_refines remove_file_refines remove_refines rename_refines mkdir_refines
      chmod_refines remove_dir_refines del: spec_op.simps plain_op.simps\<close>)

section \<open>Sequences of operations\<close>

text \<open>The operations one after the other, and the ones that succeeded with the identifier each had at hand.\<close>

fun run_ops :: "backend \<Rightarrow> (io \<times> fs_op) list \<Rightarrow> backend_state \<Rightarrow> backend_state \<times> (string \<times> fs_op) list" where
  "run_ops b [] s = (s, [])"
| "run_ops b ((io, op) # es) s =
    (let (s1, r) = run_op b io op s; (s2, ds) = run_ops b es s1
     in (s2, if isl r then ds else (io_ids io 0, op) # ds))"

fun ops_ok :: "backend \<Rightarrow> (io \<times> fs_op) list \<Rightarrow> backend_state \<Rightarrow> bool" where
  "ops_ok b [] s \<longleftrightarrow> True"
| "ops_ok b ((io, op) # es) s \<longleftrightarrow>
    fresh_ids io s \<and> plain_op b op (bs_store s) \<and> ops_ok b es (fst (run_op b io op s))"

definition spec_ops :: "backend \<Rightarrow> (string \<times> fs_op) list \<Rightarrow> inode_fs \<Rightarrow> inode_fs" where
  "spec_ops b ds fs = foldl (\<lambda>fs (fid, op). spec_op b fid op fs) fs ds"

lemma run_ops_refines:
  "store_ok (bs_store s) \<Longrightarrow> ops_ok b es s \<Longrightarrow> run_ops b es s = (s', ds) \<Longrightarrow>
    store_ok (bs_store s') \<and> abs_fs b s' = spec_ops b ds (abs_fs b s)"
proof (induction b es s arbitrary: s' ds rule: run_ops.induct)
  case (2 b io op es s)
  obtain s1 r where r: "run_op b io op s = (s1, r)" by fastforce
  obtain s2 ds2 where e: "run_ops b es s1 = (s2, ds2)" by fastforce
  have step: "refines b (spec_op b (io_ids io 0) op) s s1 (\<not> isl r)"
    using run_op_refines [OF r 2(2)] 2(3) by simp
  have "store_ok (bs_store s2) \<and> abs_fs b s2 = spec_ops b ds2 (abs_fs b s1)"
    by (rule 2(1) [OF r [symmetric] refl _ _ e]) (use step 2(3) r in \<open>simp_all add: refines_def\<close>)
  with step 2(4) r e show ?case by (auto simp: refines_def spec_ops_def)
qed (simp add: spec_ops_def)

section \<open>Evaluation\<close>

definition sample_io :: "string \<Rightarrow> io" where
  "sample_io fid = \<lparr>io_now = 1, io_month = 1, io_ids = (\<lambda>k. if k = 0 then fid else fid @ replicate k (CHR ''n'')),
     io_fails = (\<lambda>_. False), io_deadlocks = []\<rparr>"

definition sample_backend :: backend where
  "sample_backend = \<lparr>b_tenantID = ''t'', b_namespaceID = ''n'', b_s3 = True, b_metaStore = False, b_quotaServer = False,
     b_smallInDB = True, b_inlineThreshold = 4, b_maxUploadBytes = 0, b_textExtractMaxBytes = 0,
     b_maxTenantStorageBytes = 0, b_maxMediaLLMFiles = 0, b_autoEmbedding = False, b_imageExtract = False,
     b_audioExtract = False, b_encMode = ''none'', b_encKeyID = '''', b_sha = (\<lambda>x. x), b_nfc = (\<lambda>x. x),
     b_fold = (\<lambda>x. x), b_mime = (\<lambda>x. '''')\<rparr>"

definition empty_backend :: backend_state where
  "empty_backend = \<lparr>bs_store = no_nodes False, bs_uploads = [], bs_tasks = [],
     bs_s3 = \<lparr>objects = [], partFiles = [], uploads = []\<rparr>,
     bs_quota = \<lparr>configs = [], usages = [], metas = [], reservations = [], ledger = [], monthly = [], mutations = []\<rparr>,
     bs_gc = \<lparr>g_tenants = [], g_namespaces = [], g_stores = [], g_cands = [], g_objects = []\<rparr>\<rparr>"

lemma empty_backend_ok: "store_ok (bs_store empty_backend)"
  by (simp add: empty_backend_def store_ok_def names_ok_def no_nodes_def tables_ok_empty)

definition create_flags :: write_flags where
  "create_flags = \<lparr>wf_append = False, wf_create = True, wf_exclusive = False, wf_truncate = True\<rparr>"

definition append_flags :: write_flags where
  "append_flags = \<lparr>wf_append = True, wf_create = False, wf_exclusive = False, wf_truncate = False\<rparr>"

definition sample_ops :: "(io \<times> fs_op) list" where
  "sample_ops =
    [(sample_io ''1'', FsWrite ''/a'' ''hi'' 0 create_flags (-1) None ''''),
     (sample_io ''2'', FsCopy ''/a'' ''/d/b''),
     (sample_io ''3'', FsWrite ''/d/b'' ''!!!'' 0 append_flags (-1) None ''''),
     (sample_io ''4'', FsRename ''/a'' ''/c'')]"

lemma sample_ops_ok: "ops_ok sample_backend sample_ops empty_backend"
  by code_simp

lemma sample_ops_done: "snd (run_ops sample_backend sample_ops empty_backend) = map (\<lambda>(io, op). (io_ids io 0, op)) sample_ops"
  by code_simp

section \<open>Properties\<close>




end
