(* ===== verification/Spec2Isabelle.thy ===== *)
theory Spec2Isabelle
  imports Mount_Path Inode_Map Fork File_GC_Worker Journal_Evidence Backend_Refine
begin

text \<open>
  \<^bold>\<open>drive9\<close>, a file system over object storage and SQL databases. This development models the parts of
  the program that decide what is stored, what is charged and what is deleted, as executable definitions
  translated from the Go sources under \<^verbatim>\<open>src/\<close>, and proves their correctness.

  \<^bold>\<open>The program.\<close> A client mounts a tenant with FUSE (\<^verbatim>\<open>pkg/fuse\<close>). Paths are mapped into the
  tenant (\<^verbatim>\<open>pkg/mountpath\<close>) and made canonical (\<^verbatim>\<open>pkg/pathutil\<close>); an open file collects its writes in a
  sparse buffer of parts, and a flush uploads the changed parts (\<^verbatim>\<open>pkg/client\<close>, \<^verbatim>\<open>pkg/backend/patch.go\<close>) to
  object storage (\<^verbatim>\<open>pkg/s3client\<close>). The server keeps, for each tenant, a SQL store of file rows, names and task
  queues (\<^verbatim>\<open>pkg/datastore\<close>), and a control plane shared by the tenants with quotas, tenants and candidates
  for deletion (\<^verbatim>\<open>pkg/meta\<close>). Workers clean up deleted files (\<^verbatim>\<open>pkg/backend/file_gc_worker.go\<close>), collect
  their objects (\<^verbatim>\<open>pkg/server/object_gc_worker.go\<close>), replay quota mutations
  (\<^verbatim>\<open>pkg/backend/mutation_replay.go\<close>) and compute embeddings. A tenant can be forked (\<^verbatim>\<open>pkg/server/fork.go\<close>); a
  fork shares the objects of its source. Agents keep a hash-chained journal in the tenant's store
  (\<^verbatim>\<open>pkg/journal\<close>, \<^verbatim>\<open>pkg/datastore/journal.go\<close>).

  \<^bold>\<open>Conventions\<close> (theories \<^verbatim>\<open>Prelude\<close> and \<^verbatim>\<open>Go_Strings\<close>). A Go map is an association list with distinct
  keys, a Go string a list of bytes, an error \<^const>\<open>Inl\<close>, a nil dereference \<^const>\<open>None\<close>. A SQL table is the
  list of its rows; a transaction is one step that, when it fails, leaves the state as it was. Counts of
  affected rows are counts of changed rows, as MySQL reports them. The clock, generated identifiers, the hash function,
  Unicode normalization, the rows a \<^verbatim>\<open>SKIP LOCKED\<close> passes over and which calls fail are arguments; what is
  needed of the third-party ones is a named hypothesis (\<^verbatim>\<open>nfc\<close> in \<^verbatim>\<open>Path_Util\<close>, \<^verbatim>\<open>lib_ok\<close> in \<^verbatim>\<open>Journal_Doc\<close>).

  \<^bold>\<open>Client side.\<close>
  \<^item> \<^verbatim>\<open>Path_Util\<close>, \<^verbatim>\<open>Mount_Path\<close>: canonical paths, their type and round trips; no local path leaves the mount root.
  \<^item> \<^verbatim>\<open>Write_Buffer\<close> has every method of \<^verbatim>\<open>WriteBuffer\<close> (\<^verbatim>\<open>pkg/fuse/write.go\<close>); \<^verbatim>\<open>Write_Image\<close> the
    representation invariant and the byte at each offset; \<^verbatim>\<open>Write_Refine\<close> the refinement of a flat byte array,
    stated as a locale that the buffer interprets, and the truncations for which it fails.
  \<^item> \<^verbatim>\<open>Local_S3\<close> is the multipart state machine of \<^verbatim>\<open>pkg/s3client/local.go\<close>, with its contract as a locale. \<^verbatim>\<open>Patch\<close>
    composes the two with the part plan of \<^verbatim>\<open>InitiatePatchUpload\<close>: a flush leaves exactly the buffer's bytes in the
    store, except after writes beyond the end.
  \<^item> \<^verbatim>\<open>Inode_Map\<close> is the inode table of \<^verbatim>\<open>pkg/fuse/inode.go\<close>: its two maps stay inverse, and a rename moves a subtree.

  \<^bold>\<open>Tenant store.\<close>
  \<^item> \<^verbatim>\<open>Lease_Queue\<close> is the lease protocol shared by the task tables, its guarantee the locale \<^verbatim>\<open>lease_queue\<close>, which
    \<^verbatim>\<open>File_GC\<close> and \<^verbatim>\<open>Semantic_Tasks\<close> interpret: one holder per lease, no lost task, one task per revision, bounded attempts.
  \<^item> \<^verbatim>\<open>File_Rows\<close> are the writes to \<^verbatim>\<open>files\<close>, \<^verbatim>\<open>inodes\<close>, \<^verbatim>\<open>contents\<close> and \<^verbatim>\<open>semantic\<close>: the dual writes agree, updates
    are optimistic, late write-backs are dropped.
  \<^item> \<^verbatim>\<open>Sql_Like\<close>, \<^verbatim>\<open>Node_Store\<close>: names, directories and tags, and the transactions that unlink files.
    \<^verbatim>\<open>Node_Safety\<close>: over all reachable stores, a file with a clean-up task has no name and is marked as deleted.
    \<^verbatim>\<open>Node_Tree\<close>: renaming a directory and creating parents, and the cases where they go wrong.
  \<^item> \<^verbatim>\<open>Go_Text\<close>, \<^verbatim>\<open>Canonical_JSON\<close>: the string functions and the canonical JSON text that is hashed, which
    determines its value up to the order of keys. \<^verbatim>\<open>Journal_Doc\<close> has the requests, entries and hashes of
    \<^verbatim>\<open>pkg/journal\<close>, \<^verbatim>\<open>Journal_Store\<close> the tables and operations of \<^verbatim>\<open>pkg/datastore/journal.go\<close>. \<^verbatim>\<open>Journal_Chain\<close> and
    \<^verbatim>\<open>Journal_Append\<close> show that creating and appending keep every chain intact, \<^verbatim>\<open>Journal_Evidence\<close> that every journal
    verifies, that a retried append adds nothing, that verification visits every entry, that two journals with the same head hold the
    same evidence, and two journals the code mishandles.

  \<^bold>\<open>Backend.\<close>
  \<^item> \<^verbatim>\<open>Upload_Rows\<close> has the statements on the table of multipart uploads: at most one upload to a path is active,
    and one that expired still blocks its path.
  \<^item> \<^verbatim>\<open>Backend\<close> composes the tables of a tenant, the object store, the quota and the candidates into the file operations of
    \<^verbatim>\<open>pkg/backend/dat9.go\<close>: creating, reading, writing, copying, renaming and removing, with the placement of small contents in
    rows and large ones in objects, the quota checks and the tasks a write enqueues. \<^verbatim>\<open>Backend_Refine\<close> shows that they refine
    the inode model of the design documents, a map from paths to files and one from files to contents, over all sequences of
    operations with any failures, and the rename that makes a file unreadable. Each operation runs alone there; the races
    of concurrent requests are not part of that theorem.

  \<^bold>\<open>Control plane and workers.\<close>
  \<^item> \<^verbatim>\<open>Quota\<close> has the quota tables (\<^verbatim>\<open>pkg/meta/quota.go\<close>), reservations, the mutation log and its replay;
    \<^verbatim>\<open>Quota_Books\<close> shows that every applied mutation is counted once, that reserved bytes are those of the
    active reservations, and that the counters follow the sizes of files as long as mutations apply in order.
  \<^item> \<^verbatim>\<open>Object_GC\<close> has the candidate table and the collector; \<^verbatim>\<open>Object_Safety\<close> interleaves writers, forks and
    collectors, and shows that no object of a confirmed file is deleted.
  \<^item> \<^verbatim>\<open>File_GC_Worker\<close>: a clean-up task stays pending until its object is a candidate; the retry delay.
  \<^item> \<^verbatim>\<open>Fork\<close>: provisioning, backfill of the quota and clean-up of forks.

  \<^bold>\<open>Bounds.\<close> Loops over lists are structural; the page loops (\<^verbatim>\<open>all_pages\<close>) end because the cursor grows, and
  so does the one of \<^verbatim>\<open>verify_loop\<close>; the retry loop of \<^verbatim>\<open>fileGCRetryDelay\<close> runs at most once per attempt, with values below twice its maximum. No definition uses
  fuel. Sizes and times are unbounded integers: the sources bound them far below 64 bits.

  \<^bold>\<open>Not modelled.\<close> Network and disk I/O, retries and timers of HTTP calls, goroutines and locks (each modelled
  method runs under one lock or in one transaction), metrics and logging; request decoding in \<^verbatim>\<open>pkg/server\<close> and
  \<^verbatim>\<open>pkg/client\<close>; the handlers of multipart uploads in \<^verbatim>\<open>pkg/backend/upload.go\<close> (their statements on rows, reservations and objects
  are modelled), listing and search in the backend; the handlers of \<^verbatim>\<open>pkg/fuse/dat9fs.go\<close> except the patch branch of the flush; schema
  definitions; search in journals and its cursors; provisioning of databases; encryption in the vault; the language models behind embeddings.
\<close>

end
